(* ===== verification/Prelude.thy ===== *)
theory Prelude
  imports Main "HOL-Library.Word" "HOL-Library.List_Lexorder" "HOL-Library.Product_Lexorder"
    "HOL-Library.AList"
begin

text \<open>
  What every component shares: Python's values (bytes, unbounded integers, text, exceptions),
  a state-and-exception monad in which the stateful classes of the repository are written, the
  fixed-width big-endian integers of the \<^verbatim>\<open>struct\<close> module, and the lemmas on them.

  \<^item> A Python \<open>int\<close> is an \<^typ>\<open>int\<close>, a \<open>bytes\<close> object a list of 8-bit words, a \<open>str\<close> the list
    of its code points, a \<open>set\<close> a HOL set.
  \<^item> An exception is a value \<open>Exn class template arguments\<close>: the class that is raised, the
    message template of the source, and the values interpolated into it.
  \<^item> \<open>('s, 'a) py\<close> is a computation on a mutable object of type \<open>'s\<close>: it returns a value or
    raises, and in both cases leaves the object in some state, as a Python method does.
\<close>

named_theorems py_simps \<open>unfolding of the state-and-exception monad\<close>
named_theorems run_simps \<open>evaluation of the definitions on concrete input\<close>
named_theorems codec_simps \<open>lengths and round trips of the binary encodings\<close>

section \<open>Values\<close>

type_synonym byte = "8 word"
type_synonym bytes = "byte list"
type_synonym address = int
type_synonym pystr = "nat list"

definition lit :: "string \<Rightarrow> pystr" where
  "lit s = map of_char s"

lemma lit_inj [simp]: "lit s = lit t \<longleftrightarrow> s = t"
proof
  have "inj (of_char :: char \<Rightarrow> nat)" by (rule injI) simp
  moreover assume "lit s = lit t"
  ultimately show "s = t" by (auto simp: lit_def dest: map_injective)
qed simp

section \<open>Exceptions and results\<close>

datatype exn_class =
    PydumpError | ProtocolError | HeapFormatError | StructError | KeyError | IndexError
  | ValueError | TypeError | AttributeError | OverflowError | RecursionError | TimeoutError | FileExistsError
  | FileNotFoundError | PermissionError | OSError | TimeoutExpired
  | ArgumentTypeError | KeyboardInterrupt

datatype exn_arg = AInt int | AStr pystr | ABytes bytes

datatype exn = Exn (exn_class_of: exn_class) (exn_template: string) (exn_args: "exn_arg list")

type_synonym 'a res = "exn + 'a"
type_synonym ('s, 'a) py = "'s \<Rightarrow> (exn + 'a) \<times> 's"

definition mret :: "'a \<Rightarrow> ('s, 'a) py" where
  "mret x = (\<lambda>s. (Inr x, s))"

definition mraise :: "exn_class \<Rightarrow> string \<Rightarrow> exn_arg list \<Rightarrow> ('s, 'a) py" where
  "mraise c t as = (\<lambda>s. (Inl (Exn c t as), s))"

definition mbind :: "('s, 'a) py \<Rightarrow> ('a \<Rightarrow> ('s, 'b) py) \<Rightarrow> ('s, 'b) py" where
  "mbind m f = (\<lambda>s. case m s of (Inl e, s') \<Rightarrow> (Inl e, s') | (Inr x, s') \<Rightarrow> f x s')"

definition mseq :: "('s, unit) py \<Rightarrow> ('s, 'b) py \<Rightarrow> ('s, 'b) py" where
  "mseq m k = mbind m (\<lambda>_. k)"

definition mlift :: "'a res \<Rightarrow> ('s, 'a) py" where
  "mlift r = (\<lambda>s. (r, s))"

definition mget :: "('s \<Rightarrow> 'a) \<Rightarrow> ('s, 'a) py" where
  "mget f = (\<lambda>s. (Inr (f s), s))"

definition mmodify :: "('s \<Rightarrow> 's) \<Rightarrow> ('s, unit) py" where
  "mmodify f = (\<lambda>s. (Inr (), f s))"

definition rbind :: "'a res \<Rightarrow> ('a \<Rightarrow> 'b res) \<Rightarrow> 'b res" where
  "rbind r f = (case r of Inl e \<Rightarrow> Inl e | Inr x \<Rightarrow> f x)"

definition raise :: "exn_class \<Rightarrow> string \<Rightarrow> exn_arg list \<Rightarrow> 'a res" where
  "raise c t as = Inl (Exn c t as)"

text \<open>A \<open>for\<close> loop whose body only has effects, and a comprehension over \<open>range(n)\<close>.\<close>

primrec mfor :: "('a \<Rightarrow> ('s, unit) py) \<Rightarrow> 'a list \<Rightarrow> ('s, unit) py" where
  "mfor f [] = mret ()"
| "mfor f (x # xs) = mseq (f x) (mfor f xs)"

primrec mrepeat :: "nat \<Rightarrow> ('s, 'a) py \<Rightarrow> ('s, 'a list) py" where
  "mrepeat 0 m = mret []"
| "mrepeat (Suc n) m = mbind m (\<lambda>x. mbind (mrepeat n m) (\<lambda>xs. mret (x # xs)))"

text \<open>\<open>for _ in range(n)\<close> with a variable the body updates.\<close>

primrec mfold :: "nat \<Rightarrow> ('a \<Rightarrow> ('s, 'a) py) \<Rightarrow> 'a \<Rightarrow> ('s, 'a) py" where
  "mfold 0 f x = mret x"
| "mfold (Suc n) f x = mbind (f x) (mfold n f)"

primrec rmap :: "('a \<Rightarrow> 'b res) \<Rightarrow> 'a list \<Rightarrow> 'b list res" where
  "rmap f [] = Inr []"
| "rmap f (x # xs) = rbind (f x) (\<lambda>y. rbind (rmap f xs) (\<lambda>ys. Inr (y # ys)))"

primrec res_fold :: "('a \<Rightarrow> 'b \<Rightarrow> 'b res) \<Rightarrow> 'a list \<Rightarrow> 'b \<Rightarrow> 'b res" where
  "res_fold f [] x = Inr x"
| "res_fold f (a # as) x = rbind (f a x) (res_fold f as)"

text \<open>\<open>except\<close> with a list of classes.\<close>

definition catching :: "exn_class list \<Rightarrow> 'a res \<Rightarrow> (exn \<Rightarrow> 'a res) \<Rightarrow> 'a res" where
  "catching classes r handler =
     (case r of Inl e \<Rightarrow> if exn_class_of e \<in> set classes then handler e else Inl e | Inr x \<Rightarrow> Inr x)"

text \<open>\<open>OSError\<close> and its subclasses.\<close>

definition os_errors :: "exn_class list" where
  "os_errors = [OSError, FileNotFoundError, FileExistsError, PermissionError, TimeoutError]"

text \<open>
  A Python dictionary keeps its insertion order, and assigning to a present key keeps the key's
  place: it is an association list without duplicate keys, looked up with \<^const>\<open>map_of\<close> and
  assigned with \<open>AList.update\<close>.
\<close>

type_synonym ('k, 'v) pydict = "('k \<times> 'v) list"

definition dict_set :: "'k \<Rightarrow> 'v \<Rightarrow> ('k, 'v) pydict \<Rightarrow> ('k, 'v) pydict" where
  "dict_set k v d = AList.update k v d"

definition dict_of :: "('k \<times> 'v) list \<Rightarrow> ('k, 'v) pydict" where
  "dict_of kvs = foldl (\<lambda>d kv. dict_set (fst kv) (snd kv) d) [] kvs"

definition dict_ok :: "('k, 'v) pydict \<Rightarrow> bool" where
  "dict_ok d \<longleftrightarrow> distinct (map fst d)"

text \<open>A dictionary subscript raises \<open>KeyError\<close> for a missing key.\<close>

definition subscript :: "('k \<rightharpoonup> 'v) \<Rightarrow> 'k \<Rightarrow> 'v res" where
  "subscript m k = (case m k of None \<Rightarrow> raise KeyError ''missing key'' [] | Some v \<Rightarrow> Inr v)"

lemma mbind_simps [py_simps]:
  "mbind (mret x) f = f x"
  "mbind (mlift (Inr x)) f = f x"
  "mbind (mraise c t as) g = mraise c t as"
  "mseq (mret ()) k = k"
  "mbind (mbind m f) h = mbind m (\<lambda>x. mbind (f x) h)"
  by (auto simp: mbind_def mret_def mlift_def mraise_def mseq_def fun_eq_iff
      split: prod.splits sum.splits)

lemma mbind_run [py_simps]:
  "mbind m f s = (case m s of (Inl e, s') \<Rightarrow> (Inl e, s') | (Inr x, s') \<Rightarrow> f x s')"
  by (simp add: mbind_def)

lemma mseq_run [py_simps]:
  "mseq m k s = (case m s of (Inl e, s') \<Rightarrow> (Inl e, s') | (Inr x, s') \<Rightarrow> k s')"
  by (simp add: mseq_def mbind_def)

lemma atomic_run [py_simps]:
  "mret x s = (Inr x, s)" "mraise c t as s = (Inl (Exn c t as), s)" "mlift r s = (r, s)"
  "mget f s = (Inr (f s), s)" "mmodify g s = (Inr (), g s)"
  by (simp_all add: mret_def mraise_def mlift_def mget_def mmodify_def)

lemma mbind_Inr:
  "mbind m f s = (Inr y, s'') \<longleftrightarrow> (\<exists>x s'. m s = (Inr x, s') \<and> f x s' = (Inr y, s''))"
  by (auto simp: mbind_def split: prod.splits sum.splits)

lemma mseq_Inr:
  "mseq m f s = (Inr y, s'') \<longleftrightarrow> (\<exists>s'. m s = (Inr (), s') \<and> f s' = (Inr y, s''))"
  by (auto simp: mseq_def mbind_Inr)

lemma mfold_Inr:
  assumes "mfold n f x s = (Inr y, s')" and "P x s"
    and "\<And>x s y s'. P x s \<Longrightarrow> f x s = (Inr y, s') \<Longrightarrow> P y s'"
  shows "P y s'"
  using assms(1,2)
  by (induction n arbitrary: x s) (auto simp: mbind_Inr mret_def intro: assms(3))

lemma mbind_cong [fundef_cong]:
  "m s = m' s' \<Longrightarrow> s = s' \<Longrightarrow> (\<And>x t. m' s' = (Inr x, t) \<Longrightarrow> f x t = f' x t) \<Longrightarrow>
   mbind m f s = mbind m' f' s'"
  by (auto simp: mbind_def split: prod.splits sum.splits)

lemma rbind_simps [simp]:
  "rbind (Inr x) f = f x" "rbind (Inl e) f = Inl e" "rbind (raise c t as) f = Inl (Exn c t as)"
  by (simp_all add: rbind_def raise_def)

lemma rbind_Inr: "rbind r f = Inr y \<longleftrightarrow> (\<exists>x. r = Inr x \<and> f x = Inr y)"
  by (cases r) simp_all

lemma raise_neq_Inr [simp]: "raise c t as \<noteq> Inr x" "Inr x \<noteq> raise c t as"
  by (simp_all add: raise_def)

text \<open>The classes of the exceptions a result may carry.\<close>

definition only_raises :: "exn_class set \<Rightarrow> 'a res \<Rightarrow> bool" where
  "only_raises cs r \<longleftrightarrow> (\<forall>e. r = Inl e \<longrightarrow> exn_class_of e \<in> cs)"

lemma only_raises_simps [simp]:
  "only_raises cs (Inr x)" "only_raises cs (Inl e) \<longleftrightarrow> exn_class_of e \<in> cs"
  "only_raises cs (raise c t as) \<longleftrightarrow> c \<in> cs"
  by (simp_all add: only_raises_def raise_def)

lemma only_raises_rbind: "only_raises cs r \<Longrightarrow> (\<And>x. r = Inr x \<Longrightarrow> only_raises cs (f x)) \<Longrightarrow> only_raises cs (rbind r f)"
  by (cases r) auto

lemma only_raises_mono: "only_raises cs r \<Longrightarrow> cs \<subseteq> ds \<Longrightarrow> only_raises ds r"
  by (auto simp: only_raises_def)

lemma rmap_Inr: "rmap f xs = Inr ys \<longleftrightarrow> list_all2 (\<lambda>x y. f x = Inr y) xs ys"
  by (induction xs arbitrary: ys) (auto simp: rbind_Inr list_all2_Cons1)

lemma rmap_cong [fundef_cong]:
  "xs = ys \<Longrightarrow> (\<And>x. x \<in> set ys \<Longrightarrow> f x = g x) \<Longrightarrow> rmap f xs = rmap g ys"
  by (induction xs arbitrary: ys) auto

lemma subscript_Inr [simp]: "subscript m k = Inr v \<longleftrightarrow> m k = Some v"
  by (simp add: subscript_def raise_def split: option.splits)

lemma map_of_dict_set [simp]: "map_of (dict_set k v d) = (map_of d)(k \<mapsto> v)"
  by (simp add: dict_set_def update_conv')

lemma dict_ok_set [simp, intro]: "dict_ok d \<Longrightarrow> dict_ok (dict_set k v d)"
  by (simp add: dict_ok_def dict_set_def distinct_update)

lemma dict_ok_Nil [simp]: "dict_ok []"
  by (simp add: dict_ok_def)

lemma dict_set_new: "map_of d k = None \<Longrightarrow> dict_set k v d = d @ [(k, v)]"
  by (induction d) (auto simp: dict_set_def split: if_splits)

lemma keys_dict_set: "fst ` set (dict_set k v d) = insert k (fst ` set d)"
  by (induction d) (auto simp: dict_set_def)

lemma dict_of_snoc: "dict_of (kvs @ [kv]) = dict_set (fst kv) (snd kv) (dict_of kvs)"
  by (simp add: dict_of_def)

lemma dict_of_distinct: "distinct (map fst kvs) \<Longrightarrow> dict_of kvs = kvs"
proof (induction kvs rule: rev_induct)
  case (snoc kv kvs)
  then have "map_of kvs (fst kv) = None" by (simp add: map_of_eq_None_iff)
  with snoc show ?case by (simp add: dict_of_snoc dict_set_new)
qed (simp add: dict_of_def)

lemma dict_ok_dict_of [simp]: "dict_ok (dict_of kvs)"
  by (induction kvs rule: rev_induct) (simp_all add: dict_of_snoc, simp add: dict_of_def)

lemma map_of_dict_of: "map_of (dict_of kvs) = map_of (rev kvs)"
  by (induction kvs rule: rev_induct) (auto simp: dict_of_snoc, simp add: dict_of_def)

section \<open>Fixed-width big-endian integers\<close>

text \<open>
  \<open>be_enc n v\<close> is the \<open>n\<close>-byte big-endian form of \<open>v\<close> and \<open>be_dec\<close> reads such bytes; the
  \<open>pack\<close> functions add the range checks of \<^verbatim>\<open>struct.pack\<close>, which raises \<^verbatim>\<open>struct.error\<close>.
\<close>

primrec be_enc :: "nat \<Rightarrow> int \<Rightarrow> bytes" where
  "be_enc 0 v = []"
| "be_enc (Suc n) v = be_enc n (v div 256) @ [word_of_int v]"

definition be_dec :: "bytes \<Rightarrow> int" where
  "be_dec bs = foldl (\<lambda>acc b. acc * 256 + uint b) 0 bs"

definition be_dec_signed :: "bytes \<Rightarrow> int" where
  "be_dec_signed bs =
     (let u = be_dec bs; m = 256 ^ length bs in if u < m div 2 then u else u - m)"

definition pack_uint :: "nat \<Rightarrow> int \<Rightarrow> bytes res" where
  "pack_uint n v =
     (if 0 \<le> v \<and> v < 256 ^ n then Inr (be_enc n v)
      else raise StructError ''argument out of range'' [])"

definition pack_sint :: "nat \<Rightarrow> int \<Rightarrow> bytes res" where
  "pack_sint n v =
     (if - (256 ^ n div 2) \<le> v \<and> v < 256 ^ n div 2 then Inr (be_enc n (v mod 256 ^ n))
      else raise StructError ''argument out of range'' [])"

definition pack_bool :: "bool \<Rightarrow> bytes" where
  "pack_bool b = [if b then 1 else 0]"

lemma length_be_enc [simp, codec_simps]: "length (be_enc n v) = n"
  by (induction n arbitrary: v) simp_all

lemma be_dec_Nil [simp]: "be_dec [] = 0"
  by (simp add: be_dec_def)

lemma be_dec_snoc [simp]: "be_dec (bs @ [b]) = be_dec bs * 256 + uint b"
  by (simp add: be_dec_def)

lemma uint_byte_bounds: "0 \<le> uint (b :: byte) \<and> uint b < 256"
  using uint_range_size [of b] by (simp add: word_size)

lemma be_dec_bounds: "0 \<le> be_dec bs \<and> be_dec bs < 256 ^ length bs"
proof (induction bs rule: rev_induct)
  case Nil
  show ?case by simp
next
  case (snoc b bs)
  then show ?case using uint_byte_bounds [of b] by auto
qed

lemma be_dec_nonneg [simp]: "0 \<le> be_dec bs"
  using be_dec_bounds by blast

lemma be_dec_be_enc [simp, codec_simps]: "0 \<le> v \<Longrightarrow> v < 256 ^ n \<Longrightarrow> be_dec (be_enc n v) = v"
proof (induction n arbitrary: v)
  case 0
  then show ?case by simp
next
  case (Suc n)
  have "v div 256 < 256 ^ n" using Suc.prems by simp
  moreover have "uint (word_of_int v :: byte) = v mod 256"
    by (simp add: uint_word_of_int)
  ultimately show ?case using Suc by simp
qed

lemma be_enc_be_dec [codec_simps]: "n = length bs \<Longrightarrow> be_enc n (be_dec bs) = bs"
proof (induction bs arbitrary: n rule: rev_induct)
  case Nil
  then show ?case by simp
next
  case (snoc b bs)
  have "(be_dec bs * 256 + uint b) div 256 = be_dec bs"
    using uint_byte_bounds [of b] by simp
  moreover have "word_of_int (be_dec bs * 256 + uint b) = b"
  proof -
    have zero: "(256 :: byte) = 0" by simp
    show ?thesis by (simp add: zero flip: wi_hom_add wi_hom_mult)
  qed
  ultimately show ?case using snoc by simp
qed

lemma pack_uint_Inr [simp]:
  "pack_uint n v = Inr bs \<longleftrightarrow> 0 \<le> v \<and> v < 256 ^ n \<and> bs = be_enc n v"
  by (auto simp: pack_uint_def)

lemma be_dec_signed_be_enc [codec_simps]:
  assumes "- (256 ^ n div 2) \<le> v" and "v < 256 ^ n div 2" and "0 < n"
  shows "be_dec_signed (be_enc n (v mod 256 ^ n)) = v"
proof -
  let ?m = "(256 :: int) ^ n"
  have even: "?m = 2 * (?m div 2)" using assms(3) by simp
  have dec: "be_dec (be_enc n (v mod ?m)) = v mod ?m" by simp
  show ?thesis
  proof (cases "0 \<le> v")
    case True
    then have "v mod ?m = v" using assms(2) even by simp
    with True assms(2) dec show ?thesis by (simp add: be_dec_signed_def)
  next
    case False
    have "v mod ?m = (v + ?m) mod ?m" by simp
    also have "\<dots> = v + ?m" using False assms(1) even by (intro mod_pos_pos_trivial) simp_all
    finally show ?thesis using False assms(1) even dec by (simp add: be_dec_signed_def Let_def)
  qed
qed

text \<open>
  A format string of unsigned fields, \<open>!BBHI\<close> say, is the list of their widths: \<open>pack_fields\<close> is
  \<^verbatim>\<open>Struct.pack\<close> on (width, value) pairs, \<open>unpack_fields\<close> is \<^verbatim>\<open>Struct.unpack_from\<close>.
\<close>

primrec pack_fields :: "(nat \<times> int) list \<Rightarrow> bytes res" where
  "pack_fields [] = Inr []"
| "pack_fields (f # fs) =
     rbind (pack_uint (fst f) (snd f)) (\<lambda>b. rbind (pack_fields fs) (\<lambda>bs. Inr (b @ bs)))"

primrec unpack_fields :: "nat list \<Rightarrow> bytes \<Rightarrow> int list" where
  "unpack_fields [] bs = []"
| "unpack_fields (w # ws) bs = be_dec (take w bs) # unpack_fields ws (drop w bs)"

definition in_range :: "nat \<times> int \<Rightarrow> bool" where
  "in_range f \<longleftrightarrow> 0 \<le> snd f \<and> snd f < 256 ^ fst f"

lemma in_range_pair [simp]: "in_range (n, v) \<longleftrightarrow> 0 \<le> v \<and> v < 256 ^ n"
  by (simp add: in_range_def)

lemma pack_fields_Inr:
  "pack_fields fs = Inr bs \<longleftrightarrow>
     list_all in_range fs \<and> bs = concat (map (\<lambda>f. be_enc (fst f) (snd f)) fs)"
  by (induction fs arbitrary: bs) (auto simp: rbind_Inr in_range_def)

lemma pack_fields_total: "list_all in_range fs \<Longrightarrow> \<exists>bs. pack_fields fs = Inr bs"
  by (simp add: pack_fields_Inr)

lemma length_pack_fields [codec_simps]:
  "pack_fields fs = Inr bs \<Longrightarrow> length bs = sum_list (map fst fs)"
  by (auto simp: pack_fields_Inr length_concat comp_def)

lemma unpack_pack_fields [codec_simps]:
  "pack_fields fs = Inr bs \<Longrightarrow> unpack_fields (map fst fs) (bs @ rest) = map snd fs"
  by (induction fs arbitrary: bs) (auto simp: rbind_Inr)

lemma length_unpack_fields [simp]: "length (unpack_fields ws bs) = length ws"
  by (induction ws arbitrary: bs) simp_all

lemma unpack_fields_in_range:
  "length bs = sum_list ws \<Longrightarrow> list_all in_range (zip ws (unpack_fields ws bs))"
proof (induction ws arbitrary: bs)
  case Nil
  then show ?case by simp
next
  case (Cons w ws)
  then show ?case using be_dec_bounds [of "take w bs"] by simp
qed

lemma pack_unpack_fields:
  "length bs = sum_list ws \<Longrightarrow> pack_fields (zip ws (unpack_fields ws bs)) = Inr bs"
proof (induction ws arbitrary: bs)
  case Nil
  then show ?case by simp
next
  case (Cons w ws)
  then have "be_enc w (be_dec (take w bs)) = take w bs" by (simp add: codec_simps)
  with Cons show ?case using be_dec_bounds [of "take w bs"] by (simp add: pack_uint_def)
qed

declare be_enc.simps(2) [simp del]

lemma be_enc_numeral [run_simps]:
  "be_enc (numeral k) v = be_enc (pred_numeral k) (v div 256) @ [word_of_int v]"
  "be_enc (Suc n) v = be_enc n (v div 256) @ [word_of_int v]"
  by (simp_all add: numeral_eq_Suc be_enc.simps(2))

lemmas [run_simps] = pack_uint_def be_dec_def Let_def

section \<open>Lists and slices\<close>

text \<open>\<open>pyslice xs a b\<close> is Python's \<open>xs[a:b]\<close> for \<open>0 \<le> a\<close>: positions past the end are cut off.\<close>

definition pyslice :: "'a list \<Rightarrow> nat \<Rightarrow> nat \<Rightarrow> 'a list" where
  "pyslice xs a b = take (b - a) (drop a xs)"

lemma pyslice_append [simp, codec_simps]:
  "pyslice (pre @ bs @ post) (length pre) (length pre + length bs) = bs"
  by (simp add: pyslice_def)

lemmas [run_simps] = pyslice_def

lemma length_pyslice: "length (pyslice xs a b) = min (b - a) (length xs - a)"
  by (simp add: pyslice_def)

lemma pyslice_extend: "b \<le> length xs \<Longrightarrow> pyslice (xs @ ys) a b = pyslice xs a b"
  by (cases "a \<le> length xs") (auto simp: pyslice_def)

section \<open>The order of a set\<close>

text \<open>
  Python iterates over a set in an order that the program cannot rely on: a parameter of the
  operations that do so.
\<close>

type_synonym set_order = "address set \<Rightarrow> address list"

definition iterates :: "set_order \<Rightarrow> bool" where
  "iterates it \<longleftrightarrow> (\<forall>s. finite s \<longrightarrow> set (it s) = s \<and> distinct (it s))"

lemma iteratesD: "iterates it \<Longrightarrow> finite s \<Longrightarrow> set (it s) = s" "iterates it \<Longrightarrow> finite s \<Longrightarrow> distinct (it s)"
  by (simp_all add: iterates_def)

lemma iterates_sorted: "iterates sorted_list_of_set"
  by (simp add: iterates_def)

end
