(* ===== verification/Text.thy ===== *)
theory Text
  imports Prelude
begin

text \<open>
  The text codec every component goes through:
  \<^verbatim>\<open>str.encode("utf-8", "backslashreplace")\<close> and
  \<^verbatim>\<open>bytes.decode("utf-8", "backslashreplace")\<close> of the Python standard library, as
  \<^verbatim>\<open>protocol.py\<close>, \<^verbatim>\<open>heap_writer.py\<close>, \<^verbatim>\<open>reader.py\<close> and \<^verbatim>\<open>model.py\<close> call them.

  A lone surrogate cannot be encoded and becomes the six ASCII characters \<open>\udXXX\<close>; a byte that
  starts no well-formed sequence is decoded as the four characters \<open>\xNN\<close>. CPython replaces a
  whole maximal ill-formed subpart at once, byte by byte; its bytes after the first are
  continuation bytes, which on their own start no sequence, so that replacing one byte at a
  time, as here, gives the same text.
\<close>

section \<open>Encoding\<close>

definition is_surrogate :: "nat \<Rightarrow> bool" where
  "is_surrogate c \<longleftrightarrow> 0xD800 \<le> c \<and> c \<le> 0xDFFF"

definition hex_digit :: "nat \<Rightarrow> nat" where
  "hex_digit d = (if d < 10 then 48 + d else 87 + d)"

text \<open>\<open>f"{value:x}"\<close> and \<open>f"{index}"\<close>.\<close>

fun hex_digits :: "nat \<Rightarrow> pystr" where
  "hex_digits n = (if n < 16 then [hex_digit n] else hex_digits (n div 16) @ [hex_digit (n mod 16)])"

definition hex_text :: "int \<Rightarrow> pystr" where
  "hex_text v = (if v < 0 then lit ''-'' @ hex_digits (nat (- v)) else hex_digits (nat v))"

fun decimal_digits :: "nat \<Rightarrow> pystr" where
  "decimal_digits n = (if n < 10 then [48 + n] else decimal_digits (n div 10) @ [48 + n mod 10])"

declare hex_digits.simps [simp del] decimal_digits.simps [simp del]

text \<open>\<open>nonce.hex()\<close>\<close>

definition nonce_hex :: "bytes \<Rightarrow> pystr" where
  "nonce_hex nonce = concat (map (\<lambda>b. [hex_digit (unat b div 16), hex_digit (unat b mod 16)]) nonce)"

text \<open>A code point as UTF-8 units, \<open>\udXXX\<close> for a surrogate.\<close>

definition utf8_units :: "nat \<Rightarrow> nat list" where
  "utf8_units c =
     (if c < 0x80 then [c]
      else if c < 0x800 then [0xC0 + c div 64, 0x80 + c mod 64]
      else if is_surrogate c then
        [92, 117, hex_digit (c div 4096 mod 16), hex_digit (c div 256 mod 16),
         hex_digit (c div 16 mod 16), hex_digit (c mod 16)]
      else if c < 0x10000 then
        [0xE0 + c div 4096, 0x80 + c div 64 mod 64, 0x80 + c mod 64]
      else
        [0xF0 + c div 262144, 0x80 + c div 4096 mod 64, 0x80 + c div 64 mod 64,
         0x80 + c mod 64])"

definition encode_string :: "pystr \<Rightarrow> bytes" where
  "encode_string s = map word_of_nat (concat (map utf8_units s))"

section \<open>Decoding\<close>

definition is_cont :: "nat \<Rightarrow> bool" where
  "is_cont b \<longleftrightarrow> 0x80 \<le> b \<and> b < 0xC0"

text \<open>
  The well-formed sequence a list of bytes starts with, if any: its code point and its length.
  The second byte of \<open>E0\<close>, \<open>ED\<close>, \<open>F0\<close> and \<open>F4\<close> sequences is restricted, which excludes overlong
  forms, surrogates and code points above \<open>10FFFF\<close>.
\<close>

fun utf8_step :: "nat list \<Rightarrow> (nat \<times> nat) option" where
  "utf8_step [] = None"
| "utf8_step (a # bs) =
     (if a < 0x80 then Some (a, 1)
      else if a < 0xC2 then None
      else if a < 0xE0 then
        (case bs of
          b # _ \<Rightarrow> if is_cont b then Some ((a - 0xC0) * 64 + (b - 0x80), 2) else None
        | _ \<Rightarrow> None)
      else if a < 0xF0 then
        (case bs of
          b # c # _ \<Rightarrow>
            if is_cont b \<and> is_cont c \<and> (a = 0xE0 \<longrightarrow> 0xA0 \<le> b) \<and> (a = 0xED \<longrightarrow> b < 0xA0)
            then Some ((a - 0xE0) * 4096 + (b - 0x80) * 64 + (c - 0x80), 3) else None
        | _ \<Rightarrow> None)
      else if a < 0xF5 then
        (case bs of
          b # c # d # _ \<Rightarrow>
            if is_cont b \<and> is_cont c \<and> is_cont d \<and> (a = 0xF0 \<longrightarrow> 0x90 \<le> b) \<and>
               (a = 0xF4 \<longrightarrow> b < 0x90)
            then Some ((a - 0xF0) * 262144 + (b - 0x80) * 4096 + (c - 0x80) * 64 + (d - 0x80), 4)
            else None
        | _ \<Rightarrow> None)
      else None)"

lemma utf8_step_pos: "utf8_step bs = Some (c, n) \<Longrightarrow> 1 \<le> n \<and> n \<le> length bs"
  by (cases bs) (auto split: if_splits list.splits)

definition backslash_x :: "nat \<Rightarrow> nat list" where
  "backslash_x b = [92, 120, hex_digit (b div 16), hex_digit (b mod 16)]"

function utf8_decode :: "nat list \<Rightarrow> nat list" where
  "utf8_decode [] = []"
| "utf8_decode (b # bs) =
     (case utf8_step (b # bs) of
        Some (c, n) \<Rightarrow> c # utf8_decode (drop n (b # bs))
      | None \<Rightarrow> backslash_x b @ utf8_decode bs)"
  by pat_completeness auto
termination
  by (relation "measure length") (auto dest!: utf8_step_pos simp del: utf8_step.simps)

declare utf8_decode.simps(2) [simp del]

definition decode_text :: "bytes \<Rightarrow> pystr" where
  "decode_text payload = utf8_decode (map unat payload)"

section \<open>Round trip\<close>

text \<open>A text that UTF-8 can represent: code points of Unicode that are not surrogates.\<close>

definition encodable :: "pystr \<Rightarrow> bool" where
  "encodable s \<longleftrightarrow> (\<forall>c \<in> set s. c < 0x110000 \<and> \<not> is_surrogate c)"

lemma hex_digit_less: "d < 16 \<Longrightarrow> hex_digit d < 256"
  by (simp add: hex_digit_def)

lemma utf8_units_byte:
  assumes "c < 0x110000"
  shows "\<forall>u \<in> set (utf8_units c). u < 256"
proof -
  have bounds: "c div 262144 < 16" "c < 0x10000 \<Longrightarrow> c div 4096 < 32" "c < 0x800 \<Longrightarrow> c div 64 < 64"
    using assms by (simp_all add: less_mult_imp_div_less)
  have low: "128 + x mod 64 < 256" for x :: nat
    using mod_less_divisor [of 64 x] by linarith
  have "hex_digit (x mod 16) < 256" for x
    by (simp add: hex_digit_less)
  with bounds low show ?thesis by (simp add: utf8_units_def)
qed

lemma utf8_units_not_Nil [simp]: "utf8_units c \<noteq> []"
  by (simp add: utf8_units_def)

lemma utf8_step_2:
  "2 \<le> a \<Longrightarrow> a < 32 \<Longrightarrow> b < 64 \<Longrightarrow>
   utf8_step ((0xC0 + a) # (0x80 + b) # rest) = Some (a * 64 + b, 2)"
  by (simp add: is_cont_def)

lemma utf8_step_3:
  "a < 16 \<Longrightarrow> b < 64 \<Longrightarrow> d < 64 \<Longrightarrow> (a = 0 \<longrightarrow> 32 \<le> b) \<Longrightarrow> (a = 13 \<longrightarrow> b < 32) \<Longrightarrow>
   utf8_step ((0xE0 + a) # (0x80 + b) # (0x80 + d) # rest) = Some (a * 4096 + b * 64 + d, 3)"
  by (simp add: is_cont_def)

lemma utf8_step_4:
  "a < 5 \<Longrightarrow> b < 64 \<Longrightarrow> d < 64 \<Longrightarrow> e < 64 \<Longrightarrow> (a = 0 \<longrightarrow> 16 \<le> b) \<Longrightarrow> (a = 4 \<longrightarrow> b < 16) \<Longrightarrow>
   utf8_step ((0xF0 + a) # (0x80 + b) # (0x80 + d) # (0x80 + e) # rest) =
     Some (a * 262144 + b * 4096 + d * 64 + e, 4)"
  by (simp add: is_cont_def)

lemma sextets:
  fixes c :: nat
  obtains q d where "c = q * 64 + d" "d < 64" "c div 64 = q" "c mod 64 = d"
  using that [of "c div 64" "c mod 64"] by simp

lemma utf8_step_units:
  assumes "c < 0x110000" and "\<not> is_surrogate c"
  shows "utf8_step (utf8_units c @ rest) = Some (c, length (utf8_units c))"
proof -
  obtain q d where c: "c = q * 64 + d" "d < 64" "c div 64 = q" "c mod 64 = d"
    by (rule sextets [of c])
  obtain r b where q: "q = r * 64 + b" "b < 64" "q div 64 = r" "q mod 64 = b"
    by (rule sextets [of q])
  obtain t a where r: "r = t * 64 + a" "a < 64" "r div 64 = t" "r mod 64 = a"
    by (rule sextets [of r])
  have divs: "c div 64 = q" "c mod 64 = d" "c div 4096 = r" "c div 262144 = t" "q mod 64 = b" "r mod 64 = a"
    using c(3,4) q(3,4) r(3,4) div_mult2_eq [of c 64 64] div_mult2_eq [of c 64 4096] div_mult2_eq [of q 64 64]
    by simp_all
  have sum2: "c = r * 4096 + b * 64 + d" using c(1) q(1) by simp
  have sum3: "c = t * 262144 + a * 4096 + b * 64 + d" using sum2 r(1) by simp
  have sur: "\<not> (0xD800 \<le> c \<and> c \<le> 0xDFFF)" using assms(2) by (simp add: is_surrogate_def)
  consider "c < 0x80" | "0x80 \<le> c" "c < 0x800" | "0x800 \<le> c" "c < 0x10000" | "0x10000 \<le> c"
    by linarith
  then show ?thesis
  proof cases
    case 1
    then show ?thesis by (simp add: utf8_units_def)
  next
    case 2
    have "2 \<le> q" "q < 32" using 2 c(1,2) by linarith+
    then have "utf8_step ((0xC0 + q) # (0x80 + d) # rest) = Some (c, 2)"
      using utf8_step_2 [of q d rest] c(1,2) by (simp only:)
    with 2 show ?thesis by (simp add: utf8_units_def divs del: utf8_step.simps)
  next
    case 3
    have "r < 16" "r = 0 \<longrightarrow> 32 \<le> b" using 3 sum2 q(2) c(2) by linarith+
    moreover have "r = 13 \<longrightarrow> b < 32" using sur sum2 q(2) c(2) by linarith
    ultimately have "utf8_step ((0xE0 + r) # (0x80 + b) # (0x80 + d) # rest) = Some (c, 3)"
      using utf8_step_3 [of r b d rest] q(2) c(2) unfolding sum2 by blast
    with 3 assms(2) show ?thesis by (simp add: utf8_units_def divs del: utf8_step.simps)
  next
    case 4
    have "t < 5" "t = 0 \<longrightarrow> 16 \<le> a" "t = 4 \<longrightarrow> a < 16"
      using 4 assms(1) sum3 q(2) c(2) r(2) by linarith+
    then have "utf8_step ((0xF0 + t) # (0x80 + a) # (0x80 + b) # (0x80 + d) # rest) = Some (c, 4)"
      using utf8_step_4 [of t a b d rest] q(2) c(2) r(2) unfolding sum3 by blast
    with 4 assms(2) show ?thesis by (simp add: utf8_units_def divs del: utf8_step.simps)
  qed
qed

lemma utf8_decode_step:
  "utf8_step bs = Some (c, n) \<Longrightarrow> utf8_decode bs = c # utf8_decode (drop n bs)"
  by (cases bs) (auto simp: utf8_decode.simps(2) simp del: utf8_step.simps(2))

lemma utf8_decode_units:
  "encodable s \<Longrightarrow> utf8_decode (concat (map utf8_units s)) = s"
proof (induction s)
  case Nil
  then show ?case by simp
next
  case (Cons c s)
  then have "c < 0x110000" "\<not> is_surrogate c" "encodable s" by (auto simp: encodable_def)
  then show ?case using Cons.IH by (simp add: utf8_decode_step [OF utf8_step_units])
qed

lemma map_unat_encode_string:
  assumes "\<forall>c \<in> set s. c < 0x110000"
  shows "map unat (encode_string s) = concat (map utf8_units s)"
proof -
  have "unat (word_of_nat u :: byte) = u" if "u \<in> set (concat (map utf8_units s))" for u
    using that assms utf8_units_byte by (auto simp: unat_of_nat)
  then have "map (unat \<circ> (word_of_nat :: nat \<Rightarrow> byte)) (concat (map utf8_units s)) =
      concat (map utf8_units s)"
    by (intro map_idI) simp
  then show ?thesis by (simp add: encode_string_def)
qed

lemma decode_encode_string [codec_simps]: "encodable s \<Longrightarrow> decode_text (encode_string s) = s"
  by (simp add: decode_text_def map_unat_encode_string utf8_decode_units encodable_def)

lemma encode_string_append [simp]: "encode_string (s @ t) = encode_string s @ encode_string t"
  by (simp add: encode_string_def)

lemma encode_string_Nil [simp]: "encode_string [] = []"
  by (simp add: encode_string_def)

text \<open>Decoding never fails, and what it returns can be encoded again.\<close>

lemma utf8_step_encodable:
  assumes "utf8_step (a # rest) = Some (c, n)"
  shows "c < 0x110000 \<and> \<not> is_surrogate c"
proof -
  consider "a < 0xE0" | "0xE0 \<le> a" "a < 0xF0" | "0xF0 \<le> a" by linarith
  then show ?thesis
  proof cases
    case 1
    with assms have "c < 0xD800"
      by (auto simp: is_cont_def split: if_splits list.splits)
    then show ?thesis by (simp add: is_surrogate_def)
  next
    case 2
    with assms obtain b d where bd: "128 \<le> b" "b < 192" "128 \<le> d" "d < 192"
      and ed: "a = 0xED \<longrightarrow> b < 0xA0"
      and c: "c = (a - 0xE0) * 4096 + (b - 0x80) * 64 + (d - 0x80)"
      by (auto simp: is_cont_def split: if_splits list.splits)
    obtain a' b' d' where "a = 0xE0 + a'" "b = 0x80 + b'" "d = 0x80 + d'"
      using 2 bd by (metis le_Suc_ex)
    with 2 bd ed c have "a' < 16" "b' < 64" "d' < 64" "a' = 13 \<longrightarrow> b' < 32"
      and c': "c = a' * 4096 + b' * 64 + d'" by auto
    moreover have "a' < 13 \<or> a' = 13 \<or> 13 < a'" by linarith
    ultimately have "c < 0xD800 \<or> 0xDFFF < c \<and> c < 0x110000" by (elim disjE) simp_all
    then show ?thesis by (auto simp: is_surrogate_def)
  next
    case 3
    with assms obtain b d e where bde: "128 \<le> b" "b < 192" "128 \<le> d" "d < 192" "128 \<le> e" "e < 192"
      and a: "a < 0xF5" "a = 0xF0 \<longrightarrow> 0x90 \<le> b" "a = 0xF4 \<longrightarrow> b < 0x90"
      and c: "c = (a - 0xF0) * 262144 + (b - 0x80) * 4096 + (d - 0x80) * 64 + (e - 0x80)"
      by (auto simp: is_cont_def split: if_splits list.splits)
    obtain a' b' d' e' where "a = 0xF0 + a'" "b = 0x80 + b'" "d = 0x80 + d'" "e = 0x80 + e'"
      using 3 bde by (metis le_Suc_ex)
    with 3 bde a c have "a' < 5" "b' < 64" "d' < 64" "e' < 64" "a' = 0 \<longrightarrow> 16 \<le> b'" "a' = 4 \<longrightarrow> b' < 16"
      and c': "c = a' * 262144 + b' * 4096 + d' * 64 + e'" by auto
    then show ?thesis unfolding is_surrogate_def by (intro conjI; linarith)
  qed
qed

lemma utf8_decode_encodable: "\<forall>b \<in> set bs. b < 256 \<Longrightarrow> encodable (utf8_decode bs)"
proof (induction bs rule: utf8_decode.induct)
  case 1
  then show ?case by (simp add: encodable_def)
next
  case (2 b bs)
  show ?case
  proof (cases "utf8_step (b # bs)")
    case None
    have "encodable (backslash_x b)" using "2.prems"
      by (auto simp: encodable_def backslash_x_def hex_digit_def is_surrogate_def)
    moreover have "encodable (utf8_decode bs)" by (rule "2.IH"(1) [OF None]) (use "2.prems" in simp)
    ultimately show ?thesis
      using None by (auto simp: utf8_decode.simps(2) encodable_def simp del: utf8_step.simps)
  next
    case (Some p)
    then obtain c n where step: "utf8_step (b # bs) = Some (c, n)" by (cases p) auto
    moreover have "encodable (utf8_decode (drop n (b # bs)))"
      using "2.IH"(2) [OF step refl] "2.prems" by (meson in_set_dropD)
    ultimately show ?thesis
      using utf8_step_encodable [OF step] by (simp add: utf8_decode_step encodable_def)
  qed
qed

lemma decode_text_encodable: "encodable (decode_text bs)"
proof -
  have "unat b < 256" for b :: byte using unsigned_less [of b] by simp
  then show ?thesis by (simp add: decode_text_def utf8_decode_encodable)
qed

lemmas [run_simps] =
  decode_text_def encode_string_def lit_def utf8_units_def utf8_decode.simps(2) is_surrogate_def
  is_cont_def hex_digit_def backslash_x_def

end
