(* ===== verification/Protocol.thy ===== *)
theory Protocol
  imports Text
begin

text \<open>
  \<^verbatim>\<open>capture/collector/src/pydump/protocol.py\<close>: the length-delimited session protocol between
  the Collector and the Agent. The socket is modelled as the bytes this side has sent, the peer
  process as a function from those bytes to the bytes it has produced, and the kernel's short
  reads as a bound on what each \<open>recv\<close> call returns. Sending does not fail: a broken pipe or a
  reset of the connection is not modelled, and a peer that is gone shows when this side reads. The peer
  writes finitely much in answer to what it has been sent, as much as it likes. \<open>framed_socket\<close> is the state of one
  \<^verbatim>\<open>FramedSocket\<close> object; \<open>send\<close> and \<open>receive\<close> are its methods. The payload codecs follow,
  each with its round trip, and the locale \<open>payload_codec\<close> composes them with the socket.
\<close>

section \<open>Constants and data\<close>

definition PROTOCOL_MAGIC :: bytes where
  "PROTOCOL_MAGIC = [0x50, 0x59, 0x44, 0x50]"

definition VERSION :: int where "VERSION = 2"
definition NONCE_SIZE :: nat where "NONCE_SIZE = 16"
definition MAX_PAYLOAD :: nat where "MAX_PAYLOAD = 1048576"
definition ADDRESS_SIZE :: nat where "ADDRESS_SIZE = 8"

datatype frame_kind =
    HELLO | HELLO_ACK | WELL_KNOWN | ROOT_BATCH | ROOTS_DONE | REQUEST_OBJECTS | OBJECT_BEGIN
  | REFERENTS | SEQUENCE_CONTENT | DICT_CONTENT | ATTRIBUTES | PREVIEW | OBJECT_END | BATCH_DONE
  | FINISH | COMPLETE | ERROR | WARNING | CANCEL | BULK_BATCH

fun kind_code :: "frame_kind \<Rightarrow> int" where
  "kind_code HELLO = 1" | "kind_code HELLO_ACK = 2" | "kind_code WELL_KNOWN = 3"
| "kind_code ROOT_BATCH = 4" | "kind_code ROOTS_DONE = 5" | "kind_code REQUEST_OBJECTS = 6"
| "kind_code OBJECT_BEGIN = 7" | "kind_code REFERENTS = 8" | "kind_code SEQUENCE_CONTENT = 9"
| "kind_code DICT_CONTENT = 10" | "kind_code ATTRIBUTES = 11" | "kind_code PREVIEW = 12"
| "kind_code OBJECT_END = 13" | "kind_code BATCH_DONE = 14" | "kind_code FINISH = 15"
| "kind_code COMPLETE = 16" | "kind_code ERROR = 17" | "kind_code WARNING = 18"
| "kind_code CANCEL = 19" | "kind_code BULK_BATCH = 20"

definition all_kinds :: "frame_kind list" where
  "all_kinds =
    [HELLO, HELLO_ACK, WELL_KNOWN, ROOT_BATCH, ROOTS_DONE, REQUEST_OBJECTS, OBJECT_BEGIN,
     REFERENTS, SEQUENCE_CONTENT, DICT_CONTENT, ATTRIBUTES, PREVIEW, OBJECT_END, BATCH_DONE,
     FINISH, COMPLETE, ERROR, WARNING, CANCEL, BULK_BATCH]"

text \<open>The enumeration's constructor \<^verbatim>\<open>FrameKind(raw)\<close>; no member raises \<open>ValueError\<close>.\<close>

definition frame_kind_of :: "int \<Rightarrow> frame_kind option" where
  "frame_kind_of raw = find (\<lambda>k. kind_code k = raw) all_kinds"

definition bulk_record_kinds :: "frame_kind set" where
  "bulk_record_kinds =
    {ROOT_BATCH, OBJECT_BEGIN, REFERENTS, SEQUENCE_CONTENT, DICT_CONTENT, ATTRIBUTES, PREVIEW,
     OBJECT_END, WARNING}"

record frame =
  fkind :: frame_kind
  fpayload :: bytes

definition Frame :: "frame_kind \<Rightarrow> bytes \<Rightarrow> frame" where
  "Frame k p = \<lparr>fkind = k, fpayload = p\<rparr>"

record hello =
  python_major :: int
  python_minor :: int
  pointer_size :: int
  little_endian :: bool
  hello_nonce :: bytes

record object_begin =
  ob_address :: address
  ob_type_address :: address
  ob_shallow_size :: int
  ob_content_kind :: int
  ob_type_name :: pystr

record socket_stats =
  sent_bytes :: int
  received_bytes :: int
  sent_frames :: int
  received_frames :: int
  received_records :: int

definition socket_stats0 :: socket_stats where
  "socket_stats0 = \<lparr>sent_bytes = 0, received_bytes = 0, sent_frames = 0, received_frames = 0,
     received_records = 0\<rparr>"

section \<open>The socket\<close>

text \<open>
  \<open>sk_peer sent\<close> is what the other process has written once it has read \<open>sent\<close>, and whether it
  has closed its end. \<open>recv\<close> returns at least one byte when there is one, at most the number
  asked for, at most \<open>Suc (sk_short i)\<close> at the \<open>i\<close>-th call; nothing at the end of the stream;
  and with nothing to read on an open connection it runs into the connection's timeout.
\<close>

record sock =
  sk_sent :: bytes
  sk_peer :: "bytes \<Rightarrow> bytes \<times> bool"
  sk_taken :: nat
  sk_reads :: nat
  sk_short :: "nat \<Rightarrow> nat"

definition avail :: "sock \<Rightarrow> bytes" where
  "avail s = drop (sk_taken s) (fst (sk_peer s (sk_sent s)))"

definition peer_closed :: "sock \<Rightarrow> bool" where
  "peer_closed s = snd (sk_peer s (sk_sent s))"

definition recv_into :: "nat \<Rightarrow> (sock, bytes) py" where
  "recv_into n = (\<lambda>s.
     let got = take (min n (Suc (sk_short s (sk_reads s)))) (avail s) in
     if got = [] \<and> \<not> peer_closed s then (Inl (Exn TimeoutError ''timed out'' []), s)
     else (Inr got, s\<lparr>sk_taken := sk_taken s + length got, sk_reads := Suc (sk_reads s)\<rparr>))"

definition sendall :: "bytes \<Rightarrow> (sock, unit) py" where
  "sendall wire = mmodify (\<lambda>s. s\<lparr>sk_sent := sk_sent s @ wire\<rparr>)"

record framed_socket =
  fs_sock :: sock
  fs_pending :: "frame list"
  fs_stats :: socket_stats

definition framed_socket_init :: "sock \<Rightarrow> framed_socket" where
  "framed_socket_init sk = \<lparr>fs_sock = sk, fs_pending = [], fs_stats = socket_stats0\<rparr>"

text \<open>A call on the underlying socket object.\<close>

definition on_sock :: "(sock, 'a) py \<Rightarrow> (framed_socket, 'a) py" where
  "on_sock m = (\<lambda>s. case m (fs_sock s) of (r, k) \<Rightarrow> (r, s\<lparr>fs_sock := k\<rparr>))"

section \<open>Bulk batches\<close>

primrec encode_records :: "bytes \<Rightarrow> frame list \<Rightarrow> bytes res" where
  "encode_records payload [] = Inr payload"
| "encode_records payload (r # rs) =
     (if fkind r \<notin> bulk_record_kinds then
        raise ProtocolError ''{record.kind.name} is not a bulk record'' [AInt (kind_code (fkind r))]
      else
        rbind (pack_fields [(1, kind_code (fkind r)), (4, int (length (fpayload r)))])
          (\<lambda>header. encode_records (payload @ header @ fpayload r) rs))"

definition encode_bulk_batch :: "frame list \<Rightarrow> bytes res" where
  "encode_bulk_batch records =
     rbind (encode_records [] records) (\<lambda>payload.
       if MAX_PAYLOAD < length payload then
         raise ProtocolError ''BULK_BATCH payload exceeds {MAX_PAYLOAD} bytes'' [AInt (int MAX_PAYLOAD)]
       else Inr payload)"

function decode_records :: "bytes \<Rightarrow> nat \<Rightarrow> frame list \<Rightarrow> frame list res" where
  "decode_records payload offset records =
     (if \<not> offset < length payload then Inr records
      else if length payload - offset < 5 then
        raise ProtocolError ''BULK_BATCH ends in a partial record header'' []
      else
        let header = unpack_fields [1, 4] (drop offset payload);
            raw_kind = header ! 0; record_size = nat (header ! 1);
            start = offset + 5; end = start + record_size in
        if length payload < end then
          raise ProtocolError ''BULK_BATCH ends in a partial record payload'' []
        else
          (case frame_kind_of raw_kind of
             None \<Rightarrow>
               raise ProtocolError ''BULK_BATCH contains unknown record kind {raw_kind}'' [AInt raw_kind]
           | Some kind \<Rightarrow>
               if kind \<notin> bulk_record_kinds then
                 raise ProtocolError ''BULK_BATCH contains invalid record {kind.name}''
                   [AInt (kind_code kind)]
               else decode_records payload end (records @ [Frame kind (pyslice payload start end)])))"
  by pat_completeness auto
termination
  by (relation "measure (\<lambda>(payload, offset, records). length payload - offset)") auto

declare decode_records.simps [simp del]

definition decode_bulk_batch :: "bytes \<Rightarrow> frame list res" where
  "decode_bulk_batch payload = decode_records payload 0 []"

section \<open>The framed socket\<close>

definition send :: "frame_kind \<Rightarrow> bytes \<Rightarrow> (framed_socket, unit) py" where
  "send kind payload =
     (if MAX_PAYLOAD < length payload then
        mraise ProtocolError ''{kind.name} payload exceeds {MAX_PAYLOAD} bytes''
          [AInt (kind_code kind), AInt (int MAX_PAYLOAD)]
      else
        mbind (mlift (pack_fields
          [(1, VERSION), (1, kind_code kind), (2, 0), (4, int (length payload))])) (\<lambda>header.
        let wire = PROTOCOL_MAGIC @ header @ payload in
        mseq (on_sock (sendall wire))
          (mmodify (\<lambda>s. s\<lparr>fs_stats := (fs_stats s)\<lparr>
             sent_bytes := sent_bytes (fs_stats s) + int (length wire),
             sent_frames := sent_frames (fs_stats s) + 1\<rparr>\<rparr>))))"

function receive_loop :: "nat \<Rightarrow> bytes \<Rightarrow> (sock, bytes) py" where
  "receive_loop want chunks s =
     (if length chunks < want then
        (case recv_into (want - length chunks) s of
           (Inl e, s') \<Rightarrow> (Inl e, s')
         | (Inr [], s') \<Rightarrow>
             mraise ProtocolError ''agent disconnected with {size - received} bytes pending''
               [AInt (int (want - length chunks))] s'
         | (Inr (b # bs), s') \<Rightarrow> receive_loop want (chunks @ b # bs) s')
      else (Inr chunks, s))"
  by pat_completeness auto
termination
  by (relation "measure (\<lambda>(want, chunks, s). want - length chunks)") auto

declare receive_loop.simps [simp del]

definition receive_exact :: "nat \<Rightarrow> (framed_socket, bytes) py" where
  "receive_exact want = on_sock (receive_loop want [])"

definition receive_wire_frame :: "(framed_socket, frame) py" where
  "receive_wire_frame =
     mbind (receive_exact 12) (\<lambda>header.
     let magic = take 4 header; fields = unpack_fields [1, 1, 2, 4] (drop 4 header);
         version = fields ! 0; raw_kind = fields ! 1; flags = fields ! 2;
         payload_size = fields ! 3 in
     if magic \<noteq> PROTOCOL_MAGIC then
       mraise ProtocolError ''invalid protocol magic {magic!r}'' [ABytes magic]
     else if version \<noteq> VERSION then
       mraise ProtocolError ''unsupported protocol version {version}'' [AInt version]
     else if flags \<noteq> 0 then
       mraise ProtocolError ''unsupported frame flags {flags}'' [AInt flags]
     else if int MAX_PAYLOAD < payload_size then
       mraise ProtocolError ''frame payload {payload_size} exceeds {MAX_PAYLOAD} bytes''
         [AInt payload_size, AInt (int MAX_PAYLOAD)]
     else
       (case frame_kind_of raw_kind of
          None \<Rightarrow> mraise ProtocolError ''unknown frame kind {raw_kind}'' [AInt raw_kind]
        | Some kind \<Rightarrow>
            mbind (receive_exact (nat payload_size)) (\<lambda>payload.
            mseq (mmodify (\<lambda>s. s\<lparr>fs_stats := (fs_stats s)\<lparr>
                received_bytes := received_bytes (fs_stats s) + 12 + payload_size,
                received_frames := received_frames (fs_stats s) + 1\<rparr>\<rparr>))
              (mret (Frame kind payload)))))"

definition receive :: "(framed_socket, frame) py" where
  "receive = (\<lambda>s.
     case fs_pending s of
       f # fs \<Rightarrow> (Inr f, s\<lparr>fs_pending := fs\<rparr>)
     | [] \<Rightarrow>
         mbind receive_wire_frame (\<lambda>frame.
         if fkind frame \<noteq> BULK_BATCH then mret frame
         else
           mbind (mlift (decode_bulk_batch (fpayload frame))) (\<lambda>records.
           case records of
             [] \<Rightarrow> mraise ProtocolError ''BULK_BATCH must contain at least one record'' []
           | first # rest \<Rightarrow>
               mseq (mmodify (\<lambda>s. s\<lparr>
                   fs_stats := (fs_stats s)\<lparr>
                     received_records := received_records (fs_stats s) + int (length records)\<rparr>,
                   fs_pending := rest\<rparr>))
                 (mret first))) s)"

section \<open>Payload codecs\<close>

definition encode_hello :: "hello \<Rightarrow> bytes res" where
  "encode_hello h =
     (if length (hello_nonce h) \<noteq> NONCE_SIZE then
        raise ProtocolError ''session nonce must contain {NONCE_SIZE} bytes'' [AInt (int NONCE_SIZE)]
      else
        rbind (pack_fields [(1, python_major h), (1, python_minor h), (1, pointer_size h),
                 (1, if little_endian h then 1 else 0)])
          (\<lambda>fields. Inr (fields @ hello_nonce h)))"

definition decode_hello :: "bytes \<Rightarrow> hello res" where
  "decode_hello payload =
     (if length payload \<noteq> 20 then
        raise ProtocolError ''HELLO has invalid length {len(payload)}'' [AInt (int (length payload))]
      else
        let fields = unpack_fields [1, 1, 1, 1] payload; nonce = drop 4 payload in
        if fields ! 3 \<notin> {0, 1} then
          raise ProtocolError ''HELLO has invalid byte order marker {little_endian}'' [AInt (fields ! 3)]
        else
          Inr \<lparr>python_major = fields ! 0, python_minor = fields ! 1, pointer_size = fields ! 2,
               little_endian = (fields ! 3 = 1), hello_nonce = nonce\<rparr>)"

definition encode_options :: "int \<times> bool \<Rightarrow> bytes res" where
  "encode_options opts =
     rbind (pack_sint 4 (fst opts)) (\<lambda>n. Inr (n @ pack_bool (snd opts)))"

definition decode_options :: "bytes \<Rightarrow> (int \<times> bool) res" where
  "decode_options payload =
     (if length payload \<noteq> 5 then
        raise ProtocolError ''HELLO_ACK has invalid length {len(payload)}'' [AInt (int (length payload))]
      else
        let str_repr_len = be_dec_signed (take 4 payload); marker = be_dec (drop 4 payload) in
        if marker \<notin> {0, 1} then raise ProtocolError ''HELLO_ACK has invalid attribute marker'' []
        else Inr (str_repr_len, marker = 1))"

definition encode_addresses :: "address list \<Rightarrow> bytes res" where
  "encode_addresses addresses = pack_fields (map (\<lambda>a. (ADDRESS_SIZE, a)) addresses)"

definition decode_addresses :: "bytes \<Rightarrow> address list res" where
  "decode_addresses payload =
     (if length payload mod ADDRESS_SIZE \<noteq> 0 then
        raise ProtocolError ''address batch has invalid length {len(payload)}''
          [AInt (int (length payload))]
      else Inr (unpack_fields (replicate (length payload div ADDRESS_SIZE) ADDRESS_SIZE) payload))"

text \<open>\<^verbatim>\<open>zip(addresses[::2], addresses[1::2], strict=True)\<close> on a list of even length.\<close>

fun pair_up :: "'a list \<Rightarrow> ('a \<times> 'a) list" where
  "pair_up (k # v # rest) = (k, v) # pair_up rest"
| "pair_up _ = []"

definition decode_dict_entries :: "bytes \<Rightarrow> (address \<times> address) list res" where
  "decode_dict_entries payload =
     rbind (decode_addresses payload) (\<lambda>addresses.
       if length addresses mod 2 \<noteq> 0 then
         raise ProtocolError ''dictionary batch has an odd address count'' []
       else Inr (pair_up addresses))"

definition decode_object_begin :: "bytes \<Rightarrow> object_begin res" where
  "decode_object_begin payload =
     (if length payload < 23 then
        raise ProtocolError ''OBJECT_BEGIN has invalid length {len(payload)}''
          [AInt (int (length payload))]
      else
        let fields = unpack_fields [8, 8, 4, 1, 2] payload;
            type_name_bytes = drop 23 payload in
        if int (length type_name_bytes) \<noteq> fields ! 4 then
          raise ProtocolError ''OBJECT_BEGIN type name length does not match payload'' []
        else
          Inr \<lparr>ob_address = fields ! 0, ob_type_address = fields ! 1, ob_shallow_size = fields ! 2,
               ob_content_kind = fields ! 3, ob_type_name = decode_text type_name_bytes\<rparr>)"

definition encode_object_begin :: "object_begin \<Rightarrow> bytes res" where
  "encode_object_begin b =
     (let encoded = encode_string (ob_type_name b);
          name = (if 0xFFFF < length encoded then take 0xFFFF encoded else encoded) in
      rbind (pack_fields [(8, ob_address b), (8, ob_type_address b), (4, ob_shallow_size b),
               (1, ob_content_kind b), (2, int (length name))])
        (\<lambda>fields. Inr (fields @ name)))"

section \<open>Frame kinds\<close>

lemma frame_kind_of_code [simp]: "frame_kind_of (kind_code k) = Some k"
  by (cases k) (simp_all add: frame_kind_of_def all_kinds_def)

lemma frame_kind_of_Some: "frame_kind_of raw = Some k \<longleftrightarrow> raw = kind_code k"
proof
  assume "frame_kind_of raw = Some k"
  then show "raw = kind_code k" by (auto simp: frame_kind_of_def find_Some_iff)
qed simp

lemma kind_code_range: "1 \<le> kind_code k \<and> kind_code k \<le> 20"
  by (cases k) simp_all

lemma Frame_simps [simp]: "fkind (Frame k p) = k" "fpayload (Frame k p) = p"
  by (simp_all add: Frame_def)

lemma Frame_collapse [simp]: "Frame (fkind f) (fpayload f) = f"
  by (simp add: Frame_def)

section \<open>Bulk batches: the wire form and its parser\<close>

definition record_wire :: "frame \<Rightarrow> bytes" where
  "record_wire f = be_enc 1 (kind_code (fkind f)) @ be_enc 4 (int (length (fpayload f))) @ fpayload f"

definition records_wire :: "frame list \<Rightarrow> bytes" where
  "records_wire fs = concat (map record_wire fs)"

definition bulk_record :: "frame \<Rightarrow> bool" where
  "bulk_record f \<longleftrightarrow> fkind f \<in> bulk_record_kinds \<and> length (fpayload f) < 2 ^ 32"

lemma length_record_wire: "length (record_wire f) = 5 + length (fpayload f)"
  by (simp add: record_wire_def)

lemma records_wire_simps [simp]:
  "records_wire [] = []" "records_wire (f # fs) = record_wire f @ records_wire fs"
  by (simp_all add: records_wire_def)

lemma length_records_wire: "5 * length fs \<le> length (records_wire fs)"
  by (induction fs) (simp_all add: length_record_wire)

lemma length_records_wire_payload:
  "f \<in> set fs \<Longrightarrow> length (fpayload f) \<le> length (records_wire fs)"
  by (induction fs) (auto simp: length_record_wire)

lemma encode_records_Inr:
  "encode_records acc rs = Inr p \<longleftrightarrow> list_all bulk_record rs \<and> p = acc @ records_wire rs"
proof (induction rs arbitrary: acc)
  case Nil
  then show ?case by auto
next
  case (Cons r rs)
  have "(of_nat (length (fpayload r)) < (4294967296 :: int)) = (length (fpayload r) < 4294967296)"
    by linarith
  then show ?case
    using kind_code_range [of "fkind r"] Cons
    by (auto simp: rbind_Inr pack_fields_Inr bulk_record_def record_wire_def)
qed

lemma decode_records_step:
  assumes "bulk_record f"
  shows "decode_records (pre @ record_wire f @ rest) (length pre) acc =
         decode_records (pre @ record_wire f @ rest) (length pre + length (record_wire f)) (acc @ [f])"
proof -
  let ?p = "pre @ record_wire f @ rest" and ?n = "length (fpayload f)"
  have kind: "fkind f \<in> bulk_record_kinds" and small: "int ?n < 256 ^ 4"
    using assms by (auto simp: bulk_record_def)
  have fields: "unpack_fields [1, 4] (drop (length pre) ?p) = [kind_code (fkind f), int ?n]"
    using small kind_code_range [of "fkind f"] by (simp add: record_wire_def)
  have body: "pyslice ?p (length pre + 5) (length pre + 5 + ?n) = fpayload f"
    by (simp add: pyslice_def record_wire_def)
  show ?thesis
    by (subst decode_records.simps)
      (simp only: fields, use body in \<open>simp add: Let_def kind length_record_wire add.assoc\<close>)
qed

lemma decode_records_wire:
  "list_all bulk_record rs \<Longrightarrow>
   decode_records (pre @ records_wire rs) (length pre) acc = Inr (acc @ rs)"
proof (induction rs arbitrary: pre acc)
  case Nil
  then show ?case by (simp add: decode_records.simps)
next
  case (Cons r rs)
  then show ?case
    using Cons.IH [of "pre @ record_wire r" "acc @ [r]"]
    by (simp add: decode_records_step)
qed

text \<open>What a successful parse has found at an offset: a whole record, then the rest.\<close>

lemma decode_records_split:
  assumes ok: "decode_records payload offset acc = Inr rs" and more: "offset < length payload"
  obtains f where "bulk_record f" and "drop offset payload = record_wire f @ drop (offset + length (record_wire f)) payload"
    and "offset + length (record_wire f) \<le> length payload"
    and "decode_records payload (offset + length (record_wire f)) (acc @ [f]) = Inr rs"
proof -
  define rest where "rest = drop offset payload"
  define n where "n = nat (be_dec (take 4 (drop 1 rest)))"
  from ok more obtain k where len: "5 \<le> length rest" "offset + 5 + n \<le> length payload"
    and raw: "frame_kind_of (be_dec (take 1 rest)) = Some k" and k: "k \<in> bulk_record_kinds"
    and next_step: "decode_records payload (offset + 5 + n)
      (acc @ [Frame k (pyslice payload (offset + 5) (offset + 5 + n))]) = Inr rs"
    by (subst (asm) decode_records.simps)
      (auto simp: Let_def n_def rest_def split: if_splits option.splits)
  let ?f = "Frame k (pyslice payload (offset + 5) (offset + 5 + n))"
  have n: "int n = be_dec (take 4 (drop 1 rest))" by (simp add: n_def)
  have body: "fpayload ?f = take n (drop 5 rest)" "length (fpayload ?f) = n"
    using len by (simp_all add: pyslice_def rest_def add.commute)
  have "bulk_record ?f"
    using k body(2) be_dec_bounds [of "take 4 (drop 1 rest)"] n len(1) by (simp add: bulk_record_def)
  moreover have wire: "record_wire ?f = take 1 rest @ take 4 (drop 1 rest) @ take n (drop 5 rest)"
    using raw n len(1) body be_enc_be_dec [of 1 "take 1 rest"] be_enc_be_dec [of 4 "take 4 (drop 1 rest)"]
    by (simp add: record_wire_def frame_kind_of_Some)
  moreover have "length (record_wire ?f) = 5 + n" using body by (simp add: length_record_wire)
  moreover have "rest = record_wire ?f @ drop (offset + (5 + n)) payload"
  proof -
    have "take 4 (drop 1 rest) @ drop 5 rest = drop 1 rest"
      using append_take_drop_id [of 4 "drop 1 rest"] by simp
    moreover have "take n (drop 5 rest) @ drop n (drop 5 rest) = drop 5 rest"
      by (rule append_take_drop_id)
    moreover have "drop n (drop 5 rest) = drop (offset + (5 + n)) payload"
      by (simp add: rest_def ac_simps)
    ultimately show ?thesis by (metis wire append.assoc append_take_drop_id)
  qed
  ultimately show ?thesis
    using that [of ?f] next_step len by (simp add: rest_def add.assoc)
qed

lemma decode_records_Inr:
  assumes "decode_records payload offset acc = Inr rs" and "offset \<le> length payload"
  shows "\<exists>new. rs = acc @ new \<and> list_all bulk_record new \<and> drop offset payload = records_wire new"
  using assms
proof (induction "length payload - offset" arbitrary: offset acc rule: less_induct)
  case less
  show ?case
  proof (cases "offset < length payload")
    case False
    with less.prems show ?thesis
      by (intro exI [of _ "[]"]) (simp add: decode_records.simps)
  next
    case True
    then obtain f where f: "bulk_record f"
      "drop offset payload = record_wire f @ drop (offset + length (record_wire f)) payload"
      "offset + length (record_wire f) \<le> length payload"
      "decode_records payload (offset + length (record_wire f)) (acc @ [f]) = Inr rs"
      using decode_records_split [OF less.prems(1)] by blast
    have "length payload - (offset + length (record_wire f)) < length payload - offset"
      using True by (simp add: length_record_wire)
    from less.hyps [OF this f(4,3)] obtain new where "rs = acc @ f # new" "list_all bulk_record new"
      "drop (offset + length (record_wire f)) payload = records_wire new" by auto
    with f show ?thesis by (intro exI [of _ "f # new"]) simp
  qed
qed

lemma decode_bulk_batch_Inr:
  "decode_bulk_batch p = Inr rs \<longleftrightarrow> list_all bulk_record rs \<and> p = records_wire rs"
  using decode_records_Inr [of p 0 "[]" rs] decode_records_wire [of rs "[]" "[]"]
  by (auto simp: decode_bulk_batch_def)

lemma encode_bulk_batch_Inr:
  "encode_bulk_batch rs = Inr p \<longleftrightarrow>
     list_all bulk_record rs \<and> p = records_wire rs \<and> length p \<le> MAX_PAYLOAD"
  by (auto simp: encode_bulk_batch_def rbind_Inr encode_records_Inr)

section \<open>Reading from the socket\<close>

text \<open>The socket after \<open>n\<close> bytes have been taken in some number of \<open>recv\<close> calls.\<close>

definition advance :: "nat \<Rightarrow> nat \<Rightarrow> sock \<Rightarrow> sock" where
  "advance n r s = s\<lparr>sk_taken := sk_taken s + n, sk_reads := r\<rparr>"

definition disconnected :: "sock \<Rightarrow> nat \<Rightarrow> exn" where
  "disconnected s n =
     (if peer_closed s then
        Exn ProtocolError ''agent disconnected with {size - received} bytes pending'' [AInt (int n)]
      else Exn TimeoutError ''timed out'' [])"

lemma advance_simps [simp]:
  "avail (advance n r s) = drop n (avail s)"
  "peer_closed (advance n r s) = peer_closed s"
  "sk_sent (advance n r s) = sk_sent s"
  "sk_peer (advance n r s) = sk_peer s"
  "advance n r (advance m q s) = advance (m + n) r s"
  by (simp_all add: advance_def avail_def peer_closed_def add.commute add.left_commute)

lemma advance_0: "advance 0 (sk_reads s) s = s"
  by (simp add: advance_def)

lemma disconnected_advance [simp]: "disconnected (advance n r s) k = disconnected s k"
  by (simp add: disconnected_def)

lemma recv_into_some:
  assumes "avail s \<noteq> []" and "0 < n"
  obtains c cs r where "recv_into n s = (Inr (c # cs), advance (length (c # cs)) r s)"
    and "c # cs = take (length (c # cs)) (avail s)" and "length (c # cs) \<le> n"
    and "length (c # cs) \<le> length (avail s)"
proof -
  let ?got = "take (min n (Suc (sk_short s (sk_reads s)))) (avail s)"
  obtain c cs where got: "?got = c # cs" using assms by (cases "avail s"; cases n) auto
  have "recv_into n s = (Inr (c # cs), advance (length (c # cs)) (Suc (sk_reads s)) s)"
    by (simp only: recv_into_def got Let_def list.distinct simp_thms if_False advance_def)
  moreover have "c # cs = take (length (c # cs)) (avail s)"
    unfolding got [symmetric] by (simp add: min_def)
  moreover have "length ?got \<le> n \<and> length ?got \<le> length (avail s)" by simp
  ultimately show thesis using that [of c cs "Suc (sk_reads s)"] unfolding got by blast
qed

lemma recv_into_none:
  "avail s = [] \<Longrightarrow>
   recv_into n s = (if peer_closed s then (Inr [], advance 0 (Suc (sk_reads s)) s)
                    else (Inl (Exn TimeoutError ''timed out'' []), advance 0 (sk_reads s) s))"
  by (simp add: recv_into_def advance_def)

text \<open>However short the reads, \<open>_receive_exact\<close> returns the next bytes of the stream, or fails at its end.\<close>

lemma receive_loop_ok:
  assumes "length chunks + m = want" and "m \<le> length (avail s)"
  shows "\<exists>r. receive_loop want chunks s = (Inr (chunks @ take m (avail s)), advance m r s)"
  using assms
proof (induction m arbitrary: chunks s rule: less_induct)
  case (less m)
  show ?case
  proof (cases "m = 0")
    case True
    with less.prems show ?thesis
      by (intro exI [of _ "sk_reads s"]) (simp add: receive_loop.simps advance_0)
  next
    case False
    with less.prems have "avail s \<noteq> []" "0 < m" by auto
    then obtain c cs r where got: "recv_into m s = (Inr (c # cs), advance (length (c # cs)) r s)"
      "c # cs = take (length (c # cs)) (avail s)" "length (c # cs) \<le> m" by (rule recv_into_some)
    let ?g = "length (c # cs)"
    obtain r' where "receive_loop want (chunks @ c # cs) (advance ?g r s) =
        (Inr ((chunks @ c # cs) @ take (m - ?g) (avail (advance ?g r s))), advance (m - ?g) r' (advance ?g r s))"
      using less.IH [of "m - ?g" "chunks @ c # cs" "advance ?g r s"] less.prems got(3) False
        diff_le_mono [OF less.prems(2), of ?g] by auto
    moreover have "(c # cs) @ take (m - ?g) (drop ?g (avail s)) = take m (avail s)"
      using take_add [of ?g "m - ?g" "avail s"] got(3)
      by (simp only: le_add_diff_inverse got(2) [symmetric])
    moreover have "receive_loop want chunks s = receive_loop want (chunks @ c # cs) (advance ?g r s)"
      using less.prems(1) False got(1)
      by (subst receive_loop.simps) (auto simp: less.prems(1) [symmetric])
    ultimately show ?thesis using got(3) by (intro exI [of _ r']) simp
  qed
qed

lemma receive_loop_eof:
  assumes "length chunks + m = want" and "length (avail s) < m"
  shows "\<exists>r. receive_loop want chunks s =
    (Inl (disconnected s (m - length (avail s))), advance (length (avail s)) r s)"
  using assms
proof (induction m arbitrary: chunks s rule: less_induct)
  case (less m)
  show ?case
  proof (cases "avail s = []")
    case True
    with less.prems show ?thesis
      by (auto simp: receive_loop.simps [of "length chunks + m" chunks s] recv_into_none mraise_def
          disconnected_def less.prems(1) [symmetric])
  next
    case False
    then have pos: "Suc (length (avail s) - Suc 0) = length (avail s)" by simp
    from less.prems have "0 < m" by auto
    with False obtain c cs r where got: "recv_into m s = (Inr (c # cs), advance (length (c # cs)) r s)"
      "length (c # cs) \<le> m" "length (c # cs) \<le> length (avail s)" by (rule recv_into_some)
    let ?g = "length (c # cs)"
    obtain r' where "receive_loop want (chunks @ c # cs) (advance ?g r s) =
        (Inl (disconnected s (m - length (avail s))), advance (length (avail s)) r' s)"
      using less.IH [of "m - ?g" "chunks @ c # cs" "advance ?g r s"] less.prems got(2,3)
        diff_less_mono [OF less.prems(2), of ?g] pos by auto
    moreover have "receive_loop want chunks s = receive_loop want (chunks @ c # cs) (advance ?g r s)"
      using less.prems(1) \<open>0 < m\<close> got(1)
      by (subst receive_loop.simps) (auto simp: less.prems(1) [symmetric])
    ultimately show ?thesis by auto
  qed
qed

lemma receive_exact_spec:
  "\<exists>r. receive_exact n s =
     (if n \<le> length (avail (fs_sock s))
      then (Inr (take n (avail (fs_sock s))), s\<lparr>fs_sock := advance n r (fs_sock s)\<rparr>)
      else (Inl (disconnected (fs_sock s) (n - length (avail (fs_sock s)))),
            s\<lparr>fs_sock := advance (length (avail (fs_sock s))) r (fs_sock s)\<rparr>))"
proof (cases "n \<le> length (avail (fs_sock s))")
  case True
  then obtain r where "receive_loop n [] (fs_sock s) =
      (Inr (take n (avail (fs_sock s))), advance n r (fs_sock s))"
    using receive_loop_ok [of "[]" n n "fs_sock s"] by auto
  with True show ?thesis by (auto simp: receive_exact_def on_sock_def)
next
  case False
  then obtain r where "receive_loop n [] (fs_sock s) =
      (Inl (disconnected (fs_sock s) (n - length (avail (fs_sock s)))),
       advance (length (avail (fs_sock s))) r (fs_sock s))"
    using receive_loop_eof [of "[]" n n "fs_sock s"] by auto
  with False show ?thesis by (auto simp: receive_exact_def on_sock_def)
qed

lemma receive_exact_Inr:
  assumes "receive_exact n s = (Inr bs, s')"
  shows "n \<le> length (avail (fs_sock s)) \<and> bs = take n (avail (fs_sock s)) \<and>
         (\<exists>r. s' = s\<lparr>fs_sock := advance n r (fs_sock s)\<rparr>)"
  using receive_exact_spec [of n s] assms by (auto split: if_splits)

section \<open>Wire frames\<close>

definition wire_bytes :: "frame_kind \<Rightarrow> bytes \<Rightarrow> bytes" where
  "wire_bytes k p = PROTOCOL_MAGIC @ be_enc 1 VERSION @ be_enc 1 (kind_code k) @ be_enc 2 0 @
     be_enc 4 (int (length p)) @ p"

lemma length_wire_bytes [simp]: "length (wire_bytes k p) = 12 + length p"
  by (simp add: wire_bytes_def PROTOCOL_MAGIC_def)

lemma send_run:
  "length p \<le> MAX_PAYLOAD \<Longrightarrow>
   send k p s = (Inr (), s\<lparr>fs_sock := (fs_sock s)\<lparr>sk_sent := sk_sent (fs_sock s) @ wire_bytes k p\<rparr>,
     fs_stats := (fs_stats s)\<lparr>sent_bytes := sent_bytes (fs_stats s) + 12 + int (length p),
       sent_frames := sent_frames (fs_stats s) + 1\<rparr>\<rparr>)"
  using kind_code_range [of k]
  by (simp add: send_def MAX_PAYLOAD_def VERSION_def pack_uint_def py_simps on_sock_def sendall_def
      wire_bytes_def PROTOCOL_MAGIC_def algebra_simps)

lemma send_too_long:
  "MAX_PAYLOAD < length p \<Longrightarrow>
   send k p s = (Inl (Exn ProtocolError ''{kind.name} payload exceeds {MAX_PAYLOAD} bytes''
     [AInt (kind_code k), AInt (int MAX_PAYLOAD)]), s)"
  by (simp add: send_def py_simps)

lemma wire_header_fields:
  assumes "length p \<le> MAX_PAYLOAD"
  shows "unpack_fields [1, 1, 2, 4] (drop 4 (take 12 (wire_bytes k p @ rest))) =
         [VERSION, kind_code k, 0, int (length p)]"
  using assms kind_code_range [of k]
  by (simp add: wire_bytes_def PROTOCOL_MAGIC_def VERSION_def MAX_PAYLOAD_def)

lemma wire_header_magic: "take 4 (take 12 (wire_bytes k p @ rest)) = PROTOCOL_MAGIC"
  by (simp add: wire_bytes_def PROTOCOL_MAGIC_def)

definition count_received :: "nat \<Rightarrow> framed_socket \<Rightarrow> framed_socket" where
  "count_received n s = s\<lparr>fs_stats := (fs_stats s)\<lparr>
     received_bytes := received_bytes (fs_stats s) + 12 + int n,
     received_frames := received_frames (fs_stats s) + 1\<rparr>\<rparr>"

lemma receive_wire_frame_wire:
  assumes "avail (fs_sock s) = wire_bytes k p @ rest" and "length p \<le> MAX_PAYLOAD"
  shows "\<exists>r. receive_wire_frame s =
     (Inr (Frame k p), count_received (length p) (s\<lparr>fs_sock := advance (12 + length p) r (fs_sock s)\<rparr>))"
proof -
  from receive_exact_spec [of 12 s] assms(1) obtain r1 where
    header: "receive_exact 12 s = (Inr (take 12 (wire_bytes k p @ rest)), s\<lparr>fs_sock := advance 12 r1 (fs_sock s)\<rparr>)"
    by auto
  have body: "drop 12 (wire_bytes k p @ rest) = p @ rest"
    by (simp add: wire_bytes_def PROTOCOL_MAGIC_def)
  from receive_exact_spec [of "length p" "s\<lparr>fs_sock := advance 12 r1 (fs_sock s)\<rparr>"] assms(1) obtain r2 where
    payload: "receive_exact (length p) (s\<lparr>fs_sock := advance 12 r1 (fs_sock s)\<rparr>) =
      (Inr p, s\<lparr>fs_sock := advance (12 + length p) r2 (fs_sock s)\<rparr>)"
    by (auto simp: body simp del: drop_append)
  show ?thesis
    by (intro exI [of _ r2], simp only: receive_wire_frame_def mbind_run header prod.case sum.case
        Let_def wire_header_fields [OF assms(2)] wire_header_magic)
      (use assms(2) payload in \<open>simp add: py_simps count_received_def\<close>)
qed

text \<open>Twelve header bytes that pass every check are the header \<open>send\<close> writes for that frame.\<close>

lemma wire_bytes_header:
  assumes vs_def: "vs = unpack_fields [1, 1, 2, 4] (drop 4 (take 12 bs))"
    and magic: "take 4 (take 12 bs) = PROTOCOL_MAGIC" and fields: "vs ! 0 = VERSION" "vs ! 2 = 0"
    and k: "frame_kind_of (vs ! 1) = Some k" and n: "n = nat (vs ! 3)" and fits: "12 + n \<le> length bs"
  shows "bs = wire_bytes k (take n (drop 12 bs)) @ drop (12 + n) bs \<and> int n = vs ! 3"
proof -
  have vs: "vs = [vs ! 0, vs ! 1, vs ! 2, vs ! 3]" unfolding vs_def by simp
  have len8: "length (drop 4 (take 12 bs)) = 8" using fits by simp
  then have "list_all in_range (zip [1, 1, 2, 4] vs)"
    unfolding vs_def by (intro unpack_fields_in_range) simp
  then have size: "int n = vs ! 3" using n by (subst (asm) vs) simp
  have len: "length (take n (drop 12 bs)) = n" using fits by simp
  have "pack_fields (zip [1, 1, 2, 4] vs) = Inr (drop 4 (take 12 bs))"
    unfolding vs_def using len8 by (intro pack_unpack_fields) simp
  then have "drop 4 (take 12 bs) =
      be_enc 1 VERSION @ be_enc 1 (kind_code k) @ be_enc 2 0 @ be_enc 4 (int n)"
    using size fields k by (subst (asm) vs) (auto simp: pack_fields_Inr rbind_Inr frame_kind_of_Some)
  then have "take 12 bs =
      PROTOCOL_MAGIC @ be_enc 1 VERSION @ be_enc 1 (kind_code k) @ be_enc 2 0 @ be_enc 4 (int n)"
    by (metis append_take_drop_id magic)
  then have "take 12 bs @ take n (drop 12 bs) = wire_bytes k (take n (drop 12 bs))"
    using len by (simp add: wire_bytes_def)
  moreover have "bs = take 12 bs @ take n (drop 12 bs) @ drop (12 + n) bs"
    by (metis add.commute append_take_drop_id drop_drop)
  ultimately show ?thesis using size by (metis append.assoc)
qed

text \<open>A frame that is received was on the wire in exactly the form \<open>send\<close> gives it.\<close>

lemma receive_wire_frame_Inr:
  assumes "receive_wire_frame s = (Inr f, s')"
  shows "length (fpayload f) \<le> MAX_PAYLOAD \<and>
    (\<exists>rest r. avail (fs_sock s) = wire_bytes (fkind f) (fpayload f) @ rest \<and>
      s' = count_received (length (fpayload f))
        (s\<lparr>fs_sock := advance (12 + length (fpayload f)) r (fs_sock s)\<rparr>))"
proof -
  let ?bs = "avail (fs_sock s)"
  from assms obtain header s1 where "receive_exact 12 s = (Inr header, s1)"
    by (auto simp: receive_wire_frame_def mbind_Inr)
  then obtain r1 where h: "12 \<le> length ?bs" "header = take 12 ?bs"
    "receive_exact 12 s = (Inr (take 12 ?bs), s\<lparr>fs_sock := advance 12 r1 (fs_sock s)\<rparr>)"
    using receive_exact_Inr by metis
  define vs where "vs = unpack_fields [1, 1, 2, 4] (drop 4 (take 12 ?bs))"
  from assms h(3) obtain k p s2 where magic: "take 4 (take 12 ?bs) = PROTOCOL_MAGIC"
    and fields: "vs ! 0 = VERSION" "vs ! 2 = 0" "vs ! 3 \<le> int MAX_PAYLOAD" "frame_kind_of (vs ! 1) = Some k"
    and p: "receive_exact (nat (vs ! 3)) (s\<lparr>fs_sock := advance 12 r1 (fs_sock s)\<rparr>) = (Inr p, s2)"
    and f: "f = Frame k p" and s': "s' = s2\<lparr>fs_stats := (fs_stats s2)\<lparr>
       received_bytes := received_bytes (fs_stats s2) + 12 + vs ! 3,
       received_frames := received_frames (fs_stats s2) + 1\<rparr>\<rparr>"
    unfolding receive_wire_frame_def mbind_run [of "receive_exact 12"] h(3) prod.case sum.case Let_def
      vs_def [symmetric]
    by (auto simp: mbind_Inr mseq_Inr atomic_run split: if_splits option.splits)
  let ?n = "nat (vs ! 3)"
  from receive_exact_Inr [OF p] obtain r2 where
    body: "?n \<le> length (drop 12 ?bs)" "p = take ?n (drop 12 ?bs)"
    "s2 = s\<lparr>fs_sock := advance (12 + ?n) r2 (fs_sock s)\<rparr>"
    by auto
  with h(1) have "12 + ?n \<le> length ?bs" by simp
  from wire_bytes_header [OF vs_def magic fields(1,2,4) refl this]
  have "?bs = wire_bytes k p @ drop (12 + ?n) ?bs" "int ?n = vs ! 3" using body(2) by auto
  moreover have "length p = ?n" using body(1,2) by simp
  ultimately show ?thesis
    using f s' body(3) fields(3) by (auto simp: count_received_def intro!: exI [of _ r2])
qed

end
