(* ===== verification/Channel.thy ===== *)
theory Channel
  imports Protocol
begin

text \<open>
  What a \<^verbatim>\<open>FramedSocket\<close> promises its client. \<open>logical_queue\<close> is the sequence of logical
  frames that the bytes still to be read stand for, bulk batches expanded into their records;
  the locale \<open>frame_source\<close> says that \<open>receive\<close> pops that queue and fails exactly when it is
  empty, and is interpreted on the framed socket. The locale \<open>payload_codec\<close> says that an
  encoder and a decoder agree, and is interpreted on the codecs of \<^verbatim>\<open>protocol.py\<close>.
\<close>

section \<open>Interfaces\<close>

locale frame_source =
  fixes rcv :: "('s, 'f) py" and queue :: "'s \<Rightarrow> 'f list"
  assumes rcv_some: "queue s = f # fs \<Longrightarrow> \<exists>s'. rcv s = (Inr f, s') \<and> queue s' = fs"
    and rcv_none: "queue s = [] \<Longrightarrow> \<exists>e s'. rcv s = (Inl e, s')"
begin

lemma rcv_Inr: "rcv s = (Inr f, s') \<Longrightarrow> queue s = f # queue s'"
  by (cases "queue s") (use rcv_none rcv_some in fastforce)+

lemma rcv_Inl: "rcv s = (Inl e, s') \<Longrightarrow> queue s = []"
  by (cases "queue s") (use rcv_some in fastforce)+

lemma rcv_shrinks: "rcv s = (Inr f, s') \<Longrightarrow> length (queue s') < length (queue s)"
  by (drule rcv_Inr) simp

lemma rcv_many:
  "n \<le> length (queue s) \<Longrightarrow>
   \<exists>s'. mrepeat n rcv s = (Inr (take n (queue s)), s') \<and> queue s' = drop n (queue s)"
proof (induction n arbitrary: s)
  case 0
  then show ?case by (simp add: py_simps)
next
  case (Suc n)
  then obtain f fs where q: "queue s = f # fs" by (cases "queue s") auto
  with rcv_some obtain s1 where "rcv s = (Inr f, s1)" "queue s1 = fs" by blast
  moreover from this Suc q obtain s2 where "mrepeat n rcv s1 = (Inr (take n fs), s2)" "queue s2 = drop n fs"
    by fastforce
  ultimately show ?case using q by (simp add: py_simps)
qed

lemma rcv_too_many:
  "length (queue s) < n \<Longrightarrow> \<exists>e s'. mrepeat n rcv s = (Inl e, s')"
proof (induction n arbitrary: s)
  case 0
  then show ?case by simp
next
  case (Suc n)
  show ?case
  proof (cases "queue s")
    case Nil
    with rcv_none obtain e s' where "rcv s = (Inl e, s')" by blast
    then show ?thesis by (simp add: py_simps)
  next
    case (Cons f fs)
    with rcv_some obtain s1 where "rcv s = (Inr f, s1)" "queue s1 = fs" by blast
    moreover from this Suc Cons obtain e s2 where "mrepeat n rcv s1 = (Inl e, s2)" by fastforce
    ultimately show ?thesis by (simp add: py_simps)
  qed
qed

end

locale payload_codec =
  fixes enc :: "'a \<Rightarrow> bytes res" and dec :: "bytes \<Rightarrow> 'a res" and ok :: "'a \<Rightarrow> bool"
  assumes enc_total: "ok x \<Longrightarrow> \<exists>p. enc x = Inr p"
    and dec_enc: "ok x \<Longrightarrow> enc x = Inr p \<Longrightarrow> dec p = Inr x"
begin

lemma enc_inj: "ok x \<Longrightarrow> ok y \<Longrightarrow> enc x = enc y \<Longrightarrow> x = y"
  using enc_total dec_enc by (metis Inr_inject)

lemma message_round_trip:
  assumes "ok x" and "enc x = Inr p" and "length p \<le> MAX_PAYLOAD" and "k \<noteq> BULK_BATCH"
    and "avail (fs_sock s) = wire_bytes k p @ rest" and "fs_pending s = []"
  shows "\<exists>s'. mbind receive (\<lambda>f. mlift (dec (fpayload f))) s = (Inr x, s') \<and>
    avail (fs_sock s') = rest \<and> fs_pending s' = []"
proof -
  from receive_wire_frame_wire [OF assms(5,3)] obtain r where
    "receive_wire_frame s = (Inr (Frame k p),
       count_received (length p) (s\<lparr>fs_sock := advance (12 + length p) r (fs_sock s)\<rparr>))" by blast
  with assms dec_enc show ?thesis
    by (simp add: receive_def py_simps count_received_def)
qed

end

section \<open>The logical frames of a byte stream\<close>

text \<open>The frame a byte stream starts with, and what follows it.\<close>

definition parse_wire :: "bytes \<Rightarrow> (frame \<times> bytes) option" where
  "parse_wire bs =
     (let fields = unpack_fields [1, 1, 2, 4] (drop 4 (take 12 bs)); n = nat (fields ! 3) in
      if 12 + n \<le> length bs \<and> take 4 (take 12 bs) = PROTOCOL_MAGIC \<and> fields ! 0 = VERSION \<and>
         fields ! 2 = 0 \<and> n \<le> MAX_PAYLOAD
      then map_option (\<lambda>k. (Frame k (take n (drop 12 bs)), drop (12 + n) bs)) (frame_kind_of (fields ! 1))
      else None)"

lemma parse_wire_shrinks: "parse_wire bs = Some (f, rest) \<Longrightarrow> length rest < length bs"
  by (auto simp: parse_wire_def Let_def split: if_splits)

lemma parse_wire_Some:
  "parse_wire bs = Some (f, rest) \<longleftrightarrow>
     bs = wire_bytes (fkind f) (fpayload f) @ rest \<and> length (fpayload f) \<le> MAX_PAYLOAD"
proof
  assume parse: "parse_wire bs = Some (f, rest)"
  define vs where "vs = unpack_fields [1, 1, 2, 4] (drop 4 (take 12 bs))"
  let ?n = "nat (vs ! 3)"
  from parse obtain k where ok: "12 + ?n \<le> length bs" "take 4 (take 12 bs) = PROTOCOL_MAGIC"
    "vs ! 0 = VERSION" "vs ! 2 = 0" "?n \<le> MAX_PAYLOAD" "frame_kind_of (vs ! 1) = Some k"
    and f: "f = Frame k (take ?n (drop 12 bs))" "rest = drop (12 + ?n) bs"
    unfolding parse_wire_def Let_def vs_def [symmetric] by (auto split: if_splits)
  from wire_bytes_header [OF vs_def ok(2,3,4,6) refl ok(1)] f ok(5)
  show "bs = wire_bytes (fkind f) (fpayload f) @ rest \<and> length (fpayload f) \<le> MAX_PAYLOAD" by simp
next
  assume wire: "bs = wire_bytes (fkind f) (fpayload f) @ rest \<and> length (fpayload f) \<le> MAX_PAYLOAD"
  have body: "drop 12 (wire_bytes (fkind f) (fpayload f) @ rest) = fpayload f @ rest"
    by (simp add: wire_bytes_def PROTOCOL_MAGIC_def)
  have "drop (12 + length (fpayload f)) (wire_bytes (fkind f) (fpayload f) @ rest) = rest"
    unfolding add.commute [of 12] drop_drop [symmetric] body by simp
  moreover from wire have bs: "bs = wire_bytes (fkind f) (fpayload f) @ rest"
    and len: "length (fpayload f) \<le> MAX_PAYLOAD" by simp_all
  ultimately show "parse_wire bs = Some (f, rest)"
    unfolding parse_wire_def bs wire_header_fields [OF len] wire_header_magic Let_def body
    by simp
qed

lemma receive_wire_frame_parse:
  "parse_wire (avail (fs_sock s)) = Some (f, rest) \<Longrightarrow>
   \<exists>r. receive_wire_frame s = (Inr f, count_received (length (fpayload f))
     (s\<lparr>fs_sock := advance (12 + length (fpayload f)) r (fs_sock s)\<rparr>))"
  using receive_wire_frame_wire [of s "fkind f" "fpayload f" rest] by (simp add: parse_wire_Some)

lemma receive_wire_frame_no_parse:
  assumes "parse_wire (avail (fs_sock s)) = None"
  shows "\<exists>e s'. receive_wire_frame s = (Inl e, s')"
proof (cases "receive_wire_frame s")
  case (Pair r s')
  have "r \<noteq> Inr f" for f
    using receive_wire_frame_Inr [of s f s'] parse_wire_Some [of "avail (fs_sock s)" f] assms Pair
    by auto
  with Pair show ?thesis by (cases r) auto
qed

text \<open>The logical frames: a bulk batch stands for its records, and an ill-formed one ends the stream.\<close>

function logical_frames :: "bytes \<Rightarrow> frame list" where
  "logical_frames bs =
     (case parse_wire bs of
        None \<Rightarrow> []
      | Some (f, rest) \<Rightarrow>
          if fkind f \<noteq> BULK_BATCH then f # logical_frames rest
          else (case decode_bulk_batch (fpayload f) of
                  Inr (r # rs) \<Rightarrow> (r # rs) @ logical_frames rest
                | _ \<Rightarrow> []))"
  by pat_completeness auto
termination
  by (relation "measure length") (auto dest: parse_wire_shrinks)

declare logical_frames.simps [simp del]

definition logical_queue :: "framed_socket \<Rightarrow> frame list" where
  "logical_queue s = fs_pending s @ logical_frames (avail (fs_sock s))"

lemma count_received_simps [simp]:
  "fs_pending (count_received n s) = fs_pending s" "fs_sock (count_received n s) = fs_sock s"
  by (simp_all add: count_received_def)

lemma receive_pops:
  assumes "logical_queue s = f # fs"
  shows "\<exists>s'. receive s = (Inr f, s') \<and> logical_queue s' = fs"
proof (cases "fs_pending s")
  case (Cons g gs)
  with assms show ?thesis by (simp add: receive_def logical_queue_def)
next
  case Nil
  with assms obtain w rest where w: "parse_wire (avail (fs_sock s)) = Some (w, rest)"
    by (auto simp: logical_queue_def logical_frames.simps [of "avail (fs_sock s)"] split: option.splits)
  from receive_wire_frame_parse [OF w] obtain r where
    run: "receive_wire_frame s = (Inr w, count_received (length (fpayload w))
      (s\<lparr>fs_sock := advance (12 + length (fpayload w)) r (fs_sock s)\<rparr>))" by blast
  have "drop (12 + length (fpayload w)) (avail (fs_sock s)) = rest"
    using w by (simp add: parse_wire_Some)
  with Nil assms w run show ?thesis
    by (auto simp: receive_def py_simps logical_queue_def logical_frames.simps [of "avail (fs_sock s)"]
        split: if_splits sum.splits list.splits)
qed

lemma receive_fails:
  assumes "logical_queue s = []"
  shows "\<exists>e s'. receive s = (Inl e, s')"
proof (cases "parse_wire (avail (fs_sock s))")
  case None
  with assms show ?thesis
    using receive_wire_frame_no_parse [OF None] by (auto simp: receive_def logical_queue_def py_simps)
next
  case (Some p)
  then obtain w rest where w: "parse_wire (avail (fs_sock s)) = Some (w, rest)" by (cases p) auto
  from receive_wire_frame_parse [OF w] obtain r where
    run: "receive_wire_frame s = (Inr w, count_received (length (fpayload w))
      (s\<lparr>fs_sock := advance (12 + length (fpayload w)) r (fs_sock s)\<rparr>))" by blast
  with assms w show ?thesis
    by (auto simp: receive_def py_simps logical_queue_def logical_frames.simps [of "avail (fs_sock s)"]
        split: if_splits sum.splits list.splits)
qed

interpretation chan: frame_source receive logical_queue
  by unfold_locales (use receive_pops receive_fails in blast)+

section \<open>The codecs\<close>

definition hello_ok :: "hello \<Rightarrow> bool" where
  "hello_ok h \<longleftrightarrow> length (hello_nonce h) = NONCE_SIZE \<and> in_range (1, python_major h) \<and>
     in_range (1, python_minor h) \<and> in_range (1, pointer_size h)"

definition options_ok :: "int \<times> bool \<Rightarrow> bool" where
  "options_ok opts \<longleftrightarrow> - (2 ^ 31) \<le> fst opts \<and> fst opts < 2 ^ 31"

definition address_ok :: "address \<Rightarrow> bool" where
  "address_ok a \<longleftrightarrow> 0 \<le> a \<and> a < 2 ^ 64"

definition object_begin_ok :: "object_begin \<Rightarrow> bool" where
  "object_begin_ok b \<longleftrightarrow> address_ok (ob_address b) \<and> address_ok (ob_type_address b) \<and>
     in_range (4, ob_shallow_size b) \<and> in_range (1, ob_content_kind b) \<and>
     encodable (ob_type_name b) \<and> length (encode_string (ob_type_name b)) \<le> 0xFFFF"

lemma hello_codec:
  assumes "hello_ok h"
  shows "\<exists>p. encode_hello h = Inr p \<and> decode_hello p = Inr h"
proof -
  let ?fs = "[(1, python_major h), (1, python_minor h), (1, pointer_size h),
    (1 :: nat, if little_endian h then 1 else 0)]"
  from assms have "list_all in_range ?fs" by (simp add: hello_ok_def)
  then obtain bs where bs: "pack_fields ?fs = Inr bs" using pack_fields_total by blast
  from length_pack_fields [OF this] have len: "length bs = 4" by simp
  from unpack_pack_fields [OF bs, of "hello_nonce h"] have
    "unpack_fields [1, 1, 1, 1] (bs @ hello_nonce h) = map snd ?fs" by simp
  moreover have "encode_hello h = Inr (bs @ hello_nonce h)"
    using assms bs by (simp add: encode_hello_def hello_ok_def del: pack_fields.simps)
  ultimately show ?thesis
    using assms len
    by (auto simp: decode_hello_def hello_ok_def NONCE_SIZE_def Let_def simp del: unpack_fields.simps)
qed

lemma options_codec:
  assumes "options_ok opts"
  shows "\<exists>p. encode_options opts = Inr p \<and> decode_options p = Inr opts"
proof -
  have "be_dec [1 :: byte] = 1" "be_dec [0 :: byte] = 0" by (simp_all add: be_dec_def)
  moreover have "be_dec_signed (be_enc 4 (fst opts mod 256 ^ 4)) = fst opts"
    using assms be_dec_signed_be_enc [of 4 "fst opts"] by (simp add: options_ok_def)
  ultimately show ?thesis
    using assms
    by (cases opts) (auto simp: encode_options_def decode_options_def options_ok_def pack_sint_def
        pack_bool_def Let_def)
qed

lemma encode_addresses_Inr:
  "encode_addresses as = Inr p \<longleftrightarrow> list_all address_ok as \<and> p = concat (map (be_enc 8) as)"
  by (simp add: encode_addresses_def pack_fields_Inr list_all_iff address_ok_def ADDRESS_SIZE_def
      comp_def)

lemma length_concat_be_enc [simp]: "length (concat (map (be_enc n) as)) = n * length as"
  by (induction as) simp_all

lemma decode_addresses_concat:
  assumes "list_all address_ok as"
  shows "decode_addresses (concat (map (be_enc 8) as)) = Inr as"
proof -
  have "pack_fields (map (Pair 8) as) = Inr (concat (map (be_enc 8) as))"
    using assms by (simp add: pack_fields_Inr list_all_iff address_ok_def comp_def)
  from unpack_pack_fields [OF this, of "[]"] have
    "unpack_fields (replicate (length as) 8) (concat (map (be_enc 8) as)) = as"
    by (simp add: comp_def map_replicate_const)
  then show ?thesis by (simp add: decode_addresses_def ADDRESS_SIZE_def)
qed

lemma addresses_codec:
  "list_all address_ok as \<Longrightarrow> \<exists>p. encode_addresses as = Inr p \<and> decode_addresses p = Inr as"
  by (simp add: encode_addresses_Inr decode_addresses_concat)

text \<open>The addresses a payload decodes to fit in 64 bits, and the payload is their encoding.\<close>

lemma decode_addresses_Inr:
  "decode_addresses p = Inr as \<longleftrightarrow> list_all address_ok as \<and> p = concat (map (be_enc 8) as)"
proof
  assume dec: "decode_addresses p = Inr as"
  let ?ws = "replicate (length p div 8) (8 :: nat)"
  from dec have len: "length p = sum_list ?ws" and as: "as = unpack_fields ?ws p"
    by (auto simp: decode_addresses_def ADDRESS_SIZE_def sum_list_replicate split: if_splits)
  have "zip ?ws as = map (Pair 8) as"
    unfolding as by (simp add: zip_replicate1)
  with pack_unpack_fields [OF len] as have "pack_fields (map (Pair 8) as) = Inr p" by simp
  then show "list_all address_ok as \<and> p = concat (map (be_enc 8) as)"
    by (simp add: pack_fields_Inr list_all_iff address_ok_def comp_def)
qed (simp add: decode_addresses_concat)

lemma object_begin_codec:
  assumes "object_begin_ok b"
  shows "\<exists>p. encode_object_begin b = Inr p \<and> decode_object_begin p = Inr b"
proof -
  let ?name = "encode_string (ob_type_name b)"
  let ?fs = "[(8, ob_address b), (8, ob_type_address b), (4, ob_shallow_size b),
    (1, ob_content_kind b), (2 :: nat, int (length ?name))]"
  from assms have "list_all in_range ?fs" by (simp add: object_begin_ok_def address_ok_def)
  then obtain bs where bs: "pack_fields ?fs = Inr bs" using pack_fields_total by blast
  from length_pack_fields [OF this] have len: "length bs = 23" by simp
  from unpack_pack_fields [OF bs, of ?name] have
    "unpack_fields [8, 8, 4, 1, 2] (bs @ ?name) = map snd ?fs" by simp
  moreover have "encode_object_begin b = Inr (bs @ ?name)"
    using assms bs
    by (simp add: encode_object_begin_def object_begin_ok_def Let_def del: pack_fields.simps)
  moreover have "decode_text ?name = ob_type_name b"
    using assms by (simp add: object_begin_ok_def decode_encode_string)
  ultimately show ?thesis
    using len by (simp add: decode_object_begin_def Let_def del: unpack_fields.simps)
qed

lemma bulk_codec:
  "list_all bulk_record rs \<and> length (records_wire rs) \<le> MAX_PAYLOAD \<Longrightarrow>
   \<exists>p. encode_bulk_batch rs = Inr p \<and> decode_bulk_batch p = Inr rs"
  by (simp add: encode_bulk_batch_Inr decode_bulk_batch_Inr)

interpretation hello_payload: payload_codec encode_hello decode_hello hello_ok
  by unfold_locales (use hello_codec in fastforce)+

interpretation options_payload: payload_codec encode_options decode_options options_ok
  by unfold_locales (use options_codec in fastforce)+

interpretation addresses_payload: payload_codec encode_addresses decode_addresses "list_all address_ok"
  by unfold_locales (use addresses_codec in fastforce)+

interpretation object_begin_payload: payload_codec encode_object_begin decode_object_begin object_begin_ok
  by unfold_locales (use object_begin_codec in fastforce)+

interpretation bulk_payload: payload_codec encode_bulk_batch decode_bulk_batch
    "\<lambda>rs. list_all bulk_record rs \<and> length (records_wire rs) \<le> MAX_PAYLOAD"
  by unfold_locales (use bulk_codec in fastforce)+

section \<open>Dictionary batches\<close>

lemma pair_up_length: "length (pair_up xs) = length xs div 2"
  by (induction xs rule: pair_up.induct) simp_all

lemma pair_up_flatten: "pair_up (concat (map (\<lambda>(k, v). [k, v]) es)) = es"
  by (induction es) auto

lemma flatten_pair_up:
  "length xs mod 2 = 0 \<Longrightarrow> concat (map (\<lambda>(k, v). [k, v]) (pair_up xs)) = xs"
  by (induction xs rule: pair_up.induct) auto

lemma length_flatten: "length (concat (map (\<lambda>(k, v). [k, v]) es)) = 2 * length es"
  by (induction es) auto

lemma decode_dict_entries_Inr:
  "decode_dict_entries p = Inr es \<longleftrightarrow> encode_addresses (concat (map (\<lambda>(k, v). [k, v]) es)) = Inr p"
proof
  assume "decode_dict_entries p = Inr es"
  then obtain as where "decode_addresses p = Inr as" "length as mod 2 = 0" "es = pair_up as"
    by (auto simp: decode_dict_entries_def rbind_Inr split: if_splits)
  then show "encode_addresses (concat (map (\<lambda>(k, v). [k, v]) es)) = Inr p"
    by (simp add: flatten_pair_up encode_addresses_Inr decode_addresses_Inr)
next
  assume "encode_addresses (concat (map (\<lambda>(k, v). [k, v]) es)) = Inr p"
  then show "decode_dict_entries p = Inr es"
    by (simp add: decode_dict_entries_def encode_addresses_Inr decode_addresses_concat
        length_flatten pair_up_flatten)
qed

section \<open>An invariant of the channel\<close>

text \<open>Buffered records are of the kinds a bulk batch may hold and no longer than a frame.\<close>

definition channel_inv :: "framed_socket \<Rightarrow> bool" where
  "channel_inv s \<longleftrightarrow>
     (\<forall>f \<in> set (fs_pending s). fkind f \<in> bulk_record_kinds \<and> length (fpayload f) \<le> MAX_PAYLOAD)"

lemma channel_inv_init: "channel_inv (framed_socket_init sk)"
  by (simp add: channel_inv_def framed_socket_init_def)

lemma bulk_not_in_records: "BULK_BATCH \<notin> bulk_record_kinds"
  by (simp add: bulk_record_kinds_def)

lemma receive_Inr_cases:
  assumes "receive s = (Inr f, s')"
  obtains
    (buffered) "fs_pending s = f # fs_pending s'" "s' = s\<lparr>fs_pending := fs_pending s'\<rparr>"
  | (single) "fs_pending s = []" "fkind f \<noteq> BULK_BATCH" "receive_wire_frame s = (Inr f, s')"
  | (bulk) w s1 rest where "fs_pending s = []" "receive_wire_frame s = (Inr w, s1)"
      "fkind w = BULK_BATCH" "decode_bulk_batch (fpayload w) = Inr (f # rest)"
      "s' = s1\<lparr>fs_stats := (fs_stats s1)\<lparr>received_records :=
         received_records (fs_stats s1) + int (length (f # rest))\<rparr>, fs_pending := rest\<rparr>"
proof (cases "fs_pending s")
  case (Cons g gs)
  with assms buffered show thesis by (auto simp: receive_def)
next
  case Nil
  with assms obtain w s1 where w: "receive_wire_frame s = (Inr w, s1)"
    by (auto simp: receive_def mbind_Inr)
  show thesis
  proof (cases "fkind w = BULK_BATCH")
    case False
    with assms Nil w single show thesis by (auto simp: receive_def mbind_def mret_def)
  next
    case True
    with assms Nil w bulk [of w s1] show thesis
      by (auto simp: receive_def py_simps split: sum.splits list.splits)
  qed
qed

lemma receive_pending_wire: "receive_wire_frame s = (Inr w, s1) \<Longrightarrow> fs_pending s1 = fs_pending s"
  using receive_wire_frame_Inr [of s w s1] by auto

lemma receive_keeps_inv:
  assumes "channel_inv s" and "receive s = (Inr f, s')"
  shows "fkind f \<noteq> BULK_BATCH \<and> length (fpayload f) \<le> MAX_PAYLOAD \<and> channel_inv s'"
  using assms(2)
proof (cases rule: receive_Inr_cases)
  case buffered
  with assms(1) show ?thesis by (auto simp: channel_inv_def bulk_record_kinds_def)
next
  case single
  then show ?thesis
    using receive_wire_frame_Inr [OF single(3)] receive_pending_wire [OF single(3)]
    by (simp add: channel_inv_def)
next
  case (bulk w s1 rest)
  have "length (fpayload w) \<le> MAX_PAYLOAD"
    using receive_wire_frame_Inr [OF bulk(2)] by simp
  moreover have "list_all bulk_record (f # rest)" and wire: "fpayload w = records_wire (f # rest)"
    using bulk(4) unfolding decode_bulk_batch_Inr by simp_all
  moreover have "length (fpayload g) \<le> length (fpayload w)" if "g \<in> set (f # rest)" for g
    unfolding wire using that by (rule length_records_wire_payload)
  ultimately show ?thesis
    using bulk bulk_not_in_records by (fastforce simp: channel_inv_def bulk_record_def list_all_iff)
qed

section \<open>Properties\<close>

lemmas [run_simps] =
  PROTOCOL_MAGIC_def VERSION_def NONCE_SIZE_def MAX_PAYLOAD_def ADDRESS_SIZE_def
  bulk_record_kinds_def encode_bulk_batch_def frame_kind_of_def all_kinds_def

text \<open>A peer that has sent \<open>out\<close> and closed its end, read one byte at a time.\<close>

definition slow_socket :: "bytes \<Rightarrow> framed_socket" where
  "slow_socket out = framed_socket_init
     \<lparr>sk_sent = [], sk_peer = (\<lambda>_. (out, True)), sk_taken = 0, sk_reads = 0, sk_short = (\<lambda>_. 0)\<rparr>"

lemma slow_socket_simps [simp]:
  "avail (fs_sock (slow_socket out)) = out" "fs_pending (slow_socket out) = []"
  "sk_sent (fs_sock (slow_socket out)) = []" "peer_closed (fs_sock (slow_socket out))"
  "fs_stats (slow_socket out) = socket_stats0"
  by (simp_all add: slow_socket_def framed_socket_init_def avail_def peer_closed_def)

text \<open>a frame that one side sends is the frame the other side receives, whatever the sizes of
  the reads, and exactly its bytes are consumed.\<close>

theorem frame_delivery:
  assumes "send k p a = (Inr (), a')" and "sk_sent (fs_sock a') = sk_sent (fs_sock a) @ w"
    and "avail (fs_sock b) = w @ rest" and "fs_pending b = []" and "k \<noteq> BULK_BATCH"
  shows "\<exists>b'. receive b = (Inr (Frame k p), b') \<and> avail (fs_sock b') = rest \<and> fs_pending b' = []"
proof -
  have len: "length p \<le> MAX_PAYLOAD"
    using assms(1) send_too_long [of p k a] by (cases "MAX_PAYLOAD < length p") auto
  with assms(1,2) have "w = wire_bytes k p" by (auto simp: send_run)
  with len assms(3-5) receive_wire_frame_wire [of b k p rest] show ?thesis
    by (auto simp: receive_def py_simps)
qed

theorem frame_delivery_witness:
  "\<exists>b'. receive (slow_socket (wire_bytes FINISH [] @ wire_bytes CANCEL [7])) = (Inr (Frame FINISH []), b') \<and>
     avail (fs_sock b') = wire_bytes CANCEL [7] \<and> fs_pending b' = []"
  by (rule frame_delivery [OF send_run [of "[]" FINISH "slow_socket []"]])
    (simp_all add: MAX_PAYLOAD_def)

text \<open>the records of a bulk batch are received one after the other, in the order in which they were
  encoded, and the counters count one wire frame and as many records.\<close>

theorem bulk_delivery:
  assumes "encode_bulk_batch rs = Inr p" and "rs \<noteq> []"
    and "avail (fs_sock b) = wire_bytes BULK_BATCH p @ rest" and "fs_pending b = []"
  shows "\<exists>b'. mrepeat (length rs) receive b = (Inr rs, b') \<and> avail (fs_sock b') = rest \<and>
    fs_pending b' = [] \<and>
    received_frames (fs_stats b') = received_frames (fs_stats b) + 1 \<and>
    received_records (fs_stats b') = received_records (fs_stats b) + int (length rs)"
proof -
  have len: "length p \<le> MAX_PAYLOAD" and dec: "decode_bulk_batch p = Inr rs"
    using assms(1) by (auto simp: encode_bulk_batch_Inr decode_bulk_batch_Inr)
  obtain r rs' where rs: "rs = r # rs'" using assms(2) by (cases rs) auto
  have "drop (12 + length p) (avail (fs_sock b)) = rest" by (simp add: assms(3))
  then obtain b1 where b1: "receive b = (Inr r, b1)" "fs_pending b1 = rs'" "avail (fs_sock b1) = rest"
    "received_frames (fs_stats b1) = received_frames (fs_stats b) + 1"
    "received_records (fs_stats b1) = received_records (fs_stats b) + int (length rs)"
    using receive_wire_frame_wire [OF assms(3) len] dec assms(4) rs
    by (auto simp: receive_def py_simps count_received_def)
  have pop: "mrepeat (length xs) receive s = (Inr xs, s\<lparr>fs_pending := []\<rparr>)" if "fs_pending s = xs" for xs s
    using that
  proof (induction xs arbitrary: s)
    case (Cons x xs)
    then show ?case by (simp add: receive_def py_simps)
  qed (simp add: py_simps)
  from pop [OF b1(2)] b1 rs show ?thesis by (simp add: py_simps)
qed

theorem bulk_delivery_witness:
  "\<exists>b'. mrepeat 2 receive (slow_socket (wire_bytes BULK_BATCH [13, 0, 0, 0, 0, 12, 0, 0, 0, 1, 0x68])) =
       (Inr [Frame OBJECT_END [], Frame PREVIEW [0x68]], b') \<and> avail (fs_sock b') = [] \<and>
     fs_pending b' = [] \<and> received_frames (fs_stats b') = 1 \<and> received_records (fs_stats b') = 2"
  using bulk_delivery [of "[Frame OBJECT_END [], Frame PREVIEW [0x68]]" "[13, 0, 0, 0, 0, 12, 0, 0, 0, 1, 0x68]"
      "slow_socket (wire_bytes BULK_BATCH [13, 0, 0, 0, 0, 12, 0, 0, 0, 1, 0x68])" "[]"]
  by (simp add: run_simps socket_stats0_def numeral_2_eq_2)

text \<open>C19: for a payload that fits in a frame, decoding a bulk batch gives some records exactly when
  encoding those records gives that payload: the format is canonical, and every payload with a
  partial header, a partial payload, an unknown kind or a control kind is refused.\<close>

theorem bulk_batch_exact:
  assumes "length p \<le> MAX_PAYLOAD"
  shows "decode_bulk_batch p = Inr rs \<longleftrightarrow> encode_bulk_batch rs = Inr p"
  using assms by (auto simp: encode_bulk_batch_Inr decode_bulk_batch_Inr)

theorem bulk_batch_exact_witness:
  "decode_bulk_batch [13, 0, 0, 0, 0, 12, 0, 0, 0, 1, 0x68] = Inr [Frame OBJECT_END [], Frame PREVIEW [0x68]]"
  by (subst bulk_batch_exact) (simp_all add: run_simps)

text \<open>C17: receiving refines taking the first element of the queue of logical frames that the unread bytes
  stand for: it succeeds exactly when that queue is not empty, and then returns its head and
  leaves its tail.\<close>

theorem receive_refines_queue:
  "(case receive s of
      (Inr f, s') \<Rightarrow> logical_queue s = f # logical_queue s'
    | (Inl e, s') \<Rightarrow> logical_queue s = [])"
  by (auto split: prod.split sum.split dest: chan.rcv_Inr chan.rcv_Inl)

text \<open>whatever the peer sends, a frame handed to the client is no bulk batch and no longer than the
  payload limit, and the buffered records keep to the kinds a batch may hold.\<close>

theorem receive_bounded:
  assumes "channel_inv s" and "receive s = (Inr f, s')"
  shows "fkind f \<noteq> BULK_BATCH \<and> length (fpayload f) \<le> MAX_PAYLOAD \<and> channel_inv s'"
  using assms by (rule receive_keeps_inv)

theorem receive_bounded_witness:
  "fkind (Frame FINISH []) \<noteq> BULK_BATCH \<and> length (fpayload (Frame FINISH [])) \<le> MAX_PAYLOAD \<and>
   (\<exists>s'. receive (slow_socket (wire_bytes FINISH [])) = (Inr (Frame FINISH []), s') \<and> channel_inv s')"
proof -
  obtain s' where s': "receive (slow_socket (wire_bytes FINISH [])) = (Inr (Frame FINISH []), s')"
    using receive_wire_frame_wire [of "slow_socket (wire_bytes FINISH [])" FINISH "[]" "[]"]
    by (auto simp: receive_def py_simps)
  have "channel_inv (slow_socket (wire_bytes FINISH []))" by (simp add: channel_inv_def)
  from receive_bounded [OF this s'] s' show ?thesis by blast
qed

text \<open>C22: when the Agent goes away in the middle of a frame, \<open>receive\<close> raises the protocol error that names
  how many bytes of the header, or of the payload, are missing.\<close>

theorem receive_truncated:
  assumes "avail (fs_sock s) = take n (wire_bytes k p)" and "n < length (wire_bytes k p)"
    and "length p \<le> MAX_PAYLOAD" and "peer_closed (fs_sock s)" and "fs_pending s = []"
  shows "fst (receive s) = Inl (Exn ProtocolError ''agent disconnected with {size - received} bytes pending''
    [AInt (int (if n < 12 then 12 - n else 12 + length p - n))])"
proof -
  let ?sk = "fs_sock s"
  have len: "length (avail ?sk) = n" using assms(1,2) by simp
  show ?thesis
  proof (cases "n < 12")
    case True
    with len assms(4,5) receive_exact_spec [of 12 s] show ?thesis
      by (auto simp: receive_def receive_wire_frame_def py_simps disconnected_def)
  next
    case False
    let ?W = "wire_bytes k p @ []"
    have "take 12 (avail ?sk) = take 12 ?W" using assms(1) False by (simp add: min_def)
    with receive_exact_spec [of 12 s] len False obtain r where
      header: "receive_exact 12 s = (Inr (take 12 ?W), s\<lparr>fs_sock := advance 12 r ?sk\<rparr>)" by auto
    let ?s1 = "s\<lparr>fs_sock := advance 12 r ?sk\<rparr>"
    have left: "length (avail (fs_sock ?s1)) = n - 12" using len by simp
    have "\<not> length p \<le> n - 12" and missing: "length p - (n - 12) = 12 + length p - n"
      using assms(2) False by simp_all
    then obtain s' where
      "receive_exact (length p) ?s1 = (Inl (disconnected (fs_sock ?s1) (length p - (n - 12))), s')"
      using receive_exact_spec [of "length p" ?s1] unfolding left by auto
    then have payload: "receive_exact (length p) ?s1 =
        (Inl (Exn ProtocolError ''agent disconnected with {size - received} bytes pending''
          [AInt (int (12 + length p - n))]), s')"
      unfolding missing using assms(4) by (simp add: disconnected_def)
    have "receive_wire_frame s = (Inl (Exn ProtocolError
        ''agent disconnected with {size - received} bytes pending'' [AInt (int (12 + length p - n))]), s')"
      by (simp only: receive_wire_frame_def mbind_run header prod.case sum.case Let_def
          wire_header_fields [OF assms(3)] wire_header_magic)
        (use assms(3) payload in \<open>simp add: py_simps\<close>)
    with False assms(5) show ?thesis by (simp add: receive_def py_simps)
  qed
qed

theorem receive_truncated_witness:
  "fst (receive (slow_socket (take 13 (wire_bytes PREVIEW [1, 2, 3])))) =
     Inl (Exn ProtocolError ''agent disconnected with {size - received} bytes pending'' [AInt 2])"
  using receive_truncated [of "slow_socket (take 13 (wire_bytes PREVIEW [1, 2, 3]))" 13 PREVIEW "[1, 2, 3]"]
  by (simp add: MAX_PAYLOAD_def)

text \<open>the \<open>HELLO\<close> message round-trips through the socket: a hello whose fields fit their bytes and
  whose nonce has 16 bytes is what the receiver decodes.\<close>

theorem hello_message:
  assumes "hello_ok h" and "encode_hello h = Inr p"
    and "avail (fs_sock s) = wire_bytes HELLO p @ rest" and "fs_pending s = []"
  shows "\<exists>s'. mbind receive (\<lambda>f. mlift (decode_hello (fpayload f))) s = (Inr h, s') \<and>
    avail (fs_sock s') = rest \<and> fs_pending s' = []"
proof -
  have "length p = 20"
    using assms(1,2) by (auto simp: encode_hello_def rbind_Inr NONCE_SIZE_def dest!: length_pack_fields
        simp del: pack_fields.simps split: if_splits)
  then have "length p \<le> MAX_PAYLOAD" by (simp add: MAX_PAYLOAD_def)
  from hello_payload.message_round_trip [OF assms(1,2) this _ assms(3,4)] show ?thesis by simp
qed

definition demo_hello :: hello where
  "demo_hello = \<lparr>python_major = 3, python_minor = 12, pointer_size = 8, little_endian = True,
     hello_nonce = replicate 16 0x6E\<rparr>"

theorem hello_message_witness:
  "\<exists>s'. mbind receive (\<lambda>f. mlift (decode_hello (fpayload f)))
       (slow_socket (wire_bytes HELLO ([3, 12, 8, 1] @ replicate 16 0x6E))) = (Inr demo_hello, s') \<and>
     avail (fs_sock s') = [] \<and> fs_pending s' = []"
  by (rule hello_message)
    (simp_all add: hello_ok_def demo_hello_def encode_hello_def run_simps)

text \<open>a dictionary batch decodes to some entries exactly when its payload is the encoding of their
  keys and values in turn; in particular an odd number of addresses is refused.\<close>

theorem dict_entries_exact:
  "decode_dict_entries p = Inr es \<longleftrightarrow> encode_addresses (concat (map (\<lambda>(k, v). [k, v]) es)) = Inr p"
  by (rule decode_dict_entries_Inr)

text \<open>an object description whose fields fit, and whose type name is encodable and short enough,
  survives encoding and decoding.\<close>

theorem object_begin_round_trip:
  assumes "object_begin_ok b"
  shows "\<exists>p. encode_object_begin b = Inr p \<and> decode_object_begin p = Inr b"
  using assms by (rule object_begin_codec)

theorem object_begin_round_trip_witness:
  "\<exists>p. encode_object_begin \<lparr>ob_address = 8192, ob_type_address = 4096, ob_shallow_size = 48,
         ob_content_kind = 2, ob_type_name = lit ''list''\<rparr> = Inr p \<and>
     decode_object_begin p = Inr \<lparr>ob_address = 8192, ob_type_address = 4096, ob_shallow_size = 48,
         ob_content_kind = 2, ob_type_name = lit ''list''\<rparr>"
  by (rule object_begin_round_trip)
    (simp add: object_begin_ok_def address_ok_def encodable_def run_simps)

end
