(* ===== verification/Heap_Writer.thy ===== *)
theory Heap_Writer
  imports Text
begin

text \<open>
  \<^verbatim>\<open>capture/collector/src/pydump/model.py\<close> and \<^verbatim>\<open>heap_writer.py\<close>: the captured objects and
  the streaming writer of the PyHeap v1 artifact. The output file is its content, a position and
  whether what was written has been flushed and synced; the writer appends everything but the
  object count, which \<open>finish\<close> seeks back to fill in. \<open>artifact_bytes\<close> is the format written out
  as one expression, and the lemmas show that the streaming operations produce it.
\<close>

section \<open>Captured objects\<close>

datatype content_kind = KIND_NONE | KIND_DICT | KIND_LIST | KIND_SET | KIND_TUPLE

text \<open>\<^verbatim>\<open>ContentKind(raw)\<close>; a value without a member raises \<open>ValueError\<close>.\<close>

definition content_kind_of :: "int \<Rightarrow> content_kind option" where
  "content_kind_of raw =
     (if raw = 0 then Some KIND_NONE else if raw = 1 then Some KIND_DICT
      else if raw = 2 then Some KIND_LIST else if raw = 3 then Some KIND_SET
      else if raw = 4 then Some KIND_TUPLE else None)"

record heap_attribute =
  attr_name :: pystr
  attr_address :: address

record captured_object =
  co_address :: address
  co_type_address :: address
  co_type_name :: pystr
  co_shallow_size :: int
  co_content_kind :: content_kind
  co_sequence_content :: "address list"
  co_dict_content :: "(address \<times> address) list"
  co_referents :: "address set"
  co_attributes :: "heap_attribute list"
  co_str_repr :: pystr

record captured_frame =
  cf_filename :: pystr
  cf_lineno :: int
  cf_function :: pystr
  cf_locals :: "(pystr \<times> address) list"

record captured_thread =
  ct_name :: pystr
  ct_is_alive :: bool
  ct_is_daemon :: bool
  ct_frames :: "captured_frame list"

section \<open>Constants\<close>

definition HEAP_MAGIC :: int where "HEAP_MAGIC = 123000321"
definition FORMAT_VERSION :: int where "FORMAT_VERSION = 1"
definition FLAG_WITH_STR_REPR :: int where "FLAG_WITH_STR_REPR = 1"
definition MAX_STRING_SIZE :: nat where "MAX_STRING_SIZE = 0xFFFF"
definition MAX_UINT32 :: int where "MAX_UINT32 = 0xFFFFFFFF"

definition WELL_KNOWN_TYPE_NAMES :: "pystr list" where
  "WELL_KNOWN_TYPE_NAMES = map lit
    [''list'', ''tuple'', ''dict'', ''set'', ''str'', ''bytes'', ''bytearray'', ''int'', ''bool'',
     ''float'', ''object'', ''type'', ''NoneType'']"

section \<open>The file\<close>

record out_file =
  f_content :: bytes
  f_pos :: nat
  f_flushed :: bool
  f_synced :: bool

definition empty_file :: out_file where
  "empty_file = \<lparr>f_content = [], f_pos = 0, f_flushed = True, f_synced = False\<rparr>"

text \<open>Writing overwrites from the position on, after zero bytes if the position is past the end.\<close>

definition file_write :: "bytes \<Rightarrow> out_file \<Rightarrow> out_file" where
  "file_write bs f =
     (let c = f_content f @ replicate (f_pos f - length (f_content f)) 0 in
      f\<lparr>f_content := take (f_pos f) c @ bs @ drop (f_pos f + length bs) c,
        f_pos := f_pos f + length bs, f_flushed := f_flushed f \<and> bs = [],
        f_synced := f_synced f \<and> bs = []\<rparr>)"

definition file_seek :: "nat \<Rightarrow> out_file \<Rightarrow> out_file" where
  "file_seek pos f = f\<lparr>f_pos := pos\<rparr>"

definition file_flush :: "out_file \<Rightarrow> out_file" where
  "file_flush f = f\<lparr>f_flushed := True\<rparr>"

definition file_fsync :: "out_file \<Rightarrow> out_file" where
  "file_fsync f = f\<lparr>f_synced := f_flushed f\<rparr>"

section \<open>The writer\<close>

record heap_writer =
  hw_file :: out_file
  hw_with_str_repr :: bool
  hw_sync :: bool
  hw_count_offset :: "nat option"
  hw_count :: int

definition heap_writer_init :: "out_file \<Rightarrow> bool \<Rightarrow> bool \<Rightarrow> heap_writer" where
  "heap_writer_init f with_str_repr sync =
     \<lparr>hw_file = f, hw_with_str_repr = with_str_repr, hw_sync = sync, hw_count_offset = None,
      hw_count = 0\<rparr>"

definition on_file :: "(out_file \<Rightarrow> out_file) \<Rightarrow> (heap_writer, unit) py" where
  "on_file g = mmodify (\<lambda>w. w\<lparr>hw_file := g (hw_file w)\<rparr>)"

definition write_u32 :: "int \<Rightarrow> (heap_writer, unit) py" where
  "write_u32 v =
     (if \<not> (0 \<le> v \<and> v \<le> MAX_UINT32) then
        mraise PydumpError ''value {value} does not fit in a v1 unsigned int'' [AInt v]
      else mbind (mlift (pack_uint 4 v)) (\<lambda>bs. on_file (file_write bs)))"

definition write_u64 :: "int \<Rightarrow> (heap_writer, unit) py" where
  "write_u64 v = mbind (mlift (pack_uint 8 v)) (\<lambda>bs. on_file (file_write bs))"

definition write_long_string :: "pystr \<Rightarrow> (heap_writer, unit) py" where
  "write_long_string v =
     (let full = encode_string v;
          encoded = (if MAX_STRING_SIZE < length full then take MAX_STRING_SIZE full else full) in
      mbind (mlift (pack_uint 2 (int (length encoded)))) (\<lambda>bs.
      mseq (on_file (file_write bs)) (on_file (file_write encoded))))"

definition write_short_string :: "pystr \<Rightarrow> (heap_writer, unit) py" where
  "write_short_string v =
     (let full = encode_string v;
          encoded = (if 0x7FFF < length full then take 0x7FFF full else full) in
      mbind (mlift (pack_sint 2 (int (length encoded)))) (\<lambda>bs.
      mseq (on_file (file_write bs)) (on_file (file_write encoded))))"

text \<open>\<open>now\<close> is the text of the current time, which the source takes from the clock.\<close>

definition write_header :: "(pystr, address) pydict \<Rightarrow> pystr option \<Rightarrow> pystr \<Rightarrow> (heap_writer, unit) py" where
  "write_header well_known created_at now =
     (let missing = filter (\<lambda>n. map_of well_known n = None) WELL_KNOWN_TYPE_NAMES in
      if missing \<noteq> [] then
        mraise PydumpError ''agent omitted well-known types: {names}'' (map AStr (sort missing))
      else
        mseq (write_u64 HEAP_MAGIC) (
        mseq (write_u32 FORMAT_VERSION) (
        mseq (write_long_string
               (case created_at of Some c \<Rightarrow> if c = [] then now else c | None \<Rightarrow> now)) (
        mbind (mget hw_with_str_repr) (\<lambda>with_str_repr.
        mseq (write_u64 (if with_str_repr then FLAG_WITH_STR_REPR else 0)) (
        mseq (write_u32 (int (length WELL_KNOWN_TYPE_NAMES))) (
        mfor (\<lambda>name.
          mseq (write_long_string name) (
          mbind (mlift (subscript (map_of well_known) name)) write_u64)) WELL_KNOWN_TYPE_NAMES)))))))"

definition write_threads :: "captured_thread list \<Rightarrow> (heap_writer, unit) py" where
  "write_threads threads =
     mseq (write_u32 (int (length threads))) (
     mfor (\<lambda>thread.
       mseq (write_long_string (ct_name thread)) (
       mseq (on_file (file_write (pack_bool (ct_is_alive thread)))) (
       mseq (on_file (file_write (pack_bool (ct_is_daemon thread)))) (
       mseq (write_u32 (int (length (ct_frames thread)))) (
       mfor (\<lambda>frame.
         mseq (write_long_string (cf_filename frame)) (
         mseq (write_u32 (cf_lineno frame)) (
         mseq (write_long_string (cf_function frame)) (
         mseq (write_u32 (int (length (cf_locals frame)))) (
         mfor (\<lambda>(name, address). mseq (write_long_string name) (write_u64 address))
           (cf_locals frame)))))) (ct_frames thread)))))) threads)"

definition begin_objects :: "(heap_writer, unit) py" where
  "begin_objects =
     mseq (write_u32 0) (
     mseq (write_u32 0) (
     mseq (mmodify (\<lambda>w. w\<lparr>hw_count_offset := Some (f_pos (hw_file w))\<rparr>))
     (write_u32 0)))"

definition container_addresses :: "captured_object \<Rightarrow> address set" where
  "container_addresses obj =
     (case co_content_kind obj of
        KIND_NONE \<Rightarrow> {}
      | KIND_DICT \<Rightarrow> fst ` set (co_dict_content obj) \<union> snd ` set (co_dict_content obj)
      | _ \<Rightarrow> set (co_sequence_content obj))"

definition write_content :: "captured_object \<Rightarrow> (heap_writer, unit) py" where
  "write_content obj =
     (case co_content_kind obj of
        KIND_NONE \<Rightarrow> mret ()
      | KIND_DICT \<Rightarrow>
          mseq (write_u32 (int (length (co_dict_content obj)))) (
          mfor (\<lambda>(key, val). mseq (write_u64 key) (write_u64 val)) (co_dict_content obj))
      | _ \<Rightarrow>
          mseq (write_u32 (int (length (co_sequence_content obj)))) (
          mfor write_u64 (co_sequence_content obj)))"

definition container_type_names :: "pystr list" where
  "container_type_names = map lit [''dict'', ''list'', ''set'', ''tuple'']"

definition write_object :: "captured_object \<Rightarrow> (pystr, address) pydict \<Rightarrow> (heap_writer, unit) py" where
  "write_object obj well_known =
     mbind (mget hw_count_offset) (\<lambda>offset.
     if offset = None then mraise PydumpError ''object section was not started'' []
     else
       mseq (write_u64 (co_address obj)) (
       mseq (write_u64 (co_type_address obj)) (
       mseq (write_u32 (min (max (co_shallow_size obj) 0) MAX_UINT32)) (
       mseq (write_content obj) (
       let remaining = co_referents obj - container_addresses obj in
       mseq (write_u32 (int (card remaining))) (
       mseq (mfor write_u64 (sorted_list_of_set remaining)) (
       mseq (write_u32 (int (length (co_attributes obj)))) (
       mseq (mfor (\<lambda>a. mseq (write_short_string (attr_name a)) (write_u64 (attr_address a)))
              (co_attributes obj)) (
       mbind (mlift (rmap (subscript (map_of well_known)) container_type_names)) (\<lambda>containers.
       mbind (mget hw_with_str_repr) (\<lambda>with_str_repr.
       mseq (if with_str_repr \<and> co_type_address obj \<notin> set containers
             then write_long_string (co_str_repr obj) else mret ()) (
       mmodify (\<lambda>w. w\<lparr>hw_count := hw_count w + 1\<rparr>)))))))))))))"

definition finish :: "(address, pystr) pydict \<Rightarrow> (heap_writer, unit) py" where
  "finish types =
     mbind (mget hw_count_offset) (\<lambda>offset.
     case offset of
       None \<Rightarrow> mraise PydumpError ''object section was not started'' []
     | Some off \<Rightarrow>
         mbind (mget (\<lambda>w. f_pos (hw_file w))) (\<lambda>end_offset.
         mseq (on_file (file_seek off)) (
         mbind (mget hw_count) (\<lambda>count.
         mseq (write_u32 count) (
         mseq (on_file (file_seek end_offset)) (
         mseq (write_u32 (int (length types))) (
         mseq (mfor (\<lambda>(address, name). mseq (write_u64 address) (write_long_string name)) (sort types)) (
         mseq (write_u64 HEAP_MAGIC) (
         mseq (on_file file_flush) (
         mbind (mget hw_sync) (\<lambda>sync.
         if sync then on_file file_fsync else mret ()))))))))))) "

text \<open>\<open>validate_artifact\<close> on the bytes of the file it opens.\<close>

definition validate_artifact :: "bytes \<Rightarrow> unit res" where
  "validate_artifact content =
     (if length content < 16 then raise PydumpError ''artifact {path} is too short'' []
      else
        let start = be_dec (take 8 content); footer = be_dec (drop (length content - 8) content) in
        if start \<noteq> HEAP_MAGIC \<or> footer \<noteq> HEAP_MAGIC then
          raise PydumpError ''artifact {path} has an invalid magic value'' []
        else Inr ())"

end
