(* ===== verification/Heap_Format.thy ===== *)
theory Heap_Format
  imports Heap_Writer
begin

text \<open>
  The PyHeap v1 format as one expression, \<open>artifact_bytes\<close>, and the proof that the streaming
  \<^verbatim>\<open>HeapWriter\<close> produces it. \<open>writes\<close> is the contract of an appending operation: under the
  condition \<open>ok\<close> it appends exactly \<open>bs\<close>, otherwise it raises. The contract composes over
  sequencing and loops, so that every operation of the writer is characterised completely,
  its failures included; \<open>finish\<close>, which seeks, is treated on top of it.
\<close>

section \<open>The format\<close>

definition long_string_bytes :: "pystr \<Rightarrow> bytes" where
  "long_string_bytes s =
     (let e = take MAX_STRING_SIZE (encode_string s) in be_enc 2 (int (length e)) @ e)"

definition short_string_bytes :: "pystr \<Rightarrow> bytes" where
  "short_string_bytes s =
     (let e = take 0x7FFF (encode_string s) in be_enc 2 (int (length e)) @ e)"

definition known_address :: "(pystr, address) pydict \<Rightarrow> pystr \<Rightarrow> address" where
  "known_address well_known n = (case map_of well_known n of Some a \<Rightarrow> a | None \<Rightarrow> 0)"

definition header_bytes :: "(pystr, address) pydict \<Rightarrow> pystr \<Rightarrow> bool \<Rightarrow> bytes" where
  "header_bytes well_known created_at with_str_repr =
     be_enc 8 HEAP_MAGIC @ be_enc 4 FORMAT_VERSION @ long_string_bytes created_at @
     be_enc 8 (if with_str_repr then FLAG_WITH_STR_REPR else 0) @
     be_enc 4 (int (length WELL_KNOWN_TYPE_NAMES)) @
     concat (map (\<lambda>n. long_string_bytes n @ be_enc 8 (known_address well_known n)) WELL_KNOWN_TYPE_NAMES)"

definition local_bytes :: "pystr \<times> address \<Rightarrow> bytes" where
  "local_bytes l = long_string_bytes (fst l) @ be_enc 8 (snd l)"

definition frame_bytes :: "captured_frame \<Rightarrow> bytes" where
  "frame_bytes f =
     long_string_bytes (cf_filename f) @ be_enc 4 (cf_lineno f) @ long_string_bytes (cf_function f) @
     be_enc 4 (int (length (cf_locals f))) @ concat (map local_bytes (cf_locals f))"

definition thread_bytes :: "captured_thread \<Rightarrow> bytes" where
  "thread_bytes t =
     long_string_bytes (ct_name t) @ pack_bool (ct_is_alive t) @ pack_bool (ct_is_daemon t) @
     be_enc 4 (int (length (ct_frames t))) @ concat (map frame_bytes (ct_frames t))"

definition threads_bytes :: "captured_thread list \<Rightarrow> bytes" where
  "threads_bytes ts = be_enc 4 (int (length ts)) @ concat (map thread_bytes ts)"

definition entry_bytes :: "address \<times> address \<Rightarrow> bytes" where
  "entry_bytes e = be_enc 8 (fst e) @ be_enc 8 (snd e)"

definition content_bytes :: "captured_object \<Rightarrow> bytes" where
  "content_bytes obj =
     (case co_content_kind obj of
        KIND_NONE \<Rightarrow> []
      | KIND_DICT \<Rightarrow> be_enc 4 (int (length (co_dict_content obj))) @
                     concat (map entry_bytes (co_dict_content obj))
      | _ \<Rightarrow> be_enc 4 (int (length (co_sequence_content obj))) @
             concat (map (be_enc 8) (co_sequence_content obj)))"

definition remaining_referents :: "captured_object \<Rightarrow> address list" where
  "remaining_referents obj = sorted_list_of_set (co_referents obj - container_addresses obj)"

definition attribute_bytes :: "heap_attribute \<Rightarrow> bytes" where
  "attribute_bytes a = short_string_bytes (attr_name a) @ be_enc 8 (attr_address a)"

definition container_types :: "(pystr, address) pydict \<Rightarrow> address set" where
  "container_types well_known = known_address well_known ` set container_type_names"

definition object_bytes :: "(pystr, address) pydict \<Rightarrow> bool \<Rightarrow> captured_object \<Rightarrow> bytes" where
  "object_bytes well_known with_str_repr obj =
     be_enc 8 (co_address obj) @ be_enc 8 (co_type_address obj) @
     be_enc 4 (min (max (co_shallow_size obj) 0) MAX_UINT32) @ content_bytes obj @
     be_enc 4 (int (length (remaining_referents obj))) @
     concat (map (be_enc 8) (remaining_referents obj)) @
     be_enc 4 (int (length (co_attributes obj))) @ concat (map attribute_bytes (co_attributes obj)) @
     (if with_str_repr \<and> co_type_address obj \<notin> container_types well_known
      then long_string_bytes (co_str_repr obj) else [])"

definition type_bytes :: "address \<times> pystr \<Rightarrow> bytes" where
  "type_bytes t = be_enc 8 (fst t) @ long_string_bytes (snd t)"

definition types_bytes :: "(address, pystr) pydict \<Rightarrow> bytes" where
  "types_bytes types = be_enc 4 (int (length types)) @ concat (map type_bytes (sort types))"

definition artifact_bytes ::
  "(pystr, address) pydict \<Rightarrow> pystr \<Rightarrow> bool \<Rightarrow> captured_thread list \<Rightarrow> captured_object list \<Rightarrow>
   (address, pystr) pydict \<Rightarrow> bytes" where
  "artifact_bytes well_known created_at with_str_repr threads objs types =
     header_bytes well_known created_at with_str_repr @ threads_bytes threads @
     be_enc 4 0 @ be_enc 4 0 @
     be_enc 4 (int (length objs)) @ concat (map (object_bytes well_known with_str_repr) objs) @
     types_bytes types @ be_enc 8 HEAP_MAGIC"

section \<open>What the format can represent\<close>

definition u64_ok :: "int \<Rightarrow> bool" where
  "u64_ok v \<longleftrightarrow> 0 \<le> v \<and> v < 2 ^ 64"

definition count_ok :: "'a list \<Rightarrow> bool" where
  "count_ok xs \<longleftrightarrow> length xs < 2 ^ 32"

definition known_ok :: "(pystr, address) pydict \<Rightarrow> bool" where
  "known_ok well_known \<longleftrightarrow>
     (\<forall>n \<in> set WELL_KNOWN_TYPE_NAMES. \<exists>a. map_of well_known n = Some a \<and> u64_ok a)"

definition frame_ok :: "captured_frame \<Rightarrow> bool" where
  "frame_ok f \<longleftrightarrow> 0 \<le> cf_lineno f \<and> cf_lineno f < 2 ^ 32 \<and> count_ok (cf_locals f) \<and>
     (\<forall>l \<in> set (cf_locals f). u64_ok (snd l))"

definition thread_ok :: "captured_thread \<Rightarrow> bool" where
  "thread_ok t \<longleftrightarrow> count_ok (ct_frames t) \<and> (\<forall>f \<in> set (ct_frames t). frame_ok f)"

definition content_ok :: "captured_object \<Rightarrow> bool" where
  "content_ok obj \<longleftrightarrow>
     (case co_content_kind obj of
        KIND_NONE \<Rightarrow> True
      | KIND_DICT \<Rightarrow> count_ok (co_dict_content obj) \<and>
          (\<forall>e \<in> set (co_dict_content obj). u64_ok (fst e) \<and> u64_ok (snd e))
      | _ \<Rightarrow> count_ok (co_sequence_content obj) \<and> (\<forall>a \<in> set (co_sequence_content obj). u64_ok a))"

definition object_ok :: "captured_object \<Rightarrow> bool" where
  "object_ok obj \<longleftrightarrow> u64_ok (co_address obj) \<and> u64_ok (co_type_address obj) \<and> content_ok obj \<and>
     count_ok (remaining_referents obj) \<and> (\<forall>a \<in> set (remaining_referents obj). u64_ok a) \<and>
     count_ok (co_attributes obj) \<and> (\<forall>a \<in> set (co_attributes obj). u64_ok (attr_address a))"

definition types_ok :: "(address, pystr) pydict \<Rightarrow> bool" where
  "types_ok types \<longleftrightarrow> count_ok types \<and> (\<forall>t \<in> set types. u64_ok (fst t))"

section \<open>Appending operations\<close>

definition at_end :: "heap_writer \<Rightarrow> bool" where
  "at_end w \<longleftrightarrow> f_pos (hw_file w) = length (f_content (hw_file w))"

definition append_bytes :: "bytes \<Rightarrow> heap_writer \<Rightarrow> heap_writer" where
  "append_bytes bs w = w\<lparr>hw_file := (hw_file w)\<lparr>f_content := f_content (hw_file w) @ bs,
     f_pos := f_pos (hw_file w) + length bs, f_flushed := f_flushed (hw_file w) \<and> bs = [],
     f_synced := f_synced (hw_file w) \<and> bs = []\<rparr>\<rparr>"

definition raises :: "(exn + 'a) \<times> 's \<Rightarrow> bool" where
  "raises r \<longleftrightarrow> (\<exists>e. fst r = Inl e)"

definition writes :: "bool \<Rightarrow> (heap_writer, unit) py \<Rightarrow> bool \<Rightarrow> bytes \<Rightarrow> bool" where
  "writes ws m ok bs \<longleftrightarrow>
     (\<forall>w. at_end w \<longrightarrow> hw_with_str_repr w = ws \<longrightarrow>
       (if ok then m w = (Inr (), append_bytes bs w) else raises (m w)))"

lemma append_bytes_simps [simp]:
  "append_bytes [] w = w"
  "append_bytes b2 (append_bytes b1 w) = append_bytes (b1 @ b2) w"
  "at_end (append_bytes bs w) = at_end w"
  "hw_with_str_repr (append_bytes bs w) = hw_with_str_repr w"
  "hw_count_offset (append_bytes bs w) = hw_count_offset w"
  "hw_count (append_bytes bs w) = hw_count w"
  "hw_sync (append_bytes bs w) = hw_sync w"
  "f_content (hw_file (append_bytes bs w)) = f_content (hw_file w) @ bs"
  "f_pos (hw_file (append_bytes bs w)) = f_pos (hw_file w) + length bs"
  by (auto simp: append_bytes_def at_end_def)

lemma raises_simps [simp]:
  "raises (Inl e, s)" "\<not> raises (Inr x, s)" "raises (mraise c t as s)"
  by (simp_all add: raises_def mraise_def)

lemma raises_mseq: "raises (m w) \<Longrightarrow> raises (mseq m k w)"
  by (auto simp: raises_def py_simps split: prod.splits sum.splits)

lemma raises_mbind: "raises (m w) \<Longrightarrow> raises (mbind m f w)"
  by (auto simp: raises_def py_simps split: prod.splits sum.splits)

lemma mseq_assoc:
  "mseq (mseq m k) j = mseq m (mseq k j)"
  "mseq (mbind p f) j = mbind p (\<lambda>x. mseq (f x) j)"
  by (auto simp: mseq_def mbind_def fun_eq_iff split: prod.splits sum.splits)

lemma mseq_step: "m w = (Inr (), w') \<Longrightarrow> mseq m k w = k w'"
  by (simp add: mseq_run)

lemma mbind_mget: "mbind (mget g) f w = f (g w) w"
  by (simp add: py_simps)

lemma on_file_run: "mseq (on_file g) k w = k (w\<lparr>hw_file := g (hw_file w)\<rparr>)"
  by (simp add: on_file_def py_simps)

lemma file_write_at_end:
  "at_end w \<Longrightarrow> w\<lparr>hw_file := file_write bs (hw_file w)\<rparr> = append_bytes bs w"
  by (simp add: at_end_def file_write_def append_bytes_def Let_def)

lemma writes_raw: "writes ws (on_file (file_write bs)) True bs"
  by (simp add: writes_def on_file_def py_simps file_write_at_end)

lemma writes_ret: "writes ws (mret ()) True []"
  by (simp add: writes_def py_simps)

lemma writes_mseq:
  assumes "writes ws m c1 b1" and "writes ws k c2 b2"
  shows "writes ws (mseq m k) (c1 \<and> c2) (b1 @ b2)"
  unfolding writes_def
proof (intro allI impI)
  fix w
  assume w: "at_end w" "hw_with_str_repr w = ws"
  show "if c1 \<and> c2 then mseq m k w = (Inr (), append_bytes (b1 @ b2) w) else raises (mseq m k w)"
  proof (cases c1)
    case True
    with assms(1) w have m: "m w = (Inr (), append_bytes b1 w)" by (auto simp: writes_def)
    moreover have "if c2 then k (append_bytes b1 w) = (Inr (), append_bytes b2 (append_bytes b1 w))
        else raises (k (append_bytes b1 w))"
      using assms(2) w by (simp add: writes_def)
    ultimately show ?thesis using True by (auto simp: py_simps)
  next
    case False
    with assms(1) w have "raises (m w)" by (auto simp: writes_def)
    with False show ?thesis by (simp add: raises_mseq)
  qed
qed

lemma writes_mfor:
  assumes "\<And>x. x \<in> set xs \<Longrightarrow> writes ws (f x) (c x) (b x)"
  shows "writes ws (mfor f xs) (\<forall>x \<in> set xs. c x) (concat (map b xs))"
  using assms
proof (induction xs)
  case Nil
  show ?case by (simp add: writes_ret)
next
  case (Cons x xs)
  from writes_mseq [of ws "f x" "c x" "b x"] Cons show ?case by simp
qed

lemma writes_cong: "writes ws m c b \<Longrightarrow> c = c' \<Longrightarrow> (c \<Longrightarrow> b = b') \<Longrightarrow> writes ws m c' b'"
  by (auto simp: writes_def)

lemma writes_u32: "writes ws (write_u32 v) (0 \<le> v \<and> v < 2 ^ 32) (be_enc 4 v)"
  by (auto simp: writes_def write_u32_def MAX_UINT32_def pack_uint_def py_simps on_file_def
      file_write_at_end)

lemma writes_u64: "writes ws (write_u64 v) (u64_ok v) (be_enc 8 v)"
  by (auto simp: writes_def write_u64_def pack_uint_def py_simps on_file_def
      file_write_at_end u64_ok_def raise_def)

lemma writes_count: "writes ws (write_u32 (int (length xs))) (count_ok xs) (be_enc 4 (int (length xs)))"
  by (rule writes_cong [OF writes_u32]) (auto simp: count_ok_def)

lemma take_cut: "(if n < length xs then take n xs else xs) = take n xs"
  by simp

lemma writes_long_string: "writes ws (write_long_string s) True (long_string_bytes s)"
proof -
  let ?e = "take MAX_STRING_SIZE (encode_string s)"
  have "pack_uint 2 (int (length ?e)) = Inr (be_enc 2 (int (length ?e)))"
    by (simp add: pack_uint_def MAX_STRING_SIZE_def)
  then have "write_long_string s =
      mseq (on_file (file_write (be_enc 2 (int (length ?e))))) (on_file (file_write ?e))"
    by (simp only: write_long_string_def Let_def take_cut mbind_simps)
  then show ?thesis
    using writes_mseq [OF writes_raw writes_raw] by (simp add: long_string_bytes_def Let_def)
qed

lemma writes_short_string: "writes ws (write_short_string s) True (short_string_bytes s)"
proof -
  let ?e = "take 0x7FFF (encode_string s)"
  have "int (length ?e) < 0x8000" by simp
  then have "pack_sint 2 (int (length ?e)) = Inr (be_enc 2 (int (length ?e)))"
    by (simp add: pack_sint_def)
  then have "write_short_string s =
      mseq (on_file (file_write (be_enc 2 (int (length ?e))))) (on_file (file_write ?e))"
    by (simp only: write_short_string_def Let_def take_cut mbind_simps)
  then show ?thesis
    using writes_mseq [OF writes_raw writes_raw] by (simp add: short_string_bytes_def Let_def)
qed

lemmas writes_rules = writes_u32 writes_u64 writes_count writes_long_string writes_short_string writes_raw

lemma writes_flag: "writes ws (f ws) c b \<Longrightarrow> writes ws (mbind (mget hw_with_str_repr) f) c b"
  by (simp add: writes_def py_simps)

lemma writes_subscript:
  "writes ws (mbind (mlift (subscript (map_of well_known) n)) write_u64)
     (\<exists>a. map_of well_known n = Some a \<and> u64_ok a) (be_enc 8 (known_address well_known n))"
proof (cases "map_of well_known n")
  case None
  then show ?thesis by (simp add: writes_def subscript_def raise_def py_simps)
next
  case (Some a)
  with writes_u64 [of ws a] show ?thesis
    by (simp add: subscript_def py_simps known_address_def)
qed

section \<open>The header and the threads\<close>

definition created_text :: "pystr option \<Rightarrow> pystr \<Rightarrow> pystr" where
  "created_text created_at now = (case created_at of Some c \<Rightarrow> if c = [] then now else c | None \<Rightarrow> now)"

lemma writes_header:
  "writes ws (write_header well_known created_at now) (known_ok well_known)
     (header_bytes well_known (created_text created_at now) ws)"
proof (cases "filter (\<lambda>n. map_of well_known n = None) WELL_KNOWN_TYPE_NAMES = []")
  case False
  then have "\<not> known_ok well_known"
    by (fastforce simp: known_ok_def filter_empty_conv)
  with False show ?thesis by (simp add: writes_def write_header_def py_simps)
next
  case True
  let ?one = "\<lambda>n. mseq (write_long_string n) (mbind (mlift (subscript (map_of well_known) n)) write_u64)"
  have "writes ws (mfor ?one WELL_KNOWN_TYPE_NAMES)
      (\<forall>n \<in> set WELL_KNOWN_TYPE_NAMES. True \<and> (\<exists>a. map_of well_known n = Some a \<and> u64_ok a))
      (concat (map (\<lambda>n. long_string_bytes n @ be_enc 8 (known_address well_known n)) WELL_KNOWN_TYPE_NAMES))"
    by (intro writes_mfor writes_mseq writes_long_string writes_subscript)
  from writes_mseq [OF writes_u64 [of ws HEAP_MAGIC] writes_mseq [OF writes_u32 [of ws FORMAT_VERSION]
      writes_mseq [OF writes_long_string [of ws "created_text created_at now"]
      writes_flag [OF writes_mseq [OF writes_u64 writes_mseq [OF writes_count [of ws WELL_KNOWN_TYPE_NAMES] this]]]]]]
  have "writes ws (write_header well_known created_at now)
      (u64_ok HEAP_MAGIC \<and> (0 \<le> FORMAT_VERSION \<and> FORMAT_VERSION < 2 ^ 32) \<and> True \<and>
       u64_ok (if ws then FLAG_WITH_STR_REPR else 0) \<and> count_ok WELL_KNOWN_TYPE_NAMES \<and>
       (\<forall>n \<in> set WELL_KNOWN_TYPE_NAMES. True \<and> (\<exists>a. map_of well_known n = Some a \<and> u64_ok a)))
      (header_bytes well_known (created_text created_at now) ws)"
    unfolding write_header_def Let_def header_bytes_def created_text_def [symmetric]
    using True by (simp only: if_False not_not simp_thms)
  then show ?thesis
    by (rule writes_cong)
      (auto simp: u64_ok_def HEAP_MAGIC_def FORMAT_VERSION_def FLAG_WITH_STR_REPR_def count_ok_def
        WELL_KNOWN_TYPE_NAMES_def known_ok_def)
qed

lemma writes_local:
  "writes ws (case l of (name, address) \<Rightarrow> mseq (write_long_string name) (write_u64 address))
     (u64_ok (snd l)) (local_bytes l)"
  by (cases l) (use writes_mseq [OF writes_long_string writes_u64] in \<open>simp add: local_bytes_def\<close>)

lemma writes_frame:
  "writes ws (mseq (write_long_string (cf_filename f)) (mseq (write_u32 (cf_lineno f))
     (mseq (write_long_string (cf_function f)) (mseq (write_u32 (int (length (cf_locals f))))
     (mfor (\<lambda>(name, address). mseq (write_long_string name) (write_u64 address)) (cf_locals f))))))
     (frame_ok f) (frame_bytes f)"
proof -
  have "writes ws (mfor (\<lambda>(name, address). mseq (write_long_string name) (write_u64 address)) (cf_locals f))
      (\<forall>l \<in> set (cf_locals f). u64_ok (snd l)) (concat (map local_bytes (cf_locals f)))"
    by (intro writes_mfor writes_local)
  from writes_mseq [OF writes_long_string writes_mseq [OF writes_u32 writes_mseq [OF writes_long_string
      writes_mseq [OF writes_count this]]]]
  show ?thesis unfolding frame_bytes_def by (rule writes_cong) (auto simp: frame_ok_def)
qed

lemma writes_thread:
  "writes ws (mseq (write_long_string (ct_name t)) (mseq (on_file (file_write (pack_bool (ct_is_alive t))))
     (mseq (on_file (file_write (pack_bool (ct_is_daemon t)))) (mseq (write_u32 (int (length (ct_frames t))))
     (mfor (\<lambda>f. mseq (write_long_string (cf_filename f)) (mseq (write_u32 (cf_lineno f))
       (mseq (write_long_string (cf_function f)) (mseq (write_u32 (int (length (cf_locals f))))
       (mfor (\<lambda>(name, address). mseq (write_long_string name) (write_u64 address)) (cf_locals f))))))
       (ct_frames t))))))
     (thread_ok t) (thread_bytes t)"
  (is "writes ws (mseq _ (mseq _ (mseq _ (mseq _ (mfor ?frame _))))) _ _")
proof -
  have "writes ws (mfor ?frame (ct_frames t)) (\<forall>f \<in> set (ct_frames t). frame_ok f)
      (concat (map frame_bytes (ct_frames t)))"
    by (intro writes_mfor writes_frame)
  from writes_mseq [OF writes_long_string writes_mseq [OF writes_raw writes_mseq [OF writes_raw
      writes_mseq [OF writes_count this]]]]
  show ?thesis unfolding thread_bytes_def by (rule writes_cong) (auto simp: thread_ok_def)
qed

definition threads_ok :: "captured_thread list \<Rightarrow> bool" where
  "threads_ok ts \<longleftrightarrow> count_ok ts \<and> (\<forall>t \<in> set ts. thread_ok t)"

lemma writes_threads: "writes ws (write_threads ts) (threads_ok ts) (threads_bytes ts)"
  unfolding write_threads_def threads_bytes_def threads_ok_def
  by (intro writes_mseq writes_mfor writes_count writes_thread)

section \<open>Objects\<close>

lemma writes_entry:
  "writes ws (case e of (key, val) \<Rightarrow> mseq (write_u64 key) (write_u64 val))
     (u64_ok (fst e) \<and> u64_ok (snd e)) (entry_bytes e)"
  by (cases e) (use writes_mseq [OF writes_u64 writes_u64] in \<open>simp add: entry_bytes_def\<close>)

lemma writes_content: "writes ws (write_content obj) (content_ok obj) (content_bytes obj)"
proof -
  have sequence: "writes ws (mseq (write_u32 (int (length xs))) (mfor write_u64 xs))
      (count_ok xs \<and> (\<forall>a \<in> set xs. u64_ok a)) (be_enc 4 (int (length xs)) @ concat (map (be_enc 8) xs))" for xs
    by (intro writes_mseq writes_mfor writes_count writes_u64)
  have dict: "writes ws (mseq (write_u32 (int (length es)))
        (mfor (\<lambda>(key, val). mseq (write_u64 key) (write_u64 val)) es))
      (count_ok es \<and> (\<forall>e \<in> set es. u64_ok (fst e) \<and> u64_ok (snd e)))
      (be_enc 4 (int (length es)) @ concat (map entry_bytes es))" for es
    by (intro writes_mseq writes_mfor writes_count writes_entry)
  show ?thesis
    by (cases "co_content_kind obj")
      (simp_all add: write_content_def content_ok_def content_bytes_def writes_ret sequence dict)
qed

lemma writes_attribute:
  "writes ws (mseq (write_short_string (attr_name a)) (write_u64 (attr_address a)))
     (u64_ok (attr_address a)) (attribute_bytes a)"
  using writes_mseq [OF writes_short_string writes_u64] by (simp add: attribute_bytes_def)

lemma container_lookup:
  assumes "known_ok well_known"
  shows "rmap (subscript (map_of well_known)) container_type_names =
    Inr (map (known_address well_known) container_type_names)"
proof -
  have "set container_type_names \<subseteq> set WELL_KNOWN_TYPE_NAMES"
    by (auto simp: container_type_names_def WELL_KNOWN_TYPE_NAMES_def)
  with assms show ?thesis
    by (fastforce simp: rmap_Inr list_all2_map2 list_all2_same known_ok_def known_address_def)
qed

text \<open>Everything of \<open>write_object\<close> after the guard and before the object is counted.\<close>

lemma writes_object_body:
  assumes "known_ok well_known" and "finite (co_referents obj)"
  shows "writes ws
     (mseq (write_u64 (co_address obj)) (
      mseq (write_u64 (co_type_address obj)) (
      mseq (write_u32 (min (max (co_shallow_size obj) 0) MAX_UINT32)) (
      mseq (write_content obj) (
      mseq (write_u32 (int (card (co_referents obj - container_addresses obj)))) (
      mseq (mfor write_u64 (sorted_list_of_set (co_referents obj - container_addresses obj))) (
      mseq (write_u32 (int (length (co_attributes obj)))) (
      mseq (mfor (\<lambda>a. mseq (write_short_string (attr_name a)) (write_u64 (attr_address a)))
              (co_attributes obj))
      (mbind (mlift (rmap (subscript (map_of well_known)) container_type_names)) (\<lambda>containers.
       mbind (mget hw_with_str_repr) (\<lambda>with_str_repr.
       if with_str_repr \<and> co_type_address obj \<notin> set containers
       then write_long_string (co_str_repr obj) else mret ())))))))))))
     (object_ok obj) (object_bytes well_known ws obj)"
proof -
  have card: "card (co_referents obj - container_addresses obj) = length (remaining_referents obj)"
    using assms(2) by (simp add: remaining_referents_def)
  have size: "0 \<le> min (max (co_shallow_size obj) 0) MAX_UINT32 \<and>
      min (max (co_shallow_size obj) 0) MAX_UINT32 < 2 ^ 32"
    by (auto simp: MAX_UINT32_def)
  have "writes ws (if ws \<and> c then write_long_string s else mret ()) True
      (if ws \<and> c then long_string_bytes s else [])" for c s
    by (simp add: writes_long_string writes_ret)
  then have str: "writes ws (mbind (mlift (rmap (subscript (map_of well_known)) container_type_names))
      (\<lambda>containers. mbind (mget hw_with_str_repr) (\<lambda>with_str_repr.
       if with_str_repr \<and> co_type_address obj \<notin> set containers
       then write_long_string (co_str_repr obj) else mret ())))
      True (if ws \<and> co_type_address obj \<notin> container_types well_known
            then long_string_bytes (co_str_repr obj) else [])"
    unfolding container_lookup [OF assms(1)] mbind_simps(2) container_types_def
    by (intro writes_flag) simp
  have addresses: "writes ws (mfor write_u64 xs) (\<forall>a \<in> set xs. u64_ok a) (concat (map (be_enc 8) xs))" for xs
    by (intro writes_mfor writes_u64)
  have attributes: "writes ws
      (mfor (\<lambda>a. mseq (write_short_string (attr_name a)) (write_u64 (attr_address a))) xs)
      (\<forall>a \<in> set xs. u64_ok (attr_address a)) (concat (map attribute_bytes xs))" for xs
    by (intro writes_mfor writes_attribute)
  show ?thesis
    unfolding object_bytes_def card remaining_referents_def [symmetric]
    by (rule writes_cong [OF writes_mseq [OF writes_u64 writes_mseq [OF writes_u64 writes_mseq [OF writes_u32
          writes_mseq [OF writes_content writes_mseq [OF writes_count writes_mseq [OF addresses
          writes_mseq [OF writes_count writes_mseq [OF attributes str]]]]]]]]])
      (use size in \<open>auto simp: object_ok_def\<close>)
qed

lemma write_object_run:
  assumes "known_ok well_known" and "finite (co_referents obj)"
    and "at_end w" and "hw_with_str_repr w = ws"
  shows "if hw_count_offset w \<noteq> None \<and> object_ok obj
    then write_object obj well_known w =
      (Inr (), (append_bytes (object_bytes well_known ws obj) w)\<lparr>hw_count := hw_count w + 1\<rparr>)
    else raises (write_object obj well_known w)"
proof (cases "hw_count_offset w = None")
  case True
  then show ?thesis by (simp add: write_object_def py_simps)
next
  case False
  let ?count = "mmodify (\<lambda>w. w\<lparr>hw_count := hw_count w + 1\<rparr>)"
  note body = writes_object_body [OF assms(1,2), of ws]
  let ?ok = "object_ok obj" and ?bs = "object_bytes well_known ws obj"
  obtain m where m: "writes ws m ?ok ?bs" and run: "write_object obj well_known w = mseq m ?count w"
    by (rule that [OF body]) (simp only: write_object_def mbind_mget False if_False mseq_assoc Let_def)
  from m assms(3,4) have "if ?ok then m w = (Inr (), append_bytes ?bs w) else raises (m w)"
    by (simp add: writes_def)
  with False show ?thesis
    by (cases ?ok) (simp_all add: run raises_mseq, simp add: mseq_run mmodify_def)
qed

text \<open>\<open>counted n\<close> is the state after appending \<open>n\<close> objects.\<close>

definition counted :: "nat \<Rightarrow> heap_writer \<Rightarrow> heap_writer" where
  "counted n w = w\<lparr>hw_count := hw_count w + int n\<rparr>"

lemma counted_simps [simp]:
  "counted 0 w = w" "at_end (counted n w) = at_end w" "hw_file (counted n w) = hw_file w"
  "hw_with_str_repr (counted n w) = hw_with_str_repr w"
  "hw_count_offset (counted n w) = hw_count_offset w" "hw_count (counted n w) = hw_count w + int n"
  "hw_sync (counted n w) = hw_sync w"
  "append_bytes bs (counted n w) = counted n (append_bytes bs w)"
  "counted n (counted m w) = counted (m + n) w"
  by (simp_all add: counted_def at_end_def append_bytes_def)

lemma write_objects_run:
  assumes "known_ok well_known" and "\<forall>obj \<in> set objs. finite (co_referents obj)"
    and "at_end w" and "hw_with_str_repr w = ws" and "hw_count_offset w \<noteq> None"
  shows "if \<forall>obj \<in> set objs. object_ok obj
    then mfor (\<lambda>obj. write_object obj well_known) objs w =
      (Inr (), counted (length objs) (append_bytes (concat (map (object_bytes well_known ws) objs)) w))
    else raises (mfor (\<lambda>obj. write_object obj well_known) objs w)"
  using assms(2-5)
proof (induction objs arbitrary: w)
  case Nil
  then show ?case by (simp add: py_simps)
next
  case (Cons obj objs)
  let ?w = "counted (Suc 0) (append_bytes (object_bytes well_known ws obj) w)"
  show ?case
  proof (cases "object_ok obj")
    case False
    then have "raises (write_object obj well_known w)"
      using write_object_run [OF assms(1), of obj w] Cons.prems by simp
    with False show ?thesis by (simp add: raises_mseq)
  next
    case True
    then have step: "write_object obj well_known w = (Inr (), ?w)"
      using write_object_run [OF assms(1), of obj w ws] Cons.prems by (simp add: counted_def)
    from Cons.IH [of ?w] Cons.prems True show ?thesis
      by (simp add: mseq_run step)
  qed
qed

section \<open>Finishing\<close>

lemma writes_types:
  "writes ws (mseq (write_u32 (int (length types))) (mseq
     (mfor (\<lambda>(address, name). mseq (write_u64 address) (write_long_string name)) (sort types))
     (write_u64 HEAP_MAGIC))) (types_ok types) (types_bytes types @ be_enc 8 HEAP_MAGIC)"
proof -
  have one: "writes ws (case t of (address, name) \<Rightarrow> mseq (write_u64 address) (write_long_string name))
      (u64_ok (fst t)) (type_bytes t)" for t :: "address \<times> pystr"
    by (cases t) (use writes_mseq [OF writes_u64 writes_long_string] in \<open>simp add: type_bytes_def\<close>)
  have "writes ws (mfor (\<lambda>(address, name). mseq (write_u64 address) (write_long_string name)) (sort types))
      (\<forall>t \<in> set types. u64_ok (fst t)) (concat (map type_bytes (sort types)))"
    by (rule writes_cong [OF writes_mfor [where xs = "sort types", OF one]]) simp_all
  from writes_mseq [OF writes_count writes_mseq [OF this writes_u64]]
  show ?thesis
    by (rule writes_cong) (auto simp: types_ok_def types_bytes_def u64_ok_def HEAP_MAGIC_def)
qed

text \<open>Filling in the object count overwrites the four bytes reserved for it.\<close>

lemma backfill:
  assumes "f_content f = pre @ old @ post" and "f_pos f = length pre" and "length new = length old"
  shows "f_content (file_write new f) = pre @ new @ post" "f_pos (file_write new f) = length pre + length old"
  using assms by (simp_all add: file_write_def Let_def)

text \<open>The result of a complete run: everything is on disk, and flushed.\<close>

definition finished :: "bytes \<Rightarrow> heap_writer \<Rightarrow> bool" where
  "finished bs w \<longleftrightarrow> f_content (hw_file w) = bs \<and> f_flushed (hw_file w) \<and>
     (hw_sync w \<longrightarrow> f_synced (hw_file w))"

lemma finish_run:
  assumes "at_end w" and "hw_count_offset w = Some off"
    and "f_content (hw_file w) = pre @ be_enc 4 0 @ post" and "length pre = off"
  shows "if 0 \<le> hw_count w \<and> hw_count w < 2 ^ 32 \<and> types_ok types
    then \<exists>w'. finish types w = (Inr (), w') \<and> hw_sync w' = hw_sync w \<and>
      finished (pre @ be_enc 4 (hw_count w) @ post @ types_bytes types @ be_enc 8 HEAP_MAGIC) w'
    else raises (finish types w)"
proof (cases "0 \<le> hw_count w \<and> hw_count w < 2 ^ 32")
  case False
  then have "raises (write_u32 (hw_count w) w')" for w'
    by (auto simp: write_u32_def MAX_UINT32_def)
  then have "raises (finish types w)"
    using assms(2) by (simp add: finish_def mbind_mget on_file_run raises_mseq)
  with False show ?thesis by auto
next
  case True
  let ?f = "file_seek (f_pos (hw_file w)) (file_write (be_enc 4 (hw_count w)) (file_seek off (hw_file w)))"
  let ?w = "w\<lparr>hw_file := ?f\<rparr>"
  have content: "f_content ?f = pre @ be_enc 4 (hw_count w) @ post"
    using backfill(1) [of "file_seek off (hw_file w)" pre "be_enc 4 0" post "be_enc 4 (hw_count w)"] assms
    by (simp add: file_seek_def)
  have at_end: "at_end ?w"
    using assms content by (simp add: at_end_def file_seek_def)
  have count: "write_u32 (hw_count w) v = (Inr (), v\<lparr>hw_file := file_write (be_enc 4 (hw_count w)) (hw_file v)\<rparr>)" for v
    using True by (simp add: write_u32_def MAX_UINT32_def pack_uint_def py_simps on_file_def)
  let ?tail = "mseq (on_file file_flush) (mbind (mget hw_sync) (\<lambda>sync.
      if sync then on_file file_fsync else mret ()))"
  let ?types = "mseq (write_u32 (int (length types))) (mseq
     (mfor (\<lambda>(address, name). mseq (write_u64 address) (write_long_string name)) (sort types))
     (write_u64 HEAP_MAGIC))"
  have run: "finish types w = mseq ?types ?tail ?w"
    using assms(2) by (simp add: finish_def mbind_mget on_file_run
        mseq_run [of "write_u32 (hw_count w)"] count mseq_assoc)
  have types: "if types_ok types then ?types ?w =
      (Inr (), append_bytes (types_bytes types @ be_enc 8 HEAP_MAGIC) ?w) else raises (?types ?w)"
    using writes_types [of "hw_with_str_repr ?w" types] at_end unfolding writes_def by blast
  show ?thesis
  proof (cases "types_ok types")
    case False
    with types show ?thesis by (simp add: run raises_mseq)
  next
    case True
    with types content show ?thesis using \<open>0 \<le> hw_count w \<and> hw_count w < 2 ^ 32\<close>
      by (simp add: run mseq_run mbind_mget mmodify_def mret_def finished_def on_file_def
          file_flush_def file_fsync_def append_bytes_def)
  qed
qed

section \<open>A complete run of the writer\<close>

text \<open>The calls in the order in which \<^verbatim>\<open>Collector._capture\<close> makes them.\<close>

definition write_artifact ::
  "(pystr, address) pydict \<Rightarrow> pystr option \<Rightarrow> pystr \<Rightarrow> captured_thread list \<Rightarrow> captured_object list \<Rightarrow>
   (address, pystr) pydict \<Rightarrow> (heap_writer, unit) py" where
  "write_artifact well_known created_at now threads objs types =
     mseq (write_header well_known created_at now) (
     mseq (write_threads threads) (
     mseq begin_objects (
     mseq (mfor (\<lambda>obj. write_object obj well_known) objs)
     (finish types))))"

definition artifact_ok ::
  "(pystr, address) pydict \<Rightarrow> captured_thread list \<Rightarrow> captured_object list \<Rightarrow> (address, pystr) pydict \<Rightarrow> bool" where
  "artifact_ok well_known threads objs types \<longleftrightarrow>
     known_ok well_known \<and> threads_ok threads \<and> count_ok objs \<and> (\<forall>obj \<in> set objs. object_ok obj) \<and>
     types_ok types"

lemma begin_objects_run:
  assumes "at_end w"
  shows "begin_objects w = (Inr (), append_bytes (be_enc 4 0) ((append_bytes (be_enc 4 0 @ be_enc 4 0) w)
    \<lparr>hw_count_offset := Some (length (f_content (hw_file w)) + 8)\<rparr>))"
proof -
  have zero: "write_u32 0 w = (Inr (), append_bytes (be_enc 4 0) w)" if "at_end w" for w
    using writes_u32 [of "hw_with_str_repr w" 0] that by (simp add: writes_def)
  have "at_end (v\<lparr>hw_count_offset := off\<rparr>)" if "at_end v" for v off
    using that by (simp add: at_end_def)
  with assms show ?thesis
    by (simp add: begin_objects_def mseq_run zero mmodify_def at_end_def)
qed

lemma write_artifact_run:
  assumes "\<forall>obj \<in> set objs. finite (co_referents obj)" and "w = heap_writer_init empty_file ws sync"
  shows "if artifact_ok well_known threads objs types
    then \<exists>w'. write_artifact well_known created_at now threads objs types w = (Inr (), w') \<and> hw_sync w' = sync \<and>
      finished (artifact_bytes well_known (created_text created_at now) ws threads objs types) w'
    else raises (write_artifact well_known created_at now threads objs types w)"
proof (cases "known_ok well_known \<and> threads_ok threads")
  case False
  have w: "at_end w" "hw_with_str_repr w = ws"
    by (simp_all add: assms(2) at_end_def heap_writer_init_def empty_file_def)
  from writes_mseq [OF writes_header writes_threads] w False
  have "raises (mseq (write_header well_known created_at now) (write_threads threads) w)"
    unfolding writes_def by metis
  then have "raises (write_artifact well_known created_at now threads objs types w)"
    unfolding write_artifact_def mseq_assoc(1) [symmetric] by (simp add: raises_mseq)
  with False show ?thesis by (auto simp: artifact_ok_def)
next
  case True
  let ?created = "created_text created_at now"
  let ?pre = "header_bytes well_known ?created ws @ threads_bytes threads @ be_enc 4 0 @ be_enc 4 0"
  let ?objs = "concat (map (object_bytes well_known ws) objs)"
  let ?w1 = "append_bytes (header_bytes well_known ?created ws @ threads_bytes threads) w"
  let ?w2 = "append_bytes (be_enc 4 0) ((append_bytes (be_enc 4 0 @ be_enc 4 0) ?w1)
    \<lparr>hw_count_offset := Some (length (f_content (hw_file ?w1)) + 8)\<rparr>)"
  let ?w3 = "counted (length objs) (append_bytes ?objs ?w2)"
  have w: "at_end w" "hw_with_str_repr w = ws" "hw_sync w = sync" "hw_count w = 0" "f_content (hw_file w) = []"
    by (simp_all add: assms(2) at_end_def heap_writer_init_def empty_file_def)
  from writes_mseq [OF writes_header writes_threads] w True
  have "mseq (write_header well_known created_at now) (write_threads threads) w = (Inr (), ?w1)"
    unfolding writes_def by metis
  moreover have "begin_objects ?w1 = (Inr (), ?w2)"
    using w by (subst begin_objects_run) simp_all
  moreover have "write_artifact well_known created_at now threads objs types =
      mseq (mseq (write_header well_known created_at now) (write_threads threads))
        (mseq begin_objects (mseq (mfor (\<lambda>obj. write_object obj well_known) objs) (finish types)))"
    by (simp only: write_artifact_def mseq_assoc(1))
  ultimately have run: "write_artifact well_known created_at now threads objs types w =
      mseq (mfor (\<lambda>obj. write_object obj well_known) objs) (finish types) ?w2"
    by (simp only: mseq_step)
  have w2: "at_end ?w2" "hw_with_str_repr ?w2 = ws" "hw_count_offset ?w2 = Some (length ?pre)"
    "f_content (hw_file ?w2) = ?pre @ be_enc 4 0" "hw_count ?w2 = 0" "hw_sync ?w2 = sync"
    using w by (simp_all add: at_end_def append_bytes_def)
  note objs = write_objects_run [OF _ assms(1) w2(1,2), of well_known]
  show ?thesis
  proof (cases "\<forall>obj \<in> set objs. object_ok obj")
    case False
    with objs True w2 have "raises (mfor (\<lambda>obj. write_object obj well_known) objs ?w2)" by simp
    with False show ?thesis by (auto simp: artifact_ok_def run raises_mseq)
  next
    case objs_ok: True
    define w3 where "w3 = ?w3"
    from objs_ok objs True w2 have "mfor (\<lambda>obj. write_object obj well_known) objs ?w2 = (Inr (), w3)"
      by (simp add: w3_def)
    then have run3: "write_artifact well_known created_at now threads objs types w = finish types w3"
      unfolding run by (rule mseq_step)
    have w3: "at_end w3" "hw_count_offset w3 = Some (length ?pre)" "hw_count w3 = int (length objs)"
      "hw_sync w3 = sync" "f_content (hw_file w3) = ?pre @ be_enc 4 0 @ ?objs"
      using w2 by (simp_all add: w3_def)
    from finish_run [OF w3(1,2,5) refl, of types] show ?thesis
      using True objs_ok
      by (simp add: run3 w3(3,4) artifact_ok_def count_ok_def artifact_bytes_def cong: if_cong)
  qed
qed

lemma artifact_framed:
  "take 8 (artifact_bytes well_known created ws threads objs types) = be_enc 8 HEAP_MAGIC"
  "drop (length (artifact_bytes well_known created ws threads objs types) - 8)
     (artifact_bytes well_known created ws threads objs types) = be_enc 8 HEAP_MAGIC"
  "16 \<le> length (artifact_bytes well_known created ws threads objs types)"
  by (simp_all add: artifact_bytes_def header_bytes_def)

lemma artifact_validates:
  "validate_artifact (artifact_bytes well_known created ws threads objs types) = Inr ()"
proof -
  have "be_dec (be_enc 8 HEAP_MAGIC) = HEAP_MAGIC" by (simp add: HEAP_MAGIC_def)
  with artifact_framed(3) [of well_known created ws threads objs types] show ?thesis
    by (simp add: validate_artifact_def artifact_framed not_less)
qed

section \<open>Properties\<close>

text \<open>
  C8: A complete run of the writer (header, threads, \<open>begin_objects\<close>, one \<open>write_object\<close> per
  object, \<open>finish\<close>) on a fresh file returns exactly when every value fits the format, and then the
  file holds the format's bytes with the object count filled in, flushed, synced to disk when
  asked to, and accepted by \<open>validate_artifact\<close>; in every other case it raises.
\<close>

theorem artifact_streamed:
  assumes "\<forall>obj \<in> set objs. finite (co_referents obj)"
  shows "case write_artifact well_known created_at now threads objs types
           (heap_writer_init empty_file with_str_repr sync) of
      (Inr u, w) \<Rightarrow> artifact_ok well_known threads objs types \<and>
        f_content (hw_file w) =
          artifact_bytes well_known (created_text created_at now) with_str_repr threads objs types \<and>
        f_flushed (hw_file w) \<and> (sync \<longrightarrow> f_synced (hw_file w)) \<and>
        validate_artifact (f_content (hw_file w)) = Inr ()
    | (Inl e, w) \<Rightarrow> \<not> artifact_ok well_known threads objs types"
  using write_artifact_run [OF assms refl, where ws = with_str_repr and sync = sync and well_known = well_known and threads = threads and types = types and created_at = created_at and now = now]
  by (auto simp: raises_def finished_def artifact_validates split: if_splits prod.splits sum.splits)

definition demo_known :: "(pystr, address) pydict" where
  "demo_known = zip WELL_KNOWN_TYPE_NAMES [10, 11, 12, 13, 14, 15, 16, 17, 18, 19, 20, 21, 22]"

definition demo_object :: captured_object where
  "demo_object = \<lparr>co_address = 100, co_type_address = 10, co_type_name = lit ''list'', co_shallow_size = 72,
     co_content_kind = KIND_LIST, co_sequence_content = [101, 101], co_dict_content = [],
     co_referents = {101, 102}, co_attributes = [], co_str_repr = []\<rparr>"

lemma demo_known_names [run_simps]:
  "\<forall>n \<in> set WELL_KNOWN_TYPE_NAMES. \<exists>a. map_of demo_known n = Some a \<and> u64_ok a"
  by (simp add: demo_known_def WELL_KNOWN_TYPE_NAMES_def lit_def u64_ok_def)

theorem artifact_streamed_witness:
  "\<exists>w. write_artifact demo_known None (lit ''now'') [] [demo_object] [(10, lit ''list'')]
      (heap_writer_init empty_file True True) = (Inr (), w) \<and> f_synced (hw_file w) \<and>
    validate_artifact (f_content (hw_file w)) = Inr ()"
proof -
  have "artifact_ok demo_known [] [demo_object] [(10, lit ''list'')]"
    using demo_known_names by (simp add: artifact_ok_def known_ok_def threads_ok_def count_ok_def object_ok_def
        types_ok_def u64_ok_def content_ok_def demo_object_def remaining_referents_def container_addresses_def)
  moreover have "\<forall>obj \<in> set [demo_object]. finite (co_referents obj)" by (simp add: demo_object_def)
  ultimately show ?thesis
    using artifact_streamed [where objs = "[demo_object]" and well_known = demo_known and created_at = None
        and now = "lit ''now''" and threads = "[]" and types = "[(10, lit ''list'')]"
        and with_str_repr = True and sync = True]
    by (auto split: prod.splits sum.splits)
qed

end
