(* ===== verification/Collector.thy ===== *)
theory Collector
  imports Channel Heap_Format
begin

text \<open>
  \<^verbatim>\<open>capture/collector/src/pydump/collector.py\<close>: the Collector, which walks the object graph of the
  target through one agent connection and writes the artifact. A \<open>session\<close> is the state of
  \<open>_capture\<close>: the channel, the writer, the sets \<open>scheduled\<close> and \<open>pending\<close>, the type table and the
  counters. \<open>capture\<close> delivers the artifact under its final name or leaves nothing behind.

  The measured times and the resident size in \<open>CaptureStats\<close> are in Profile. The progress callback
  and the warnings printed to standard error are recorded in the state. The files are a map from
  paths (directory and name) to contents, on which opening, renaming and unlinking do not fail but
  for the reasons that the code provides for. The code has no deadline for a whole capture: the loops over
  frames go on as long as the peer sends. Here they are functions, because the unread input is
  finite (Protocol); \<open>endless_roots\<close> and \<open>endless_object\<close> in Delivery show that they read every number of
  frames; \<open>object_phase\<close> and \<open>free_path\<close> are partial functions, where \<open>None\<close> stands
  for not returning.
\<close>

section \<open>State\<close>

record collector =
  cl_nonce :: bytes
  cl_str_repr_len :: int
  cl_dump_attributes :: bool
  cl_batch_size :: int
  cl_progress :: bool

definition collector_init :: "bytes \<Rightarrow> int \<Rightarrow> bool \<Rightarrow> int \<Rightarrow> bool \<Rightarrow> collector res" where
  "collector_init nonce str_repr_len dump_attributes batch_size progress =
     (if length nonce \<noteq> NONCE_SIZE then
        raise ValueError ''nonce must contain {NONCE_SIZE} bytes'' [AInt (int NONCE_SIZE)]
      else Inr \<lparr>cl_nonce = nonce, cl_str_repr_len = str_repr_len, cl_dump_attributes = dump_attributes,
                cl_batch_size = batch_size, cl_progress = progress\<rparr>)"

record capture_stats =
  object_count :: int
  referent_count :: int
  pending_peak :: int
  scheduled_peak :: int
  wire_sent_bytes :: int
  wire_received_bytes :: int
  wire_sent_frames :: int
  wire_received_frames :: int
  bulk_records :: int
  artifact_size :: int

definition capture_stats0 :: capture_stats where
  "capture_stats0 = \<lparr>object_count = 0, referent_count = 0, pending_peak = 0, scheduled_peak = 0,
     wire_sent_bytes = 0, wire_received_bytes = 0, wire_sent_frames = 0, wire_received_frames = 0,
     bulk_records = 0, artifact_size = 0\<rparr>"

record session =
  ss_channel :: framed_socket
  ss_writer :: heap_writer
  ss_scheduled :: "address set"
  ss_pending :: "address list"
  ss_types :: "(address, pystr) pydict"
  ss_completed :: int
  ss_stats :: capture_stats
  ss_warnings :: "pystr list"
  ss_progress :: "(int \<times> int) list"

definition session_init :: "collector \<Rightarrow> sock \<Rightarrow> session" where
  "session_init cfg sk =
     \<lparr>ss_channel = framed_socket_init sk,
      ss_writer = heap_writer_init empty_file (0 \<le> cl_str_repr_len cfg) True,
      ss_scheduled = {}, ss_pending = [], ss_types = [], ss_completed = 0, ss_stats = capture_stats0,
      ss_warnings = [], ss_progress = []\<rparr>"

definition on_channel :: "(framed_socket, 'a) py \<Rightarrow> (session, 'a) py" where
  "on_channel m = (\<lambda>s. case m (ss_channel s) of (r, c) \<Rightarrow> (r, s\<lparr>ss_channel := c\<rparr>))"

definition on_writer :: "(heap_writer, 'a) py \<Rightarrow> (session, 'a) py" where
  "on_writer m = (\<lambda>s. case m (ss_writer s) of (r, w) \<Rightarrow> (r, s\<lparr>ss_writer := w\<rparr>))"

section \<open>Receiving what is expected\<close>

definition expect :: "frame_kind \<Rightarrow> (session, frame) py" where
  "expect expected =
     mbind (on_channel receive) (\<lambda>frame.
     if fkind frame = ERROR then
       mraise PydumpError ''agent failed: {text}'' [AStr (decode_text (fpayload frame))]
     else if fkind frame \<noteq> expected then
       mraise ProtocolError ''expected {expected.name}, received {frame.kind.name}''
         [AInt (kind_code expected), AInt (kind_code (fkind frame))]
     else mret frame)"

definition raise_unexpected :: "frame \<Rightarrow> pystr \<Rightarrow> ('s, 'a) py" where
  "raise_unexpected frame stage =
     (if fkind frame = ERROR then
        mraise PydumpError ''agent failed during {stage}: {text}''
          [AStr stage, AStr (decode_text (fpayload frame))]
      else
        mraise ProtocolError ''received unexpected {frame.kind.name} during {stage}''
          [AInt (kind_code (fkind frame)), AStr stage])"

section \<open>The work list\<close>

definition schedule_one :: "address \<Rightarrow> session \<Rightarrow> session" where
  "schedule_one a s =
     (if a \<noteq> 0 \<and> a \<notin> ss_scheduled s
      then s\<lparr>ss_scheduled := insert a (ss_scheduled s), ss_pending := ss_pending s @ [a]\<rparr> else s)"

definition schedule :: "address list \<Rightarrow> session \<Rightarrow> session" where
  "schedule addresses s =
     (let s = fold schedule_one addresses s in
      s\<lparr>ss_stats := (ss_stats s)\<lparr>
          pending_peak := max (pending_peak (ss_stats s)) (int (length (ss_pending s))),
          scheduled_peak := max (scheduled_peak (ss_stats s)) (int (card (ss_scheduled s)))\<rparr>\<rparr>)"

text \<open>\<open>[pending.pop() for _ in range(min(self._batch_size, len(pending)))]\<close>\<close>

definition take_batch :: "collector \<Rightarrow> session \<Rightarrow> address list \<times> session" where
  "take_batch cfg s =
     (let pending = ss_pending s; n = nat (min (cl_batch_size cfg) (int (length pending))) in
      (take n (rev pending), s\<lparr>ss_pending := take (length pending - n) pending\<rparr>))"

section \<open>The handshake\<close>

definition check_hello :: "collector \<Rightarrow> hello \<Rightarrow> unit res" where
  "check_hello cfg h =
     (if hello_nonce h \<noteq> cl_nonce cfg then
        raise ProtocolError ''agent returned a different session nonce'' []
      else if python_major h \<noteq> 3 \<or> python_minor h < 10 then
        raise ProtocolError ''native agent reported unsupported CPython {major}.{minor}''
          [AInt (python_major h), AInt (python_minor h)]
      else if pointer_size h \<noteq> 8 then
        raise ProtocolError ''unsupported target pointer size {hello.pointer_size}'' [AInt (pointer_size h)]
      else if \<not> little_endian h then raise ProtocolError ''big-endian targets are not supported'' []
      else Inr ())"

text \<open>Up to \<open>begin_objects\<close>; \<open>now\<close> is the text of the current time.\<close>

definition open_session :: "collector \<Rightarrow> pystr \<Rightarrow> (session, address list) py" where
  "open_session cfg now =
     mbind (expect HELLO) (\<lambda>frame.
     mbind (mlift (decode_hello (fpayload frame))) (\<lambda>hello.
     mseq (mlift (check_hello cfg hello)) (
     mbind (mlift (encode_options (cl_str_repr_len cfg, cl_dump_attributes cfg))) (\<lambda>options.
     mseq (on_channel (send HELLO_ACK options)) (
     mbind (expect WELL_KNOWN) (\<lambda>frame.
     mbind (mlift (decode_addresses (fpayload frame))) (\<lambda>well_known_addresses.
     if length well_known_addresses \<noteq> length WELL_KNOWN_TYPE_NAMES then
       mraise ProtocolError ''agent returned {n} well-known types, expected {m}''
         [AInt (int (length well_known_addresses)), AInt (int (length WELL_KNOWN_TYPE_NAMES))]
     else
       mseq (on_writer (write_header (dict_of (zip WELL_KNOWN_TYPE_NAMES well_known_addresses)) None now)) (
       mseq (on_writer (write_threads [])) (
       mseq (on_writer begin_objects) (
       mret well_known_addresses))))))))))"

section \<open>The roots\<close>

function root_loop :: "(session, unit) py" where
  "root_loop s =
     (case on_channel receive s of
        (Inl e, s') \<Rightarrow> (Inl e, s')
      | (Inr frame, s') \<Rightarrow>
          if fkind frame = ROOT_BATCH then
            (case decode_addresses (fpayload frame) of
               Inl e \<Rightarrow> (Inl e, s')
             | Inr addresses \<Rightarrow> root_loop (schedule addresses s'))
          else if fkind frame = ROOTS_DONE then (Inr (), s')
          else raise_unexpected frame (lit ''root enumeration'') s')"
  by pat_completeness auto

lemma on_channel_run: "on_channel m s = (r, s') \<longleftrightarrow> (\<exists>c. m (ss_channel s) = (r, c) \<and> s' = s\<lparr>ss_channel := c\<rparr>)"
  by (auto simp: on_channel_def split: prod.splits)

lemma channel_shrinks:
  "(Inr f, s') = on_channel receive s \<Longrightarrow>
   length (logical_queue (ss_channel s')) < length (logical_queue (ss_channel s))"
  by (drule sym) (auto simp: on_channel_run dest: chan.rcv_shrinks)

lemma fold_schedule_one_frame [simp]:
  "ss_channel (fold schedule_one as s) = ss_channel s" "ss_writer (fold schedule_one as s) = ss_writer s"
  "ss_types (fold schedule_one as s) = ss_types s" "ss_completed (fold schedule_one as s) = ss_completed s"
  "ss_stats (fold schedule_one as s) = ss_stats s"
  by (induction as arbitrary: s) (auto simp: schedule_one_def)

lemma schedule_frame [simp]:
  "ss_channel (schedule as s) = ss_channel s" "ss_writer (schedule as s) = ss_writer s"
  "ss_types (schedule as s) = ss_types s" "ss_completed (schedule as s) = ss_completed s"
  "object_count (ss_stats (schedule as s)) = object_count (ss_stats s)"
  "referent_count (ss_stats (schedule as s)) = referent_count (ss_stats s)"
  by (simp_all add: schedule_def Let_def)

text \<open>Each round takes a frame off the queue of the channel.\<close>

termination root_loop
  by (relation "measure (\<lambda>s. length (logical_queue (ss_channel s)))")
    (simp_all add: channel_shrinks)

declare root_loop.simps [simp del]

definition enumerate_roots :: "address list \<Rightarrow> (session, unit) py" where
  "enumerate_roots well_known_addresses =
     mseq root_loop (mmodify (\<lambda>s. (schedule well_known_addresses s)
       \<lparr>ss_types := dict_of (zip well_known_addresses WELL_KNOWN_TYPE_NAMES)\<rparr>))"

section \<open>One object\<close>

text \<open>The text that stands for an object without a preview.\<close>

definition default_text :: "collector \<Rightarrow> captured_object \<Rightarrow> pystr" where
  "default_text cfg obj =
     take (nat (cl_str_repr_len cfg))
       (lit ''<'' @ co_type_name obj @ lit '' at 0x'' @ hex_text (co_address obj) @ lit ''>'')"

function object_loop :: "collector \<Rightarrow> address \<Rightarrow> captured_object \<Rightarrow> (session, captured_object) py" where
  "object_loop cfg expected_address obj s =
     (case on_channel receive s of
        (Inl e, s') \<Rightarrow> (Inl e, s')
      | (Inr frame, s') \<Rightarrow>
          (case fkind frame of
             REFERENTS \<Rightarrow>
               (case decode_addresses (fpayload frame) of
                  Inl e \<Rightarrow> (Inl e, s')
                | Inr as \<Rightarrow> object_loop cfg expected_address (obj\<lparr>co_referents := co_referents obj \<union> set as\<rparr>) s')
           | SEQUENCE_CONTENT \<Rightarrow>
               (case decode_addresses (fpayload frame) of
                  Inl e \<Rightarrow> (Inl e, s')
                | Inr as \<Rightarrow> object_loop cfg expected_address
                    (obj\<lparr>co_sequence_content := co_sequence_content obj @ as\<rparr>) s')
           | DICT_CONTENT \<Rightarrow>
               (case decode_dict_entries (fpayload frame) of
                  Inl e \<Rightarrow> (Inl e, s')
                | Inr es \<Rightarrow> object_loop cfg expected_address
                    (obj\<lparr>co_dict_content := co_dict_content obj @ es\<rparr>) s')
           | PREVIEW \<Rightarrow>
               object_loop cfg expected_address (obj\<lparr>co_str_repr := decode_text (fpayload frame)\<rparr>) s'
           | WARNING \<Rightarrow>
               object_loop cfg expected_address obj
                 (s'\<lparr>ss_warnings := ss_warnings s' @ [decode_text (fpayload frame)]\<rparr>)
           | OBJECT_END \<Rightarrow>
               (Inr (if 0 \<le> cl_str_repr_len cfg \<and> co_str_repr obj = []
                     then obj\<lparr>co_str_repr := default_text cfg obj\<rparr> else obj), s')
           | _ \<Rightarrow> raise_unexpected frame (lit ''object 0x'' @ hex_text expected_address) s'))"
  by pat_completeness auto
termination
  by (relation "measure (\<lambda>(cfg, a, obj, s). length (logical_queue (ss_channel s)))")
    (simp_all add: channel_shrinks)

declare object_loop.simps [simp del]

definition receive_object :: "collector \<Rightarrow> address \<Rightarrow> (session, captured_object) py" where
  "receive_object cfg expected_address =
     mbind (expect OBJECT_BEGIN) (\<lambda>frame.
     mbind (mlift (decode_object_begin (fpayload frame))) (\<lambda>b.
     if ob_address b \<noteq> expected_address then
       mraise ProtocolError ''agent returned object 0x{begin.address:x}, expected 0x{expected_address:x}''
         [AStr (hex_text (ob_address b)), AStr (hex_text expected_address)]
     else
       (case content_kind_of (ob_content_kind b) of
          None \<Rightarrow>
            mraise ProtocolError ''object 0x{begin.address:x} has unknown content kind {begin.content_kind}''
              [AStr (hex_text (ob_address b)), AInt (ob_content_kind b)]
        | Some kind \<Rightarrow>
            object_loop cfg expected_address
              \<lparr>co_address = ob_address b, co_type_address = ob_type_address b, co_type_name = ob_type_name b,
               co_shallow_size = ob_shallow_size b, co_content_kind = kind, co_sequence_content = [],
               co_dict_content = [], co_referents = {}, co_attributes = [], co_str_repr = []\<rparr>)))"

section \<open>The object phase\<close>

text \<open>What \<open>_capture\<close> does with a received object.\<close>

definition schedule_object :: "set_order \<Rightarrow> captured_object \<Rightarrow> session \<Rightarrow> session" where
  "schedule_object it obj s =
     (let s = s\<lparr>ss_types := dict_set (co_type_address obj) (co_type_name obj) (ss_types s)\<rparr>;
          s = schedule (it (co_referents obj)) s;
          s = (if co_content_kind obj = KIND_DICT
               then fold (\<lambda>(key, val). schedule [key, val]) (co_dict_content obj) s
               else schedule (co_sequence_content obj) s);
          s = schedule (map attr_address (co_attributes obj)) s;
          s = schedule [co_type_address obj] s
      in s\<lparr>ss_completed := ss_completed s + 1,
           ss_stats := (ss_stats s)\<lparr>object_count := ss_completed s + 1,
             referent_count := referent_count (ss_stats s) + int (card (co_referents obj))\<rparr>\<rparr>)"

definition capture_object :: "set_order \<Rightarrow> collector \<Rightarrow> (pystr, address) pydict \<Rightarrow> address \<Rightarrow> (session, unit) py" where
  "capture_object it cfg well_known expected_address =
     mbind (receive_object cfg expected_address) (\<lambda>obj.
     mseq (on_writer (write_object obj well_known)) (
     mmodify (schedule_object it obj)))"

definition report_progress :: "collector \<Rightarrow> (session, unit) py" where
  "report_progress cfg =
     mmodify (\<lambda>s. if cl_progress cfg
       then s\<lparr>ss_progress := ss_progress s @ [(ss_completed s, int (length (ss_pending s)))]\<rparr> else s)"

definition capture_batch :: "set_order \<Rightarrow> collector \<Rightarrow> (pystr, address) pydict \<Rightarrow> (session, unit) py" where
  "capture_batch it cfg well_known s =
     (case take_batch cfg s of (batch, s) \<Rightarrow>
        mbind (mlift (encode_addresses batch)) (\<lambda>payload.
        mseq (on_channel (send REQUEST_OBJECTS payload)) (
        mseq (mfor (capture_object it cfg well_known) batch) (
        mbind (expect BATCH_DONE) (\<lambda>_.
        report_progress cfg)))) s)"

partial_function (option) object_phase ::
  "set_order \<Rightarrow> collector \<Rightarrow> (pystr, address) pydict \<Rightarrow> session \<Rightarrow> (unit res \<times> session) option" where
  "object_phase it cfg well_known s =
     (if ss_pending s = [] then Some (Inr (), s)
      else
        (case capture_batch it cfg well_known s of
           (Inl e, s') \<Rightarrow> Some (Inl e, s')
         | (Inr _, s') \<Rightarrow> object_phase it cfg well_known s'))"

definition close_session :: "(session, int) py" where
  "close_session =
     mseq (on_channel (send FINISH [])) (
     mbind (expect COMPLETE) (\<lambda>_.
     mbind (mget ss_types) (\<lambda>types.
     mseq (on_writer (finish types)) (
     mget ss_completed))))"

text \<open>The method \<open>_capture\<close>.\<close>

definition capture_session :: "set_order \<Rightarrow> collector \<Rightarrow> pystr \<Rightarrow> session \<Rightarrow> (int res \<times> session) option" where
  "capture_session it cfg now s =
     (case mbind (open_session cfg now) (\<lambda>addresses. mseq (enumerate_roots addresses) (mret addresses)) s of
        (Inl e, s) \<Rightarrow> Some (Inl e, s)
      | (Inr addresses, s) \<Rightarrow>
          (case object_phase it cfg (dict_of (zip WELL_KNOWN_TYPE_NAMES addresses)) s of
             None \<Rightarrow> None
           | Some (Inl e, s) \<Rightarrow> Some (Inl e, s)
           | Some (Inr _, s) \<Rightarrow> Some (close_session s)))"

section \<open>Delivery\<close>

type_synonym path = "pystr \<times> pystr"
type_synonym files = "path \<rightharpoonup> bytes"

definition numbered :: "path \<Rightarrow> nat \<Rightarrow> path" where
  "numbered requested index = (fst requested, snd requested @ lit ''.'' @ decimal_digits index)"

partial_function (option) free_path :: "files \<Rightarrow> path \<Rightarrow> nat \<Rightarrow> path option" where
  "free_path fs requested index =
     (if fs (numbered requested index) = None then Some (numbered requested index)
      else free_path fs requested (Suc index))"

definition available_output_path :: "files \<Rightarrow> path \<Rightarrow> path option" where
  "available_output_path fs requested =
     (if fs requested = None then Some requested else free_path fs requested 0)"

definition partial_path :: "path \<Rightarrow> bytes \<Rightarrow> path" where
  "partial_path final nonce =
     (fst final, lit ''.'' @ snd final @ lit ''.'' @ nonce_hex nonce @ lit ''.partial'')"

text \<open>The \<open>finally\<close> clause.\<close>

definition close_stats :: "session \<Rightarrow> capture_stats" where
  "close_stats s =
     (let wire = fs_stats (ss_channel s) in
      (ss_stats s)\<lparr>wire_sent_bytes := sent_bytes wire, wire_received_bytes := received_bytes wire,
        wire_sent_frames := sent_frames wire, wire_received_frames := received_frames wire,
        bulk_records := received_records wire\<rparr>)"

record delivery =
  dl_result :: "(path \<times> int) res"
  dl_stats :: capture_stats
  dl_progress :: "(int \<times> int) list"
  dl_files :: files

text \<open>
  \<open>open("xb")\<close> raises if the partial file exists. Every exception unlinks the partial file, and
  \<open>os.replace\<close> moves it over the final path.
\<close>

definition capture :: "set_order \<Rightarrow> collector \<Rightarrow> pystr \<Rightarrow> sock \<Rightarrow> files \<Rightarrow> path \<Rightarrow> delivery option" where
  "capture it cfg now sk fs output =
     (case available_output_path fs output of
        None \<Rightarrow> None
      | Some final \<Rightarrow>
          let temporary = partial_path final (cl_nonce cfg); s = session_init cfg sk;
              failed = (\<lambda>e s. Some \<lparr>dl_result = Inl e, dl_stats = close_stats s,
                dl_progress = ss_progress s, dl_files = fs(temporary := None)\<rparr>)
          in
          if fs temporary \<noteq> None then
            failed (Exn FileExistsError ''file exists: {temporary}'' [AStr (snd temporary)]) s
          else
            (case capture_session it cfg now s of
               None \<Rightarrow> None
             | Some (Inl e, s) \<Rightarrow> failed e s
             | Some (Inr n, s) \<Rightarrow>
                 let content = f_content (hw_file (ss_writer s)) in
                 (case validate_artifact content of
                    Inl e \<Rightarrow> failed e s
                  | Inr _ \<Rightarrow> Some \<lparr>dl_result = Inr (final, n),
                      dl_stats = close_stats (s\<lparr>ss_stats := (ss_stats s)\<lparr>artifact_size := int (length content)\<rparr>\<rparr>),
                      dl_progress = ss_progress s, dl_files = fs(temporary := None, final \<mapsto> content)\<rparr>)))"

end
