(* ===== verification/Collector_Laws.thy ===== *)
theory Collector_Laws
  imports Collector
begin

text \<open>
  What the Collector's operations do to a session. \<open>extends\<close> says which addresses a step
  schedules, \<open>quiet\<close> that a step only reads from the channel and prints warnings, \<open>work_inv\<close> is
  the invariant of the work list: every scheduled address is either written, or in the batch that
  has been requested, or pending, and in only one of these. It bounds the number of objects, so
  that \<open>object_phase\<close> returns, and says what has been written when it does.
\<close>

section \<open>Scheduling\<close>

definition extends :: "address set \<Rightarrow> session \<Rightarrow> session \<Rightarrow> bool" where
  "extends A s s' \<longleftrightarrow>
     ss_scheduled s' = ss_scheduled s \<union> (A - {0}) \<and>
     (\<exists>new. ss_pending s' = ss_pending s @ new \<and> distinct new \<and> set new = A - {0} - ss_scheduled s) \<and>
     ss_writer s' = ss_writer s \<and> ss_completed s' = ss_completed s \<and> ss_types s' = ss_types s \<and>
     object_count (ss_stats s') = object_count (ss_stats s) \<and>
     referent_count (ss_stats s') = referent_count (ss_stats s)"

lemma extends_refl: "extends {} s s"
  by (simp add: extends_def)

lemma extends_trans:
  assumes "extends A s t" and "extends B t u"
  shows "extends (A \<union> B) s u"
proof -
  obtain new1 new2 where new: "ss_pending t = ss_pending s @ new1" "distinct new1"
    "set new1 = A - {0} - ss_scheduled s" "ss_pending u = ss_pending t @ new2" "distinct new2"
    "set new2 = B - {0} - ss_scheduled t" using assms by (auto simp: extends_def)
  have t: "ss_scheduled t = ss_scheduled s \<union> (A - {0})" using assms(1) by (simp add: extends_def)
  have "ss_pending u = ss_pending s @ (new1 @ new2) \<and> distinct (new1 @ new2) \<and>
      set (new1 @ new2) = A \<union> B - {0} - ss_scheduled s"
    using new t by auto
  then have "\<exists>new. ss_pending u = ss_pending s @ new \<and> distinct new \<and> set new = A \<union> B - {0} - ss_scheduled s"
    by blast
  with assms show ?thesis by (simp add: extends_def Un_Diff sup_assoc)
qed

lemma extends_one: "extends {a} s (schedule_one a s)"
  by (auto simp: extends_def schedule_one_def)

lemma extends_fold: "(\<And>x s. x \<in> set xs \<Longrightarrow> extends (A x) s (f x s)) \<Longrightarrow> extends (\<Union>x \<in> set xs. A x) s (fold f xs s)"
proof (induction xs arbitrary: s)
  case Nil
  show ?case by (simp add: extends_refl)
next
  case (Cons x xs)
  have "extends (A x \<union> (\<Union>y \<in> set xs. A y)) s (fold f xs (f x s))"
    by (rule extends_trans [OF Cons.prems Cons.IH]) (simp_all add: Cons.prems)
  then show ?case by simp
qed

lemma extends_schedule: "extends (set as) s (schedule as s)"
proof -
  have "extends (set as) s (fold schedule_one as s)"
    using extends_fold [of as "\<lambda>a. {a}" schedule_one s] extends_one by simp
  then show ?thesis by (simp add: extends_def schedule_def Let_def)
qed

text \<open>The addresses that an object mentions.\<close>

definition mentions :: "captured_object \<Rightarrow> address set" where
  "mentions obj =
     co_referents obj \<union>
     (if co_content_kind obj = KIND_DICT
      then fst ` set (co_dict_content obj) \<union> snd ` set (co_dict_content obj)
      else set (co_sequence_content obj)) \<union>
     attr_address ` set (co_attributes obj) \<union> {co_type_address obj}"

lemma extends_entries:
  "extends (fst ` set es \<union> snd ` set es) s (fold (\<lambda>(key, val). schedule [key, val]) es s)"
proof -
  have "extends (\<Union>e \<in> set es. {fst e, snd e}) s (fold (\<lambda>(key, val). schedule [key, val]) es s)"
    by (rule extends_fold) (use extends_schedule [of "[_, _]"] in \<open>force split: prod.splits\<close>)
  moreover have "(\<Union>e \<in> set es. {fst e, snd e}) = fst ` set es \<union> snd ` set es" by auto
  ultimately show ?thesis by simp
qed

lemma schedule_object_run:
  assumes "iterates it" and "finite (co_referents obj)"
  shows "\<exists>t. extends (mentions obj) (s\<lparr>ss_types := dict_set (co_type_address obj) (co_type_name obj) (ss_types s)\<rparr>) t \<and>
    schedule_object it obj s = t\<lparr>ss_completed := ss_completed s + 1,
      ss_stats := (ss_stats t)\<lparr>object_count := ss_completed s + 1,
        referent_count := referent_count (ss_stats s) + int (card (co_referents obj))\<rparr>\<rparr>"
proof -
  let ?s = "s\<lparr>ss_types := dict_set (co_type_address obj) (co_type_name obj) (ss_types s)\<rparr>"
  define t1 where "t1 = schedule (it (co_referents obj)) ?s"
  define t2 where "t2 = (if co_content_kind obj = KIND_DICT
    then fold (\<lambda>(key, val). schedule [key, val]) (co_dict_content obj) t1
    else schedule (co_sequence_content obj) t1)"
  define t3 where "t3 = schedule (map attr_address (co_attributes obj)) t2"
  define t where "t = schedule [co_type_address obj] t3"
  have 1: "extends (co_referents obj) ?s t1"
    unfolding t1_def using extends_schedule [of "it (co_referents obj)" ?s] iteratesD(1) [OF assms] by simp
  have 2: "extends (if co_content_kind obj = KIND_DICT
      then fst ` set (co_dict_content obj) \<union> snd ` set (co_dict_content obj)
      else set (co_sequence_content obj)) t1 t2"
    unfolding t2_def by (simp add: extends_entries extends_schedule)
  have 3: "extends (attr_address ` set (co_attributes obj)) t2 t3"
    unfolding t3_def using extends_schedule [of "map attr_address (co_attributes obj)"] by simp
  have 4: "extends {co_type_address obj} t3 t"
    unfolding t_def using extends_schedule [of "[co_type_address obj]"] by simp
  have "extends (mentions obj) ?s t"
    unfolding mentions_def by (rule extends_trans [OF extends_trans [OF extends_trans [OF 1 2] 3] 4])
  moreover from this have "ss_completed t = ss_completed s" "referent_count (ss_stats t) = referent_count (ss_stats s)"
    by (simp_all add: extends_def)
  moreover have "schedule_object it obj s = t\<lparr>ss_completed := ss_completed t + 1,
      ss_stats := (ss_stats t)\<lparr>object_count := ss_completed t + 1,
        referent_count := referent_count (ss_stats t) + int (card (co_referents obj))\<rparr>\<rparr>"
    by (simp only: schedule_object_def Let_def t_def t3_def t2_def t1_def)
  ultimately show ?thesis by auto
qed

section \<open>Receiving\<close>

definition quiet :: "session \<Rightarrow> session \<Rightarrow> bool" where
  "quiet s s' \<longleftrightarrow>
     ss_writer s' = ss_writer s \<and> ss_scheduled s' = ss_scheduled s \<and> ss_pending s' = ss_pending s \<and>
     ss_types s' = ss_types s \<and> ss_completed s' = ss_completed s \<and> ss_stats s' = ss_stats s"

lemma quiet_refl: "quiet s s"
  by (simp add: quiet_def)

lemma quiet_trans: "quiet s t \<Longrightarrow> quiet t u \<Longrightarrow> quiet s u"
  by (simp add: quiet_def)

lemma quietD:
  assumes "quiet s s'"
  shows "ss_writer s' = ss_writer s" "ss_scheduled s' = ss_scheduled s" "ss_pending s' = ss_pending s"
    "ss_types s' = ss_types s" "ss_completed s' = ss_completed s" "ss_stats s' = ss_stats s"
  using assms by (simp_all add: quiet_def)

lemma on_channel_quiet: "on_channel m s = (r, s') \<Longrightarrow> quiet s s'"
  by (auto simp: on_channel_run quiet_def)

lemma on_channel_receive: "on_channel receive s = (Inr f, s') \<Longrightarrow>
   quiet s s' \<and> logical_queue (ss_channel s) = f # logical_queue (ss_channel s')"
  by (auto simp: on_channel_run quiet_def dest: chan.rcv_Inr)

lemma expect_Inr:
  assumes "expect k s = (Inr f, s')"
  shows "fkind f = k \<and> quiet s s' \<and> logical_queue (ss_channel s) = f # logical_queue (ss_channel s')"
proof -
  obtain g t where "on_channel receive s = (Inr g, t)" "fkind g = k" "f = g" "s' = t"
    using assms by (auto simp: expect_def mbind_Inr atomic_run split: if_splits)
  then show ?thesis by (auto dest: on_channel_receive)
qed

lemma raise_unexpected_Inl [simp]: "raise_unexpected f stage s \<noteq> (Inr x, s')"
  by (simp add: raise_unexpected_def py_simps)

definition object_valid :: "captured_object \<Rightarrow> bool" where
  "object_valid obj \<longleftrightarrow> finite (co_referents obj) \<and> co_attributes obj = [] \<and>
     list_all address_ok (co_sequence_content obj) \<and>
     (\<forall>(key, val) \<in> set (co_dict_content obj). address_ok key \<and> address_ok val) \<and>
     (\<forall>a \<in> co_referents obj. address_ok a) \<and> address_ok (co_type_address obj)"

lemma object_valid_mentions: "object_valid obj \<Longrightarrow> a \<in> mentions obj \<Longrightarrow> address_ok a"
  by (auto simp: object_valid_def mentions_def list_all_iff split: if_splits)

lemma decode_addresses_ok: "decode_addresses p = Inr as \<Longrightarrow> list_all address_ok as"
  by (simp add: decode_addresses_Inr)

lemma decode_entries_ok:
  assumes "decode_dict_entries p = Inr es"
  shows "\<forall>(key, val) \<in> set es. address_ok key \<and> address_ok val"
  using assms by (auto simp: decode_dict_entries_Inr encode_addresses_Inr list_all_iff)

lemma decode_begin_ok:
  assumes "decode_object_begin p = Inr b"
  shows "address_ok (ob_address b) \<and> address_ok (ob_type_address b) \<and>
    0 \<le> ob_shallow_size b \<and> ob_shallow_size b < 2 ^ 32"
proof -
  have "address_ok (be_dec (take 8 q))" for q
    using be_dec_bounds [of "take 8 q"] power_increasing [of "length (take 8 q)" 8 "256 :: int"]
    by (auto simp: address_ok_def)
  moreover have "0 \<le> be_dec (take 4 q) \<and> be_dec (take 4 q) < 2 ^ 32" for q
    using be_dec_bounds [of "take 4 q"] power_increasing [of "length (take 4 q)" 4 "256 :: int"] by auto
  ultimately show ?thesis using assms by (auto simp: decode_object_begin_def Let_def split: if_splits)
qed


text \<open>An object as the loop builds it: what it mentions is valid, and its identity stays.\<close>

definition same_identity :: "captured_object \<Rightarrow> captured_object \<Rightarrow> bool" where
  "same_identity o1 o2 \<longleftrightarrow> co_address o2 = co_address o1 \<and> co_type_address o2 = co_type_address o1 \<and>
     co_type_name o2 = co_type_name o1 \<and> co_content_kind o2 = co_content_kind o1 \<and>
     co_shallow_size o2 = co_shallow_size o1"

lemma object_loop_Inr:
  assumes "object_loop cfg a obj s = (Inr result, s')" and "object_valid obj"
  shows "quiet s s' \<and> object_valid result \<and> same_identity obj result"
  using assms
proof (induction cfg a obj s rule: object_loop.induct)
  case (1 cfg a obj s)
  from 1(6) obtain f t where rcv: "on_channel receive s = (Inr f, t)"
    by (subst (asm) object_loop.simps) (auto split: prod.splits sum.splits)
  then have quiet: "quiet s t" by (simp add: on_channel_receive)
  note run = 1(6) [unfolded object_loop.simps [of cfg a obj s] rcv prod.case sum.case]
  note IH = 1(1-5) [OF rcv [symmetric] refl]
  have step: ?case if "quiet t s' \<and> object_valid result \<and> same_identity o1 result" "same_identity obj o1" for o1
    using that quiet_trans [OF quiet] by (simp add: same_identity_def)
  show ?case
  proof (cases "fkind f")
    case REFERENTS
    with run obtain as where dec: "decode_addresses (fpayload f) = Inr as" by (auto split: sum.splits)
    have "object_valid (obj\<lparr>co_referents := co_referents obj \<union> set as\<rparr>)"
      using 1(7) decode_addresses_ok [OF dec] by (auto simp: object_valid_def list_all_iff)
    with IH(1) [OF REFERENTS dec] run REFERENTS dec show ?thesis
      by (intro step [of "obj\<lparr>co_referents := co_referents obj \<union> set as\<rparr>"]) (simp_all add: same_identity_def)
  next
    case SEQUENCE_CONTENT
    with run obtain as where dec: "decode_addresses (fpayload f) = Inr as" by (auto split: sum.splits)
    have "object_valid (obj\<lparr>co_sequence_content := co_sequence_content obj @ as\<rparr>)"
      using 1(7) decode_addresses_ok [OF dec] by (simp add: object_valid_def)
    with IH(2) [OF SEQUENCE_CONTENT dec] run SEQUENCE_CONTENT dec show ?thesis
      by (intro step [of "obj\<lparr>co_sequence_content := co_sequence_content obj @ as\<rparr>"]) (simp_all add: same_identity_def)
  next
    case DICT_CONTENT
    with run obtain es where dec: "decode_dict_entries (fpayload f) = Inr es" by (auto split: sum.splits)
    have "object_valid (obj\<lparr>co_dict_content := co_dict_content obj @ es\<rparr>)"
      using 1(7) decode_entries_ok [OF dec] by (auto simp: object_valid_def)
    with IH(3) [OF DICT_CONTENT dec] run DICT_CONTENT dec show ?thesis
      by (intro step [of "obj\<lparr>co_dict_content := co_dict_content obj @ es\<rparr>"]) (simp_all add: same_identity_def)
  next
    case PREVIEW
    have "object_valid (obj\<lparr>co_str_repr := decode_text (fpayload f)\<rparr>)"
      using 1(7) by (simp add: object_valid_def)
    with IH(4) [OF PREVIEW] run PREVIEW show ?thesis
      by (intro step [of "obj\<lparr>co_str_repr := decode_text (fpayload f)\<rparr>"]) (simp_all add: same_identity_def)
  next
    case WARNING
    let ?t = "t\<lparr>ss_warnings := ss_warnings t @ [decode_text (fpayload f)]\<rparr>"
    have "quiet ?t s' \<and> object_valid result \<and> same_identity obj result"
      using IH(5) [OF WARNING] run WARNING 1(7) by simp
    moreover from this have "quiet t s'" by (simp add: quiet_def)
    ultimately show ?thesis using quiet_trans [OF quiet] by blast
  next
    case OBJECT_END
    with run 1(7) quiet show ?thesis by (auto simp: object_valid_def same_identity_def split: if_splits)
  qed (use run in \<open>simp_all add: split: if_splits\<close>)
qed

lemma receive_object_Inr:
  assumes "receive_object cfg a s = (Inr obj, s')"
  shows "quiet s s' \<and> object_valid obj \<and> co_address obj = a \<and> address_ok a \<and>
    0 \<le> co_shallow_size obj \<and> co_shallow_size obj < 2 ^ 32"
proof -
  from assms obtain f t b kind where f: "expect OBJECT_BEGIN s = (Inr f, t)" and
    b: "decode_object_begin (fpayload f) = Inr b" "ob_address b = a" and
    run: "object_loop cfg a \<lparr>co_address = ob_address b, co_type_address = ob_type_address b,
       co_type_name = ob_type_name b, co_shallow_size = ob_shallow_size b, co_content_kind = kind,
       co_sequence_content = [], co_dict_content = [], co_referents = {}, co_attributes = [], co_str_repr = []\<rparr> t =
       (Inr obj, s')"
    by (auto simp: receive_object_def mbind_Inr atomic_run split: if_splits option.splits)
  have "object_valid \<lparr>co_address = ob_address b, co_type_address = ob_type_address b,
       co_type_name = ob_type_name b, co_shallow_size = ob_shallow_size b, co_content_kind = kind,
       co_sequence_content = [], co_dict_content = [], co_referents = {}, co_attributes = [], co_str_repr = []\<rparr>"
    using decode_begin_ok [OF b(1)] by (simp add: object_valid_def)
  from object_loop_Inr [OF run this] b(2) expect_Inr [OF f] decode_begin_ok [OF b(1)] show ?thesis
    by (auto simp: same_identity_def intro: quiet_trans)
qed

section \<open>The work list\<close>

text \<open>The addresses reached from \<open>start\<close> through what the objects mention.\<close>

inductive_set reached :: "captured_object set \<Rightarrow> address set \<Rightarrow> address set"
  for objs :: "captured_object set" and start :: "address set"
where
  start: "a \<in> start \<Longrightarrow> a \<noteq> 0 \<Longrightarrow> a \<in> reached objs start"
| mention: "obj \<in> objs \<Longrightarrow> co_address obj \<in> reached objs start \<Longrightarrow> a \<in> mentions obj \<Longrightarrow> a \<noteq> 0 \<Longrightarrow>
    a \<in> reached objs start"

lemma reached_mono: "a \<in> reached objs start \<Longrightarrow> objs \<subseteq> objs' \<Longrightarrow> a \<in> reached objs' start"
  by (induction rule: reached.induct) (auto intro: reached.intros)

definition work_inv :: "address set \<Rightarrow> captured_object list \<Rightarrow> address list \<Rightarrow> session \<Rightarrow> bool" where
  "work_inv start objs rest s \<longleftrightarrow>
     distinct (map co_address objs @ rest @ ss_pending s) \<and>
     ss_scheduled s = set (map co_address objs @ rest @ ss_pending s) \<and>
     (\<forall>a \<in> ss_scheduled s. address_ok a \<and> a \<noteq> 0) \<and>
     start - {0} \<subseteq> ss_scheduled s \<and> (\<forall>obj \<in> set objs. mentions obj - {0} \<subseteq> ss_scheduled s) \<and>
     ss_scheduled s \<subseteq> reached (set objs) start \<and>
     (\<forall>obj \<in> set objs. object_valid obj \<and> co_type_address obj \<in> fst ` set (ss_types s)) \<and>
     ss_completed s = int (length objs) \<and> object_count (ss_stats s) = int (length objs) \<and>
     referent_count (ss_stats s) = sum_list (map (\<lambda>obj. int (card (co_referents obj))) objs)"

lemma work_invD:
  assumes "work_inv start objs rest s"
  shows "distinct (map co_address objs @ rest @ ss_pending s)"
    and "ss_scheduled s = set (map co_address objs @ rest @ ss_pending s)"
    and "a \<in> ss_scheduled s \<Longrightarrow> address_ok a \<and> a \<noteq> 0"
    and "start - {0} \<subseteq> ss_scheduled s" and "obj \<in> set objs \<Longrightarrow> mentions obj - {0} \<subseteq> ss_scheduled s"
    and "a \<in> ss_scheduled s \<Longrightarrow> a \<in> reached (set objs) start"
    and "obj \<in> set objs \<Longrightarrow> object_valid obj \<and> co_type_address obj \<in> fst ` set (ss_types s)"
    and "ss_completed s = int (length objs)" and "object_count (ss_stats s) = int (length objs)"
    and "referent_count (ss_stats s) = sum_list (map (\<lambda>obj. int (card (co_referents obj))) objs)"
  using assms unfolding work_inv_def by blast+

lemma work_invI:
  assumes "distinct (map co_address objs @ rest @ ss_pending s)"
    and "ss_scheduled s = set (map co_address objs @ rest @ ss_pending s)"
    and "\<And>a. a \<in> ss_scheduled s \<Longrightarrow> address_ok a \<and> a \<noteq> 0"
    and "start - {0} \<subseteq> ss_scheduled s" and "\<And>obj. obj \<in> set objs \<Longrightarrow> mentions obj - {0} \<subseteq> ss_scheduled s"
    and "\<And>a. a \<in> ss_scheduled s \<Longrightarrow> a \<in> reached (set objs) start"
    and "\<And>obj. obj \<in> set objs \<Longrightarrow> object_valid obj \<and> co_type_address obj \<in> fst ` set (ss_types s)"
    and "ss_completed s = int (length objs)" and "object_count (ss_stats s) = int (length objs)"
    and "referent_count (ss_stats s) = sum_list (map (\<lambda>obj. int (card (co_referents obj))) objs)"
  shows "work_inv start objs rest s"
  unfolding work_inv_def using assms by blast

text \<open>The writer's table of the well-known types, and the types seen so far.\<close>

abbreviation known_types :: "address list \<Rightarrow> (pystr, address) pydict" where
  "known_types known \<equiv> dict_of (zip WELL_KNOWN_TYPE_NAMES known)"

definition type_table :: "address list \<Rightarrow> captured_object list \<Rightarrow> (address, pystr) pydict" where
  "type_table known objs =
     fold (\<lambda>obj. dict_set (co_type_address obj) (co_type_name obj)) objs
       (dict_of (zip known WELL_KNOWN_TYPE_NAMES))"

lemma type_table_snoc:
  "type_table known (objs @ [obj]) = dict_set (co_type_address obj) (co_type_name obj) (type_table known objs)"
  by (simp add: type_table_def)

lemma type_table_keys:
  "length known = length WELL_KNOWN_TYPE_NAMES \<Longrightarrow>
   dict_ok (type_table known objs) \<and> fst ` set (type_table known objs) = set known \<union> co_type_address ` set objs"
proof (induction objs rule: rev_induct)
  case Nil
  have "fst ` set (dict_of kvs) = fst ` set kvs" for kvs :: "(address \<times> pystr) list"
    by (induction kvs rule: rev_induct) (simp_all add: dict_of_snoc keys_dict_set, simp add: dict_of_def)
  with Nil show ?case by (simp add: type_table_def flip: set_map)
next
  case (snoc obj objs)
  then show ?case by (simp add: type_table_snoc keys_dict_set)
qed

text \<open>The stage of the writer: it has written the objects one by one.\<close>

definition wrote :: "(pystr, address) pydict \<Rightarrow> heap_writer \<Rightarrow> captured_object list \<Rightarrow> session \<Rightarrow> bool" where
  "wrote known w0 objs s \<longleftrightarrow> mfor (\<lambda>obj. write_object obj known) objs w0 = (Inr (), ss_writer s)"

lemma mfor_append: "mfor f (xs @ ys) = mseq (mfor f xs) (mfor f ys)"
  by (induction xs) (simp_all add: mseq_assoc mbind_simps(4))

lemma wrote_snoc:
  assumes "wrote known w0 objs s" and "write_object obj known (ss_writer s) = (Inr (), ss_writer s')"
  shows "wrote known w0 (objs @ [obj]) s'"
  using assms by (simp add: wrote_def mfor_append mseq_run atomic_run)

lemma work_inv_object:
  assumes inv: "work_inv start objs (a # rest) s" and obj: "object_valid obj" "co_address obj = a"
    and it: "iterates it" and writer: "ss_writer s = w"
  shows "work_inv start (objs @ [obj]) rest (schedule_object it obj s) \<and> ss_writer (schedule_object it obj s) = w"
proof -
  note D = work_invD [OF inv]
  let ?s = "s\<lparr>ss_types := dict_set (co_type_address obj) (co_type_name obj) (ss_types s)\<rparr>"
  have fin: "finite (co_referents obj)" using obj(1) by (simp add: object_valid_def)
  obtain t where t: "extends (mentions obj) ?s t" and
    run: "schedule_object it obj s = t\<lparr>ss_completed := ss_completed s + 1,
      ss_stats := (ss_stats t)\<lparr>object_count := ss_completed s + 1,
        referent_count := referent_count (ss_stats s) + int (card (co_referents obj))\<rparr>\<rparr>"
    using schedule_object_run [OF it fin, of s] by blast
  obtain new where new: "ss_pending t = ss_pending s @ new" "distinct new"
    "set new = mentions obj - {0} - ss_scheduled s"
    and sched: "ss_scheduled t = ss_scheduled s \<union> (mentions obj - {0})"
    and same: "ss_types t = dict_set (co_type_address obj) (co_type_name obj) (ss_types s)" "ss_writer t = ss_writer s"
    using t by (auto simp: extends_def)
  let ?t = "schedule_object it obj s"
  have fields: "ss_pending ?t = ss_pending s @ new" "ss_scheduled ?t = ss_scheduled t"
    "ss_types ?t = ss_types t" "ss_writer ?t = ss_writer s" "ss_completed ?t = ss_completed s + 1"
    "object_count (ss_stats ?t) = ss_completed s + 1"
    "referent_count (ss_stats ?t) = referent_count (ss_stats s) + int (card (co_referents obj))"
    using new(1) same(2) by (simp_all add: run)
  have new_inv: "distinct (map co_address (objs @ [obj]) @ rest @ ss_pending ?t)"
    using D(1) new(2,3) unfolding D(2) fields(1) obj(2) [symmetric] by auto
  have part: "ss_scheduled ?t = set (map co_address (objs @ [obj]) @ rest @ ss_pending ?t)"
    unfolding fields(1,2) sched using new(3) D(2) obj(2) by auto
  have reach: "b \<in> reached (set (objs @ [obj])) start" if "b \<in> ss_scheduled ?t" for b
  proof (cases "b \<in> ss_scheduled s")
    case True
    then have "b \<in> reached (set objs) start" by (rule D(6))
    then show ?thesis by (rule reached_mono) auto
  next
    case False
    with that have b: "b \<in> mentions obj" "b \<noteq> 0" unfolding fields(2) sched by blast+
    have "a \<in> reached (set objs) start" by (rule D(6)) (simp add: D(2))
    then have "co_address obj \<in> reached (set (objs @ [obj])) start"
      unfolding obj(2) by (rule reached_mono) auto
    then show ?thesis by (rule reached.mention [rotated]) (simp_all add: b)
  qed
  have "work_inv start (objs @ [obj]) rest ?t"
  proof (rule work_invI [OF new_inv part _ _ _ reach])
    fix b assume "b \<in> ss_scheduled ?t"
    then show "address_ok b \<and> b \<noteq> 0"
      unfolding fields(2) sched using D(3) object_valid_mentions [OF obj(1)] by blast
  next
    show "start - {0} \<subseteq> ss_scheduled ?t" unfolding fields(2) sched using D(4) by blast
  next
    fix x assume "x \<in> set (objs @ [obj])"
    then show "mentions x - {0} \<subseteq> ss_scheduled ?t"
      unfolding fields(2) sched using D(5) [of x] by auto
  next
    fix x assume "x \<in> set (objs @ [obj])"
    then show "object_valid x \<and> co_type_address x \<in> fst ` set (ss_types ?t)"
      unfolding fields(3) same(1) keys_dict_set using D(7) [of x] obj(1) by auto
  qed (simp_all only: fields D(8,9,10), simp_all)
  then show ?thesis using writer by (simp add: fields)
qed


lemma work_inv_same:
  assumes "ss_scheduled s' = ss_scheduled s" and "ss_pending s' = ss_pending s" and "ss_types s' = ss_types s"
    and "ss_completed s' = ss_completed s" and "ss_stats s' = ss_stats s" and "work_inv start objs rest s"
  shows "work_inv start objs rest s'"
proof -
  have "work_inv start objs rest s' = work_inv start objs rest s"
    by (simp only: work_inv_def assms(1-5))
  with assms(6) show ?thesis by simp
qed

lemma work_inv_quiet: "quiet s s' \<Longrightarrow> work_inv start objs rest s \<Longrightarrow> work_inv start objs rest s'"
  by (rule work_inv_same) (simp_all only: quietD)

lemma on_writer_run: "on_writer m s = (r, s') \<longleftrightarrow> (\<exists>w. m (ss_writer s) = (r, w) \<and> s' = s\<lparr>ss_writer := w\<rparr>)"
  by (auto simp: on_writer_def split: prod.splits)

lemma wrote_quiet: "quiet s s' \<Longrightarrow> wrote known w0 objs s \<Longrightarrow> wrote known w0 objs s'"
  by (simp add: wrote_def quiet_def)

definition progressed ::
  "address set \<Rightarrow> address list \<Rightarrow> heap_writer \<Rightarrow> captured_object list \<Rightarrow> address list \<Rightarrow> session \<Rightarrow> bool" where
  "progressed start known w0 objs rest s \<longleftrightarrow>
     work_inv start objs rest s \<and> wrote (known_types known) w0 objs s \<and> ss_types s = type_table known objs"

lemma progressed_quiet: "quiet s s' \<Longrightarrow> progressed start known w0 objs rest s \<Longrightarrow> progressed start known w0 objs rest s'"
  by (simp add: progressed_def work_inv_quiet wrote_quiet quietD(4))

lemma schedule_object_types:
  assumes "iterates it" and "finite (co_referents obj)"
  shows "ss_types (schedule_object it obj s) = dict_set (co_type_address obj) (co_type_name obj) (ss_types s)"
  using schedule_object_run [OF assms, of s] by (auto simp: extends_def)

lemma capture_object_Inr:
  assumes "capture_object it cfg (known_types known) a s = (Inr u, s')" and "iterates it"
    and "progressed start known w0 objs (a # rest) s"
  shows "\<exists>obj t. receive_object cfg a s = (Inr obj, t) \<and> progressed start known w0 (objs @ [obj]) rest s'"
proof -
  from assms(1) obtain obj t v where rcv: "receive_object cfg a s = (Inr obj, t)"
    and written: "write_object obj (known_types known) (ss_writer t) = (Inr (), v)"
    and s': "s' = schedule_object it obj (t\<lparr>ss_writer := v\<rparr>)"
    by (auto simp: capture_object_def mbind_Inr mseq_Inr atomic_run on_writer_run)
  note facts = receive_object_Inr [OF rcv]
  from facts have t: "progressed start known w0 objs (a # rest) t" using assms(3) by (blast intro: progressed_quiet)
  let ?t = "t\<lparr>ss_writer := v\<rparr>"
  have "work_inv start objs (a # rest) ?t"
    by (rule work_inv_same [of _ t]) (use t in \<open>simp_all add: progressed_def\<close>)
  from work_inv_object [OF this _ _ assms(2) refl, of obj] facts
  have inv: "work_inv start (objs @ [obj]) rest s'" "ss_writer s' = v" by (simp_all add: s')
  from t have "wrote (known_types known) w0 objs t" by (simp add: progressed_def)
  moreover have "write_object obj (known_types known) (ss_writer t) = (Inr (), ss_writer s')" using written inv(2) by simp
  ultimately have "wrote (known_types known) w0 (objs @ [obj]) s'" by (rule wrote_snoc)
  moreover have "ss_types s' = type_table known (objs @ [obj])"
    using schedule_object_types [OF assms(2), of obj ?t] facts t
    by (simp add: s' object_valid_def progressed_def type_table_snoc)
  ultimately show ?thesis using inv(1) rcv by (auto simp: progressed_def)
qed

lemma capture_objects_Inr:
  assumes "iterates it"
  shows "mfor (capture_object it cfg (known_types known)) batch s = (Inr u, s') \<Longrightarrow>
    progressed start known w0 objs (batch @ rest) s \<Longrightarrow>
    \<exists>new. progressed start known w0 (objs @ new) rest s' \<and> map co_address new = batch"
proof (induction batch arbitrary: s objs)
  case Nil
  then show ?case by (auto simp: atomic_run intro!: exI [of _ "[]"])
next
  case (Cons a batch)
  from Cons.prems(1) obtain t where t: "capture_object it cfg (known_types known) a s = (Inr (), t)"
    "mfor (capture_object it cfg (known_types known)) batch t = (Inr u, s')" by (auto simp: mseq_Inr)
  obtain obj s1 where obj: "progressed start known w0 (objs @ [obj]) (batch @ rest) t"
    "receive_object cfg a s = (Inr obj, s1)"
    using capture_object_Inr [OF t(1) assms, of start w0 objs "batch @ rest"] Cons.prems(2) by auto
  from Cons.IH [OF t(2) obj(1)] obtain new where
    "progressed start known w0 (objs @ obj # new) rest s'" "map co_address new = batch" by auto
  moreover from receive_object_Inr [OF obj(2)] have "co_address obj = a" by blast
  ultimately show ?case by (intro exI [of _ "obj # new"]) simp
qed

lemma take_batch_parts:
  assumes "take_batch cfg s = (batch, t)" and "0 < cl_batch_size cfg" and "ss_pending s \<noteq> []"
  shows "batch \<noteq> [] \<and> rev (ss_pending s) = batch @ rev (ss_pending t) \<and>
    t = s\<lparr>ss_pending := ss_pending t\<rparr> \<and> int (length batch) \<le> cl_batch_size cfg"
proof -
  let ?n = "nat (min (cl_batch_size cfg) (int (length (ss_pending s))))"
  have batch: "batch = take ?n (rev (ss_pending s))"
    and t: "t = s\<lparr>ss_pending := take (length (ss_pending s) - ?n) (ss_pending s)\<rparr>"
    using assms(1) by (simp_all add: take_batch_def Let_def)
  have "0 < min (cl_batch_size cfg) (int (length (ss_pending s)))" using assms(2,3) by simp
  then have "?n \<noteq> 0" by linarith
  then have nonempty: "batch \<noteq> []" using assms(3) by (simp add: batch)
  have "rev (take (length (ss_pending s) - ?n) (ss_pending s)) = drop ?n (rev (ss_pending s))"
    by (simp add: drop_rev)
  moreover have "ss_pending t = take (length (ss_pending s) - ?n) (ss_pending s)" by (simp add: t)
  ultimately have "rev (ss_pending s) = batch @ rev (ss_pending t)"
    unfolding batch by (simp only: append_take_drop_id)
  moreover have "int (length batch) \<le> cl_batch_size cfg" using assms(2) by (simp add: batch)
  ultimately show ?thesis using nonempty by (simp add: t)
qed

lemma progressed_take:
  assumes "progressed start known w0 objs [] s" and "take_batch cfg s = (batch, t)"
    and "0 < cl_batch_size cfg" and "ss_pending s \<noteq> []"
  shows "progressed start known w0 objs batch t"
proof -
  note parts = take_batch_parts [OF assms(2-4)]
  have inv: "work_inv start objs [] s" and wrote: "wrote (known_types known) w0 objs s"
    and types: "ss_types s = type_table known objs" using assms(1) by (simp_all add: progressed_def)
  note D = work_invD [OF inv]
  have t: "ss_scheduled t = ss_scheduled s" "ss_types t = ss_types s" "ss_completed t = ss_completed s"
    "ss_stats t = ss_stats s" "ss_writer t = ss_writer s"
  proof -
    from parts obtain p where "t = s\<lparr>ss_pending := p\<rparr>" by blast
    then show "ss_scheduled t = ss_scheduled s" "ss_types t = ss_types s" "ss_completed t = ss_completed s"
      "ss_stats t = ss_stats s" "ss_writer t = ss_writer s" by simp_all
  qed
  have perm: "set (ss_pending s) = set (batch @ ss_pending t)"
    "distinct (ss_pending s) \<longleftrightarrow> distinct (batch @ ss_pending t)"
  proof -
    have rev: "rev (ss_pending s) = batch @ rev (ss_pending t)" using parts by blast
    have "set (rev (ss_pending s)) = set (batch @ ss_pending t)" unfolding rev by simp
    then show "set (ss_pending s) = set (batch @ ss_pending t)" by simp
    have "distinct (rev (ss_pending s)) = distinct (batch @ ss_pending t)" unfolding rev by simp
    then show "distinct (ss_pending s) = distinct (batch @ ss_pending t)" by simp
  qed
  have parted: "distinct (map co_address objs @ batch @ ss_pending t)"
    using D(1) perm by (simp only: append_Nil distinct_append)
  have scheduled: "ss_scheduled t = set (map co_address objs @ batch @ ss_pending t)"
    using D(2) perm(1) by (simp only: t append_Nil set_append)
  have "work_inv start objs batch t"
    by (rule work_invI [OF parted scheduled]) (simp_all only: t D(3-10), simp)
  with wrote types show ?thesis by (simp add: progressed_def wrote_def t)
qed

lemma capture_batch_Inr:
  assumes "capture_batch it cfg (known_types known) s = (Inr u, s')" and "iterates it"
    and "progressed start known w0 objs [] s" and "0 < cl_batch_size cfg" and "ss_pending s \<noteq> []"
  shows "\<exists>new. progressed start known w0 (objs @ new) [] s' \<and> new \<noteq> [] \<and>
    map co_address new = fst (take_batch cfg s)"
proof -
  obtain batch t where take: "take_batch cfg s = (batch, t)" by force
  with assms(1) obtain p t1 t2 f t3 where
    send: "on_channel (send REQUEST_OBJECTS p) t = (Inr (), t1)" and
    objs: "mfor (capture_object it cfg (known_types known)) batch t1 = (Inr (), t2)" and
    last: "expect BATCH_DONE t2 = (Inr f, t3)" and report: "report_progress cfg t3 = (Inr u, s')"
    by (auto simp: capture_batch_def mbind_Inr mseq_Inr atomic_run)
  have "progressed start known w0 objs (batch @ []) t1"
    using progressed_quiet [OF on_channel_quiet [OF send] progressed_take [OF assms(3) take assms(4,5)]] by simp
  from capture_objects_Inr [OF assms(2) objs this] obtain new where
    new: "progressed start known w0 (objs @ new) [] t2" "map co_address new = batch" by blast
  have "quiet t3 s'"
    using report by (cases "cl_progress cfg") (auto simp: report_progress_def atomic_run quiet_def)
  then have "quiet t2 s'" using expect_Inr [OF last] by (blast intro: quiet_trans)
  with new take take_batch_parts [OF take assms(4,5)] show ?thesis
    by (intro exI [of _ new]) (auto intro: progressed_quiet)
qed

text \<open>The addresses are 64 bits wide, so that no more objects than that can be captured.\<close>

lemma work_inv_length:
  assumes "work_inv start objs rest s"
  shows "length objs < 2 ^ 64"
proof -
  have "set (map co_address objs) \<subseteq> {0 <..< 2 ^ 64}"
    using work_invD(2) [OF assms] work_invD(3) [OF assms] by (force simp: address_ok_def)
  then have "card (set (map co_address objs)) \<le> card {0 <..< (2 :: int) ^ 64}" by (rule card_mono [rotated]) simp
  moreover have "card (set (map co_address objs)) = length objs"
    using work_invD(1) [OF assms] by (simp add: distinct_card del: set_map)
  ultimately show ?thesis by simp
qed

lemma object_phase_run:
  assumes "iterates it" and "0 < cl_batch_size cfg"
  shows "progressed start known w0 objs [] s \<Longrightarrow>
    \<exists>r s'. object_phase it cfg (known_types known) s = Some (r, s') \<and>
      (r = Inr () \<longrightarrow> ss_pending s' = [] \<and> (\<exists>new. progressed start known w0 (objs @ new) [] s'))"
proof (induction "2 ^ 64 - length objs" arbitrary: objs s rule: less_induct)
  case less
  show ?case
  proof (cases "ss_pending s = []")
    case True
    with less.prems show ?thesis by (auto simp: object_phase.simps intro!: exI [of _ "[]"])
  next
    case False
    show ?thesis
    proof (cases "capture_batch it cfg (known_types known) s")
      case (Pair r t)
      show ?thesis
      proof (cases r)
        case (Inl e)
        with False Pair show ?thesis by (simp add: object_phase.simps [of it cfg "known_types known" s])
      next
        case (Inr u)
        with Pair obtain new where new: "progressed start known w0 (objs @ new) [] t" "new \<noteq> []"
          using capture_batch_Inr [OF _ assms(1) less.prems assms(2) False] by blast
        have "length (objs @ new) < 2 ^ 64"
          using new(1) by (auto simp: progressed_def dest: work_inv_length)
        moreover have "0 < length new" using new(2) by simp
        ultimately have "2 ^ 64 - length (objs @ new) < 2 ^ 64 - length objs"
          unfolding length_append by linarith
        from less.hyps [OF this new(1)] False Pair Inr show ?thesis
          by (auto simp: object_phase.simps [of it cfg "known_types known" s])
      qed
    qed
  qed
qed


section \<open>The phases\<close>

lemma quiet_extends: "quiet s s' \<Longrightarrow> extends {} s s'"
  by (simp add: quiet_def extends_def)

lemma extends_after_quiet: "quiet s t \<Longrightarrow> extends A t u \<Longrightarrow> extends A s u"
  using extends_trans [OF quiet_extends, of s t A u] by simp

lemma root_loop_Inr:
  assumes "root_loop s = (Inr u, s')"
  shows "\<exists>frames last rootss. logical_queue (ss_channel s) = frames @ last # logical_queue (ss_channel s') \<and>
    (\<forall>f \<in> set frames. fkind f = ROOT_BATCH) \<and> fkind last = ROOTS_DONE \<and>
    rmap (\<lambda>f. decode_addresses (fpayload f)) frames = Inr rootss \<and> extends (\<Union>r \<in> set rootss. set r) s s' \<and>
    list_all (list_all address_ok) rootss"
  using assms
proof (induction s rule: root_loop.induct)
  case (1 s)
  from 1(2) obtain f t where rcv: "on_channel receive s = (Inr f, t)"
    by (subst (asm) root_loop.simps) (auto split: prod.splits sum.splits)
  note facts = on_channel_receive [OF rcv]
  note run = 1(2) [unfolded root_loop.simps [of s] rcv prod.case sum.case]
  show ?case
  proof (cases "fkind f = ROOT_BATCH")
    case True
    with run obtain as where dec: "decode_addresses (fpayload f) = Inr as" by (auto split: sum.splits)
    from 1(1) [OF rcv [symmetric] refl True dec] run True dec obtain frames last rootss where
      IH: "logical_queue (ss_channel t) = frames @ last # logical_queue (ss_channel s')"
      "\<forall>f \<in> set frames. fkind f = ROOT_BATCH" "fkind last = ROOTS_DONE"
      "rmap (\<lambda>f. decode_addresses (fpayload f)) frames = Inr rootss"
      "extends (\<Union>r \<in> set rootss. set r) (schedule as t) s'" "list_all (list_all address_ok) rootss" by auto
    have "extends (set as \<union> (\<Union>r \<in> set rootss. set r)) s s'"
      by (rule extends_trans [OF _ IH(5)]) (use facts extends_schedule in \<open>blast intro: extends_after_quiet\<close>)
    with IH facts dec True decode_addresses_ok [OF dec] show ?thesis
      by (intro exI [of _ "f # frames"] exI [of _ last] exI [of _ "as # rootss"]) simp
  next
    case False
    with run have "fkind f = ROOTS_DONE" "s' = t" by (auto split: if_splits)
    with facts show ?thesis
      by (intro exI [of _ "[]"] exI [of _ f]) (simp add: quiet_extends)
  qed
qed

text \<open>The start of the artifact.\<close>

definition begin_artifact :: "(pystr, address) pydict \<Rightarrow> pystr \<Rightarrow> (heap_writer, unit) py" where
  "begin_artifact known now = mseq (write_header known None now) (mseq (write_threads []) begin_objects)"

lemma open_session_Inr:
  assumes "open_session cfg now s = (Inr known, s')"
  shows "\<exists>f h rest. logical_queue (ss_channel s) = f # rest \<and> fkind f = HELLO \<and>
      decode_hello (fpayload f) = Inr h \<and> check_hello cfg h = Inr () \<and>
    list_all address_ok known \<and> length known = length WELL_KNOWN_TYPE_NAMES \<and>
    begin_artifact (dict_of (zip WELL_KNOWN_TYPE_NAMES known)) now (ss_writer s) = (Inr (), ss_writer s') \<and>
    ss_scheduled s' = ss_scheduled s \<and> ss_pending s' = ss_pending s \<and> ss_types s' = ss_types s \<and>
    ss_completed s' = ss_completed s \<and> ss_stats s' = ss_stats s"
proof -
  from assms obtain f t1 h opts t2 g t3 addrs where
    f: "expect HELLO s = (Inr f, t1)" "decode_hello (fpayload f) = Inr h" "check_hello cfg h = Inr ()" and
    send: "on_channel (send HELLO_ACK opts) t1 = (Inr (), t2)" and
    g: "expect WELL_KNOWN t2 = (Inr g, t3)" "decode_addresses (fpayload g) = Inr addrs" and
    len: "length addrs = length WELL_KNOWN_TYPE_NAMES" and
    run: "mseq (on_writer (write_header (dict_of (zip WELL_KNOWN_TYPE_NAMES addrs)) None now)) (
       mseq (on_writer (write_threads [])) (mseq (on_writer begin_objects) (mret addrs))) t3 = (Inr known, s')"
    unfolding open_session_def
    by (auto simp: mbind_Inr mseq_Inr [of "mlift _"] mseq_Inr [of "on_channel _"] atomic_run split: if_splits)
  have "addrs = known" using run by (auto simp: mseq_Inr atomic_run)
  note g = g [unfolded this] and len = len [unfolded this] and run = run [unfolded this]
  from run obtain w1 w2 w3 where
    "write_header (dict_of (zip WELL_KNOWN_TYPE_NAMES known)) None now (ss_writer t3) = (Inr (), w1)"
    "write_threads [] w1 = (Inr (), w2)" "begin_objects w2 = (Inr (), w3)" "s' = t3\<lparr>ss_writer := w3\<rparr>"
    by (auto simp: mseq_Inr atomic_run on_writer_run)
  moreover have "quiet s t3"
    using expect_Inr [OF f(1)] on_channel_quiet [OF send] expect_Inr [OF g(1)] by (blast intro: quiet_trans)
  ultimately show ?thesis
    using f expect_Inr [OF f(1)] len decode_addresses_ok [OF g(2)]
    by (auto simp: begin_artifact_def mseq_Inr quiet_def)
qed

lemma close_session_Inr:
  assumes "close_session s = (Inr n, s')"
  shows "finish (ss_types s) (ss_writer s) = (Inr (), ss_writer s') \<and> n = ss_completed s \<and>
    ss_stats s' = ss_stats s \<and> ss_types s' = ss_types s"
proof -
  from assms obtain t1 f t2 where "on_channel (send FINISH []) s = (Inr (), t1)" "expect COMPLETE t1 = (Inr f, t2)"
    and run: "mseq (on_writer (finish (ss_types t2))) (mget ss_completed) t2 = (Inr n, s')"
    by (auto simp: close_session_def mbind_Inr mseq_Inr [of "on_channel _"] atomic_run)
  then have "quiet s t2" using on_channel_quiet expect_Inr by (blast intro: quiet_trans)
  with run show ?thesis by (auto simp: mseq_Inr atomic_run on_writer_run quiet_def)
qed

end
