(* ===== verification/Analyzer_Model.thy ===== *)
theory Analyzer_Model
  imports Text
begin

text \<open>
  \<^verbatim>\<open>analyzer/python/src/pydump_analyzer/model.py\<close>: the heap that the analyzer reads from an
  artifact, and the rendering of an object as text. Rendering follows the contents of the four
  builtin containers and stops at an object already on the path; it terminates because every
  recursive call puts one more object of the heap on the path.
\<close>

section \<open>The heap\<close>

record heap_header =
  hh_version :: int
  hh_created_at :: pystr
  hh_with_str_repr :: bool
  hh_well_known_types :: "(pystr, address) pydict"

record heap_frame =
  hf_file_name :: pystr
  hf_line_number :: int
  hf_function_name :: pystr
  hf_locals :: "(pystr, address) pydict"

record heap_thread =
  ht_name :: pystr
  ht_is_alive :: bool
  ht_is_daemon :: bool
  ht_stack_trace :: "heap_frame list"

text \<open>\<^verbatim>\<open>ObjectContent\<close>, told apart at run time by the class of the container.\<close>

datatype object_content =
    NoContent
  | DictContent "(address, address) pydict"
  | ListContent "address list"
  | SetContent "address set"
  | TupleContent "address list"

record heap_object =
  ho_address :: address
  ho_type_address :: address
  ho_size :: int
  ho_referents :: "address set"
  ho_content :: object_content
  ho_string_offset :: "nat option"

record heap =
  h_header :: heap_header
  h_threads :: "heap_thread list"
  h_objects :: "(address, heap_object) pydict"
  h_types :: "(address, pystr) pydict"
  h_source :: "bytes option"

definition thread_locals :: "heap_thread \<Rightarrow> address set" where
  "thread_locals thread = (\<Union>frame \<in> set (ht_stack_trace thread). snd ` set (hf_locals frame))"

definition close_heap :: "heap \<Rightarrow> heap" where
  "close_heap h = h\<lparr>h_source := None\<rparr>"

section \<open>Rendering\<close>

fun join_comma :: "pystr list \<Rightarrow> pystr" where
  "join_comma [] = []"
| "join_comma [p] = p"
| "join_comma (p # q # ps) = p @ lit '', '' @ join_comma (q # ps)"

text \<open>The two bytes of the length, then as much of the text as the source still has.\<close>

definition read_string_representation :: "heap \<Rightarrow> heap_object \<Rightarrow> pystr res" where
  "read_string_representation h obj =
     (case (h_source h, ho_string_offset obj) of
        (Some source, Some offset) \<Rightarrow>
          if length source < offset + 2 then
            raise StructError ''unpack_from requires a buffer of at least 2 bytes'' []
          else
            let size = nat (be_dec (pyslice source offset (offset + 2))); start = offset + 2
            in Inr (decode_text (pyslice source start (start + size)))
      | _ \<Rightarrow> Inr [])"

definition container_brackets :: "heap \<Rightarrow> address \<Rightarrow> (pystr \<times> pystr) res" where
  "container_brackets h type_address =
     (let known = map_of (hh_well_known_types (h_header h)) in
      rbind (subscript known (lit ''list'')) (\<lambda>list_type.
      if type_address = list_type then Inr (lit ''['', lit '']'')
      else rbind (subscript known (lit ''tuple'')) (\<lambda>tuple_type.
      if type_address = tuple_type then Inr (lit ''('', lit '')'')
      else Inr (lit ''{'', lit ''}''))))"

definition container_names :: "pystr list" where
  "container_names = map lit [''dict'', ''list'', ''set'', ''tuple'']"

text \<open>
  The texts of the parts of a container; \<open>render\<close> is the call for an address.
\<close>

definition content_parts :: "(address \<Rightarrow> pystr res) \<Rightarrow> object_content \<Rightarrow> pystr list res" where
  "content_parts render content =
     (case content of
        DictContent entries \<Rightarrow>
          rmap (\<lambda>(key, val).
            rbind (render key) (\<lambda>k.
            rbind (render val) (\<lambda>v.
            Inr (k @ lit '': '' @ v)))) entries
      | SetContent items \<Rightarrow> rmap render (sorted_list_of_set items)
      | ListContent items \<Rightarrow> rmap render items
      | TupleContent items \<Rightarrow> rmap render items
      | NoContent \<Rightarrow> Inr [])"

definition recursion_error :: exn where
  "recursion_error = Exn RecursionError ''maximum recursion depth exceeded'' []"

text \<open>
  \<open>stack\<close> is the number of calls that the interpreter still allows. One is the method itself; it calls
  \<^verbatim>\<open>_read_string_representation\<close> or \<^verbatim>\<open>_container_brackets\<close>, and for each part of a container
  the generator, which calls the method again.
\<close>

function string_repr :: "nat \<Rightarrow> heap \<Rightarrow> address \<Rightarrow> address set \<Rightarrow> pystr res" where
  "string_repr stack h address seen =
     (if stack = 0 then Inl recursion_error
      else
        (case map_of (h_objects h) address of
           None \<Rightarrow> Inr (lit ''(unknown)'')
         | Some obj \<Rightarrow>
             rbind (rmap (subscript (map_of (hh_well_known_types (h_header h)))) container_names) (\<lambda>containers.
             if stack = 1 then Inl recursion_error
             else if ho_type_address obj \<notin> set containers then read_string_representation h obj
             else
               rbind (container_brackets h (ho_type_address obj)) (\<lambda>(left, right).
               if address \<in> seen then Inr (left @ lit ''...'' @ right)
               else
                 rbind (content_parts (\<lambda>item. string_repr (stack - 2) h item (insert address seen)) (ho_content obj))
                   (\<lambda>parts. Inr (left @ join_comma parts @ right))))))"
  by pat_completeness auto

text \<open>The stack runs out, if nothing else ends the recursion.\<close>

lemma content_parts_cong [fundef_cong]:
  assumes "content = content'" and "\<And>item. render item = render' item"
  shows "content_parts render content = content_parts render' content'"
proof -
  have "render = render'" using assms(2) by (rule ext)
  with assms(1) show ?thesis by simp
qed

termination string_repr
  by (relation "measure (\<lambda>(stack, h, address, seen). stack)") auto

declare string_repr.simps [simp del]

definition string_representation :: "nat \<Rightarrow> heap \<Rightarrow> heap_object \<Rightarrow> pystr option res" where
  "string_representation stack h obj =
     (if \<not> hh_with_str_repr (h_header h) then Inr None
      else rbind (string_repr stack h (ho_address obj) {}) (\<lambda>s. Inr (Some s)))"

section \<open>The text, and the calls that it needs\<close>

text \<open>
  The text without a limit of the stack: what is being rendered on the way to an object is not rendered
  again inside it, so that the recursion ends on any graph.
\<close>

lemma path_grows:
  assumes "map_of d a = Some x" and "a \<notin> seen"
  shows "card (fst ` set d - insert a seen) < card (fst ` set d - seen)"
proof (intro psubset_card_mono psubsetI)
  have "a \<in> fst ` set d" using assms(1) by (force dest: map_of_SomeD)
  with assms(2) show "fst ` set d - insert a seen \<noteq> fst ` set d - seen" by blast
qed auto

function rendering :: "heap \<Rightarrow> address \<Rightarrow> address set \<Rightarrow> pystr res" where
  "rendering h address seen =
     (case map_of (h_objects h) address of
        None \<Rightarrow> Inr (lit ''(unknown)'')
      | Some obj \<Rightarrow>
          rbind (rmap (subscript (map_of (hh_well_known_types (h_header h)))) container_names) (\<lambda>containers.
          if ho_type_address obj \<notin> set containers then read_string_representation h obj
          else
            rbind (container_brackets h (ho_type_address obj)) (\<lambda>(left, right).
            if address \<in> seen then Inr (left @ lit ''...'' @ right)
            else
              rbind (content_parts (\<lambda>item. rendering h item (insert address seen)) (ho_content obj))
                (\<lambda>parts. Inr (left @ join_comma parts @ right)))))"
  by pat_completeness auto
termination
  by (relation "measure (\<lambda>(h, address, seen). card (fst ` set (h_objects h) - seen))")
    (simp_all add: path_grows)

declare rendering.simps [simp del]

text \<open>The addresses in a content, and how many calls the rendering of an object nests.\<close>

definition content_items :: "object_content \<Rightarrow> address list" where
  "content_items content =
     (case content of
        DictContent entries \<Rightarrow> concat (map (\<lambda>(key, val). [key, val]) entries)
      | SetContent items \<Rightarrow> sorted_list_of_set items
      | ListContent items \<Rightarrow> items
      | TupleContent items \<Rightarrow> items
      | NoContent \<Rightarrow> [])"

definition is_container :: "heap \<Rightarrow> heap_object \<Rightarrow> bool" where
  "is_container h obj \<longleftrightarrow>
     Some (ho_type_address obj) \<in> map_of (hh_well_known_types (h_header h)) ` set container_names"

definition deepest :: "(address \<Rightarrow> nat) \<Rightarrow> address list \<Rightarrow> nat" where
  "deepest f items = fold (\<lambda>item n. max (f item) n) items 0"

lemma deepest_cong [fundef_cong]:
  "items = items' \<Longrightarrow> (\<And>item. f item = f' item) \<Longrightarrow> deepest f items = deepest f' items'"
  by (simp add: deepest_def)

function nested_calls :: "heap \<Rightarrow> address \<Rightarrow> address set \<Rightarrow> nat" where
  "nested_calls h address seen =
     (case map_of (h_objects h) address of
        None \<Rightarrow> 1
      | Some obj \<Rightarrow>
          if \<not> is_container h obj \<or> address \<in> seen then 2
          else 2 + deepest (\<lambda>item. nested_calls h item (insert address seen)) (content_items (ho_content obj)))"
  by pat_completeness auto
termination
  by (relation "measure (\<lambda>(h, address, seen). card (fst ` set (h_objects h) - seen))")
    (simp_all add: path_grows)

declare nested_calls.simps [simp del]

text \<open>An object can be rendered with this stack, if texts are rendered at all.\<close>

definition renders :: "nat \<Rightarrow> heap \<Rightarrow> address \<Rightarrow> bool" where
  "renders stack h a \<longleftrightarrow> (hh_with_str_repr (h_header h) \<longrightarrow> nested_calls h a {} \<le> stack)"

section \<open>When rendering succeeds\<close>

text \<open>
  The objects refer to strings inside the source, and the header knows the container types.
\<close>

definition containers_known :: "heap \<Rightarrow> bool" where
  "containers_known h \<longleftrightarrow>
     (\<forall>n \<in> set container_names. \<exists>a. map_of (hh_well_known_types (h_header h)) n = Some a)"

definition string_in_source :: "heap \<Rightarrow> heap_object \<Rightarrow> bool" where
  "string_in_source h obj \<longleftrightarrow>
     (\<forall>source offset. h_source h = Some source \<longrightarrow> ho_string_offset obj = Some offset \<longrightarrow>
       offset + 2 \<le> length source)"

lemma rmap_total: "(\<And>x. x \<in> set xs \<Longrightarrow> \<exists>y. f x = Inr y) \<Longrightarrow> \<exists>ys. rmap f xs = Inr ys"
  by (induction xs) (auto simp: rbind_Inr)

lemma container_brackets_total:
  assumes "containers_known h"
  shows "\<exists>l r. container_brackets h a = Inr (l, r)"
proof -
  have "lit ''list'' \<in> set container_names" "lit ''tuple'' \<in> set container_names"
    by (simp_all add: container_names_def)
  with assms obtain l t where "map_of (hh_well_known_types (h_header h)) (lit ''list'') = Some l"
    "map_of (hh_well_known_types (h_header h)) (lit ''tuple'') = Some t"
    unfolding containers_known_def by blast
  then show ?thesis
    by (cases "a = l"; cases "a = t") (simp_all add: container_brackets_def Let_def subscript_def)
qed

lemma content_parts_total:
  assumes "\<And>a. \<exists>t. render a = Inr t"
  shows "\<exists>ps. content_parts render content = Inr ps"
proof -
  let ?entry = "\<lambda>(key, val). rbind (render key) (\<lambda>k. rbind (render val) (\<lambda>v. Inr (k @ lit '': '' @ v)))"
  have "\<exists>t. ?entry e = Inr t" for e
    using assms [of "fst e"] assms [of "snd e"] by (auto simp: split_beta rbind_Inr)
  with assms show ?thesis
    by (cases content) (simp_all add: content_parts_def rmap_total)
qed

lemma containers_lookup:
  assumes "containers_known h"
  obtains containers where "rmap (subscript (map_of (hh_well_known_types (h_header h)))) container_names = Inr containers"
    and "\<And>obj. ho_type_address obj \<in> set containers \<longleftrightarrow> is_container h obj"
proof -
  obtain containers where run: "rmap (subscript (map_of (hh_well_known_types (h_header h)))) container_names = Inr containers"
    using rmap_total [of container_names "subscript (map_of (hh_well_known_types (h_header h)))"] assms
    by (auto simp: containers_known_def)
  then have "list_all2 (\<lambda>n a. map_of (hh_well_known_types (h_header h)) n = Some a) container_names containers"
    by (simp only: rmap_Inr subscript_Inr)
  then have "map (map_of (hh_well_known_types (h_header h))) container_names = map Some containers"
    by (induction rule: list_all2_induct) simp_all
  then have "map_of (hh_well_known_types (h_header h)) ` set container_names = Some ` set containers"
    by (metis list.set_map)
  then have "ho_type_address obj \<in> set containers \<longleftrightarrow> is_container h obj" for obj
    by (auto simp: is_container_def)
  with run show ?thesis by (rule that)
qed

lemma leaf_total:
  assumes "string_in_source h obj"
  shows "\<exists>s. read_string_representation h obj = Inr s"
  using assms by (auto simp: read_string_representation_def string_in_source_def Let_def split: option.splits)

lemma rendering_defined:
  assumes "containers_known h" and "\<And>a obj. map_of (h_objects h) a = Some obj \<Longrightarrow> string_in_source h obj"
  shows "\<exists>s. rendering h address seen = Inr s"
proof (induction "card (fst ` set (h_objects h) - seen)" arbitrary: address seen rule: less_induct)
  case less
  show ?case
  proof (cases "map_of (h_objects h) address")
    case None
    then show ?thesis by (simp add: rendering.simps)
  next
    case (Some obj)
    obtain containers where containers:
      "rmap (subscript (map_of (hh_well_known_types (h_header h)))) container_names = Inr containers"
      using containers_lookup [OF assms(1)] by blast
    obtain left right where brackets: "container_brackets h (ho_type_address obj) = Inr (left, right)"
      using container_brackets_total [OF assms(1)] by blast
    note leaf = leaf_total [OF assms(2) [OF Some]]
    show ?thesis
    proof (cases "ho_type_address obj \<in> set containers \<and> address \<notin> seen")
      case False
      with Some containers brackets leaf show ?thesis by (subst rendering.simps) auto
    next
      case True
      have "\<exists>s. rendering h a (insert address seen) = Inr s" for a
        using less [of "insert address seen"] path_grows [OF Some] True by simp
      from content_parts_total [OF this] Some containers brackets True show ?thesis
        by (subst rendering.simps) (auto simp: rbind_Inr)
    qed
  qed
qed

text \<open>Where the stack is short of one part, the whole container fails.\<close>

lemma rmap_limited:
  assumes "\<And>x. x \<in> set xs \<Longrightarrow> \<exists>y. g x = Inr y"
  shows "rmap (\<lambda>x. if P x then g x else Inl e) xs = (if \<forall>x \<in> set xs. P x then rmap g xs else Inl e)"
  using assms
proof (induction xs)
  case (Cons x xs)
  have "\<exists>ys. rmap g xs = Inr ys" by (rule rmap_total) (rule Cons.prems, simp)
  moreover have "\<exists>y. g x = Inr y" by (rule Cons.prems) simp
  ultimately obtain y ys where "g x = Inr y" "rmap g xs = Inr ys" by (elim exE)
  with Cons show ?case by simp
qed simp

lemma deepest_le: "deepest f items \<le> n \<longleftrightarrow> (\<forall>item \<in> set items. f item \<le> n)"
proof -
  have "fold (\<lambda>item n. max (f item) n) items m \<le> n \<longleftrightarrow> m \<le> n \<and> (\<forall>item \<in> set items. f item \<le> n)" for m
    by (induction items arbitrary: m) auto
  then show ?thesis by (simp add: deepest_def)
qed

lemma content_parts_limited:
  assumes "\<And>a. \<exists>t. g a = Inr t"
  shows "content_parts (\<lambda>a. if P a then g a else Inl e) content =
    (if \<forall>a \<in> set (content_items content). P a then content_parts g content else Inl e)"
proof -
  let ?entry = "\<lambda>(key, val). rbind (g key) (\<lambda>k. rbind (g val) (\<lambda>v. Inr (k @ lit '': '' @ v)))"
  have "\<exists>t. ?entry kv = Inr t" for kv
    using assms [of "fst kv"] assms [of "snd kv"] by (auto simp: split_beta rbind_Inr)
  note total = this
  have "(\<lambda>(key, val). rbind (if P key then g key else Inl e) (\<lambda>k. rbind (if P val then g val else Inl e)
      (\<lambda>v. Inr (k @ lit '': '' @ v)))) = (\<lambda>kv. if P (fst kv) \<and> P (snd kv) then ?entry kv else Inl e)"
  proof
    fix kv
    obtain k v where "g (fst kv) = Inr k" "g (snd kv) = Inr v" using assms [of "fst kv"] assms [of "snd kv"] by (elim exE)
    then show "(\<lambda>(key, val). rbind (if P key then g key else Inl e) (\<lambda>k. rbind (if P val then g val else Inl e)
        (\<lambda>v. Inr (k @ lit '': '' @ v)))) kv = (if P (fst kv) \<and> P (snd kv) then ?entry kv else Inl e)"
      by (simp add: split_beta)
  qed
  then have "rmap (\<lambda>(key, val). rbind (if P key then g key else Inl e) (\<lambda>k. rbind (if P val then g val else Inl e)
      (\<lambda>v. Inr (k @ lit '': '' @ v)))) entries =
      (if \<forall>kv \<in> set entries. P (fst kv) \<and> P (snd kv) then rmap ?entry entries else Inl e)" for entries
    using rmap_limited [of _ ?entry "\<lambda>kv. P (fst kv) \<and> P (snd kv)", OF total] by simp
  then show ?thesis
    using rmap_limited [of _ g P, OF assms]
    by (cases content) (auto simp: content_parts_def content_items_def split_beta)
qed

text \<open>The method gives this text, as long as the stack has the calls; otherwise it raises \<^verbatim>\<open>RecursionError\<close>.\<close>

lemma string_repr_exact:
  assumes "containers_known h" and "\<And>a obj. map_of (h_objects h) a = Some obj \<Longrightarrow> string_in_source h obj"
  shows "string_repr stack h address seen =
    (if nested_calls h address seen \<le> stack then rendering h address seen else Inl recursion_error)"
proof (induction stack arbitrary: address seen rule: less_induct)
  case (less stack)
  show ?case
  proof (cases "stack = 0 \<or> map_of (h_objects h) address = None")
    case True
    then show ?thesis
      by (subst string_repr.simps) (auto simp: nested_calls.simps rendering.simps split: option.splits)
  next
    case False
    then obtain obj where obj: "map_of (h_objects h) address = Some obj" and "0 < stack" by auto
    obtain containers where containers:
      "rmap (subscript (map_of (hh_well_known_types (h_header h)))) container_names = Inr containers"
      "ho_type_address obj \<in> set containers \<longleftrightarrow> is_container h obj" using containers_lookup [OF assms(1)] by metis
    obtain left right where brackets: "container_brackets h (ho_type_address obj) = Inr (left, right)"
      using container_brackets_total [OF assms(1)] by blast
    show ?thesis
    proof (cases "stack = 1 \<or> \<not> is_container h obj \<or> address \<in> seen")
      case True
      with obj \<open>0 < stack\<close> containers brackets show ?thesis
        by (subst string_repr.simps, subst nested_calls.simps, subst rendering.simps) auto
    next
      case False
      with \<open>0 < stack\<close> have stack: "2 \<le> stack" by simp
      let ?need = "\<lambda>a. nested_calls h a (insert address seen)" and ?text = "\<lambda>a. rendering h a (insert address seen)"
      have "(\<lambda>a. string_repr (stack - 2) h a (insert address seen)) =
          (\<lambda>a. if ?need a \<le> stack - 2 then ?text a else Inl recursion_error)"
        using less [of "stack - 2"] stack by (simp add: fun_eq_iff)
      moreover have "\<exists>t. ?text a = Inr t" for a using rendering_defined [OF assms] .
      ultimately have "content_parts (\<lambda>a. string_repr (stack - 2) h a (insert address seen)) (ho_content obj) =
          (if deepest ?need (content_items (ho_content obj)) \<le> stack - 2 then content_parts ?text (ho_content obj)
           else Inl recursion_error)"
        by (simp add: content_parts_limited deepest_le)
      with False obj containers brackets stack show ?thesis
        by (subst string_repr.simps, subst nested_calls.simps, subst rendering.simps) auto
    qed
  qed
qed

text \<open>Every nested container has an address of its own.\<close>

lemma nested_calls_bound: "nested_calls h address seen \<le> 2 * card (fst ` set (h_objects h) - seen) + 2"
proof (induction "card (fst ` set (h_objects h) - seen)" arbitrary: address seen rule: less_induct)
  case less
  show ?case
  proof (cases "map_of (h_objects h) address")
    case (Some obj)
    show ?thesis
    proof (cases "is_container h obj \<and> address \<notin> seen")
      case True
      note grows = path_grows [OF Some conjunct2 [OF True]]
      have "nested_calls h item (insert address seen) \<le> 2 * card (fst ` set (h_objects h) - seen)" for item
        using less [OF grows, of item] grows by linarith
      then show ?thesis using True Some by (subst nested_calls.simps) (simp add: deepest_le)
    qed (use Some in \<open>subst nested_calls.simps, simp\<close>)
  qed (subst nested_calls.simps, simp)
qed

lemma few_objects_render: "2 * length (h_objects h) + 2 \<le> stack \<Longrightarrow> renders stack h a"
proof -
  assume few: "2 * length (h_objects h) + 2 \<le> stack"
  have "card (fst ` set (h_objects h)) \<le> length (h_objects h)"
    by (metis card_length length_map list.set_map)
  with few nested_calls_bound [of h a "{}"] show ?thesis by (simp add: renders_def)
qed

end
