(* ===== verification/Reader.thy ===== *)
theory Reader
  imports Analyzer_Model
begin

text \<open>
  \<^verbatim>\<open>analyzer/python/src/pydump_analyzer/reader.py\<close>: the reader of PyHeap v1 artifacts. The
  reader object is its source and an offset; every method of the class is a definition here, in
  the source's order from the integers up to \<open>read\<close>. The locale \<open>field_reader\<close> states what all
  of them have in common (the source is kept, the offset moves forward within it, a failure is a
  \<^verbatim>\<open>HeapFormatError\<close> or a \<^verbatim>\<open>KeyError\<close>, and appending bytes to the source does not change a
  successful result), and it is closed under the combinators they are built with.
\<close>

section \<open>Fields\<close>

definition reader_MAGIC :: int where "reader_MAGIC = 123000321"
definition reader_FORMAT_VERSION :: int where "reader_FORMAT_VERSION = 1"
definition reader_FLAG_WITH_STR_REPR :: int where "reader_FLAG_WITH_STR_REPR = 1"

record heap_reader =
  r_source :: bytes
  r_offset :: nat

definition heap_reader_init :: "bytes \<Rightarrow> heap_reader" where
  "heap_reader_init source = \<lparr>r_source = source, r_offset = 0\<rparr>"

text \<open>\<open>unpack n conv\<close> reads a field of \<open>n\<close> bytes, converted by \<open>conv\<close>.\<close>

definition unpack :: "nat \<Rightarrow> (bytes \<Rightarrow> 'a) \<Rightarrow> (heap_reader, 'a) py" where
  "unpack n conv = (\<lambda>r.
     if length (r_source r) < r_offset r + n then
       (raise HeapFormatError ''truncated PyHeap data at offset {offset}'' [AInt (int (r_offset r))], r)
     else (Inr (conv (pyslice (r_source r) (r_offset r) (r_offset r + n))), r\<lparr>r_offset := r_offset r + n\<rparr>))"

definition take_bytes :: "nat \<Rightarrow> (heap_reader, bytes) py" where
  "take_bytes n = (\<lambda>r.
     let end = r_offset r + n in
     if length (r_source r) < end then
       (raise HeapFormatError ''truncated PyHeap data at offset {offset}'' [AInt (int (r_offset r))], r)
     else (Inr (pyslice (r_source r) (r_offset r) end), r\<lparr>r_offset := end\<rparr>))"

definition read_bool :: "(heap_reader, bool) py" where
  "read_bool = unpack 1 (\<lambda>bs. be_dec bs \<noteq> 0)"

definition read_i16 :: "(heap_reader, int) py" where
  "read_i16 = unpack 2 be_dec_signed"

definition read_u16 :: "(heap_reader, int) py" where
  "read_u16 = unpack 2 be_dec"

definition read_u32 :: "(heap_reader, int) py" where
  "read_u32 = unpack 4 be_dec"

definition read_u64 :: "(heap_reader, int) py" where
  "read_u64 = unpack 8 be_dec"

definition read_string :: "int \<Rightarrow> (heap_reader, pystr) py" where
  "read_string n = mbind (take_bytes (nat n)) (\<lambda>bs. mret (decode_text bs))"

definition read_long_string :: "(heap_reader, pystr) py" where
  "read_long_string = mbind read_u16 read_string"

definition skip_long_string :: "(heap_reader, unit) py" where
  "skip_long_string = mbind read_u16 (\<lambda>n. mbind (take_bytes (nat n)) (\<lambda>_. mret ()))"

definition read_attribute_name :: "pystr list \<Rightarrow> (heap_reader, pystr) py" where
  "read_attribute_name frequent_attributes =
     mbind read_i16 (\<lambda>length_or_index.
     if 0 \<le> length_or_index then read_string length_or_index
     else
       let index = nat (- (length_or_index + 1)) in
       if index < length frequent_attributes then mret (frequent_attributes ! index)
       else mraise HeapFormatError ''invalid frequent attribute index: {index}'' [AInt (int index)])"

text \<open>The collections: a count, then that many items.\<close>

definition counted_loop :: "('a \<Rightarrow> (heap_reader, 'a) py) \<Rightarrow> 'a \<Rightarrow> (heap_reader, 'a) py" where
  "counted_loop body x = mbind read_u32 (\<lambda>n. mfold (nat n) body x)"

definition read_address_set :: "(heap_reader, address set) py" where
  "read_address_set = counted_loop (\<lambda>s. mbind read_u64 (\<lambda>a. mret (insert a s))) {}"

definition read_string_list :: "(heap_reader, pystr list) py" where
  "read_string_list = counted_loop (\<lambda>xs. mbind read_long_string (\<lambda>s. mret (xs @ [s]))) []"

definition read_string_address_map :: "(heap_reader, (pystr, address) pydict) py" where
  "read_string_address_map =
     counted_loop (\<lambda>d. mbind read_long_string (\<lambda>k. mbind read_u64 (\<lambda>v. mret (dict_set k v d)))) []"

definition read_address_string_map :: "(heap_reader, (address, pystr) pydict) py" where
  "read_address_string_map =
     counted_loop (\<lambda>d. mbind read_u64 (\<lambda>k. mbind read_long_string (\<lambda>v. mret (dict_set k v d)))) []"

section \<open>Threads, types and objects\<close>

definition read_frame :: "(heap_reader, heap_frame) py" where
  "read_frame =
     mbind read_long_string (\<lambda>file_name.
     mbind read_u32 (\<lambda>line_number.
     mbind read_long_string (\<lambda>function_name.
     mbind read_string_address_map (\<lambda>local_variables.
     mret \<lparr>hf_file_name = file_name, hf_line_number = line_number, hf_function_name = function_name,
            hf_locals = local_variables\<rparr>))))"

definition read_thread :: "(heap_reader, heap_thread) py" where
  "read_thread =
     mbind read_long_string (\<lambda>name.
     mbind read_bool (\<lambda>is_alive.
     mbind read_bool (\<lambda>is_daemon.
     mbind (counted_loop (\<lambda>frames. mbind read_frame (\<lambda>frame. mret (frames @ [frame]))) []) (\<lambda>frames.
     mret \<lparr>ht_name = name, ht_is_alive = is_alive, ht_is_daemon = is_daemon, ht_stack_trace = frames\<rparr>))))"

definition read_threads :: "(heap_reader, heap_thread list) py" where
  "read_threads =
     counted_loop (\<lambda>threads. mbind read_thread (\<lambda>thread. mret (threads @ [thread]))) []"

text \<open>The attributes of an object: their names and addresses are read and dropped.\<close>

definition skip_attributes :: "pystr list \<Rightarrow> (heap_reader, unit) py" where
  "skip_attributes frequent_attributes =
     counted_loop (\<lambda>_. mbind (read_attribute_name frequent_attributes) (\<lambda>_.
       mbind read_u64 (\<lambda>_. mret ()))) ()"

definition read_common_types :: "pystr list \<Rightarrow> (heap_reader, address set) py" where
  "read_common_types frequent_attributes =
     counted_loop (\<lambda>common_types. mbind read_u64 (\<lambda>a.
       mseq (skip_attributes frequent_attributes) (mret (insert a common_types)))) {}"

definition read_content ::
  "address \<Rightarrow> (pystr, address) pydict \<Rightarrow> (heap_reader, object_content \<times> address set) py" where
  "read_content type_address known =
     mbind (mlift (subscript (map_of known) (lit ''dict''))) (\<lambda>dict_type.
     if type_address = dict_type then
       mbind (counted_loop (\<lambda>(content, referents).
           mbind read_u64 (\<lambda>key. mbind read_u64 (\<lambda>val.
           mret (dict_set key val content, referents \<union> {key, val})))) ([], {})) (\<lambda>(content, referents).
       mret (DictContent content, referents))
     else
       mbind (mlift (subscript (map_of known) (lit ''list''))) (\<lambda>list_type.
       mbind (mlift (subscript (map_of known) (lit ''tuple''))) (\<lambda>tuple_type.
       mbind (mlift (subscript (map_of known) (lit ''set''))) (\<lambda>set_type.
       if type_address \<in> {list_type, tuple_type, set_type} then
         mbind (counted_loop (\<lambda>xs. mbind read_u64 (\<lambda>a. mret (xs @ [a]))) []) (\<lambda>values.
         mret (if type_address = tuple_type then TupleContent values
               else if type_address = set_type then SetContent (set values)
               else ListContent values, set values))
       else mret (NoContent, {})))))"

definition read_object ::
  "heap_header \<Rightarrow> pystr list \<Rightarrow> address set \<Rightarrow> address set \<Rightarrow>
   (address, heap_object) pydict \<Rightarrow> (heap_reader, (address, heap_object) pydict) py" where
  "read_object header frequent_attributes common_types container_types result =
     mbind read_u64 (\<lambda>address.
     mbind read_u64 (\<lambda>type_address.
     mbind read_u32 (\<lambda>size.
     mbind (read_content type_address (hh_well_known_types header)) (\<lambda>(content, content_referents).
     mbind read_address_set (\<lambda>referents.
     mseq (if type_address \<notin> common_types then skip_attributes frequent_attributes else mret ()) (
     mbind (if hh_with_str_repr header \<and> type_address \<notin> container_types
            then mbind (mget r_offset) (\<lambda>offset. mbind skip_long_string (\<lambda>_. mret (Some offset)))
            else mret None) (\<lambda>string_offset.
     if map_of result address \<noteq> None then
       mraise HeapFormatError ''duplicate object address 0x{address:x}'' [AInt address]
     else
       mret (dict_set address
         \<lparr>ho_address = address, ho_type_address = type_address, ho_size = size,
          ho_referents = referents \<union> content_referents, ho_content = content,
          ho_string_offset = string_offset\<rparr> result))))))))"

definition read_objects ::
  "heap_header \<Rightarrow> pystr list \<Rightarrow> address set \<Rightarrow> (heap_reader, (address, heap_object) pydict) py" where
  "read_objects header frequent_attributes common_types =
     mbind (mlift (rmap (subscript (map_of (hh_well_known_types header))) container_names)) (\<lambda>containers.
     counted_loop (read_object header frequent_attributes common_types (set containers)) [])"

section \<open>The artifact\<close>

definition check_types :: "(address, heap_object) pydict \<Rightarrow> (address, pystr) pydict \<Rightarrow> (heap_reader, unit) py" where
  "check_types objects types =
     mfor (\<lambda>(_, obj).
       if map_of types (ho_type_address obj) = None then
         mraise HeapFormatError ''PyHeap type table is missing address 0x{type_address:x} for object 0x{address:x}''
           [AInt (ho_type_address obj), AInt (ho_address obj)]
       else mret ()) objects"

definition read_header :: "(heap_reader, heap_header) py" where
  "read_header =
     mbind read_u64 (\<lambda>magic.
     if magic \<noteq> reader_MAGIC then mraise HeapFormatError ''invalid PyHeap magic value'' []
     else
     mbind read_u32 (\<lambda>version.
     if version \<noteq> reader_FORMAT_VERSION then
       mraise HeapFormatError ''unsupported PyHeap format version: {version}'' [AInt version]
     else
     mbind read_long_string (\<lambda>created_at.
     mbind read_u64 (\<lambda>flags.
     mbind read_string_address_map (\<lambda>well_known_types.
     mret \<lparr>hh_version = version, hh_created_at = created_at,
            hh_with_str_repr = (and flags reader_FLAG_WITH_STR_REPR \<noteq> 0),
            hh_well_known_types = well_known_types\<rparr>)))))"

text \<open>\<open>read\<close> up to and including the check of the footer, then the whole of it.\<close>

definition read_sections :: "(heap_reader, heap) py" where
  "read_sections =
     mbind read_header (\<lambda>header.
     mbind read_threads (\<lambda>threads.
     mbind read_string_list (\<lambda>frequent_attributes.
     mbind (read_common_types frequent_attributes) (\<lambda>common_types.
     mbind (read_objects header frequent_attributes common_types) (\<lambda>objects.
     mbind read_address_string_map (\<lambda>types.
     mseq (check_types objects types) (
     mbind read_u64 (\<lambda>magic.
     if magic \<noteq> reader_MAGIC then mraise HeapFormatError ''invalid PyHeap footer magic value'' []
     else
       mret \<lparr>h_header = header, h_threads = threads, h_objects = objects, h_types = types,
              h_source = None\<rparr>))))))))"

definition read :: "(heap_reader, heap) py" where
  "read =
     mbind read_sections (\<lambda>h.
     mbind (mget (\<lambda>r. r)) (\<lambda>r.
     if r_offset r \<noteq> length (r_source r) then
       mraise HeapFormatError ''unexpected data after PyHeap footer'' []
     else mret (h\<lparr>h_source := Some (r_source r)\<rparr>)))"

definition read_heap :: "bytes \<Rightarrow> heap res" where
  "read_heap source = fst (read (heap_reader_init source))"

text \<open>The file is mapped into memory, which the \<^verbatim>\<open>mmap\<close> module refuses for an empty one.\<close>

definition load_heap :: "bytes \<Rightarrow> heap res" where
  "load_heap source =
     (if source = [] then raise ValueError ''cannot mmap an empty file'' [] else read_heap source)"

end
