(* ===== verification/Reader_Laws.thy ===== *)
theory Reader_Laws
  imports Reader
begin

text \<open>
  What every operation of the reader has in common, as the locale \<open>field_reader\<close>, and what
  follows for the whole artifact: a strict prefix of an accepted artifact and an artifact with
  bytes after its footer are rejected, every failure has one of two classes, and what is accepted
  is well formed, so that rendering its objects never fails.
\<close>

section \<open>The contract of a reading operation\<close>

definition extend :: "bytes \<Rightarrow> heap_reader \<Rightarrow> heap_reader" where
  "extend ext r = r\<lparr>r_source := r_source r @ ext\<rparr>"

lemma extend_simps [simp]:
  "r_source (extend ext r) = r_source r @ ext" "r_offset (extend ext r) = r_offset r"
  "(extend ext r)\<lparr>r_offset := n\<rparr> = extend ext (r\<lparr>r_offset := n\<rparr>)"
  by (simp_all add: extend_def)

text \<open>The parameter \<open>errs\<close> is what the operation may raise beside \<^verbatim>\<open>HeapFormatError\<close>.\<close>

locale field_reader =
  fixes errs :: "exn_class set" and m :: "(heap_reader, 'a) py"
  assumes source_kept: "m r = (v, r') \<Longrightarrow> r_source r' = r_source r"
    and advances: "m r = (v, r') \<Longrightarrow> r_offset r \<le> r_offset r'"
    and within: "m r = (Inr x, r') \<Longrightarrow> r_offset r \<le> length (r_source r) \<Longrightarrow> r_offset r' \<le> length (r_source r)"
    and error_class: "m r = (Inl e, r') \<Longrightarrow> exn_class_of e \<in> insert HeapFormatError errs"
    and stable: "m r = (Inr x, r') \<Longrightarrow> m (extend ext r) = (Inr x, extend ext r')"
begin

text \<open>On a prefix of a source the result can only be the same, or an error.\<close>

lemma on_prefix:
  assumes "m \<lparr>r_source = p @ ext, r_offset = n\<rparr> = (Inr x, r')"
    and "m \<lparr>r_source = p, r_offset = n\<rparr> = (Inr y, r'')"
  shows "x = y" and "r' = extend ext r''"
proof -
  have "extend ext \<lparr>r_source = p, r_offset = n\<rparr> = \<lparr>r_source = p @ ext, r_offset = n\<rparr>"
    by (simp add: extend_def)
  with stable [OF assms(2), of ext] assms(1) show "x = y" "r' = extend ext r''" by simp_all
qed

lemma too_short:
  assumes "m \<lparr>r_source = p @ ext, r_offset = 0\<rparr> = (Inr x, r')" and "length p < r_offset r'"
  shows "\<exists>e s. m \<lparr>r_source = p, r_offset = 0\<rparr> = (Inl e, s) \<and> exn_class_of e \<in> insert HeapFormatError errs"
proof (cases "m \<lparr>r_source = p, r_offset = 0\<rparr>")
  case (Pair v r'')
  show ?thesis
  proof (cases v)
    case (Inl e)
    with Pair show ?thesis using error_class by blast
  next
    case (Inr y)
    with Pair have run: "m \<lparr>r_source = p, r_offset = 0\<rparr> = (Inr y, r'')" by simp
    from on_prefix(2) [OF assms(1) run] within [OF run] assms(2) show ?thesis by simp
  qed
qed

end

lemmas field_readerI = field_reader.intro

section \<open>Every operation satisfies it\<close>

lemma field_reader_mret: "field_reader errs (mret x)"
  by unfold_locales (auto simp: mret_def)

lemma field_reader_mraise: "c \<in> insert HeapFormatError errs \<Longrightarrow> field_reader errs (mraise c t as)"
  by unfold_locales (auto simp: mraise_def)

lemma field_reader_offset: "field_reader errs (mget r_offset)"
  by unfold_locales (auto simp: mget_def)

lemma field_reader_subscript:
  "KeyError \<in> errs \<or> d k \<noteq> None \<Longrightarrow> field_reader errs (mlift (subscript d k))"
  by unfold_locales (auto simp: mlift_def subscript_def raise_def split: option.splits)

lemma field_reader_rmap:
  assumes "KeyError \<in> errs \<or> (\<forall>k \<in> set ks. d k \<noteq> None)"
  shows "field_reader errs (mlift (rmap (subscript d) ks))"
proof -
  have "exn_class_of e = KeyError \<and> (\<exists>k \<in> set ks. d k = None)" if "rmap (subscript d) ks = Inl e" for e
    using that
    by (induction ks arbitrary: e) (auto simp: subscript_def raise_def rbind_def split: option.splits sum.splits)
  with assms show ?thesis
    by unfold_locales (auto simp: mlift_def)
qed

lemma field_reader_mbind:
  assumes "field_reader errs m" and "\<And>x. field_reader errs (f x)"
  shows "field_reader errs (mbind m f)"
proof -
  note m = assms(1) [THEN field_reader.source_kept] assms(1) [THEN field_reader.advances]
  note f = assms(2) [THEN field_reader.source_kept] assms(2) [THEN field_reader.advances]
  show ?thesis
  proof
    fix r v r'
    assume run: "mbind m f r = (v, r')"
    obtain w s where mid: "m r = (w, s)" by (cases "m r")
    show "r_source r' = r_source r" "r_offset r \<le> r_offset r'"
    proof (atomize (full), cases w)
      case (Inl e)
      with run mid have "r' = s" by (simp add: mbind_run)
      with m [OF mid] show "r_source r' = r_source r \<and> r_offset r \<le> r_offset r'" by simp
    next
      case (Inr y)
      with run mid have rest: "f y s = (v, r')" by (simp add: mbind_run)
      from m [OF mid] f [OF rest] show "r_source r' = r_source r \<and> r_offset r \<le> r_offset r'" by simp
    qed
  next
    fix r x r'
    assume "mbind m f r = (Inr x, r')" "r_offset r \<le> length (r_source r)"
    then obtain y s where mid: "m r = (Inr y, s)" and rest: "f y s = (Inr x, r')" by (auto simp: mbind_Inr)
    from m(1) [OF mid] field_reader.within [OF assms(1) mid] field_reader.within [OF assms(2) rest]
    show "r_offset r' \<le> length (r_source r)" using \<open>r_offset r \<le> length (r_source r)\<close> by simp
  next
    fix r e r'
    assume run: "mbind m f r = (Inl e, r')"
    show "exn_class_of e \<in> insert HeapFormatError errs"
    proof (cases "m r")
      case (Pair w s)
      with run show ?thesis
        using field_reader.error_class [OF assms(1), of r e s] field_reader.error_class [OF assms(2)]
        by (cases w) (auto simp: mbind_run)
    qed
  next
    fix r x r' ext
    assume "mbind m f r = (Inr x, r')"
    then obtain y s where mid: "m r = (Inr y, s)" and rest: "f y s = (Inr x, r')" by (auto simp: mbind_Inr)
    from field_reader.stable [OF assms(1) mid] field_reader.stable [OF assms(2) rest]
    show "mbind m f (extend ext r) = (Inr x, extend ext r')" by (simp add: mbind_run)
  qed
qed

lemma field_reader_mseq: "field_reader errs m \<Longrightarrow> field_reader errs k \<Longrightarrow> field_reader errs (mseq m k)"
  by (simp add: mseq_def field_reader_mbind)

lemma field_reader_mfold: "(\<And>x. field_reader errs (f x)) \<Longrightarrow> field_reader errs (mfold n f x)"
  by (induction n arbitrary: x) (simp_all add: field_reader_mret field_reader_mbind)

lemma field_reader_mfor: "(\<And>x. field_reader errs (f x)) \<Longrightarrow> field_reader errs (mfor f xs)"
  by (induction xs) (simp_all add: field_reader_mret field_reader_mseq)

lemma field_reader_unpack: "field_reader errs (unpack n conv)"
  by unfold_locales
    (auto simp: unpack_def raise_def pyslice_extend split: if_splits)

lemma field_reader_take_bytes: "field_reader errs (take_bytes n)"
  by unfold_locales
    (auto simp: take_bytes_def raise_def pyslice_extend Let_def split: if_splits)

lemmas field_reader_basic =
  field_reader_mret field_reader_mraise field_reader_offset field_reader_subscript field_reader_rmap
  field_reader_mbind field_reader_mseq field_reader_mfold field_reader_mfor field_reader_unpack
  field_reader_take_bytes

lemma field_reader_integers:
  "field_reader errs read_bool" "field_reader errs read_i16" "field_reader errs read_u16" "field_reader errs read_u32"
  "field_reader errs read_u64"
  by (simp_all add: read_bool_def read_i16_def read_u16_def read_u32_def read_u64_def field_reader_unpack)

lemma field_reader_strings:
  "field_reader errs (read_string n)" "field_reader errs read_long_string" "field_reader errs skip_long_string"
  by (simp_all add: read_string_def read_long_string_def skip_long_string_def field_reader_basic
      field_reader_integers)

lemma field_reader_attribute_name: "field_reader errs (read_attribute_name fs)"
  unfolding read_attribute_name_def
  by (auto intro!: field_reader_basic field_reader_integers field_reader_strings simp: Let_def)

lemma field_reader_counted: "(\<And>x. field_reader errs (body x)) \<Longrightarrow> field_reader errs (counted_loop body x)"
  by (simp add: counted_loop_def field_reader_basic field_reader_integers)

lemmas field_reader_rules = field_reader_basic field_reader_integers field_reader_strings
  field_reader_attribute_name field_reader_counted

lemma field_reader_collections:
  "field_reader errs read_address_set" "field_reader errs read_string_list" "field_reader errs read_string_address_map"
  "field_reader errs read_address_string_map" "field_reader errs (skip_attributes fs)"
  by (simp_all add: read_address_set_def read_string_list_def read_string_address_map_def
      read_address_string_map_def skip_attributes_def field_reader_rules)

lemma field_reader_threads: "field_reader errs read_threads"
  by (simp add: read_threads_def read_thread_def read_frame_def field_reader_rules field_reader_collections)

lemma field_reader_common_types: "field_reader errs (read_common_types fs)"
  by (simp add: read_common_types_def field_reader_rules field_reader_collections)

text \<open>A \<^verbatim>\<open>KeyError\<close> needs a header without one of the container types.\<close>

definition has_containers :: "(pystr, address) pydict \<Rightarrow> bool" where
  "has_containers known \<longleftrightarrow> (\<forall>n \<in> set container_names. map_of known n \<noteq> None)"

lemma has_containersD:
  assumes "has_containers known"
  shows "\<exists>a. map_of known (lit ''dict'') = Some a" "\<exists>a. map_of known (lit ''list'') = Some a"
    "\<exists>a. map_of known (lit ''set'') = Some a" "\<exists>a. map_of known (lit ''tuple'') = Some a"
  using assms by (simp_all add: has_containers_def container_names_def)

lemma field_reader_content: "KeyError \<in> errs \<or> has_containers known \<Longrightarrow> field_reader errs (read_content t known)"
  unfolding read_content_def
  by (auto intro!: field_reader_rules dest: has_containersD split: prod.splits)

lemma field_reader_object:
  "KeyError \<in> errs \<or> has_containers (hh_well_known_types header) \<Longrightarrow>
   field_reader errs (read_object header fs common containers result)"
  unfolding read_object_def
  by (auto intro!: field_reader_rules field_reader_collections field_reader_content
      split: prod.splits)

lemma field_reader_objects:
  "KeyError \<in> errs \<or> has_containers (hh_well_known_types header) \<Longrightarrow>
   field_reader errs (read_objects header fs common)"
  by (simp add: read_objects_def field_reader_rules field_reader_object has_containers_def)

lemma field_reader_header: "field_reader errs read_header"
  unfolding read_header_def
  by (auto intro!: field_reader_rules field_reader_collections)

lemma field_reader_check_types: "field_reader errs (check_types objects types)"
  unfolding check_types_def
  by (auto intro!: field_reader_rules dest: has_containersD split: prod.splits)

text \<open>What \<open>read_sections\<close> does after the header.\<close>

definition read_body :: "heap_header \<Rightarrow> (heap_reader, heap) py" where
  "read_body header =
     mbind read_threads (\<lambda>threads.
     mbind read_string_list (\<lambda>frequent_attributes.
     mbind (read_common_types frequent_attributes) (\<lambda>common_types.
     mbind (read_objects header frequent_attributes common_types) (\<lambda>objects.
     mbind read_address_string_map (\<lambda>types.
     mseq (check_types objects types) (
     mbind read_u64 (\<lambda>magic.
     if magic \<noteq> reader_MAGIC then mraise HeapFormatError ''invalid PyHeap footer magic value'' []
     else
       mret \<lparr>h_header = header, h_threads = threads, h_objects = objects, h_types = types,
              h_source = None\<rparr>)))))))"

lemma read_sections_split: "read_sections = mbind read_header read_body"
  by (simp add: read_sections_def read_body_def [abs_def])

lemma field_reader_body:
  "KeyError \<in> errs \<or> has_containers (hh_well_known_types header) \<Longrightarrow> field_reader errs (read_body header)"
  unfolding read_body_def
  by (intro field_reader_basic field_reader_collections field_reader_threads field_reader_common_types
      field_reader_objects field_reader_check_types field_reader_integers conjI)
    (auto intro: field_reader_basic)

text \<open>
  The part before the objects needs no container type; the part from the objects on begins with them, and where
  the header lacks one of them it is a \<^verbatim>\<open>KeyError\<close> at once.
\<close>

definition read_front :: "(heap_reader, heap_header \<times> heap_thread list \<times> pystr list \<times> address set) py" where
  "read_front =
     mbind read_header (\<lambda>header.
     mbind read_threads (\<lambda>threads.
     mbind read_string_list (\<lambda>frequent_attributes.
     mbind (read_common_types frequent_attributes) (\<lambda>common_types.
     mret (header, threads, frequent_attributes, common_types)))))"

definition read_rest :: "heap_header \<times> heap_thread list \<times> pystr list \<times> address set \<Rightarrow> (heap_reader, heap) py" where
  "read_rest front = (case front of (header, threads, frequent_attributes, common_types) \<Rightarrow>
     mbind (read_objects header frequent_attributes common_types) (\<lambda>objects.
     mbind read_address_string_map (\<lambda>types.
     mseq (check_types objects types) (
     mbind read_u64 (\<lambda>magic.
     if magic \<noteq> reader_MAGIC then mraise HeapFormatError ''invalid PyHeap footer magic value'' []
     else
       mret \<lparr>h_header = header, h_threads = threads, h_objects = objects, h_types = types,
              h_source = None\<rparr>)))))"

lemma read_sections_front: "read_sections = mbind read_front read_rest"
  by (simp add: fun_eq_iff read_sections_def read_front_def read_rest_def mbind_run mret_def split: prod.splits sum.splits)

lemma field_reader_front: "field_reader errs read_front"
  unfolding read_front_def
  by (intro field_reader_basic field_reader_collections field_reader_threads field_reader_common_types field_reader_header)

lemma field_reader_rest:
  "KeyError \<in> errs \<or> has_containers (hh_well_known_types (fst front)) \<Longrightarrow> field_reader errs (read_rest front)"
  unfolding read_rest_def split_beta
  by (intro field_reader_basic field_reader_collections field_reader_objects field_reader_check_types field_reader_integers
      conjI) (auto intro: field_reader_basic)

lemma rmap_subscript_missing:
  "\<exists>k \<in> set ks. d k = None \<Longrightarrow> \<exists>e. rmap (subscript d) ks = Inl e \<and> exn_class_of e = KeyError"
  by (induction ks) (fastforce simp: subscript_def raise_def split: option.splits)+

lemma read_rest_missing:
  assumes "\<not> has_containers (hh_well_known_types (fst front))"
  shows "\<exists>e. read_rest front s = (Inl e, s) \<and> exn_class_of e = KeyError"
proof -
  obtain header threads fs common where front: "front = (header, threads, fs, common)" by (cases front)
  from assms rmap_subscript_missing [of container_names "map_of (hh_well_known_types header)"] obtain e where
    "rmap (subscript (map_of (hh_well_known_types header))) container_names = Inl e" "exn_class_of e = KeyError"
    by (auto simp: has_containers_def front)
  then show ?thesis by (simp add: read_rest_def front read_objects_def mbind_run mlift_def)
qed

interpretation front: field_reader "{}" read_front
  by (rule field_reader_front)

interpretation sections: field_reader "{KeyError}" read_sections
  unfolding read_sections_split
  by (simp add: field_reader_mbind field_reader_header field_reader_body)

interpretation header: field_reader "{}" read_header
  by (rule field_reader_header)

section \<open>What is accepted is well formed\<close>

lemma counted_loop_Inr:
  assumes "counted_loop body x r = (Inr y, r')"
    and "\<And>n r1. read_u32 r = (Inr n, r1) \<Longrightarrow> P x r1"
    and "\<And>x s y s'. P x s \<Longrightarrow> body x s = (Inr y, s') \<Longrightarrow> P y s'"
  shows "P y r'"
  using assms(1) unfolding counted_loop_def mbind_Inr
  by (auto elim!: mfold_Inr intro: assms(2,3))

definition content_addresses :: "object_content \<Rightarrow> address set" where
  "content_addresses content =
     (case content of
        NoContent \<Rightarrow> {}
      | DictContent d \<Rightarrow> fst ` set d \<union> snd ` set d
      | ListContent xs \<Rightarrow> set xs
      | SetContent s \<Rightarrow> s
      | TupleContent xs \<Rightarrow> set xs)"

definition content_matches :: "(pystr, address) pydict \<Rightarrow> address \<Rightarrow> object_content \<Rightarrow> bool" where
  "content_matches known t content =
     (case content of
        NoContent \<Rightarrow> Some t \<notin> map_of known ` set container_names
      | DictContent d \<Rightarrow> map_of known (lit ''dict'') = Some t \<and> dict_ok d
      | ListContent xs \<Rightarrow> map_of known (lit ''list'') = Some t
      | SetContent s \<Rightarrow> map_of known (lit ''set'') = Some t \<and> finite s
      | TupleContent xs \<Rightarrow> map_of known (lit ''tuple'') = Some t)"

definition object_wf :: "heap_header \<Rightarrow> bytes \<Rightarrow> address \<Rightarrow> heap_object \<Rightarrow> bool" where
  "object_wf header source address obj \<longleftrightarrow>
     ho_address obj = address \<and> 0 \<le> ho_size obj \<and> ho_size obj < 2 ^ 32 \<and> finite (ho_referents obj) \<and>
     content_addresses (ho_content obj) \<subseteq> ho_referents obj \<and>
     content_matches (hh_well_known_types header) (ho_type_address obj) (ho_content obj) \<and>
     (case ho_string_offset obj of
        None \<Rightarrow> \<not> hh_with_str_repr header \<or>
                Some (ho_type_address obj) \<in> map_of (hh_well_known_types header) ` set container_names
      | Some offset \<Rightarrow> offset + 2 + nat (be_dec (pyslice source offset (offset + 2))) \<le> length source)"

definition heap_wf :: "heap \<Rightarrow> bytes \<Rightarrow> bool" where
  "heap_wf h source \<longleftrightarrow>
     h_source h = Some source \<and> hh_version (h_header h) = reader_FORMAT_VERSION \<and>
     has_containers (hh_well_known_types (h_header h)) \<and> dict_ok (h_objects h) \<and>
     (\<forall>(a, obj) \<in> set (h_objects h). object_wf (h_header h) source a obj \<and>
        map_of (h_types h) (ho_type_address obj) \<noteq> None)"

lemma dict_set_entries: "set (dict_set k v d) \<subseteq> insert (k, v) (set d)"
  by (induction d) (auto simp: dict_set_def)

lemma dict_set_images:
  "fst ` set (dict_set k v d) \<subseteq> insert k (fst ` set d)"
  "snd ` set (dict_set k v d) \<subseteq> insert v (snd ` set d)"
  using image_mono [OF dict_set_entries [of k v d], of fst]
    image_mono [OF dict_set_entries [of k v d], of snd] by simp_all

lemma insert_pair_subset:
  "A' \<subseteq> insert k A \<Longrightarrow> B' \<subseteq> insert v B \<Longrightarrow> A \<union> B \<subseteq> R \<Longrightarrow> A' \<union> B' \<subseteq> R \<union> {k, v}"
  by blast

lemma unpack_Inr:
  "unpack n conv r = (Inr x, r') \<longleftrightarrow> r_offset r + n \<le> length (r_source r) \<and>
     x = conv (pyslice (r_source r) (r_offset r) (r_offset r + n)) \<and> r' = r\<lparr>r_offset := r_offset r + n\<rparr>"
  by (auto simp: unpack_def)

lemma take_bytes_Inr:
  "take_bytes n r = (Inr x, r') \<longleftrightarrow> r_offset r + n \<le> length (r_source r) \<and>
     x = pyslice (r_source r) (r_offset r) (r_offset r + n) \<and> r' = r\<lparr>r_offset := r_offset r + n\<rparr>"
  by (auto simp: take_bytes_def Let_def)

lemma read_u32_bounds: "read_u32 r = (Inr n, r') \<Longrightarrow> 0 \<le> n \<and> n < 2 ^ 32"
  using be_dec_bounds [of "pyslice (r_source r) (r_offset r) (r_offset r + 4)"]
  by (auto simp: read_u32_def unpack_Inr length_pyslice)

lemma read_address_set_finite: "read_address_set r = (Inr s, r') \<Longrightarrow> finite s"
  unfolding read_address_set_def
  by (erule counted_loop_Inr [where P = "\<lambda>s _. finite s"]) (auto simp: mbind_Inr mret_def)

lemma skip_long_string_Inr:
  assumes "skip_long_string r = (Inr u, r')"
  shows "r_offset r + 2 + nat (be_dec (pyslice (r_source r) (r_offset r) (r_offset r + 2))) \<le> length (r_source r)"
  using assms by (auto simp: skip_long_string_def mbind_Inr read_u16_def unpack_Inr take_bytes_Inr)

lemma read_content_Inr:
  assumes "read_content t known r = (Inr (content, referents), r')"
  shows "content_addresses content \<subseteq> referents \<and> finite referents \<and> content_matches known t content"
proof -
  from assms obtain d where d: "map_of known (lit ''dict'') = Some d"
    by (auto simp: read_content_def mbind_Inr mlift_def)
  show ?thesis
  proof (cases "t = d")
    case True
    with assms d obtain es where c: "content = DictContent es"
      and run: "counted_loop (\<lambda>(content, referents). mbind read_u64 (\<lambda>key. mbind read_u64 (\<lambda>val.
        mret (dict_set key val content, referents \<union> {key, val})))) ([], {}) r = (Inr (es, referents), r')"
      by (auto simp: read_content_def mbind_Inr mlift_def mret_def split: prod.splits)
    let ?P = "\<lambda>(es, referents) _. dict_ok es \<and> finite referents \<and>
      fst ` set es \<union> snd ` set es \<subseteq> referents"
    have "?P (es, referents) r'"
    proof (rule counted_loop_Inr [OF run, where P = ?P])
      fix x s y s'
      assume inv: "?P x s" and step: "(case x of (content, referents) \<Rightarrow> mbind read_u64 (\<lambda>key. mbind read_u64 (\<lambda>val.
        mret (dict_set key val content, referents \<union> {key, val})))) s = (Inr y, s')"
      obtain es refs where x: "x = (es, refs)" by (cases x)
      with step obtain key val s1 s2 where "read_u64 s = (Inr key, s1)" "read_u64 s1 = (Inr val, s2)"
        "y = (dict_set key val es, refs \<union> {key, val})"
        by (auto simp: mbind_Inr mret_def)
      moreover have "fst ` set (dict_set key val es) \<union> snd ` set (dict_set key val es) \<subseteq> refs \<union> {key, val}"
        if "fst ` set es \<union> snd ` set es \<subseteq> refs"
        using that by (rule insert_pair_subset [OF dict_set_images])
      ultimately show "?P y s'" using inv
        by (simp only: x prod.case dict_ok_set finite_Un finite_insert finite.emptyI simp_thms)
    qed simp
    with True c d show ?thesis by (auto simp: content_addresses_def content_matches_def)
  next
    case False
    with assms d obtain l tu s where types: "map_of known (lit ''list'') = Some l"
        "map_of known (lit ''tuple'') = Some tu" "map_of known (lit ''set'') = Some s"
      by (auto simp: read_content_def mbind_Inr mlift_def)
    let ?items = "counted_loop (\<lambda>xs. mbind read_u64 (\<lambda>a. mret (xs @ [a]))) []"
    have "read_content t known = (if t \<in> {l, tu, s}
        then mbind ?items (\<lambda>xs. mret (if t = tu then TupleContent xs
          else if t = s then SetContent (set xs) else ListContent xs, set xs))
        else mret (NoContent, {}))"
      using types d False by (simp add: read_content_def subscript_def mbind_simps)
    with assms have "if t \<in> {l, tu, s} then \<exists>xs. content = (if t = tu then TupleContent xs
          else if t = s then SetContent (set xs) else ListContent xs) \<and> referents = set xs
        else content = NoContent \<and> referents = {}"
      by (cases "t \<in> {l, tu, s}") (auto simp: mbind_Inr mret_def simp del: insert_iff)
    with types show ?thesis using False d
      by (auto simp: content_addresses_def content_matches_def container_names_def split: if_splits)
  qed
qed

lemmas sources_kept = field_reader_integers(4,5) [THEN field_reader.source_kept]
  field_reader_collections(1,5) [THEN field_reader.source_kept]

lemma read_object_Inr:
  assumes run: "read_object header fs common containers result r = (Inr result', r')"
    and containers: "containers = the ` map_of (hh_well_known_types header) ` set container_names"
    and known: "has_containers (hh_well_known_types header)"
    and "dict_ok result" and "\<forall>(a, obj) \<in> set result. object_wf header (r_source r) a obj"
  shows "dict_ok result' \<and> (\<forall>(a, obj) \<in> set result'. object_wf header (r_source r) a obj)"
proof -
  let ?offset = "\<lambda>t. if hh_with_str_repr header \<and> t \<notin> containers
    then mbind (mget r_offset) (\<lambda>offset. mbind skip_long_string (\<lambda>_. mret (Some offset))) else mret None"
  let ?attributes = "\<lambda>t. if t \<notin> common then skip_attributes fs else mret ()"
  define off att where "off = ?offset" and "att = ?attributes"
  have "read_object header fs common containers result =
     mbind read_u64 (\<lambda>address. mbind read_u64 (\<lambda>type_address. mbind read_u32 (\<lambda>size.
     mbind (read_content type_address (hh_well_known_types header)) (\<lambda>(content, content_referents).
     mbind read_address_set (\<lambda>referents. mseq (att type_address) (mbind (off type_address) (\<lambda>string_offset.
     if map_of result address \<noteq> None then
       mraise HeapFormatError ''duplicate object address 0x{address:x}'' [AInt address]
     else mret (dict_set address
       \<lparr>ho_address = address, ho_type_address = type_address, ho_size = size,
        ho_referents = referents \<union> content_referents, ho_content = content,
        ho_string_offset = string_offset\<rparr> result))))))))"
    by (simp only: read_object_def off_def att_def)
  then obtain a t size content crefs refs offset s1 s2 s3 s4 s5 s6 s7 where
    reads: "read_u64 r = (Inr a, s1)" "read_u64 s1 = (Inr t, s2)" and size: "read_u32 s2 = (Inr size, s3)"
    and content: "read_content t (hh_well_known_types header) s3 = (Inr (content, crefs), s4)"
    and refs: "read_address_set s4 = (Inr refs, s5)" and attributes: "att t s5 = (Inr (), s6)"
    and offset: "off t s6 = (Inr offset, s7)"
    and result': "result' = dict_set a \<lparr>ho_address = a, ho_type_address = t, ho_size = size,
      ho_referents = refs \<union> crefs, ho_content = content, ho_string_offset = offset\<rparr> result"
    using run by (auto simp: mret_def mraise_def mbind_Inr mseq_Inr split: if_splits)
  have "field_reader {KeyError} (read_content t (hh_well_known_types header))"
    by (simp add: field_reader_content)
  from field_reader.source_kept [OF this content] attributes reads size refs
  have src: "r_source s6 = r_source r"
    by (auto simp: sources_kept mret_def att_def split: if_splits)
  have in_containers: "t \<in> containers \<longleftrightarrow> Some t \<in> map_of (hh_well_known_types header) ` set container_names"
    using known unfolding containers has_containers_def by force
  have "case offset of
      None \<Rightarrow> \<not> hh_with_str_repr header \<or>
        Some t \<in> map_of (hh_well_known_types header) ` set container_names
    | Some off \<Rightarrow> off + 2 + nat (be_dec (pyslice (r_source r) off (off + 2))) \<le> length (r_source r)"
    using offset skip_long_string_Inr [of s6] src in_containers
    by (auto simp: mbind_Inr mget_def mret_def off_def split: if_splits)
  moreover from read_content_Inr [OF content] read_address_set_finite [OF refs] read_u32_bounds [OF size]
  have "finite (refs \<union> crefs)" "content_addresses content \<subseteq> refs \<union> crefs" "0 \<le> size" "size < 2 ^ 32"
    "content_matches (hh_well_known_types header) t content" by auto
  ultimately have "object_wf header (r_source r) a \<lparr>ho_address = a, ho_type_address = t, ho_size = size,
      ho_referents = refs \<union> crefs, ho_content = content, ho_string_offset = offset\<rparr>"
    by (auto simp: object_wf_def split: option.splits)
  with assms(4,5) show ?thesis
    unfolding result' by (auto dest!: dict_set_entries [THEN subsetD])
qed

lemma read_objects_Inr:
  assumes "read_objects header fs common r = (Inr objects, r')"
  shows "has_containers (hh_well_known_types header) \<and> dict_ok objects \<and>
    (\<forall>(a, obj) \<in> set objects. object_wf header (r_source r) a obj)"
proof -
  from assms obtain cs where cs: "rmap (subscript (map_of (hh_well_known_types header))) container_names = Inr cs"
    and run: "counted_loop (read_object header fs common (set cs)) [] r = (Inr objects, r')"
    by (auto simp: read_objects_def mbind_Inr mlift_def)
  from cs have all: "list_all2 (\<lambda>n c. map_of (hh_well_known_types header) n = Some c) container_names cs"
    by (simp add: rmap_Inr)
  then have known: "has_containers (hh_well_known_types header)"
    unfolding has_containers_def by (induction rule: list_all2_induct) auto
  from all have containers: "set cs = the ` map_of (hh_well_known_types header) ` set container_names"
    by (induction rule: list_all2_induct) auto
  let ?P = "\<lambda>objects s. r_source s = r_source r \<and> dict_ok objects \<and>
    (\<forall>(a, obj) \<in> set objects. object_wf header (r_source r) a obj)"
  have "?P objects r'"
  proof (rule counted_loop_Inr [OF run, where P = ?P])
    fix x s y s'
    assume "?P x s" and "read_object header fs common (set cs) x s = (Inr y, s')"
    then show "?P y s'"
      using read_object_Inr [OF _ containers known, of fs common x s y s']
        field_reader.source_kept [OF field_reader_object, of "{KeyError}" header fs common "set cs" x s "Inr y" s']
      by simp
  qed (simp add: sources_kept)
  with known show ?thesis by simp
qed

lemma check_types_Inr:
  "check_types objects types r = (Inr u, r') \<Longrightarrow>
     \<forall>(a, obj) \<in> set objects. map_of types (ho_type_address obj) \<noteq> None"
  unfolding check_types_def
  by (induction objects arbitrary: r) (fastforce simp: mseq_Inr mraise_def mret_def split: if_splits)+

lemma read_header_Inr: "read_header r = (Inr header, r') \<Longrightarrow> hh_version header = reader_FORMAT_VERSION"
  by (auto simp: read_header_def mbind_Inr mret_def mraise_def split: if_splits)

lemma read_body_Inr:
  assumes "read_body header r = (Inr h, r')"
  shows "h_header h = header \<and> has_containers (hh_well_known_types header) \<and> dict_ok (h_objects h) \<and>
    (\<forall>(a, obj) \<in> set (h_objects h). object_wf header (r_source r) a obj \<and>
      map_of (h_types h) (ho_type_address obj) \<noteq> None)"
proof -
  from assms obtain threads fs common objects types s1 s2 s3 s4 s5 s6 where
    "read_threads r = (Inr threads, s1)" "read_string_list s1 = (Inr fs, s2)"
    "read_common_types fs s2 = (Inr common, s3)" and objects: "read_objects header fs common s3 = (Inr objects, s4)"
    and types: "check_types objects types s5 = (Inr (), s6)"
    and h: "h = \<lparr>h_header = header, h_threads = threads, h_objects = objects, h_types = types, h_source = None\<rparr>"
    by (auto simp: read_body_def mbind_Inr mseq_Inr mret_def mraise_def split: if_splits)
  then have "r_source s3 = r_source r"
    by (simp add: field_reader_threads [THEN field_reader.source_kept]
        field_reader_collections(2) [THEN field_reader.source_kept]
        field_reader_common_types [THEN field_reader.source_kept])
  with read_objects_Inr [OF objects] check_types_Inr [OF types] h show ?thesis by auto
qed

lemma read_heap_Inr:
  "read_heap source = Inr h \<longleftrightarrow>
     (\<exists>h0 r. read_sections (heap_reader_init source) = (Inr h0, r) \<and> r_offset r = length source \<and>
       r_source r = source \<and> h = h0\<lparr>h_source := Some source\<rparr>)"
proof (cases "read_sections (heap_reader_init source)")
  case (Pair v r)
  have "r_source r = source" using sections.source_kept [OF Pair] by (simp add: heap_reader_init_def)
  with Pair show ?thesis
    by (cases v) (auto simp: read_heap_def read_def mbind_run mget_def mraise_def mret_def)
qed

lemma read_heap_wf: "read_heap source = Inr h \<Longrightarrow> heap_wf h source"
proof -
  assume "read_heap source = Inr h"
  then obtain h0 r header s where h: "h = h0\<lparr>h_source := Some source\<rparr>"
    and header: "read_header (heap_reader_init source) = (Inr header, s)" and body: "read_body header s = (Inr h0, r)"
    by (auto simp: read_heap_Inr read_sections_split mbind_Inr)
  have "r_source s = source" using header.source_kept [OF header] by (simp add: heap_reader_init_def)
  with read_body_Inr [OF body] read_header_Inr [OF header] h show ?thesis
    by (simp add: heap_wf_def)
qed

end
