(* ===== verification/Round_Trip.thy ===== *)
theory Round_Trip
  imports Heap_Format Reader_Laws
begin

text \<open>
  The two ends of the artifact together: what the reader makes of the bytes of \<open>artifact_bytes\<close>,
  which is what the writer produces. \<open>parses_at n m bs x\<close> says that \<open>m\<close>, started at offset \<open>n\<close>
  in front of \<open>bs\<close>, returns \<open>x\<close> and stops behind \<open>bs\<close>; it composes over the reader's
  combinators as \<open>writes\<close> does over the writer's.
\<close>

section \<open>The contract of reading back\<close>

definition parses_at :: "nat \<Rightarrow> (heap_reader, 'a) py \<Rightarrow> bytes \<Rightarrow> 'a \<Rightarrow> bool" where
  "parses_at n m bs x \<longleftrightarrow>
     (\<forall>pre post. length pre = n \<longrightarrow>
       m \<lparr>r_source = pre @ bs @ post, r_offset = n\<rparr> =
         (Inr x, \<lparr>r_source = pre @ bs @ post, r_offset = n + length bs\<rparr>))"

lemma parses_mret: "parses_at n (mret x) [] x"
  by (simp add: parses_at_def mret_def)

lemma parses_mbind:
  assumes "parses_at n m b1 x" and "parses_at (n + length b1) (f x) b2 y"
  shows "parses_at n (mbind m f) (b1 @ b2) y"
  unfolding parses_at_def
proof (intro allI impI)
  fix pre post :: bytes
  assume pre: "length pre = n"
  have "m \<lparr>r_source = pre @ b1 @ b2 @ post, r_offset = n\<rparr> =
      (Inr x, \<lparr>r_source = pre @ b1 @ b2 @ post, r_offset = n + length b1\<rparr>)"
    using assms(1) pre by (simp add: parses_at_def)
  moreover have "f x \<lparr>r_source = (pre @ b1) @ b2 @ post, r_offset = n + length b1\<rparr> =
      (Inr y, \<lparr>r_source = (pre @ b1) @ b2 @ post, r_offset = (n + length b1) + length b2\<rparr>)"
    using assms(2) pre unfolding parses_at_def by (metis length_append)
  ultimately show "mbind m f \<lparr>r_source = pre @ (b1 @ b2) @ post, r_offset = n\<rparr> =
      (Inr y, \<lparr>r_source = pre @ (b1 @ b2) @ post, r_offset = n + length (b1 @ b2)\<rparr>)"
    by (simp add: mbind_run add.assoc)
qed

lemma parses_last: "parses_at n m bs x \<Longrightarrow> parses_at (n + length bs) (f x) [] y \<Longrightarrow> parses_at n (mbind m f) bs y"
  using parses_mbind [of n m bs x f "[]" y] by simp

lemma parses_return: "parses_at n m bs x \<Longrightarrow> parses_at n (mbind m (\<lambda>x. mret (f x))) bs (f x)"
  by (erule parses_last) (rule parses_mret)

lemma parses_mseq:
  "parses_at n m b1 () \<Longrightarrow> parses_at (n + length b1) k b2 y \<Longrightarrow> parses_at n (mseq m k) (b1 @ b2) y"
  by (simp add: mseq_def parses_mbind)

lemma parses_eq: "parses_at n m bs x \<Longrightarrow> bs = bs' \<Longrightarrow> x = x' \<Longrightarrow> parses_at n m bs' x'"
  by simp

lemma parses_unpack: "length bs = k \<Longrightarrow> parses_at n (unpack k conv) bs (conv bs)"
  by (auto simp: parses_at_def unpack_def)

lemma parses_take: "length bs = k \<Longrightarrow> parses_at n (take_bytes k) bs bs"
  by (auto simp: parses_at_def take_bytes_def Let_def)

lemma parses_u64: "u64_ok v \<Longrightarrow> parses_at n read_u64 (be_enc 8 v) v"
  using parses_unpack [of "be_enc 8 v" 8 n be_dec] by (simp add: read_u64_def u64_ok_def)

lemma parses_u32: "0 \<le> v \<Longrightarrow> v < 2 ^ 32 \<Longrightarrow> parses_at n read_u32 (be_enc 4 v) v"
  using parses_unpack [of "be_enc 4 v" 4 n be_dec] by (simp add: read_u32_def)

lemma parses_bool: "parses_at n read_bool (pack_bool b) b"
  using parses_unpack [of "pack_bool b" 1 n "\<lambda>bs. be_dec bs \<noteq> 0"]
  by (cases b) (simp_all add: read_bool_def pack_bool_def be_dec_def)

text \<open>A text as the artifact keeps it: cut to the length its field can count.\<close>

definition stored :: "pystr \<Rightarrow> pystr" where
  "stored s = decode_text (take MAX_STRING_SIZE (encode_string s))"

definition stored_bytes :: "pystr \<Rightarrow> bytes" where
  "stored_bytes s = take MAX_STRING_SIZE (encode_string s)"

lemma stored_id: "encodable s \<Longrightarrow> length (encode_string s) \<le> MAX_STRING_SIZE \<Longrightarrow> stored s = s"
  by (simp add: stored_def decode_encode_string)

lemma parses_u16: "0 \<le> v \<Longrightarrow> v < 2 ^ 16 \<Longrightarrow> parses_at n read_u16 (be_enc 2 v) v"
  using parses_unpack [of "be_enc 2 v" 2 n be_dec] by (simp add: read_u16_def)

lemma long_string_bytes_alt: "long_string_bytes s = be_enc 2 (int (length (stored_bytes s))) @ stored_bytes s"
  by (simp add: long_string_bytes_def stored_bytes_def Let_def)

lemma stored_bytes_length: "parses_at n read_u16 (be_enc 2 (int (length (stored_bytes s)))) (int (length (stored_bytes s)))"
  by (rule parses_u16) (auto simp: stored_bytes_def MAX_STRING_SIZE_def)

lemma parses_long_string: "parses_at n read_long_string (long_string_bytes s) (stored s)"
  unfolding read_long_string_def long_string_bytes_alt
  by (rule parses_mbind [OF stored_bytes_length])
    (simp add: read_string_def stored_def stored_bytes_def [symmetric] parses_return [OF parses_take])

lemma parses_skip_long_string: "parses_at n skip_long_string (long_string_bytes s) ()"
  unfolding skip_long_string_def long_string_bytes_alt
  by (rule parses_mbind [OF stored_bytes_length]) (rule parses_last [OF parses_take parses_mret], simp)

lemma parses_attribute_name:
  "parses_at n (read_attribute_name fs) (short_string_bytes s) (decode_text (take 0x7FFF (encode_string s)))"
proof -
  let ?e = "take 0x7FFF (encode_string s)" and ?conv = be_dec_signed
  have len: "int (length ?e) < 0x8000" by simp
  then have "be_dec_signed (be_enc 2 (int (length ?e) mod 256 ^ 2)) = int (length ?e)"
    by (intro be_dec_signed_be_enc) simp_all
  with len have "parses_at n read_i16 (be_enc 2 (int (length ?e))) (int (length ?e))"
    using parses_unpack [of "be_enc 2 (int (length ?e))" 2 n be_dec_signed] by (simp add: read_i16_def)
  moreover have "parses_at k (read_string (int (length ?e))) ?e (decode_text ?e)" for k
    by (simp add: read_string_def parses_return [OF parses_take])
  ultimately show ?thesis
    unfolding read_attribute_name_def short_string_bytes_def Let_def
    by (intro parses_mbind [where x = "int (length ?e)"]) simp_all
qed

lemma parses_mfold:
  assumes "\<And>x acc k. x \<in> set xs \<Longrightarrow> parses_at k (body acc) (b x) (g x acc)"
  shows "parses_at n (mfold (length xs) body acc) (concat (map b xs)) (fold g xs acc)"
  using assms
proof (induction xs arbitrary: n acc)
  case Nil
  show ?case by (simp add: parses_mret)
next
  case (Cons x xs)
  then show ?case by (simp add: parses_mbind [of n "body acc" "b x" "g x acc"])
qed

lemma parses_count: "count_ok xs \<Longrightarrow> parses_at n read_u32 (be_enc 4 (int (length xs))) (int (length xs))"
  by (rule parses_u32) (simp_all add: count_ok_def)

lemma parses_counted:
  assumes "count_ok xs" and "\<And>x acc k. x \<in> set xs \<Longrightarrow> parses_at k (body acc) (b x) (g x acc)"
  shows "parses_at n (counted_loop body acc) (be_enc 4 (int (length xs)) @ concat (map b xs)) (fold g xs acc)"
  unfolding counted_loop_def
  by (rule parses_mbind [OF parses_count [OF assms(1)]]) (simp add: parses_mfold assms(2))

lemma fold_snoc: "fold (\<lambda>x acc. acc @ [g x]) xs acc = acc @ map g xs"
  by (induction xs arbitrary: acc) simp_all

lemma fold_dict: "fold (\<lambda>x d. dict_set (k x) (v x) d) xs [] = dict_of (map (\<lambda>x. (k x, v x)) xs)"
proof -
  have "fold (\<lambda>x d. dict_set (k x) (v x) d) xs d =
      foldl (\<lambda>d kv. dict_set (fst kv) (snd kv) d) d (map (\<lambda>x. (k x, v x)) xs)" for d
    by (induction xs arbitrary: d) simp_all
  then show ?thesis by (simp add: dict_of_def)
qed

lemma fold_insert_set: "fold insert xs s = set xs \<union> s"
  by (induction xs arbitrary: s) auto

lemma parses_list:
  assumes "count_ok xs" and "\<And>x k. x \<in> set xs \<Longrightarrow> parses_at k m (b x) (g x)"
  shows "parses_at n (counted_loop (\<lambda>acc. mbind m (\<lambda>y. mret (acc @ [y]))) [])
    (be_enc 4 (int (length xs)) @ concat (map b xs)) (map g xs)"
proof -
  have "parses_at k (mbind m (\<lambda>y. mret (acc @ [y]))) (b x) (acc @ [g x])" if "x \<in> set xs" for k x acc
    using parses_return [OF assms(2) [OF that], of k "\<lambda>y. acc @ [y]"] .
  then show ?thesis
    using parses_counted [OF assms(1), where g = "\<lambda>x acc. acc @ [g x]" and acc = "[]"] by (simp add: fold_snoc)
qed

section \<open>Reading back the sections\<close>

lemma parses_string_address_map:
  assumes "count_ok xs" and "\<And>x. x \<in> set xs \<Longrightarrow> u64_ok (v x)"
  shows "parses_at n read_string_address_map
    (be_enc 4 (int (length xs)) @ concat (map (\<lambda>x. long_string_bytes (k x) @ be_enc 8 (v x)) xs))
    (dict_of (map (\<lambda>x. (stored (k x), v x)) xs))"
  unfolding read_string_address_map_def fold_dict [symmetric]
  by (intro parses_counted assms(1) parses_mbind [OF parses_long_string] parses_return [OF parses_u64] assms(2))

lemma parses_address_string_map:
  assumes "count_ok xs" and "\<And>x. x \<in> set xs \<Longrightarrow> u64_ok (k x)"
  shows "parses_at n read_address_string_map
    (be_enc 4 (int (length xs)) @ concat (map (\<lambda>x. be_enc 8 (k x) @ long_string_bytes (v x)) xs))
    (dict_of (map (\<lambda>x. (k x, stored (v x))) xs))"
  unfolding read_address_string_map_def fold_dict [symmetric]
  by (intro parses_counted assms(1) parses_mbind [OF parses_u64] parses_return [OF parses_long_string] assms(2))

definition read_back_frame :: "captured_frame \<Rightarrow> heap_frame" where
  "read_back_frame f =
     \<lparr>hf_file_name = stored (cf_filename f), hf_line_number = cf_lineno f,
      hf_function_name = stored (cf_function f),
      hf_locals = dict_of (map (\<lambda>l. (stored (fst l), snd l)) (cf_locals f))\<rparr>"

definition read_back_thread :: "captured_thread \<Rightarrow> heap_thread" where
  "read_back_thread t =
     \<lparr>ht_name = stored (ct_name t), ht_is_alive = ct_is_alive t, ht_is_daemon = ct_is_daemon t,
      ht_stack_trace = map read_back_frame (ct_frames t)\<rparr>"

lemma parses_frame: "frame_ok f \<Longrightarrow> parses_at n read_frame (frame_bytes f) (read_back_frame f)"
  unfolding read_frame_def frame_bytes_def read_back_frame_def local_bytes_def [abs_def] frame_ok_def
  by (intro parses_mbind [OF parses_long_string] parses_mbind [OF parses_u32]
      parses_return [OF parses_string_address_map]) auto

lemma parses_thread: "thread_ok t \<Longrightarrow> parses_at n read_thread (thread_bytes t) (read_back_thread t)"
  unfolding read_thread_def thread_bytes_def read_back_thread_def thread_ok_def
  by (intro parses_mbind [OF parses_long_string] parses_mbind [OF parses_bool]
      parses_return [OF parses_list] parses_frame) auto

lemma parses_threads: "threads_ok ts \<Longrightarrow> parses_at n read_threads (threads_bytes ts) (map read_back_thread ts)"
  unfolding read_threads_def threads_bytes_def threads_ok_def
  by (intro parses_list parses_thread) auto

section \<open>Reading back the objects\<close>

lemma parses_address_set:
  assumes "count_ok xs" and "\<forall>a \<in> set xs. u64_ok a"
  shows "parses_at n read_address_set (be_enc 4 (int (length xs)) @ concat (map (be_enc 8) xs)) (set xs)"
proof -
  have "parses_at k (mbind read_u64 (\<lambda>a. mret (insert a s))) (be_enc 8 a) (insert a s)" if "a \<in> set xs" for k s a
    by (rule parses_return [OF parses_u64]) (use assms(2) that in blast)
  with parses_counted [OF assms(1), where g = insert and acc = "{}"] show ?thesis
    by (simp add: read_address_set_def fold_insert_set)
qed

lemma parses_attributes:
  assumes "count_ok as" and "\<forall>a \<in> set as. u64_ok (attr_address a)"
  shows "parses_at n (skip_attributes fs) (be_enc 4 (int (length as)) @ concat (map attribute_bytes as)) ()"
proof -
  have "parses_at k (mbind (read_attribute_name fs) (\<lambda>_. mbind read_u64 (\<lambda>_. mret ()))) (attribute_bytes a) ()"
    if "a \<in> set as" for k a
    unfolding attribute_bytes_def using assms(2) that
    by (intro parses_mbind [OF parses_attribute_name] parses_last [OF parses_u64 parses_mret]) simp
  with parses_counted [OF assms(1), where g = "\<lambda>_ _. ()" and acc = "()"] show ?thesis
    unfolding skip_attributes_def by simp
qed

text \<open>
  What the agent promises about an object: the kind of its content goes with its type, where
  the four container types are different types.
\<close>

definition kind_type :: "(pystr, address) pydict \<Rightarrow> content_kind \<Rightarrow> address option" where
  "kind_type known kind =
     (case kind of
        KIND_NONE \<Rightarrow> None
      | KIND_DICT \<Rightarrow> map_of known (lit ''dict'')
      | KIND_LIST \<Rightarrow> map_of known (lit ''list'')
      | KIND_SET \<Rightarrow> map_of known (lit ''set'')
      | KIND_TUPLE \<Rightarrow> map_of known (lit ''tuple''))"

definition kind_agrees :: "(pystr, address) pydict \<Rightarrow> captured_object \<Rightarrow> bool" where
  "kind_agrees known obj \<longleftrightarrow>
     (if co_content_kind obj = KIND_NONE
      then Some (co_type_address obj) \<notin> map_of known ` set container_type_names
      else kind_type known (co_content_kind obj) = Some (co_type_address obj))"

definition containers_distinct :: "(pystr, address) pydict \<Rightarrow> bool" where
  "containers_distinct known \<longleftrightarrow>
     distinct (map (map_of known) container_type_names) \<and> None \<notin> map_of known ` set container_type_names"

definition read_back_content :: "captured_object \<Rightarrow> object_content" where
  "read_back_content obj =
     (case co_content_kind obj of
        KIND_NONE \<Rightarrow> NoContent
      | KIND_DICT \<Rightarrow> DictContent (dict_of (co_dict_content obj))
      | KIND_LIST \<Rightarrow> ListContent (co_sequence_content obj)
      | KIND_SET \<Rightarrow> SetContent (set (co_sequence_content obj))
      | KIND_TUPLE \<Rightarrow> TupleContent (co_sequence_content obj))"

lemma parses_dict_content:
  assumes "count_ok es" and "\<forall>e \<in> set es. u64_ok (fst e) \<and> u64_ok (snd e)"
  shows "parses_at n (counted_loop (\<lambda>(content, referents). mbind read_u64 (\<lambda>key. mbind read_u64 (\<lambda>val.
      mret (dict_set key val content, referents \<union> {key, val})))) ([], {}))
    (be_enc 4 (int (length es)) @ concat (map entry_bytes es)) (dict_of es, fst ` set es \<union> snd ` set es)"
proof -
  let ?g = "\<lambda>e (d, s). (dict_set (fst e) (snd e) d, s \<union> {fst e, snd e})"
  have "parses_at k (case acc of (content, referents) \<Rightarrow> mbind read_u64 (\<lambda>key. mbind read_u64 (\<lambda>val.
      mret (dict_set key val content, referents \<union> {key, val})))) (entry_bytes e) (?g e acc)"
    if "e \<in> set es" for k acc e
    unfolding entry_bytes_def using assms(2) that
    by (cases acc) (simp only: prod.case, intro parses_mbind [OF parses_u64] parses_return [OF parses_u64]; simp)
  moreover have "fold ?g es (d, s) =
      (fold (\<lambda>e d. dict_set (fst e) (snd e) d) es d, fst ` set es \<union> snd ` set es \<union> s)" for d s
    by (induction es arbitrary: d s) auto
  ultimately show ?thesis
    using parses_counted [OF assms(1), where g = ?g and acc = "([], {})"] by (simp add: fold_dict)
qed

lemma parses_sequence_content:
  assumes "count_ok xs" and "\<forall>a \<in> set xs. u64_ok a"
  shows "parses_at n (counted_loop (\<lambda>xs. mbind read_u64 (\<lambda>a. mret (xs @ [a]))) [])
    (be_enc 4 (int (length xs)) @ concat (map (be_enc 8) xs)) xs"
  using parses_list [OF assms(1), of read_u64 "be_enc 8" "\<lambda>a. a"] assms(2) by (simp add: parses_u64)

lemma parses_content:
  assumes "content_ok obj" and "kind_agrees known obj" and "containers_distinct known"
  shows "parses_at n (read_content (co_type_address obj) known) (content_bytes obj)
    (read_back_content obj, container_addresses obj)"
proof -
  let ?t = "co_type_address obj"
  obtain d l s u where types: "map_of known (lit ''dict'') = Some d" "map_of known (lit ''list'') = Some l"
    "map_of known (lit ''set'') = Some s" "map_of known (lit ''tuple'') = Some u"
  proof -
    have "None \<notin> map_of known ` {lit ''dict'', lit ''list'', lit ''set'', lit ''tuple''}"
      using assms(3) by (simp add: containers_distinct_def container_type_names_def)
    then show ?thesis using that
      by (cases "map_of known (lit ''dict'')"; cases "map_of known (lit ''list'')";
          cases "map_of known (lit ''set'')"; cases "map_of known (lit ''tuple'')") auto
  qed
  then have distinct: "distinct [d, l, s, u]"
    using assms(3) by (simp add: containers_distinct_def container_type_names_def)
  have read: "read_content ?t known =
      (if ?t = d then mbind (counted_loop (\<lambda>(content, referents). mbind read_u64 (\<lambda>key. mbind read_u64 (\<lambda>val.
          mret (dict_set key val content, referents \<union> {key, val})))) ([], {})) (\<lambda>(content, referents).
        mret (DictContent content, referents))
      else if ?t \<in> {l, u, s} then mbind (counted_loop (\<lambda>xs. mbind read_u64 (\<lambda>a. mret (xs @ [a]))) []) (\<lambda>values.
        mret (if ?t = u then TupleContent values else if ?t = s then SetContent (set values)
              else ListContent values, set values))
      else mret (NoContent, {}))"
    using types by (simp add: read_content_def subscript_def mbind_simps)
  note seq = parses_return [OF parses_sequence_content]
  show ?thesis
  proof (cases "co_content_kind obj")
    case KIND_NONE
    with assms(2) types have "?t \<notin> {d, l, s, u}" by (auto simp: kind_agrees_def container_type_names_def)
    with KIND_NONE show ?thesis
      by (simp add: read content_bytes_def read_back_content_def container_addresses_def parses_mret)
  next
    case KIND_DICT
    with assms(1,2) types have "?t = d" and ok: "count_ok (co_dict_content obj)"
      "\<forall>e \<in> set (co_dict_content obj). u64_ok (fst e) \<and> u64_ok (snd e)"
      by (auto simp: kind_agrees_def kind_type_def content_ok_def)
    with KIND_DICT \<open>?t = d\<close> show ?thesis
      using parses_return [OF parses_dict_content [OF ok], of n "\<lambda>x. (DictContent (fst x), snd x)"]
      unfolding read by (simp add: content_bytes_def read_back_content_def container_addresses_def case_prod_beta')
  next
    case KIND_LIST
    with assms(1,2) types have "?t = l" and ok: "count_ok (co_sequence_content obj)"
      "\<forall>a \<in> set (co_sequence_content obj). u64_ok a"
      by (auto simp: kind_agrees_def kind_type_def content_ok_def)
    with KIND_LIST distinct seq [OF ok] show ?thesis
      by (auto simp: read content_bytes_def read_back_content_def container_addresses_def)
  next
    case KIND_SET
    with assms(1,2) types have "?t = s" and ok: "count_ok (co_sequence_content obj)"
      "\<forall>a \<in> set (co_sequence_content obj). u64_ok a"
      by (auto simp: kind_agrees_def kind_type_def content_ok_def)
    with KIND_SET distinct seq [OF ok] show ?thesis
      by (auto simp: read content_bytes_def read_back_content_def container_addresses_def)
  next
    case KIND_TUPLE
    with assms(1,2) types have "?t = u" and ok: "count_ok (co_sequence_content obj)"
      "\<forall>a \<in> set (co_sequence_content obj). u64_ok a"
      by (auto simp: kind_agrees_def kind_type_def content_ok_def)
    with KIND_TUPLE distinct seq [OF ok] show ?thesis
      by (auto simp: read content_bytes_def read_back_content_def container_addresses_def)
  qed
qed

text \<open>What the reader makes of an object that starts at offset \<open>n\<close>.\<close>

definition has_string :: "(pystr, address) pydict \<Rightarrow> bool \<Rightarrow> captured_object \<Rightarrow> bool" where
  "has_string known with_str_repr obj \<longleftrightarrow> with_str_repr \<and> co_type_address obj \<notin> container_types known"

definition string_bytes :: "(pystr, address) pydict \<Rightarrow> bool \<Rightarrow> captured_object \<Rightarrow> bytes" where
  "string_bytes known with_str_repr obj =
     (if has_string known with_str_repr obj then long_string_bytes (co_str_repr obj) else [])"

definition read_back_object :: "(pystr, address) pydict \<Rightarrow> bool \<Rightarrow> nat \<Rightarrow> captured_object \<Rightarrow> heap_object" where
  "read_back_object known with_str_repr n obj =
     \<lparr>ho_address = co_address obj, ho_type_address = co_type_address obj,
      ho_size = min (max (co_shallow_size obj) 0) MAX_UINT32,
      ho_referents = co_referents obj \<union> container_addresses obj, ho_content = read_back_content obj,
      ho_string_offset = (if has_string known with_str_repr obj
        then Some (n + length (object_bytes known with_str_repr obj) - length (string_bytes known with_str_repr obj))
        else None)\<rparr>"

definition known_map :: "(pystr, address) pydict \<Rightarrow> (pystr, address) pydict" where
  "known_map known = map (\<lambda>n. (n, known_address known n)) WELL_KNOWN_TYPE_NAMES"

lemma map_of_known_map: "n \<in> set WELL_KNOWN_TYPE_NAMES \<Longrightarrow> map_of (known_map known) n = Some (known_address known n)"
  by (simp add: known_map_def map_of_map_restrict restrict_map_def)

lemma parses_object:
  assumes ok: "object_ok obj" and agrees: "kind_agrees known obj" and distinct: "containers_distinct known"
    and fin: "finite (co_referents obj)"
    and header: "hh_well_known_types header = known" "hh_with_str_repr header = ws"
    and new: "map_of result (co_address obj) = None"
  shows "parses_at n (read_object header fs {} (container_types known) result) (object_bytes known ws obj)
    (result @ [(co_address obj, read_back_object known ws n obj)])"
proof -
  have o: "u64_ok (co_address obj)" "u64_ok (co_type_address obj)" "content_ok obj"
    "count_ok (remaining_referents obj)" "\<forall>a \<in> set (remaining_referents obj). u64_ok a"
    "count_ok (co_attributes obj)" "\<forall>a \<in> set (co_attributes obj). u64_ok (attr_address a)"
    using ok by (simp_all add: object_ok_def)
  have size: "0 \<le> min (max (co_shallow_size obj) 0) MAX_UINT32"
    "min (max (co_shallow_size obj) 0) MAX_UINT32 < 2 ^ 32" by (auto simp: MAX_UINT32_def)
  have remaining: "set (remaining_referents obj) = co_referents obj - container_addresses obj"
    using fin by (simp add: remaining_referents_def)
  have offset: "parses_at k
      (if hh_with_str_repr header \<and> co_type_address obj \<notin> container_types known
       then mbind (mget r_offset) (\<lambda>offset. mbind skip_long_string (\<lambda>_. mret (Some offset))) else mret None)
      (string_bytes known ws obj) (if has_string known ws obj then Some k else None)" for k
  proof (cases "has_string known ws obj")
    case True
    have "parses_at k (mget r_offset) [] k" by (simp add: parses_at_def mget_def)
    then have "parses_at k (mbind (mget r_offset) (\<lambda>offset. mbind skip_long_string (\<lambda>_. mret (Some offset))))
        ([] @ long_string_bytes (co_str_repr obj)) (Some k)"
      by (rule parses_mbind [OF _ parses_last [OF parses_skip_long_string parses_mret]])
    with True header show ?thesis by (simp add: has_string_def string_bytes_def)
  next
    case False
    with header show ?thesis by (auto simp: has_string_def string_bytes_def parses_mret)
  qed
  let ?b = "be_enc 8 (co_address obj) @ be_enc 8 (co_type_address obj) @
     be_enc 4 (min (max (co_shallow_size obj) 0) MAX_UINT32) @ content_bytes obj @
     (be_enc 4 (int (length (remaining_referents obj))) @ concat (map (be_enc 8) (remaining_referents obj))) @
     (be_enc 4 (int (length (co_attributes obj))) @ concat (map attribute_bytes (co_attributes obj))) @
     string_bytes known ws obj"
  have bytes: "object_bytes known ws obj = ?b"
    by (simp add: object_bytes_def string_bytes_def has_string_def)
  have "parses_at n (read_object header fs {} (container_types known) result) ?b
    (dict_set (co_address obj) (read_back_object known ws n obj) result)"
    unfolding read_object_def
    by (rule parses_mbind [OF parses_u64 [OF o(1)]], rule parses_mbind [OF parses_u64 [OF o(2)]],
        rule parses_mbind [OF parses_u32 [OF size]],
        rule parses_mbind [OF parses_content [OF o(3) agrees distinct, folded header(1)]],
        simp only: prod.case, rule parses_mbind [OF parses_address_set [OF o(4,5)]],
        simp only: empty_iff not_False_eq_True if_True, rule parses_mseq [OF parses_attributes [OF o(6,7)]],
        rule parses_last [OF offset])
      (use new remaining bytes in \<open>simp add: parses_mret read_back_object_def add_ac\<close>)
  then show ?thesis using bytes new by (simp add: dict_set_new)
qed

fun read_back_objects ::
  "(pystr, address) pydict \<Rightarrow> bool \<Rightarrow> nat \<Rightarrow> captured_object list \<Rightarrow> (address, heap_object) pydict" where
  "read_back_objects known ws n [] = []"
| "read_back_objects known ws n (obj # objs) =
     (co_address obj, read_back_object known ws n obj) #
     read_back_objects known ws (n + length (object_bytes known ws obj)) objs"

definition objects_ok :: "(pystr, address) pydict \<Rightarrow> captured_object list \<Rightarrow> bool" where
  "objects_ok known objs \<longleftrightarrow>
     (\<forall>obj \<in> set objs. object_ok obj \<and> kind_agrees known obj \<and> finite (co_referents obj)) \<and>
     distinct (map co_address objs)"

lemma parses_objects_loop:
  assumes "containers_distinct known" and "hh_well_known_types header = known" and "hh_with_str_repr header = ws"
    and "objects_ok known objs" and "fst ` set result \<inter> co_address ` set objs = {}"
  shows "parses_at n (mfold (length objs) (read_object header fs {} (container_types known)) result)
    (concat (map (object_bytes known ws) objs)) (result @ read_back_objects known ws n objs)"
  using assms(4,5)
proof (induction objs arbitrary: n result)
  case Nil
  show ?case by (simp add: parses_mret)
next
  case (Cons obj objs)
  let ?obj = "(co_address obj, read_back_object known ws n obj)"
  have "map_of result (co_address obj) = None"
    using Cons.prems(2) by (auto simp: map_of_eq_None_iff)
  then have one: "parses_at n (read_object header fs {} (container_types known) result)
      (object_bytes known ws obj) (result @ [?obj])"
    using Cons.prems(1) assms(1-3) by (intro parses_object) (auto simp: objects_ok_def)
  have "parses_at k (mfold (length objs) (read_object header fs {} (container_types known)) (result @ [?obj]))
      (concat (map (object_bytes known ws) objs)) ((result @ [?obj]) @ read_back_objects known ws k objs)" for k
    using Cons.prems by (intro Cons.IH) (auto simp: objects_ok_def)
  from parses_mbind [OF one, where f = "mfold (length objs) (read_object header fs {} (container_types known))",
      OF this]
  show ?case by simp
qed

section \<open>The whole artifact\<close>

definition read_back_header :: "(pystr, address) pydict \<Rightarrow> pystr \<Rightarrow> bool \<Rightarrow> heap_header" where
  "read_back_header known created ws =
     \<lparr>hh_version = reader_FORMAT_VERSION, hh_created_at = stored created, hh_with_str_repr = ws,
      hh_well_known_types = known_map known\<rparr>"

lemma encode_ascii: "\<forall>c \<in> set s. c < 128 \<Longrightarrow> length (encode_string s) = length s"
  by (induction s) (simp_all add: encode_string_def utf8_units_def)

lemma stored_ascii: "\<forall>c \<in> set s. c < 128 \<Longrightarrow> length s \<le> MAX_STRING_SIZE \<Longrightarrow> stored s = s"
  by (rule stored_id) (fastforce simp: encodable_def is_surrogate_def encode_ascii)+

lemma stored_names: "n \<in> set WELL_KNOWN_TYPE_NAMES \<Longrightarrow> stored n = n"
  by (rule stored_ascii) (auto simp: WELL_KNOWN_TYPE_NAMES_def lit_def MAX_STRING_SIZE_def)

lemma distinct_names: "distinct WELL_KNOWN_TYPE_NAMES"
  by (simp add: WELL_KNOWN_TYPE_NAMES_def lit_def)

lemma known_map_dict: "dict_of (map (\<lambda>n. (stored n, known_address known n)) WELL_KNOWN_TYPE_NAMES) = known_map known"
proof -
  have "map (\<lambda>n. (stored n, known_address known n)) WELL_KNOWN_TYPE_NAMES = known_map known"
    by (simp add: known_map_def stored_names)
  moreover have "distinct (map fst (known_map known))"
    by (simp add: known_map_def comp_def distinct_names)
  ultimately show ?thesis by (simp add: dict_of_distinct)
qed

lemma parses_header:
  assumes "known_ok known"
  shows "parses_at 0 read_header (header_bytes known created ws) (read_back_header known created ws)"
proof -
  have magic: "parses_at n read_u64 (be_enc 8 HEAP_MAGIC) reader_MAGIC" for n
    using parses_u64 [of HEAP_MAGIC n] by (simp add: HEAP_MAGIC_def reader_MAGIC_def u64_ok_def)
  have version: "parses_at n read_u32 (be_enc 4 FORMAT_VERSION) reader_FORMAT_VERSION" for n
    using parses_u32 [of FORMAT_VERSION n] by (simp add: FORMAT_VERSION_def reader_FORMAT_VERSION_def)
  let ?flags = "if ws then FLAG_WITH_STR_REPR else 0"
  have flags: "parses_at n read_u64 (be_enc 8 ?flags) ?flags" for n
    by (rule parses_u64) (simp add: FLAG_WITH_STR_REPR_def u64_ok_def)
  have bit: "(and ?flags reader_FLAG_WITH_STR_REPR \<noteq> 0) = ws"
    by (simp add: FLAG_WITH_STR_REPR_def reader_FLAG_WITH_STR_REPR_def)
  have count: "count_ok WELL_KNOWN_TYPE_NAMES" by (simp add: count_ok_def WELL_KNOWN_TYPE_NAMES_def)
  have address: "u64_ok (known_address known n)" if "n \<in> set WELL_KNOWN_TYPE_NAMES" for n
    using assms that by (fastforce simp: known_ok_def known_address_def)
  note map = parses_string_address_map [OF count address, of "\<lambda>n. n"]
  show ?thesis
    unfolding read_header_def header_bytes_def
    by (rule parses_mbind [OF magic], simp only: not_not if_False simp_thms, rule parses_mbind [OF version],
        simp only: if_False simp_thms, rule parses_mbind [OF parses_long_string],
        rule parses_mbind [OF flags], rule parses_last [OF map])
      (simp_all add: parses_mret read_back_header_def bit known_map_dict)
qed

lemma known_map_agrees:
  assumes "known_ok known" and "n \<in> set container_names"
  shows "map_of (known_map known) n = map_of known n"
proof -
  have "n \<in> set WELL_KNOWN_TYPE_NAMES"
    using assms(2) by (auto simp: container_names_def WELL_KNOWN_TYPE_NAMES_def)
  with assms(1) show ?thesis
    by (fastforce simp: map_of_known_map known_ok_def known_address_def)
qed

lemma names_agree: "container_type_names = container_names"
  by (simp add: container_type_names_def container_names_def)

lemma known_map_types:
  assumes "known_ok known"
  shows "container_types (known_map known) = container_types known"
    and "objects_ok (known_map known) objs = objects_ok known objs"
    and "containers_distinct (known_map known) = containers_distinct known"
proof -
  note [simp] = known_map_agrees [OF assms]
  have "known_address (known_map known) n = known_address known n" if "n \<in> set container_names" for n
    using that by (simp add: known_address_def)
  then show types: "container_types (known_map known) = container_types known"
    by (simp add: container_types_def names_agree cong: image_cong)
  have kinds: "kind_type (known_map known) k = kind_type known k" for k
    by (cases k) (simp_all add: kind_type_def container_names_def)
  have image: "map_of (known_map known) ` set container_names = map_of known ` set container_names"
    by (rule image_cong) simp_all
  show "objects_ok (known_map known) objs = objects_ok known objs"
    by (simp add: objects_ok_def kind_agrees_def kinds names_agree image)
  have "map (map_of (known_map known)) container_names = map (map_of known) container_names" by simp
  with image show "containers_distinct (known_map known) = containers_distinct known"
    unfolding containers_distinct_def names_agree by metis
qed

lemma object_bytes_known_map:
  assumes "known_ok known"
  shows "object_bytes (known_map known) = object_bytes known"
    and "read_back_objects (known_map known) = read_back_objects known"
proof -
  note [simp] = known_map_types(1) [OF assms]
  show 1: "object_bytes (known_map known) = object_bytes known"
    by (simp add: object_bytes_def fun_eq_iff)
  have "read_back_object (known_map known) = read_back_object known"
    by (simp add: read_back_object_def has_string_def string_bytes_def fun_eq_iff 1)
  then have "read_back_objects (known_map known) ws n objs = read_back_objects known ws n objs" for ws n objs
    by (induction objs arbitrary: n) (simp_all add: 1)
  then show "read_back_objects (known_map known) = read_back_objects known" by blast
qed

lemma parses_objects:
  assumes "known_ok known" and "containers_distinct known" and "objects_ok known objs" and "count_ok objs"
  shows "parses_at n (read_objects (read_back_header known created ws) [] {})
    (be_enc 4 (int (length objs)) @ concat (map (object_bytes known ws) objs))
    (read_back_objects known ws (n + 4) objs)"
proof -
  let ?header = "read_back_header known created ws"
  have header: "hh_well_known_types ?header = known_map known" "hh_with_str_repr ?header = ws"
    by (simp_all add: read_back_header_def)
  have "rmap (subscript (map_of (known_map known))) container_names =
      rmap (subscript (map_of known)) container_names"
    by (rule rmap_cong) (simp_all add: subscript_def known_map_agrees [OF assms(1)])
  then have containers: "rmap (subscript (map_of (hh_well_known_types ?header))) container_names =
      Inr (map (known_address known) container_names)"
    using container_lookup [OF assms(1)] by (simp add: header names_agree)
  have set: "set (map (known_address known) container_names) = container_types known"
    by (simp add: container_types_def names_agree)
  have loop: "parses_at k (mfold (length objs) (read_object ?header [] {} (container_types known)) [])
      (concat (map (object_bytes known ws) objs)) (read_back_objects known ws k objs)" for k
    using parses_objects_loop [of "known_map known" ?header ws objs "[]" k "[]"] assms header
    by (simp add: known_map_types object_bytes_known_map)
  show ?thesis
    unfolding read_objects_def containers mbind_simps(2) counted_loop_def set
    by (rule parses_mbind [OF parses_count [OF assms(4)]]) (simp add: loop)
qed

lemma parses_check_types:
  assumes "\<forall>(a, obj) \<in> set objects. map_of types (ho_type_address obj) \<noteq> None"
  shows "parses_at n (check_types objects types) [] ()"
  using assms unfolding check_types_def
proof (induction objects)
  case Nil
  show ?case by (simp add: parses_mret)
next
  case (Cons entry entries)
  then show ?case by (cases entry) (auto simp: mbind_simps(4))
qed

definition read_back_types :: "(address, pystr) pydict \<Rightarrow> (address, pystr) pydict" where
  "read_back_types types = dict_of (map (\<lambda>t. (fst t, stored (snd t))) (sort types))"

definition read_back_heap ::
  "(pystr, address) pydict \<Rightarrow> pystr \<Rightarrow> bool \<Rightarrow> captured_thread list \<Rightarrow> captured_object list \<Rightarrow>
   (address, pystr) pydict \<Rightarrow> heap" where
  "read_back_heap known created ws threads objs types =
     \<lparr>h_header = read_back_header known created ws, h_threads = map read_back_thread threads,
      h_objects = read_back_objects known ws
        (length (header_bytes known created ws) + length (threads_bytes threads) + 12) objs,
      h_types = read_back_types types,
      h_source = Some (artifact_bytes known created ws threads objs types)\<rparr>"

text \<open>What a capture must satisfy, beyond fitting the format, for its artifact to be readable.\<close>

definition capture_ok ::
  "(pystr, address) pydict \<Rightarrow> captured_object list \<Rightarrow> (address, pystr) pydict \<Rightarrow> bool" where
  "capture_ok known objs types \<longleftrightarrow>
     containers_distinct known \<and> distinct (map co_address objs) \<and>
     (\<forall>obj \<in> set objs. kind_agrees known obj \<and> finite (co_referents obj) \<and>
       co_type_address obj \<in> fst ` set types)"

lemma read_back_objects_types:
  "(a, obj) \<in> set (read_back_objects known ws n objs) \<Longrightarrow>
     \<exists>c \<in> set objs. ho_type_address obj = co_type_address c \<and> a = co_address c"
  by (induction objs arbitrary: n) (auto simp: read_back_object_def)

lemma parses_body:
  assumes "artifact_ok known threads objs types" and "capture_ok known objs types"
  shows "parses_at n (read_body (read_back_header known created ws))
    (threads_bytes threads @ be_enc 4 0 @ be_enc 4 0 @
     (be_enc 4 (int (length objs)) @ concat (map (object_bytes known ws) objs)) @
     types_bytes types @ be_enc 8 HEAP_MAGIC)
    \<lparr>h_header = read_back_header known created ws, h_threads = map read_back_thread threads,
     h_objects = read_back_objects known ws (n + length (threads_bytes threads) + 12) objs,
     h_types = read_back_types types, h_source = None\<rparr>"
proof -
  have ok: "known_ok known" "threads_ok threads" "count_ok objs" "types_ok types"
    and objs: "objects_ok known objs" "containers_distinct known"
    using assms by (auto simp: artifact_ok_def capture_ok_def objects_ok_def)
  have strings: "parses_at k read_string_list (be_enc 4 0) []" for k
    using parses_list [of "[]" read_long_string "\<lambda>_. []" "\<lambda>_. []" k]
    by (simp add: read_string_list_def count_ok_def)
  have common: "parses_at k (read_common_types []) (be_enc 4 0) {}" for k
    using parses_counted [of "[]", where b = "\<lambda>_. []" and g = "\<lambda>_ s. s" and acc = "{}" and n = k]
    by (simp add: read_common_types_def count_ok_def)
  have types: "parses_at k read_address_string_map (types_bytes types) (read_back_types types)" for k
    unfolding types_bytes_def read_back_types_def type_bytes_def [abs_def]
    using parses_address_string_map [of "sort types" fst k snd] ok(4) by (simp add: types_ok_def count_ok_def)
  have dom: "fst ` set types = fst ` set (map (\<lambda>t. (fst t, stored (snd t))) (sort types))" by force
  have "map_of (read_back_types types) a \<noteq> None" if "a \<in> fst ` set types" for a
    using that unfolding dom read_back_types_def map_of_dict_of by (simp add: map_of_eq_None_iff)
  then have check: "parses_at k (check_types (read_back_objects known ws m objs) (read_back_types types)) [] ()" for k m
    using assms(2) by (intro parses_check_types) (fastforce simp: capture_ok_def dest: read_back_objects_types)
  have magic: "parses_at k read_u64 (be_enc 8 HEAP_MAGIC) reader_MAGIC" for k
    using parses_u64 [of HEAP_MAGIC k] by (simp add: HEAP_MAGIC_def reader_MAGIC_def u64_ok_def)
  have tail: "parses_at k (mseq (check_types (read_back_objects known ws m objs) (read_back_types types))
      (mbind read_u64 (\<lambda>magic. if magic \<noteq> reader_MAGIC
        then mraise HeapFormatError ''invalid PyHeap footer magic value'' [] else mret h)))
      (be_enc 8 HEAP_MAGIC) h" for k m h
  proof -
    have "parses_at j (mbind read_u64 (\<lambda>magic. if magic \<noteq> reader_MAGIC
        then mraise HeapFormatError ''invalid PyHeap footer magic value'' [] else mret h)) (be_enc 8 HEAP_MAGIC) h" for j
      by (rule parses_last [OF magic]) (simp add: parses_mret)
    from parses_mseq [OF check this] show ?thesis by simp
  qed
  show ?thesis
    unfolding read_body_def
    by (rule parses_mbind [OF parses_threads [OF ok(2)]], rule parses_mbind [OF strings],
        rule parses_mbind [OF common], rule parses_mbind [OF parses_objects [OF ok(1) objs(2,1) ok(3)]],
        rule parses_mbind [OF types], rule parses_eq [OF tail]) (simp_all add: add_ac)
qed

lemma read_artifact:
  assumes "artifact_ok known threads objs types" and "capture_ok known objs types"
  shows "read_heap (artifact_bytes known created ws threads objs types) =
    Inr (read_back_heap known created ws threads objs types)"
proof -
  have "known_ok known" using assms(1) by (simp add: artifact_ok_def)
  from parses_mbind [where f = read_body, OF parses_header [OF this, of created ws] parses_body [OF assms]]
  have "parses_at 0 read_sections (artifact_bytes known created ws threads objs types)
    ((read_back_heap known created ws threads objs types)\<lparr>h_source := None\<rparr>)"
    by (simp add: read_sections_split artifact_bytes_def read_back_heap_def)
  then show ?thesis
    unfolding read_heap_Inr parses_at_def
    by (auto simp: heap_reader_init_def read_back_heap_def dest!: spec [where x = "[]"])
qed

section \<open>The texts of the objects\<close>

lemma read_back_objects_place:
  assumes "(a, obj) \<in> set (read_back_objects known ws n objs)"
  shows "\<exists>c pre post. c \<in> set objs \<and> a = co_address c \<and> obj = read_back_object known ws (n + length pre) c \<and>
    concat (map (object_bytes known ws) objs) = pre @ object_bytes known ws c @ post"
  using assms
proof (induction objs arbitrary: n)
  case (Cons c objs)
  show ?case
  proof (cases "(a, obj) = (co_address c, read_back_object known ws n c)")
    case True
    then show ?thesis
      by (intro exI [of _ c] exI [of _ "[]"] exI [of _ "concat (map (object_bytes known ws) objs)"]) simp
  next
    case False
    with Cons obtain d pre post where "d \<in> set objs" "a = co_address d"
      "obj = read_back_object known ws (n + length (object_bytes known ws c) + length pre) d"
      "concat (map (object_bytes known ws) objs) = pre @ object_bytes known ws d @ post"
      by fastforce
    then show ?thesis
      by (intro exI [of _ d] exI [of _ "object_bytes known ws c @ pre"] exI [of _ post]) (simp add: add.assoc)
  qed
qed simp

lemma object_bytes_string: "\<exists>front. object_bytes known ws c = front @ string_bytes known ws c"
  unfolding object_bytes_def string_bytes_def has_string_def append_assoc [symmetric] by blast

lemma string_at_offset:
  assumes "has_string known ws c" and "source = pre @ object_bytes known ws c @ post"
    and "h_source h = Some source" and "n = length pre"
  shows "read_string_representation h (read_back_object known ws n c) = Inr (stored (co_str_repr c))"
proof -
  let ?s = "stored_bytes (co_str_repr c)" and ?n = "be_enc 2 (int (length (stored_bytes (co_str_repr c))))"
  obtain front where front: "object_bytes known ws c = front @ ?n @ ?s"
    using object_bytes_string [of known ws c] assms(1) by (auto simp: string_bytes_def long_string_bytes_alt)
  let ?off = "length pre + length front"
  have offset: "ho_string_offset (read_back_object known ws n c) = Some ?off"
    using assms(1,4) front by (simp add: read_back_object_def string_bytes_def long_string_bytes_alt)
  have short: "int (length ?s) < 256 ^ 2" by (simp add: stored_bytes_def MAX_STRING_SIZE_def)
  have "pyslice source ?off (?off + 2) = ?n"
    using pyslice_append [of "pre @ front" ?n "?s @ post"] assms(2) front by simp
  moreover have "pyslice source (?off + 2) (?off + 2 + length ?s) = ?s"
    using pyslice_append [of "pre @ front @ ?n" ?s post] assms(2) front by (simp add: add.assoc)
  moreover have "be_dec ?n = int (length ?s)" using short by (intro be_dec_be_enc) simp_all
  ultimately show ?thesis
    using assms(2,3) front
    by (simp add: read_string_representation_def offset Let_def stored_def stored_bytes_def [symmetric])
qed

lemma read_back_string:
  assumes "known_ok known" and "(a, obj) \<in> set (h_objects (read_back_heap known created ws threads objs types))"
  shows "\<exists>c \<in> set objs. a = co_address c \<and> ho_type_address obj = co_type_address c \<and>
    (has_string known ws c \<longrightarrow>
      read_string_representation (read_back_heap known created ws threads objs types) obj =
        Inr (stored (co_str_repr c)))"
proof -
  let ?h = "read_back_heap known created ws threads objs types"
  let ?front = "header_bytes known created ws @ threads_bytes threads @ be_enc 4 0 @ be_enc 4 0 @
    be_enc 4 (int (length objs))"
  have n: "length ?front = length (header_bytes known created ws) + length (threads_bytes threads) + 12" by simp
  obtain c pre post where c: "c \<in> set objs" "a = co_address c"
    "obj = read_back_object known ws (length ?front + length pre) c"
    "concat (map (object_bytes known ws) objs) = pre @ object_bytes known ws c @ post"
    using assms(2) read_back_objects_place [of a obj known ws "length ?front" objs]
    unfolding n by (auto simp: read_back_heap_def)
  then have obj: "obj = read_back_object known ws (length (?front @ pre)) c" by (simp add: add.assoc)
  have source: "artifact_bytes known created ws threads objs types =
      (?front @ pre) @ object_bytes known ws c @ post @ types_bytes types @ be_enc 8 HEAP_MAGIC"
    unfolding artifact_bytes_def c(4) by simp
  have "h_source ?h = Some (artifact_bytes known created ws threads objs types)"
    by (simp add: read_back_heap_def)
  from string_at_offset [OF _ source this refl]
  have "has_string known ws c \<longrightarrow> read_string_representation ?h obj = Inr (stored (co_str_repr c))"
    unfolding obj by blast
  moreover have "ho_type_address obj = co_type_address c" by (simp add: obj read_back_object_def)
  ultimately show ?thesis using c(1,2) by blast
qed

lemma string_repr_plain:
  assumes "known_ok known" and "h_header h = read_back_header known created ws"
    and "map_of (h_objects h) a = Some obj" and "ho_type_address obj \<notin> container_types known" and "2 \<le> stack"
  shows "string_repr stack h a seen = read_string_representation h obj"
proof -
  have "rmap (subscript (map_of (known_map known))) container_names =
      rmap (subscript (map_of known)) container_names"
    by (rule rmap_cong) (simp_all add: subscript_def known_map_agrees [OF assms(1)])
  with container_lookup [OF assms(1)] assms show ?thesis
    by (subst string_repr.simps) (simp add: read_back_header_def names_agree container_types_def)
qed

section \<open>Properties\<close>

text \<open>
  C6: What the writer writes, the reader reads: for a capture that fits the format and whose
  objects have distinct addresses, a content kind that goes with their type and a type in the
  type table, the writer returns and the reader gets back from the file the header, the threads,
  every object (its content and its referents, whether stored as content or as remainder) and the
  types, with the texts cut to the length that the format can count.
\<close>

theorem artifact_round_trip:
  assumes "artifact_ok known threads objs types" and "capture_ok known objs types"
  shows "\<exists>w. write_artifact known created_at now threads objs types (heap_writer_init empty_file ws sync) = (Inr (), w) \<and>
    read_heap (f_content (hw_file w)) =
      Inr (read_back_heap known (created_text created_at now) ws threads objs types)"
proof -
  have "\<forall>obj \<in> set objs. finite (co_referents obj)" using assms(2) by (simp add: capture_ok_def)
  from write_artifact_run [OF this refl, where created_at = created_at and now = now and ws = ws and sync = sync
      and well_known = known and threads = threads and types = types] assms(1)
  obtain w where "write_artifact known created_at now threads objs types (heap_writer_init empty_file ws sync) = (Inr (), w)"
    "f_content (hw_file w) = artifact_bytes known (created_text created_at now) ws threads objs types"
    by (auto simp: finished_def)
  with read_artifact [OF assms] show ?thesis by auto
qed

lemma demo_capture:
  "artifact_ok demo_known [] [demo_object] [(10, lit ''list'')]"
  "capture_ok demo_known [demo_object] [(10, lit ''list'')]"
proof -
  show "artifact_ok demo_known [] [demo_object] [(10, lit ''list'')]"
    using demo_known_names by (simp add: artifact_ok_def known_ok_def threads_ok_def count_ok_def object_ok_def
        types_ok_def u64_ok_def content_ok_def demo_object_def remaining_referents_def container_addresses_def)
  show "capture_ok demo_known [demo_object] [(10, lit ''list'')]"
    by (simp add: capture_ok_def containers_distinct_def container_type_names_def demo_known_def
        WELL_KNOWN_TYPE_NAMES_def lit_def demo_object_def kind_agrees_def kind_type_def)
qed

theorem artifact_round_trip_witness:
  "\<exists>w h. write_artifact demo_known None (lit ''now'') [] [demo_object] [(10, lit ''list'')]
      (heap_writer_init empty_file True True) = (Inr (), w) \<and> read_heap (f_content (hw_file w)) = Inr h \<and>
    map_option ho_referents (map_of (h_objects h) 100) = Some {101, 102}"
  using artifact_round_trip [OF demo_capture, of None "lit ''now''" True True]
  by (fastforce simp: read_back_heap_def read_back_object_def demo_object_def container_addresses_def)

definition demo_artifact :: bytes where
  "demo_artifact = artifact_bytes demo_known (lit ''now'') True [] [demo_object] [(10, lit ''list'')]"

lemma read_demo_artifact:
  "read_heap demo_artifact = Inr (read_back_heap demo_known (lit ''now'') True [] [demo_object] [(10, lit ''list'')])"
  unfolding demo_artifact_def by (rule read_artifact [OF demo_capture])

text \<open>
  C12: An accepted artifact is self-delimiting: cut anywhere it is rejected, with one of the
  reader's two exceptions, and with anything after its footer it is rejected as having
  unexpected data.
\<close>

theorem read_self_delimiting:
  assumes "read_heap source = Inr h"
  shows "(\<forall>p q. source = p @ q \<and> q \<noteq> [] \<longrightarrow>
      (\<exists>e. read_heap p = Inl e \<and> exn_class_of e \<in> {HeapFormatError, KeyError})) \<and>
    (\<forall>ext. ext \<noteq> [] \<longrightarrow>
      read_heap (source @ ext) = raise HeapFormatError ''unexpected data after PyHeap footer'' [])"
proof -
  from assms obtain h0 r where run: "read_sections (heap_reader_init source) = (Inr h0, r)"
    and offset: "r_offset r = length source" and src: "r_source r = source"
    by (auto simp: read_heap_Inr)
  have "\<exists>e. read_heap p = Inl e \<and> exn_class_of e \<in> {HeapFormatError, KeyError}" if "source = p @ q" "q \<noteq> []" for p q
  proof -
    from sections.too_short [of p q h0 r] that run offset obtain e s where
      "read_sections \<lparr>r_source = p, r_offset = 0\<rparr> = (Inl e, s)" "exn_class_of e \<in> {HeapFormatError, KeyError}"
      by (auto simp: heap_reader_init_def)
    then show ?thesis by (simp add: read_heap_def read_def heap_reader_init_def mbind_run)
  qed
  moreover have "read_heap (source @ ext) = raise HeapFormatError ''unexpected data after PyHeap footer'' []"
    if "ext \<noteq> []" for ext
  proof -
    have "read_sections (heap_reader_init (source @ ext)) = (Inr h0, Reader_Laws.extend ext r)"
      using sections.stable [OF run, of ext] by (simp add: heap_reader_init_def extend_def)
    with that offset src show ?thesis
      by (simp add: read_heap_def read_def mbind_run mget_def mraise_def raise_def)
  qed
  ultimately show ?thesis by blast
qed

theorem read_self_delimiting_witness:
  "(\<exists>e. read_heap (butlast demo_artifact) = Inl e \<and> exn_class_of e \<in> {HeapFormatError, KeyError}) \<and>
   read_heap (demo_artifact @ [0]) = raise HeapFormatError ''unexpected data after PyHeap footer'' []"
proof -
  have "demo_artifact \<noteq> []" by (simp add: demo_artifact_def artifact_bytes_def header_bytes_def be_enc_numeral)
  then have "demo_artifact = butlast demo_artifact @ [last demo_artifact]" by simp
  with read_self_delimiting [OF read_demo_artifact] show ?thesis by blast
qed

text \<open>
  C21: Loading a file fails with exactly these classes: \<^verbatim>\<open>ValueError\<close> for an empty file,
  \<^verbatim>\<open>KeyError\<close> if the part before the objects can be read and its header does not name all four
  container types, and \<^verbatim>\<open>HeapFormatError\<close> in every other case. In the second case it always fails.
\<close>

theorem read_errors:
  "(load_heap source = Inl e \<longrightarrow>
     exn_class_of e =
      (if source = [] then ValueError
       else if \<exists>header threads fs common r. read_front (heap_reader_init source) = (Inr (header, threads, fs, common), r) \<and>
           \<not> has_containers (hh_well_known_types header)
       then KeyError
       else HeapFormatError)) \<and>
   (source = [] \<or> (\<exists>header threads fs common r. read_front (heap_reader_init source) = (Inr (header, threads, fs, common), r) \<and>
      \<not> has_containers (hh_well_known_types header)) \<longrightarrow> (\<exists>e. load_heap source = Inl e))"
proof (cases "source = []")
  case True
  then show ?thesis by (auto simp: load_heap_def raise_def)
next
  case False
  then have load: "load_heap source = fst (read (heap_reader_init source))"
    by (simp add: load_heap_def read_heap_def)
  have split: "read = mbind read_front (\<lambda>front. mbind (read_rest front) (\<lambda>h.
     mbind (mget (\<lambda>r. r)) (\<lambda>r.
     if r_offset r \<noteq> length (r_source r) then mraise HeapFormatError ''unexpected data after PyHeap footer'' []
     else mret (h\<lparr>h_source := Some (r_source r)\<rparr>))))"
    by (simp add: fun_eq_iff read_def read_sections_front mbind_run split: prod.splits sum.splits)
  show ?thesis
  proof (cases "read_front (heap_reader_init source)")
    case (Pair v s)
    show ?thesis
    proof (cases v)
      case (Inl e')
      with Pair front.error_class have "exn_class_of e' = HeapFormatError" by auto
      with Pair Inl load False show ?thesis by (auto simp: split mbind_run)
    next
      case (Inr front)
      show ?thesis
      proof (cases "has_containers (hh_well_known_types (fst front))")
        case True
        have error: "exn_class_of e' = HeapFormatError" if "read_rest front s = (Inl e', s')" for e' s'
          using field_reader.error_class [OF field_reader_rest that, of "{}"] True by simp
        from Pair Inr True False load error show ?thesis
          by (cases "read_rest front s")
            (auto simp: split mbind_run mget_def mraise_def mret_def split: sum.splits if_splits)
      next
        case False
        from read_rest_missing [OF False, of s] obtain e' where "read_rest front s = (Inl e', s)" "exn_class_of e' = KeyError"
          by blast
        with Pair Inr False \<open>source \<noteq> []\<close> load show ?thesis
          by (cases front) (auto simp: split mbind_run)
      qed
    qed
  qed
qed

theorem read_errors_witness:
  "load_heap [] = raise ValueError ''cannot mmap an empty file'' [] \<and>
   (\<exists>e. load_heap [0] = Inl e \<and> exn_class_of e = HeapFormatError)"
proof -
  have run: "load_heap [0] = Inl (Exn HeapFormatError ''truncated PyHeap data at offset {offset}'' [AInt 0])"
    by (simp add: load_heap_def read_heap_def read_def read_sections_def read_header_def heap_reader_init_def mbind_run
        read_u64_def unpack_def raise_def)
  have "read_front (heap_reader_init [0]) \<noteq> (Inr (header, threads, fs, common), r)" for header threads fs common r
    by (simp add: read_front_def read_header_def heap_reader_init_def mbind_run read_u64_def unpack_def raise_def)
  with read_errors [of "[0]"] run have "exn_class_of (Exn HeapFormatError ''truncated PyHeap data at offset {offset}'' [AInt 0]) =
      HeapFormatError" by auto
  with run show ?thesis by (auto simp: load_heap_def)
qed

text \<open>
  C15: What is read is well formed: the header names the container types, the objects are keyed
  by their own addresses without duplicates, every object's type is in the type table, its content
  is the kind that its type says and is part of its referents, and its text lies in the source.
\<close>

theorem read_well_formed:
  assumes "read_heap source = Inr h"
  shows "heap_wf h source"
  using assms by (rule read_heap_wf)

theorem read_well_formed_witness: "\<exists>h. read_heap demo_artifact = Inr h \<and> heap_wf h demo_artifact"
  using read_well_formed [OF read_demo_artifact] read_demo_artifact by blast

text \<open>What the renderer needs of a heap that was read, before and after it is closed.\<close>

lemma renderable:
  assumes "read_heap source = Inr h"
  shows "containers_known h" "containers_known (close_heap h)"
    and "\<And>b obj. map_of (h_objects h) b = Some obj \<Longrightarrow> string_in_source h obj"
    and "\<And>b obj. map_of (h_objects (close_heap h)) b = Some obj \<Longrightarrow> string_in_source (close_heap h) obj"
proof -
  have wf: "heap_wf h source" using assms by (rule read_heap_wf)
  then show "containers_known h" "containers_known (close_heap h)"
    by (simp_all add: heap_wf_def has_containers_def containers_known_def close_heap_def)
  show "string_in_source h obj" if "map_of (h_objects h) b = Some obj" for b obj
    using wf map_of_SomeD [OF that] by (auto simp: heap_wf_def object_wf_def string_in_source_def split: option.splits)
  show "string_in_source (close_heap h) obj" for obj
    by (simp add: string_in_source_def close_heap_def)
qed

lemma rendered_object:
  assumes "read_heap source = Inr h" and "nested_calls h (ho_address obj) {} \<le> stack"
  shows "\<exists>s. string_repr stack h (ho_address obj) {} = Inr s"
  using rendering_defined [OF renderable(1,3) [OF assms(1)]] string_repr_exact [OF renderable(1,3) [OF assms(1)]] assms(2)
  by simp


lemma demo_objects:
  "(100, read_back_object demo_known True
     (length (header_bytes demo_known (lit ''now'') True) + length (threads_bytes []) + 12) demo_object)
   \<in> set (h_objects (read_back_heap demo_known (lit ''now'') True [] [demo_object] [(10, lit ''list'')]))"
  by (simp add: read_back_heap_def demo_object_def)


text \<open>
  An object that is not a container is rendered, after writing and reading back, as the text
  that the agent sent for it, when UTF-8 can represent that text in at most 65535 bytes.
\<close>

theorem text_round_trip:
  assumes "artifact_ok known threads objs types" and "capture_ok known objs types"
    and "read_heap (artifact_bytes known created True threads objs types) = Inr h"
    and "(a, obj) \<in> set (h_objects h)" and "c \<in> set objs" and "co_address c = a"
    and "co_type_address c \<notin> container_types known"
    and "encodable (co_str_repr c)" and "length (encode_string (co_str_repr c)) \<le> MAX_STRING_SIZE" and "2 \<le> stack"
  shows "string_representation stack h obj = Inr (Some (co_str_repr c))"
proof -
  let ?h = "read_back_heap known created True threads objs types"
  have known: "known_ok known" using assms(1) by (simp add: artifact_ok_def)
  have h: "h = ?h" using assms(3) read_artifact [OF assms(1,2)] by simp
  from read_back_string [OF known assms(4) [unfolded h]] obtain d where d: "d \<in> set objs" "a = co_address d"
    "ho_type_address obj = co_type_address d"
    "has_string known True d \<longrightarrow> read_string_representation ?h obj = Inr (stored (co_str_repr d))" by blast
  have "inj_on co_address (set objs)" using assms(2) by (simp add: capture_ok_def distinct_map)
  with d assms(5,6) have "d = c" by (auto dest: inj_onD)
  with d assms(7,8,9) have plain: "read_string_representation ?h obj = Inr (co_str_repr c)"
    by (simp add: has_string_def stored_id)
  have wf: "heap_wf ?h (artifact_bytes known created True threads objs types)"
    using assms(3) unfolding h by (rule read_heap_wf)
  with assms(4) have "map_of (h_objects ?h) a = Some obj" "ho_address obj = a"
    unfolding h by (auto simp: heap_wf_def dict_ok_def object_wf_def)
  with string_repr_plain [OF known _ this(1), of created True stack] assms(7,10) plain d(3) \<open>d = c\<close> show ?thesis
    by (simp add: h string_representation_def read_back_heap_def read_back_header_def)
qed

definition demo_plain :: captured_object where
  "demo_plain = \<lparr>co_address = 200, co_type_address = 20, co_type_name = lit ''object'', co_shallow_size = 16,
     co_content_kind = KIND_NONE, co_sequence_content = [], co_dict_content = [],
     co_referents = {}, co_attributes = [], co_str_repr = lit ''<x>''\<rparr>"

lemma demo_plain_capture:
  "artifact_ok demo_known [] [demo_plain] [(20, lit ''object'')]"
  "capture_ok demo_known [demo_plain] [(20, lit ''object'')]"
proof -
  show "artifact_ok demo_known [] [demo_plain] [(20, lit ''object'')]"
    using demo_known_names by (simp add: artifact_ok_def known_ok_def threads_ok_def count_ok_def object_ok_def
        types_ok_def u64_ok_def content_ok_def demo_plain_def remaining_referents_def container_addresses_def)
  show "capture_ok demo_known [demo_plain] [(20, lit ''object'')]"
    by (simp add: capture_ok_def containers_distinct_def container_type_names_def demo_known_def
        WELL_KNOWN_TYPE_NAMES_def lit_def demo_plain_def kind_agrees_def kind_type_def)
qed

theorem text_round_trip_witness:
  "\<exists>h obj. read_heap (artifact_bytes demo_known (lit ''now'') True [] [demo_plain] [(20, lit ''object'')]) = Inr h \<and>
     (200, obj) \<in> set (h_objects h) \<and> string_representation 2 h obj = Inr (Some (lit ''<x>''))"
proof -
  let ?h = "read_back_heap demo_known (lit ''now'') True [] [demo_plain] [(20, lit ''object'')]"
  obtain obj where obj: "(200, obj) \<in> set (h_objects ?h)"
    by (simp add: read_back_heap_def demo_plain_def)
  have "co_type_address demo_plain \<notin> container_types demo_known"
    by (simp add: demo_plain_def container_types_def container_type_names_def known_address_def demo_known_def
        WELL_KNOWN_TYPE_NAMES_def lit_def)
  moreover have "encodable (co_str_repr demo_plain)" "length (encode_string (co_str_repr demo_plain)) \<le> MAX_STRING_SIZE"
    by (simp_all add: demo_plain_def lit_def encodable_def is_surrogate_def encode_ascii MAX_STRING_SIZE_def)
  moreover have "co_address demo_plain = 200" "demo_plain \<in> set [demo_plain]" by (simp_all add: demo_plain_def)
  ultimately have "string_representation 2 ?h obj = Inr (Some (co_str_repr demo_plain))"
    using text_round_trip [OF demo_plain_capture read_artifact [OF demo_plain_capture] obj] by blast
  with obj read_artifact [OF demo_plain_capture] show ?thesis by (auto simp: demo_plain_def)
qed

end
