(* ===== verification/Py_Text.thy ===== *)
theory Py_Text
  imports Complex_Main Text
begin

text \<open>
  The string operations of the Python standard library that the loaders, the target detection and
  the command lines use: \<^verbatim>\<open>str.strip\<close>, \<^verbatim>\<open>split\<close>, \<^verbatim>\<open>splitlines\<close>, \<^verbatim>\<open>in\<close>,
  \<^verbatim>\<open>join\<close>, \<^verbatim>\<open>int(text)\<close>, the last component of a path, and the value that
  \<^verbatim>\<open>json.loads\<close> returns. The classes of characters are those of Unicode 14.
\<close>

section \<open>Characters\<close>

definition is_space :: "nat \<Rightarrow> bool" where
  "is_space c \<longleftrightarrow>
     (9 \<le> c \<and> c \<le> 13) \<or> (28 \<le> c \<and> c \<le> 32) \<or> c = 133 \<or> c = 160 \<or> c = 5760 \<or>
     (8192 \<le> c \<and> c \<le> 8202) \<or> c = 8232 \<or> c = 8233 \<or> c = 8239 \<or> c = 8287 \<or> c = 12288"

definition is_line_break :: "nat \<Rightarrow> bool" where
  "is_line_break c \<longleftrightarrow> (10 \<le> c \<and> c \<le> 13) \<or> (28 \<le> c \<and> c \<le> 30) \<or> c = 133 \<or> c = 8232 \<or> c = 8233"

definition is_ascii_digit :: "nat \<Rightarrow> bool" where
  "is_ascii_digit c \<longleftrightarrow> 48 \<le> c \<and> c \<le> 57"

text \<open>The zeros of the decimal digits of the scripts; the other nine digits follow each zero.\<close>

definition decimal_zeros :: "nat list" where
  "decimal_zeros =
     [48, 1632, 1776, 1984, 2406, 2534, 2662, 2790, 2918, 3046, 3174, 3302, 3430, 3558, 3664, 3792,
      3872, 4160, 4240, 6112, 6160, 6470, 6608, 6784, 6800, 6992, 7088, 7232, 7248, 42528, 43216,
      43264, 43472, 43504, 43600, 44016, 65296, 66720, 68912, 69734, 69872, 69942, 70096, 70384,
      70736, 70864, 71248, 71360, 71472, 71904, 72016, 72784, 73040, 73120, 92768, 92864, 93008,
      120782, 120792, 120802, 120812, 120822, 123200, 123632, 125264, 130032]"

definition digit_value :: "nat \<Rightarrow> nat option" where
  "digit_value c = map_option (\<lambda>z. c - z) (find (\<lambda>z. z \<le> c \<and> c < z + 10) decimal_zeros)"

section \<open>Strings\<close>

definition strip :: "pystr \<Rightarrow> pystr" where
  "strip s = rev (dropWhile is_space (rev (dropWhile is_space s)))"

definition starts_with :: "'a list \<Rightarrow> 'a list \<Rightarrow> bool" where
  "starts_with p s \<longleftrightarrow> take (length p) s = p"

text \<open>\<open>sub in s\<close>\<close>

fun contains :: "'a list \<Rightarrow> 'a list \<Rightarrow> bool" where
  "contains sub [] \<longleftrightarrow> sub = []"
| "contains sub (c # s) \<longleftrightarrow> starts_with sub (c # s) \<or> contains sub s"

text \<open>\<open>s.split()\<close>, and \<open>s.split(maxsplit=n)\<close>, whose last field is the rest of the string.\<close>

function split_words :: "pystr \<Rightarrow> pystr list" where
  "split_words s =
     (let t = dropWhile is_space s in
      if t = [] then [] else takeWhile (Not \<circ> is_space) t # split_words (dropWhile (Not \<circ> is_space) t))"
  by pat_completeness auto
termination
proof (relation "measure length", simp)
  fix s t assume t: "t = dropWhile is_space s" "t \<noteq> []"
  then have "\<not> is_space (hd t)" by (metis hd_dropWhile)
  with t(2) have "length (dropWhile (Not \<circ> is_space) t) < length t"
    by (cases t) (simp_all add: length_dropWhile_le le_imp_less_Suc)
  also have "\<dots> \<le> length s" unfolding t(1) by (rule length_dropWhile_le)
  finally show "(dropWhile (Not \<circ> is_space) t, s) \<in> measure length" by simp
qed

declare split_words.simps [simp del]

primrec split_max :: "nat \<Rightarrow> pystr \<Rightarrow> pystr list" where
  "split_max 0 s = (let t = dropWhile is_space s in if t = [] then [] else [t])"
| "split_max (Suc n) s =
     (let t = dropWhile is_space s in
      if t = [] then [] else takeWhile (Not \<circ> is_space) t # split_max n (dropWhile (Not \<circ> is_space) t))"

function splitlines :: "pystr \<Rightarrow> pystr list" where
  "splitlines s =
     (if s = [] then []
      else takeWhile (Not \<circ> is_line_break) s #
        (case dropWhile (Not \<circ> is_line_break) s of
           [] \<Rightarrow> []
         | c # rest \<Rightarrow> splitlines (if c = 13 \<and> starts_with [10] rest then tl rest else rest)))"
  by pat_completeness auto
termination
proof (relation "measure length", simp, goal_cases)
  case (1 s c rest)
  have "length (c # rest) \<le> length s" unfolding 1(2) [symmetric] by (rule length_dropWhile_le)
  moreover have "length (tl rest) \<le> length rest" by simp
  ultimately show ?case by auto
qed

declare splitlines.simps [simp del]

primrec join :: "pystr \<Rightarrow> pystr list \<Rightarrow> pystr" where
  "join sep [] = []"
| "join sep (x # xs) = x @ concat (map (\<lambda>y. sep @ y) xs)"

text \<open>\<open>s.replace(c, r)\<close> for a single character.\<close>

definition replace_char :: "nat \<Rightarrow> pystr \<Rightarrow> pystr \<Rightarrow> pystr" where
  "replace_char c r s = concat (map (\<lambda>d. if d = c then r else [d]) s)"

primrec split_at :: "nat \<Rightarrow> pystr \<Rightarrow> pystr list" where
  "split_at sep [] = [[]]"
| "split_at sep (c # s) =
     (if c = sep then [] # split_at sep s else (c # hd (split_at sep s)) # tl (split_at sep s))"

text \<open>\<open>Path(s).name\<close>\<close>

definition path_name :: "pystr \<Rightarrow> pystr" where
  "path_name s =
     (let parts = filter (\<lambda>part. part \<noteq> [] \<and> part \<noteq> lit ''.'') (split_at 47 s) in
      if parts = [] then [] else last parts)"

section \<open>Numbers\<close>

definition decimal_text :: "int \<Rightarrow> pystr" where
  "decimal_text v = (if v < 0 then lit ''-'' @ decimal_digits (nat (- v)) else decimal_digits (nat v))"

definition MAX_INT_DIGITS :: nat where "MAX_INT_DIGITS = 4300"

text \<open>
  \<open>int(text)\<close>: white space around, a sign, and digits with single underscores between them; more
  than 4,300 digits are refused.
\<close>

fun digit_groups :: "pystr \<Rightarrow> bool" where
  "digit_groups [] \<longleftrightarrow> False"
| "digit_groups [c] \<longleftrightarrow> digit_value c \<noteq> None"
| "digit_groups (c # d # s) \<longleftrightarrow>
     digit_value c \<noteq> None \<and> (if d = 95 then digit_groups s else digit_groups (d # s))"

definition digits_value :: "pystr \<Rightarrow> nat" where
  "digits_value s = foldl (\<lambda>v c. 10 * v + (case digit_value c of Some d \<Rightarrow> d | None \<Rightarrow> 0)) 0 s"

definition int_of_text :: "pystr \<Rightarrow> int res" where
  "int_of_text text_value =
     (let s = strip text_value;
          negative = starts_with (lit ''-'') s;
          s = (if negative \<or> starts_with (lit ''+'') s then tl s else s);
          digits = filter (\<lambda>c. c \<noteq> 95) s in
      if \<not> digit_groups s then raise ValueError ''invalid literal for int(): {text!r}'' [AStr text_value]
      else if MAX_INT_DIGITS < length digits then raise ValueError ''Exceeds the limit (4300 digits)'' []
      else Inr (if negative then - int (digits_value digits) else int (digits_value digits)))"

section \<open>JSON values\<close>

text \<open>
  What \<^verbatim>\<open>json.loads\<close> returns. A float is finite or one of \<open>Infinity\<close> and \<open>NaN\<close>, which the
  module accepts. \<open>json_int\<close> is \<^verbatim>\<open>int(value)\<close>.
\<close>

datatype json_float = FFinite rat | FInfinite bool | FNan

datatype json = JNull | JBool bool | JInt int | JFloat json_float | JText pystr | JList "json list"
  | JDict "(pystr \<times> json) list"

definition json_int :: "json \<Rightarrow> int res" where
  "json_int v =
     (case v of
        JBool b \<Rightarrow> Inr (if b then 1 else 0)
      | JInt i \<Rightarrow> Inr i
      | JFloat (FFinite r) \<Rightarrow> Inr (if 0 \<le> r then floor r else ceiling r)
      | JFloat (FInfinite _) \<Rightarrow> raise OverflowError ''cannot convert float infinity to integer'' []
      | JFloat FNan \<Rightarrow> raise ValueError ''cannot convert float NaN to integer'' []
      | JText s \<Rightarrow> int_of_text s
      | _ \<Rightarrow> raise TypeError ''int() argument must be a string or a number'' [])"

text \<open>\<open>value[key]\<close> and \<open>value[0]\<close>\<close>

definition json_key :: "pystr \<Rightarrow> json \<Rightarrow> json res" where
  "json_key k v =
     (case v of
        JDict d \<Rightarrow> subscript (map_of d) k
      | _ \<Rightarrow> raise TypeError ''not subscriptable with a string'' [])"

definition json_first :: "json \<Rightarrow> json res" where
  "json_first v =
     (case v of
        JList [] \<Rightarrow> raise IndexError ''list index out of range'' []
      | JList (x # xs) \<Rightarrow> Inr x
      | JText [] \<Rightarrow> raise IndexError ''string index out of range'' []
      | JText (c # s) \<Rightarrow> Inr (JText [c])
      | JDict d \<Rightarrow> raise KeyError ''0'' []
      | _ \<Rightarrow> raise TypeError ''not subscriptable'' [])"

section \<open>Laws\<close>

lemma starts_with_iff: "starts_with p s \<longleftrightarrow> (\<exists>t. s = p @ t)"
  by (metis append_eq_conv_conj append_take_drop_id starts_with_def)

lemma starts_with_append [simp]: "starts_with p (p @ s)"
  by (simp add: starts_with_def)

lemma contains_iff: "contains sub s \<longleftrightarrow> (\<exists>u v. s = u @ sub @ v)"
proof (induction s)
  case (Cons c s)
  have "(\<exists>u v. c # s = u @ sub @ v) \<longleftrightarrow> (\<exists>v. c # s = sub @ v) \<or> (\<exists>u v. s = u @ sub @ v)"
    by (metis append_Cons append_Nil list.inject neq_Nil_conv)
  with Cons show ?case by (simp add: starts_with_iff)
qed simp

lemma digit_value_ascii: "is_ascii_digit c \<Longrightarrow> digit_value c = Some (c - 48)"
  by (auto simp: digit_value_def decimal_zeros_def is_ascii_digit_def)

lemma decimal_value: "foldl (\<lambda>v d. 10 * v + (d - 48)) 0 (decimal_digits n) = n"
proof (induction n rule: decimal_digits.induct)
  case (1 n)
  then show ?case by (subst decimal_digits.simps) (auto simp: decimal_digits.simps [of n])
qed

lemma decimal_digits_ascii: "list_all is_ascii_digit (decimal_digits n)"
  by (induction n rule: decimal_digits.induct, subst decimal_digits.simps) (auto simp: is_ascii_digit_def [abs_def])

lemma decimal_digits_not_Nil [simp]: "decimal_digits n \<noteq> []"
  by (subst decimal_digits.simps) simp

lemma digits_value_decimal [simp]: "digits_value (decimal_digits n) = n"
proof -
  have "foldl (\<lambda>v c. 10 * v + (case digit_value c of Some d \<Rightarrow> d | None \<Rightarrow> 0)) a s = foldl (\<lambda>v d. 10 * v + (d - 48)) a s"
    if "list_all is_ascii_digit s" for a s
    using that by (induction s arbitrary: a) (simp_all add: digit_value_ascii)
  then show ?thesis using decimal_digits_ascii decimal_value by (simp add: digits_value_def)
qed

lemma decimal_digits_inj [simp]: "decimal_digits m = decimal_digits n \<longleftrightarrow> m = n"
  by (metis digits_value_decimal)

lemma digit_groups_ascii: "s \<noteq> [] \<Longrightarrow> list_all is_ascii_digit s \<Longrightarrow> digit_groups s"
  by (induction s rule: digit_groups.induct) (auto simp: digit_value_ascii is_ascii_digit_def)

lemma strip_id: "s \<noteq> [] \<Longrightarrow> \<not> is_space (hd s) \<Longrightarrow> \<not> is_space (last s) \<Longrightarrow> strip s = s"
  by (simp add: strip_def dropWhile_eq_self_iff [THEN iffD2] hd_rev)

lemma ascii_digit_no_space: "is_ascii_digit c \<Longrightarrow> \<not> is_space c \<and> c \<noteq> 95 \<and> c \<noteq> 45 \<and> c \<noteq> 43"
  by (auto simp: is_ascii_digit_def is_space_def)

text \<open>Printing a number and reading it again; the numbers have at most 4,300 digits.\<close>

lemma int_of_digits:
  assumes "length (decimal_digits n) \<le> MAX_INT_DIGITS"
  shows "int_of_text (decimal_digits n) = Inr (int n)" "int_of_text (45 # decimal_digits n) = Inr (- int n)"
proof -
  define d where "d = decimal_digits n"
  have ascii: "list_all is_ascii_digit d" and d: "d \<noteq> []" "digits_value d = n" "length d \<le> MAX_INT_DIGITS"
    using assms by (simp_all add: d_def decimal_digits_ascii)
  have ends: "is_ascii_digit (hd d)" "is_ascii_digit (last d)"
    using ascii d(1) by (simp_all add: list_all_iff)
  have groups: "digit_groups d" using ascii d(1) by (rule digit_groups_ascii [rotated])
  have plain: "filter (\<lambda>c. c \<noteq> 95) d = d"
    using ascii by (auto simp: filter_id_conv list_all_iff dest: ascii_digit_no_space)
  have unsigned: "\<not> starts_with [45] d" "\<not> starts_with [43] d"
    using ends(1) by (auto simp: starts_with_iff dest!: ascii_digit_no_space)
  have signed: "starts_with [45] (45 # d)" by (simp add: starts_with_def)
  have "strip d = d" using ends d(1) by (intro strip_id) (auto dest: ascii_digit_no_space)
  then have "int_of_text d = Inr (int n)"
    using groups plain unsigned d by (simp add: int_of_text_def Let_def lit_def)
  moreover have "strip (45 # d) = 45 # d"
    using ends d(1) by (intro strip_id) (auto simp: is_space_def dest: ascii_digit_no_space)
  then have "int_of_text (45 # d) = Inr (- int n)"
    using groups plain signed d by (simp add: int_of_text_def Let_def lit_def)
  ultimately show "int_of_text (decimal_digits n) = Inr (int n)" "int_of_text (45 # decimal_digits n) = Inr (- int n)"
    by (simp_all add: d_def)
qed

lemma int_of_decimal:
  "length (decimal_digits (nat \<bar>v\<bar>)) \<le> MAX_INT_DIGITS \<Longrightarrow> int_of_text (decimal_text v) = Inr v"
  using int_of_digits [of "nat \<bar>v\<bar>"] by (simp add: decimal_text_def lit_def abs_if split: if_splits)

text \<open>The name of a path is what follows its last slash.\<close>

lemma path_name_plain:
  assumes "47 \<notin> set name" and "name \<noteq> []" and "name \<noteq> lit ''.''"
  shows "path_name (dir @ 47 # name) = name"
proof -
  have plain: "split_at 47 name = [name]" using assms(1) by (induction name) auto
  have "\<exists>front. split_at 47 (dir @ 47 # name) = front @ [name]"
  proof (induction dir)
    case Nil
    show ?case using plain by (intro exI [of _ "[[]]"]) simp
  next
    case (Cons c dir)
    then obtain front where front: "split_at 47 (dir @ 47 # name) = front @ [name]" by blast
    show ?case
    proof (cases front)
      case Nil
      have "2 \<le> length (split_at 47 (d @ 47 # name))" for d
        using plain by (induction d) auto
      from this [of dir] Nil front show ?thesis by simp
    next
      case (Cons f fs)
      with front show ?thesis
        by (cases "c = 47") (auto intro: exI [of _ "[] # f # fs"] exI [of _ "(c # f) # fs"])
    qed
  qed
  with assms(2,3) show ?thesis by (auto simp: path_name_def Let_def)
qed

text \<open>A number below a power of ten has at most so many digits.\<close>

lemma length_decimal_digits: "n < 10 ^ Suc k \<Longrightarrow> length (decimal_digits n) \<le> Suc k"
proof (induction n arbitrary: k rule: decimal_digits.induct)
  case (1 n)
  show ?case
  proof (cases "n < 10")
    case True
    then show ?thesis by (subst decimal_digits.simps) simp
  next
    case False
    then obtain j where k: "k = Suc j" using "1.prems" by (cases k) auto
    with "1.prems" have "n div 10 < 10 ^ Suc j" by (simp add: less_mult_imp_div_less mult.commute)
    from "1.IH" [OF False this] False k show ?thesis by (subst decimal_digits.simps) simp
  qed
qed

end
