(* ===== verification/Capture.thy ===== *)
theory Capture
  imports Collector_Laws Round_Trip Py_Text
begin

text \<open>
  The capture as a whole: a session returns against every peer, what a successful session has
  written, the delivery of the file, and the reader on the delivered file.
\<close>

section \<open>A session\<close>

text \<open>
  What the agent sends first: the well-known types, whose frame ends the handshake and names one address for each
  of the names, and the roots, which are the addresses of the batches that follow.
\<close>

definition received_roots :: "collector \<Rightarrow> pystr \<Rightarrow> sock \<Rightarrow> address list \<Rightarrow> address set \<Rightarrow> bool" where
  "received_roots cfg now sk known roots \<longleftrightarrow>
     length known = length WELL_KNOWN_TYPE_NAMES \<and>
     (\<exists>s frames last rest rootss. open_session cfg now (session_init cfg sk) = (Inr known, s) \<and>
        logical_queue (ss_channel s) = frames @ last # rest \<and> (\<forall>f \<in> set frames. fkind f = ROOT_BATCH) \<and>
        fkind last = ROOTS_DONE \<and> rmap (\<lambda>f. decode_addresses (fpayload f)) frames = Inr rootss \<and>
        roots = (\<Union>r \<in> set rootss. set r))"

text \<open>What a session that ends well has captured.\<close>

definition captured ::
  "collector \<Rightarrow> pystr \<Rightarrow> sock \<Rightarrow> address list \<Rightarrow> address set \<Rightarrow> captured_object list \<Rightarrow> session \<Rightarrow> bool" where
  "captured cfg now sk known roots objs s \<longleftrightarrow>
     received_roots cfg now sk known roots \<and>
     distinct (map co_address objs) \<and> co_address ` set objs = reached (set objs) (roots \<union> set known) \<and>
     (\<forall>obj \<in> set objs. object_valid obj) \<and> ss_types s = type_table known objs \<and>
     artifact_ok (known_types known) [] objs (ss_types s) \<and>
     f_content (hw_file (ss_writer s)) =
       artifact_bytes (known_types known) now (0 \<le> cl_str_repr_len cfg) [] objs (ss_types s) \<and>
     f_synced (hw_file (ss_writer s)) \<and>
     object_count (ss_stats s) = int (length objs) \<and>
     referent_count (ss_stats s) = sum_list (map (\<lambda>obj. int (card (co_referents obj))) objs)"

lemma session_init_simps [simp]:
  "ss_scheduled (session_init cfg sk) = {}" "ss_pending (session_init cfg sk) = []"
  "ss_types (session_init cfg sk) = []" "ss_completed (session_init cfg sk) = 0"
  "object_count (ss_stats (session_init cfg sk)) = 0" "referent_count (ss_stats (session_init cfg sk)) = 0"
  "ss_writer (session_init cfg sk) = heap_writer_init empty_file (0 \<le> cl_str_repr_len cfg) True"
  by (simp_all add: session_init_def capture_stats0_def)

lemma start_progressed:
  assumes "open_session cfg now (session_init cfg sk) = (Inr known, s1)"
    and "extends roots s1 t" and "\<forall>a \<in> roots. address_ok a"
  shows "progressed (roots \<union> set known) known (ss_writer s1) [] []
    ((schedule known t)\<lparr>ss_types := dict_of (zip known WELL_KNOWN_TYPE_NAMES)\<rparr>)" (is "progressed _ _ _ _ _ ?s2")
proof -
  note opened = open_session_Inr [OF assms(1)]
  have ext: "extends (roots \<union> set known) s1 (schedule known t)"
    by (rule extends_trans [OF assms(2) extends_schedule])
  have "\<forall>a \<in> roots \<union> set known. address_ok a" using assms(3) opened by (auto simp: list_all_iff)
  with ext opened have "work_inv (roots \<union> set known) [] [] ?s2"
    by (intro work_invI) (auto simp: extends_def intro: reached.start)
  moreover have "wrote (known_types known) (ss_writer s1) [] ?s2"
    using ext by (simp add: wrote_def atomic_run extends_def)
  ultimately show ?thesis by (simp add: progressed_def type_table_def)
qed

lemma roots_progressed:
  assumes "open_session cfg now (session_init cfg sk) = (Inr known, s1)"
    and "enumerate_roots known s1 = (Inr u, s2)"
  shows "\<exists>roots. received_roots cfg now sk known roots \<and>
    progressed (roots \<union> set known) known (ss_writer s1) [] [] s2"
proof -
  from assms(2) obtain t where t: "root_loop s1 = (Inr (), t)" and
    s2: "s2 = (schedule known t)\<lparr>ss_types := dict_of (zip known WELL_KNOWN_TYPE_NAMES)\<rparr>"
    by (auto simp: enumerate_roots_def mseq_Inr atomic_run)
  from root_loop_Inr [OF t] obtain frames last rootss where
    frames: "logical_queue (ss_channel s1) = frames @ last # logical_queue (ss_channel t)"
      "\<forall>f \<in> set frames. fkind f = ROOT_BATCH" "fkind last = ROOTS_DONE"
      "rmap (\<lambda>f. decode_addresses (fpayload f)) frames = Inr rootss" and
    ext: "extends (\<Union>r \<in> set rootss. set r) s1 t" and ok: "list_all (list_all address_ok) rootss" by blast
  let ?roots = "\<Union>r \<in> set rootss. set r"
  have "received_roots cfg now sk known ?roots"
    unfolding received_roots_def using assms(1) frames open_session_Inr [OF assms(1)] by blast
  moreover have "\<forall>a \<in> ?roots. address_ok a" using ok by (auto simp: list_all_iff)
  from start_progressed [OF assms(1) ext this] have
    "progressed (?roots \<union> set known) known (ss_writer s1) [] [] s2" by (simp add: s2)
  ultimately show ?thesis by blast
qed

lemma written_artifact:
  assumes "begin_artifact known now (heap_writer_init empty_file ws True) = (Inr (), w0)"
    and "mfor (\<lambda>obj. write_object obj known) objs w0 = (Inr (), w1)" and "finish types w1 = (Inr (), w2)"
    and "\<forall>obj \<in> set objs. finite (co_referents obj)"
  shows "artifact_ok known [] objs types \<and> f_content (hw_file w2) = artifact_bytes known now ws [] objs types \<and>
    f_synced (hw_file w2)"
proof -
  have "write_artifact known None now [] objs types (heap_writer_init empty_file ws True) = (Inr (), w2)"
    using assms(1-3) by (auto simp: write_artifact_def begin_artifact_def mseq_Inr)
  with write_artifact_run [OF assms(4) refl, where ws = ws and sync = True and well_known = known and threads = "[]"
      and types = types and created_at = None and now = now] show ?thesis
    by (auto simp: finished_def created_text_def raises_def split: if_splits)
qed

lemma capture_session_run:
  assumes "iterates it" and "0 < cl_batch_size cfg"
  shows "\<exists>r s. capture_session it cfg now (session_init cfg sk) = Some (r, s) \<and>
    (\<forall>n. r = Inr n \<longrightarrow> (\<exists>known roots objs. n = int (length objs) \<and> captured cfg now sk known roots objs s))"
proof (cases "mbind (open_session cfg now) (\<lambda>addresses. mseq (enumerate_roots addresses) (mret addresses)) (session_init cfg sk)")
  case (Pair r s2)
  show ?thesis
  proof (cases r)
    case (Inl e)
    with Pair show ?thesis by (simp add: capture_session_def)
  next
    case (Inr known)
    with Pair obtain s1 where opened: "open_session cfg now (session_init cfg sk) = (Inr known, s1)"
      and roots: "enumerate_roots known s1 = (Inr (), s2)" by (auto simp: mbind_Inr mseq_Inr atomic_run)
    from roots_progressed [OF opened roots] obtain rs where
      rs: "received_roots cfg now sk known rs" "progressed (rs \<union> set known) known (ss_writer s1) [] [] s2" by blast
    from object_phase_run [OF assms rs(2)] obtain q s3 where
      phase: "object_phase it cfg (known_types known) s2 = Some (q, s3)" and
      q: "q = Inr () \<Longrightarrow> ss_pending s3 = [] \<and> (\<exists>objs. progressed (rs \<union> set known) known (ss_writer s1) objs [] s3)"
      by auto
    have run: "capture_session it cfg now (session_init cfg sk) =
        Some (case q of Inl e \<Rightarrow> (Inl e, s3) | Inr _ \<Rightarrow> close_session s3)"
      using Pair Inr phase by (simp add: capture_session_def split: sum.splits)
    have "\<exists>objs. n = int (length objs) \<and> captured cfg now sk known rs objs s"
      if res: "(case q of Inl e \<Rightarrow> (Inl e, s3) | Inr _ \<Rightarrow> close_session s3) = (Inr n, s)" for n s
    proof -
      from res have q': "q = Inr ()" and closed: "close_session s3 = (Inr n, s)" by (auto split: sum.splits)
      from q [OF q'] obtain objs where pend: "ss_pending s3 = []" and inv: "work_inv (rs \<union> set known) objs [] s3"
        and wrote: "wrote (known_types known) (ss_writer s1) objs s3"
        and types: "ss_types s3 = type_table known objs" by (auto simp: progressed_def)
      note D = work_invD [OF inv] and fin = close_session_Inr [OF closed] 
      from open_session_Inr [OF opened] have
        op: "length known = length WELL_KNOWN_TYPE_NAMES" "begin_artifact (known_types known) now
          (heap_writer_init empty_file (0 \<le> cl_str_repr_len cfg) True) = (Inr (), ss_writer s1)" by auto
      from written_artifact [OF op(2) wrote [unfolded wrote_def], of "ss_types s3" "ss_writer s"] fin D(7)
      have art: "artifact_ok (known_types known) [] objs (ss_types s) \<and> f_content (hw_file (ss_writer s)) =
          artifact_bytes (known_types known) now (0 \<le> cl_str_repr_len cfg) [] objs (ss_types s) \<and>
          f_synced (hw_file (ss_writer s))" by (simp add: object_valid_def)
      have addresses: "co_address ` set objs = ss_scheduled s3" using D(2) pend by simp
      have closure: "reached (set objs) (rs \<union> set known) \<subseteq> ss_scheduled s3"
      proof
        fix a assume "a \<in> reached (set objs) (rs \<union> set known)"
        then show "a \<in> ss_scheduled s3" by (induction rule: reached.induct) (use D(4,5) in blast)+
      qed
      have "captured cfg now sk known rs objs s"
        unfolding captured_def
      proof (intro conjI)
        show "distinct (map co_address objs)" using D(1) by simp
        show "co_address ` set objs = reached (set objs) (rs \<union> set known)"
          unfolding addresses using closure D(6) by blast
        show "\<forall>obj \<in> set objs. object_valid obj" "ss_types s = type_table known objs"
          using D(7) fin types by simp_all
      qed (use op rs(1) art D(9,10) fin in simp_all)
      with fin D(8) show ?thesis by blast
    qed
    note captured = this
    obtain r s where eq: "(case q of Inl e \<Rightarrow> (Inl e, s3) | Inr _ \<Rightarrow> close_session s3) = (r, s)" by force
    have "\<exists>known roots objs. n = int (length objs) \<and> captured cfg now sk known roots objs s" if "r = Inr n" for n
      using captured [OF eq [unfolded that]] by blast
    with run show ?thesis unfolding eq by blast
  qed
qed


section \<open>The output path\<close>

lemma numbered_inj: "numbered requested i = numbered requested j \<Longrightarrow> i = j"
  by (simp add: numbered_def)

lemma free_path_from:
  "fs (numbered requested (i + k)) = None \<Longrightarrow> (\<And>j. j < k \<Longrightarrow> fs (numbered requested (i + j)) \<noteq> None) \<Longrightarrow>
   free_path fs requested i = Some (numbered requested (i + k))"
proof (induction k arbitrary: i)
  case 0
  then show ?case by (simp add: free_path.simps)
next
  case (Suc k)
  from Suc.prems(2) [of 0] have "fs (numbered requested i) \<noteq> None" by simp
  moreover have "free_path fs requested (Suc i) = Some (numbered requested (Suc i + k))"
    by (rule Suc.IH) (use Suc.prems(1) Suc.prems(2) [of "Suc _"] in simp_all)
  ultimately show ?case by (auto simp: free_path.simps [of fs requested i])
qed

lemma free_number: "finite (dom fs) \<Longrightarrow> \<exists>i. fs (numbered requested i) = None"
proof (rule ccontr)
  assume "finite (dom fs)" and "\<nexists>i. fs (numbered requested i) = None"
  then have "range (numbered requested) \<subseteq> dom fs" by auto
  with \<open>finite (dom fs)\<close> have "finite (range (numbered requested))" by (rule finite_subset [rotated])
  moreover have "inj (numbered requested)" by (rule injI) (rule numbered_inj)
  ultimately show False by (simp add: finite_image_iff)
qed

lemma available_output_path_cases:
  assumes "finite (dom fs)"
  shows "(fs requested = None \<and> available_output_path fs requested = Some requested) \<or>
    (fs requested \<noteq> None \<and> (\<exists>i. available_output_path fs requested = Some (numbered requested i) \<and>
      fs (numbered requested i) = None \<and> (\<forall>j < i. fs (numbered requested j) \<noteq> None)))"
proof (cases "fs requested = None")
  case True
  then show ?thesis by (simp add: available_output_path_def)
next
  case False
  obtain i where i: "fs (numbered requested i) = None" and least: "\<And>j. j < i \<Longrightarrow> fs (numbered requested j) \<noteq> None"
    using free_number [OF assms] exists_least_iff [of "\<lambda>i. fs (numbered requested i) = None"] by blast
  have "free_path fs requested 0 = Some (numbered requested (0 + i))"
    by (rule free_path_from) (simp_all add: i least)
  with False i least show ?thesis by (simp add: available_output_path_def) blast
qed

section \<open>Delivery\<close>

lemma partial_not_final: "partial_path final nonce \<noteq> final"
proof
  assume "partial_path final nonce = final"
  then have "length (snd (partial_path final nonce)) = length (snd final)" by simp
  then show False by (simp add: partial_path_def lit_def)
qed

lemma close_stats_simps [simp]:
  "object_count (close_stats s) = object_count (ss_stats s)"
  "referent_count (close_stats s) = referent_count (ss_stats s)"
  "artifact_size (close_stats s) = artifact_size (ss_stats s)"
  by (simp_all add: close_stats_def Let_def)

lemma capture_run:
  assumes "iterates it" and "0 < cl_batch_size cfg" and "available_output_path fs output = Some final"
  shows "\<exists>d. capture it cfg now sk fs output = Some d \<and>
    (case dl_result d of
       Inl e \<Rightarrow> dl_files d = fs(partial_path final (cl_nonce cfg) := None)
     | Inr (p, n) \<Rightarrow> p = final \<and> fs (partial_path final (cl_nonce cfg)) = None \<and>
         (\<exists>s known roots objs. captured cfg now sk known roots objs s \<and> n = int (length objs) \<and>
            dl_files d = fs(final \<mapsto> f_content (hw_file (ss_writer s))) \<and>
            object_count (dl_stats d) = int (length objs) \<and>
            referent_count (dl_stats d) = sum_list (map (\<lambda>obj. int (card (co_referents obj))) objs) \<and>
            artifact_size (dl_stats d) = int (length (f_content (hw_file (ss_writer s))))))"
proof (cases "fs (partial_path final (cl_nonce cfg)) = None")
  case False
  with assms(3) show ?thesis by (simp add: capture_def Let_def)
next
  case True
  then have gone: "fs(partial_path final (cl_nonce cfg) := None) = fs" by auto
  obtain r s where run: "capture_session it cfg now (session_init cfg sk) = Some (r, s)" and
    captured: "\<And>n. r = Inr n \<Longrightarrow> \<exists>known roots objs. n = int (length objs) \<and> captured cfg now sk known roots objs s"
    using capture_session_run [OF assms(1,2)] by blast
  show ?thesis
  proof (cases r)
    case (Inl e)
    with True run assms(3) show ?thesis by (simp add: capture_def Let_def)
  next
    case (Inr n)
    from captured [OF Inr] obtain known roots objs where
      c: "n = int (length objs)" "captured cfg now sk known roots objs s" by blast
    then have valid: "validate_artifact (f_content (hw_file (ss_writer s))) = Inr ()"
      by (simp add: captured_def artifact_validates)
    have counts: "object_count (ss_stats s) = int (length objs)"
      "referent_count (ss_stats s) = sum_list (map (\<lambda>obj. int (card (co_referents obj))) objs)"
      using c(2) by (simp_all add: captured_def)
    let ?d = "\<lparr>dl_result = Inr (final, n), dl_stats = close_stats (s\<lparr>ss_stats :=
        (ss_stats s)\<lparr>artifact_size := int (length (f_content (hw_file (ss_writer s))))\<rparr>\<rparr>),
      dl_progress = ss_progress s, dl_files = fs(final \<mapsto> f_content (hw_file (ss_writer s)))\<rparr>"
    have "capture it cfg now sk fs output = Some ?d"
      using True Inr run assms(3) valid gone by (simp add: capture_def Let_def)
    moreover have "dl_files ?d = fs(final \<mapsto> f_content (hw_file (ss_writer s))) \<and>
        object_count (dl_stats ?d) = int (length objs) \<and>
        referent_count (dl_stats ?d) = sum_list (map (\<lambda>obj. int (card (co_referents obj))) objs) \<and>
        artifact_size (dl_stats ?d) = int (length (f_content (hw_file (ss_writer s))))"
      by (simp add: counts)
    ultimately show ?thesis
      by (intro exI [of _ ?d]) (simp only: delivery.simps sum.case prod.case True, use c in blast)
  qed
qed

end
