(* ===== verification/Agent_Stream.thy ===== *)
theory Agent_Stream
  imports Collector_Laws
begin

text \<open>
  The other end of the connection, as the Collector needs it: an agent that greets, and answers
  every frame it receives with some frames, in bulk batches or not. \<open>agent_peer\<close> is such an agent
  as the peer of a socket. The lemmas say how sending and receiving change the queue of logical
  frames, and run one object, one batch and the roots against given scripts of frames.
\<close>

section \<open>Frames on the wire\<close>

definition frames_wire :: "frame list \<Rightarrow> bytes" where
  "frames_wire fs = concat (map (\<lambda>f. wire_bytes (fkind f) (fpayload f)) fs)"

text \<open>The logical frames that one wire frame stands for.\<close>

definition expand :: "frame \<Rightarrow> frame list" where
  "expand f =
     (if fkind f \<noteq> BULK_BATCH then [f]
      else case decode_bulk_batch (fpayload f) of Inr rs \<Rightarrow> rs | Inl _ \<Rightarrow> [])"

definition wire_ok :: "frame \<Rightarrow> bool" where
  "wire_ok f \<longleftrightarrow> length (fpayload f) \<le> MAX_PAYLOAD \<and> (fkind f = BULK_BATCH \<longrightarrow> expand f \<noteq> [])"

lemma frames_wire_simps [simp]:
  "frames_wire [] = []" "frames_wire (f # fs) = wire_bytes (fkind f) (fpayload f) @ frames_wire fs"
  "frames_wire (fs @ gs) = frames_wire fs @ frames_wire gs"
  by (simp_all add: frames_wire_def)

lemma parse_wire_frame:
  "length (fpayload f) \<le> MAX_PAYLOAD \<Longrightarrow> parse_wire (wire_bytes (fkind f) (fpayload f) @ rest) = Some (f, rest)"
  by (simp add: parse_wire_Some)

lemma parse_wire_nil: "parse_wire [] = None"
  by (simp add: parse_wire_def Let_def)

lemma logical_frames_step:
  assumes "wire_ok f"
  shows "logical_frames (wire_bytes (fkind f) (fpayload f) @ rest) = expand f @ logical_frames rest"
proof -
  have "parse_wire (wire_bytes (fkind f) (fpayload f) @ rest) = Some (f, rest)"
    using assms by (simp add: parse_wire_frame wire_ok_def)
  with assms show ?thesis
    by (subst logical_frames.simps) (auto simp: expand_def wire_ok_def split: sum.splits list.splits if_splits)
qed

lemma logical_frames_wire:
  "\<forall>f \<in> set fs. wire_ok f \<Longrightarrow> logical_frames (frames_wire fs) = concat (map expand fs)"
  by (induction fs) (simp_all add: logical_frames_step, simp add: logical_frames.simps [of "[]"] parse_wire_nil)

section \<open>The peer\<close>

definition agent_peer :: "frame list \<Rightarrow> (frame \<Rightarrow> frame list) \<Rightarrow> bytes \<Rightarrow> bytes \<times> bool" where
  "agent_peer greeting answer sent = (frames_wire (greeting @ concat (map answer (logical_frames sent))), False)"

text \<open>
  The channel to such an agent, after \<open>reqs\<close> have been sent: the unread bytes are whole wire
  frames.
\<close>

definition talking :: "frame list \<Rightarrow> (frame \<Rightarrow> frame list) \<Rightarrow> framed_socket \<Rightarrow> bool" where
  "talking greeting answer c \<longleftrightarrow>
     sk_peer (fs_sock c) = agent_peer greeting answer \<and>
     (\<exists>reqs ws. sk_sent (fs_sock c) = frames_wire reqs \<and>
        (\<forall>f \<in> set reqs. length (fpayload f) \<le> MAX_PAYLOAD \<and> fkind f \<noteq> BULK_BATCH) \<and>
        sk_taken (fs_sock c) \<le> length (frames_wire (greeting @ concat (map answer reqs))) \<and>
        avail (fs_sock c) = frames_wire ws \<and> (\<forall>f \<in> set ws. wire_ok f))"

definition answers_ok :: "(frame \<Rightarrow> frame list) \<Rightarrow> bool" where
  "answers_ok answer \<longleftrightarrow> (\<forall>f. \<forall>w \<in> set (answer f). wire_ok w)"

lemma requests_parsed:
  assumes "\<forall>f \<in> set reqs. length (fpayload f) \<le> MAX_PAYLOAD \<and> fkind f \<noteq> BULK_BATCH"
  shows "logical_frames (frames_wire reqs) = reqs"
proof -
  have "concat (map expand reqs) = reqs" using assms by (induction reqs) (simp_all add: expand_def)
  with logical_frames_wire [of reqs] assms show ?thesis by (simp add: wire_ok_def)
qed

lemma talking_queue: "talking greeting answer c \<Longrightarrow> avail (fs_sock c) = frames_wire ws \<Longrightarrow> \<forall>f \<in> set ws. wire_ok f \<Longrightarrow>
    logical_queue c = fs_pending c @ concat (map expand ws)"
  by (simp add: logical_queue_def logical_frames_wire)

lemma talking_send:
  assumes "talking greeting answer c" and "answers_ok answer" and "length p \<le> MAX_PAYLOAD" and "k \<noteq> BULK_BATCH"
  shows "\<exists>c'. send k p c = (Inr (), c') \<and> talking greeting answer c' \<and>
    logical_queue c' = logical_queue c @ concat (map expand (answer (Frame k p)))"
proof -
  from assms(1) obtain reqs ws where peer: "sk_peer (fs_sock c) = agent_peer greeting answer"
    and sent: "sk_sent (fs_sock c) = frames_wire reqs"
    and reqs: "\<forall>f \<in> set reqs. length (fpayload f) \<le> MAX_PAYLOAD \<and> fkind f \<noteq> BULK_BATCH"
    and taken: "sk_taken (fs_sock c) \<le> length (frames_wire (greeting @ concat (map answer reqs)))"
    and avail: "avail (fs_sock c) = frames_wire ws" "\<forall>f \<in> set ws. wire_ok f"
    unfolding talking_def by blast
  let ?f = "Frame k p"
  let ?c = "c\<lparr>fs_sock := (fs_sock c)\<lparr>sk_sent := sk_sent (fs_sock c) @ wire_bytes k p\<rparr>,
     fs_stats := (fs_stats c)\<lparr>sent_bytes := sent_bytes (fs_stats c) + 12 + int (length p),
       sent_frames := sent_frames (fs_stats c) + 1\<rparr>\<rparr>"
  have reqs': "\<forall>f \<in> set (reqs @ [?f]). length (fpayload f) \<le> MAX_PAYLOAD \<and> fkind f \<noteq> BULK_BATCH"
    using reqs assms(3,4) by auto
  have sent': "sk_sent (fs_sock ?c) = frames_wire (reqs @ [?f])" by (simp add: sent)
  have out: "fst (agent_peer greeting answer (frames_wire rs)) = frames_wire (greeting @ concat (map answer rs))"
    if "\<forall>f \<in> set rs. length (fpayload f) \<le> MAX_PAYLOAD \<and> fkind f \<noteq> BULK_BATCH" for rs
    by (simp add: agent_peer_def requests_parsed [OF that])
  have old: "drop (sk_taken (fs_sock c)) (frames_wire (greeting @ concat (map answer reqs))) = frames_wire ws"
    using avail(1) by (simp only: avail_def peer sent out [OF reqs])
  have "avail (fs_sock ?c) = drop (sk_taken (fs_sock c)) (frames_wire (greeting @ concat (map answer (reqs @ [?f]))))"
    unfolding avail_def sent' by (simp add: peer out [OF reqs', simplified])
  also have "\<dots> = frames_wire (ws @ answer ?f)"
    using old taken by (simp del: append_assoc add: append_assoc [symmetric])
  finally have new: "avail (fs_sock ?c) = frames_wire (ws @ answer ?f)" .
  have ok: "\<forall>f \<in> set (ws @ answer ?f). wire_ok f" using avail(2) assms(2) by (auto simp: answers_ok_def)
  have "talking greeting answer ?c"
    unfolding talking_def using new ok reqs' sent' taken
    by (intro conjI exI [of _ "reqs @ [?f]"] exI [of _ "ws @ answer ?f"]) (simp_all add: peer)
  moreover have "logical_queue ?c = logical_queue c @ concat (map expand (answer ?f))"
    unfolding logical_queue_def new logical_frames_wire [OF ok] avail(1) logical_frames_wire [OF avail(2)]
    by simp
  ultimately show ?thesis using send_run [OF assms(3), of k c] by blast
qed

lemma talking_receive:
  assumes "talking greeting answer c" and "receive c = (Inr f, c')"
  shows "talking greeting answer c'"
proof -
  from assms(1) obtain reqs ws where peer: "sk_peer (fs_sock c) = agent_peer greeting answer"
    and sent: "sk_sent (fs_sock c) = frames_wire reqs"
    and reqs: "\<forall>f \<in> set reqs. length (fpayload f) \<le> MAX_PAYLOAD \<and> fkind f \<noteq> BULK_BATCH"
    and taken: "sk_taken (fs_sock c) \<le> length (frames_wire (greeting @ concat (map answer reqs)))"
    and avail: "avail (fs_sock c) = frames_wire ws" "\<forall>f \<in> set ws. wire_ok f"
    unfolding talking_def by blast
  have wire: "talking greeting answer c1" if "receive_wire_frame c = (Inr w, c1)" for w c1
  proof -
    from receive_wire_frame_Inr [OF that] obtain rest r where
      w: "length (fpayload w) \<le> MAX_PAYLOAD" "avail (fs_sock c) = wire_bytes (fkind w) (fpayload w) @ rest"
      "c1 = count_received (length (fpayload w)) (c\<lparr>fs_sock := advance (12 + length (fpayload w)) r (fs_sock c)\<rparr>)" by blast
    obtain v vs where ws: "ws = v # vs" using w(2) avail(1) by (cases ws) (auto simp: wire_bytes_def PROTOCOL_MAGIC_def)
    have "parse_wire (avail (fs_sock c)) = Some (w, rest)" using w(1,2) by (simp add: parse_wire_Some)
    moreover have "parse_wire (avail (fs_sock c)) = Some (v, frames_wire vs)"
      using avail by (simp add: ws parse_wire_frame wire_ok_def)
    ultimately have rest: "rest = frames_wire vs" by simp
    have "length (avail (fs_sock c)) = length (frames_wire (greeting @ concat (map answer reqs))) - sk_taken (fs_sock c)"
      by (simp add: avail_def peer sent agent_peer_def requests_parsed [OF reqs])
    then have "sk_taken (fs_sock c) + (12 + length (fpayload w)) \<le> length (frames_wire (greeting @ concat (map answer reqs)))"
      using w(2) taken by simp
    then show ?thesis
      unfolding talking_def using peer sent reqs avail(2) w(2) rest
      by (intro conjI exI [of _ reqs] exI [of _ vs]) (simp_all add: w(3) ws, simp add: advance_def)
  qed
  from assms(2) show ?thesis
  proof (cases rule: receive_Inr_cases)
    case buffered
    then obtain gs where "c' = c\<lparr>fs_pending := gs\<rparr>" by blast
    with assms(1) show ?thesis by (simp add: talking_def)
  next
    case single
    then show ?thesis using wire by blast
  next
    case (bulk w s1 rest)
    from wire [OF bulk(2)] show ?thesis by (simp add: bulk(5) talking_def)
  qed
qed


section \<open>What a script of frames says of an object\<close>

text \<open>The data frames of an object, as a function without a channel.\<close>

fun gather :: "frame list \<Rightarrow> captured_object \<Rightarrow> captured_object option" where
  "gather [] obj = Some obj"
| "gather (f # fs) obj =
     (case fkind f of
        REFERENTS \<Rightarrow>
          (case decode_addresses (fpayload f) of Inl _ \<Rightarrow> None
           | Inr as \<Rightarrow> gather fs (obj\<lparr>co_referents := co_referents obj \<union> set as\<rparr>))
      | SEQUENCE_CONTENT \<Rightarrow>
          (case decode_addresses (fpayload f) of Inl _ \<Rightarrow> None
           | Inr as \<Rightarrow> gather fs (obj\<lparr>co_sequence_content := co_sequence_content obj @ as\<rparr>))
      | DICT_CONTENT \<Rightarrow>
          (case decode_dict_entries (fpayload f) of Inl _ \<Rightarrow> None
           | Inr es \<Rightarrow> gather fs (obj\<lparr>co_dict_content := co_dict_content obj @ es\<rparr>))
      | PREVIEW \<Rightarrow> gather fs (obj\<lparr>co_str_repr := decode_text (fpayload f)\<rparr>)
      | WARNING \<Rightarrow> gather fs obj
      | _ \<Rightarrow> None)"

definition described :: "object_begin \<Rightarrow> content_kind \<Rightarrow> captured_object" where
  "described b kind =
     \<lparr>co_address = ob_address b, co_type_address = ob_type_address b, co_type_name = ob_type_name b,
      co_shallow_size = ob_shallow_size b, co_content_kind = kind, co_sequence_content = [],
      co_dict_content = [], co_referents = {}, co_attributes = [], co_str_repr = []\<rparr>"

definition with_text :: "collector \<Rightarrow> captured_object \<Rightarrow> captured_object" where
  "with_text cfg obj =
     (if 0 \<le> cl_str_repr_len cfg \<and> co_str_repr obj = [] then obj\<lparr>co_str_repr := default_text cfg obj\<rparr> else obj)"

definition describes :: "collector \<Rightarrow> address \<Rightarrow> frame list \<Rightarrow> captured_object \<Rightarrow> bool" where
  "describes cfg a frames obj \<longleftrightarrow>
     (\<exists>f b kind mid e o1. frames = f # mid @ [e] \<and> fkind f = OBJECT_BEGIN \<and> fkind e = OBJECT_END \<and>
        decode_object_begin (fpayload f) = Inr b \<and> ob_address b = a \<and>
        content_kind_of (ob_content_kind b) = Some kind \<and> gather mid (described b kind) = Some o1 \<and>
        obj = with_text cfg o1)"

lemma object_loop_gather:
  assumes "object_loop cfg a obj s = (Inr result, s')"
  shows "\<exists>mid e o1. logical_queue (ss_channel s) = mid @ e # logical_queue (ss_channel s') \<and>
    fkind e = OBJECT_END \<and> gather mid obj = Some o1 \<and> result = with_text cfg o1"
  using assms
proof (induction cfg a obj s rule: object_loop.induct)
  case (1 cfg a obj s)
  from 1(6) obtain f t where rcv: "on_channel receive s = (Inr f, t)"
    by (subst (asm) object_loop.simps) (auto split: prod.splits sum.splits)
  then have queue: "logical_queue (ss_channel s) = f # logical_queue (ss_channel t)"
    by (simp add: on_channel_receive)
  note run = 1(6) [unfolded object_loop.simps [of cfg a obj s] rcv prod.case sum.case]
  note IH = 1(1-5) [OF rcv [symmetric] refl]
  have step: ?case if "\<exists>mid e o2. logical_queue (ss_channel t) = mid @ e # logical_queue (ss_channel s') \<and>
      fkind e = OBJECT_END \<and> gather mid o1 = Some o2 \<and> result = with_text cfg o2"
    "\<And>mid. gather (f # mid) obj = gather mid o1" for o1
  proof -
    from that(1) obtain mid e o2 where "logical_queue (ss_channel t) = mid @ e # logical_queue (ss_channel s')"
      "fkind e = OBJECT_END" "gather mid o1 = Some o2" "result = with_text cfg o2" by blast
    then show ?thesis using that(2) queue by (intro exI [of _ "f # mid"] exI [of _ e] exI [of _ o2]) simp
  qed
  show ?case
  proof (cases "fkind f")
    case REFERENTS
    with run obtain as where dec: "decode_addresses (fpayload f) = Inr as" by (auto split: sum.splits)
    show ?thesis by (rule step [OF IH(1) [OF REFERENTS dec]]) (use run REFERENTS dec in simp_all)
  next
    case SEQUENCE_CONTENT
    with run obtain as where dec: "decode_addresses (fpayload f) = Inr as" by (auto split: sum.splits)
    show ?thesis by (rule step [OF IH(2) [OF SEQUENCE_CONTENT dec]]) (use run SEQUENCE_CONTENT dec in simp_all)
  next
    case DICT_CONTENT
    with run obtain es where dec: "decode_dict_entries (fpayload f) = Inr es" by (auto split: sum.splits)
    show ?thesis by (rule step [OF IH(3) [OF DICT_CONTENT dec]]) (use run DICT_CONTENT dec in simp_all)
  next
    case PREVIEW
    show ?thesis by (rule step [OF IH(4) [OF PREVIEW]]) (use run PREVIEW in simp_all)
  next
    case WARNING
    show ?thesis
      by (rule step [of obj]) (use IH(5) [OF WARNING] run WARNING in simp_all)
  next
    case OBJECT_END
    with run queue show ?thesis
      by (intro exI [of _ "[]"] exI [of _ f] exI [of _ obj]) (auto simp: with_text_def)
  qed (use run in \<open>simp_all add: split: if_splits\<close>)
qed

section \<open>Properties of the channel that receiving keeps\<close>

locale channel_property =
  fixes P :: "framed_socket \<Rightarrow> bool"
  assumes kept: "P c \<Longrightarrow> receive c = (Inr f, c') \<Longrightarrow> P c'"
begin

definition queued :: "frame list \<Rightarrow> session \<Rightarrow> bool" where
  "queued q s \<longleftrightarrow> P (ss_channel s) \<and> logical_queue (ss_channel s) = q"

lemma queued_receive:
  assumes "queued (f # q) s"
  shows "\<exists>s'. on_channel receive s = (Inr f, s') \<and> quiet s s' \<and> queued q s'"
proof -
  from assms have q: "logical_queue (ss_channel s) = f # q" "P (ss_channel s)" by (simp_all add: queued_def)
  from chan.rcv_some [OF q(1)] obtain c where c: "receive (ss_channel s) = (Inr f, c)" "logical_queue c = q" by blast
  then show ?thesis using kept [OF q(2) c(1)]
    by (intro exI [of _ "s\<lparr>ss_channel := c\<rparr>"]) (simp add: on_channel_def quiet_def queued_def)
qed

lemma queued_expect:
  assumes "queued (f # q) s" and "fkind f = k" and "k \<noteq> ERROR"
  shows "\<exists>s'. expect k s = (Inr f, s') \<and> quiet s s' \<and> queued q s'"
  using queued_receive [OF assms(1)] assms(2,3) by (auto simp: expect_def mbind_run atomic_run)

lemma queued_object_loop:
  "gather mid obj = Some o1 \<Longrightarrow> fkind e = OBJECT_END \<Longrightarrow> queued (mid @ e # q) s \<Longrightarrow>
   \<exists>s'. object_loop cfg a obj s = (Inr (with_text cfg o1), s') \<and> quiet s s' \<and> queued q s'"
proof (induction mid obj arbitrary: s rule: gather.induct)
  case (1 obj)
  then obtain t where "on_channel receive s = (Inr e, t)" "quiet s t" "queued q t"
    using queued_receive [of e q s] by auto
  with 1 show ?case by (auto simp: object_loop.simps [of cfg a o1 s] with_text_def)
next
  case (2 f fs obj)
  from 2(8) obtain t where t: "on_channel receive s = (Inr f, t)" "quiet s t" "queued (fs @ e # q) t"
    using queued_receive [of f "fs @ e # q" s] by auto
  let ?warned = "t\<lparr>ss_warnings := ss_warnings t @ [decode_text (fpayload f)]\<rparr>"
  have warned: "queued (fs @ e # q) ?warned" "quiet t ?warned"
    using t(3) by (simp_all add: queued_def quiet_def)
  have cont: ?case if "\<exists>s'. object_loop cfg a o2 u = (Inr (with_text cfg o1), s') \<and> quiet u s' \<and> queued q s'"
    "object_loop cfg a obj s = object_loop cfg a o2 u" "quiet t u" for o2 u
    using that t(2) quiet_trans by metis
  note unfold = object_loop.simps [of cfg a obj s, unfolded t(1) prod.case sum.case]
  show ?case
  proof (cases "fkind f")
    case REFERENTS
    with 2(6) obtain as where dec: "decode_addresses (fpayload f) = Inr as" by (auto split: sum.splits)
    show ?thesis
      by (rule cont [OF 2(1) [OF REFERENTS dec _ 2(7) t(3)]])
        (use 2(6) REFERENTS dec in \<open>simp_all add: unfold quiet_refl\<close>)
  next
    case SEQUENCE_CONTENT
    with 2(6) obtain as where dec: "decode_addresses (fpayload f) = Inr as" by (auto split: sum.splits)
    show ?thesis
      by (rule cont [OF 2(2) [OF SEQUENCE_CONTENT dec _ 2(7) t(3)]])
        (use 2(6) SEQUENCE_CONTENT dec in \<open>simp_all add: unfold quiet_refl\<close>)
  next
    case DICT_CONTENT
    with 2(6) obtain es where dec: "decode_dict_entries (fpayload f) = Inr es" by (auto split: sum.splits)
    show ?thesis
      by (rule cont [OF 2(3) [OF DICT_CONTENT dec _ 2(7) t(3)]])
        (use 2(6) DICT_CONTENT dec in \<open>simp_all add: unfold quiet_refl\<close>)
  next
    case PREVIEW
    show ?thesis
      by (rule cont [OF 2(4) [OF PREVIEW _ 2(7) t(3)]]) (use 2(6) PREVIEW in \<open>simp_all add: unfold quiet_refl\<close>)
  next
    case WARNING
    show ?thesis
      by (rule cont [OF 2(5) [OF WARNING _ 2(7) warned(1)]]) (use 2(6) WARNING warned(2) in \<open>simp_all add: unfold\<close>)
  qed (use 2(6) in simp_all)
qed

lemma queued_receive_object:
  assumes "describes cfg a frames obj" and "queued (frames @ q) s"
  shows "\<exists>s'. receive_object cfg a s = (Inr obj, s') \<and> quiet s s' \<and> queued q s'"
proof -
  from assms(1) obtain f b kind mid e o1 where d: "frames = f # mid @ [e]" "fkind f = OBJECT_BEGIN"
    "fkind e = OBJECT_END" "decode_object_begin (fpayload f) = Inr b" "ob_address b = a"
    "content_kind_of (ob_content_kind b) = Some kind" "gather mid (described b kind) = Some o1"
    "obj = with_text cfg o1" by (auto simp: describes_def)
  from queued_expect [of f "mid @ e # q" s OBJECT_BEGIN] assms(2) d obtain t where
    t: "expect OBJECT_BEGIN s = (Inr f, t)" "quiet s t" "queued (mid @ e # q) t" by auto
  from queued_object_loop [OF d(7,3) t(3)] obtain s' where
    "object_loop cfg a (described b kind) t = (Inr obj, s')" "quiet t s'" "queued q s'" unfolding d(8) by blast
  with t d show ?thesis
    by (auto simp: receive_object_def mbind_run atomic_run described_def intro: quiet_trans)
qed

lemma queued_root_loop:
  "rmap (\<lambda>f. decode_addresses (fpayload f)) frames = Inr roots \<Longrightarrow> \<forall>f \<in> set frames. fkind f = ROOT_BATCH \<Longrightarrow>
   fkind d = ROOTS_DONE \<Longrightarrow> queued (frames @ d # q) s \<Longrightarrow>
   \<exists>s'. root_loop s = (Inr (), s') \<and> extends (\<Union>r \<in> set roots. set r) s s' \<and> queued q s'"
proof (induction frames arbitrary: roots s)
  case Nil
  then obtain t where "on_channel receive s = (Inr d, t)" "quiet s t" "queued q t"
    using queued_receive [of d q s] by auto
  with Nil show ?case by (simp add: root_loop.simps [of s] quiet_extends)
next
  case (Cons f frames)
  from Cons.prems(4) obtain t where t: "on_channel receive s = (Inr f, t)" "quiet s t" "queued (frames @ d # q) t"
    using queued_receive [of f "frames @ d # q" s] by auto
  from Cons.prems(1) obtain as rest where dec: "decode_addresses (fpayload f) = Inr as" "roots = as # rest"
    "rmap (\<lambda>f. decode_addresses (fpayload f)) frames = Inr rest" by (auto simp: rbind_Inr)
  have "queued (frames @ d # q) (schedule as t)" using t(3) by (simp add: queued_def)
  from Cons.IH [OF dec(3) _ Cons.prems(3) this] Cons.prems(2) obtain s' where
    s': "root_loop (schedule as t) = (Inr (), s')" "extends (\<Union>r \<in> set rest. set r) (schedule as t) s'" "queued q s'" by auto
  have "extends (set as \<union> (\<Union>r \<in> set rest. set r)) s s'"
    by (rule extends_trans [OF extends_after_quiet [OF t(2) extends_schedule] s'(2)])
  with s' t(1) dec Cons.prems(2) show ?case by (simp add: root_loop.simps [of s])
qed

end

interpretation any_channel: channel_property "\<lambda>_. True"
  by unfold_locales simp

interpretation bounded_channel: channel_property channel_inv
  by unfold_locales (use receive_keeps_inv in blast)

interpretation agent_channel: channel_property "talking greeting answer"
  by unfold_locales (rule talking_receive)

section \<open>Properties\<close>

lemma receive_object_describes:
  assumes "receive_object cfg a s = (Inr obj, s')"
  shows "\<exists>frames. describes cfg a frames obj \<and> logical_queue (ss_channel s) = frames @ logical_queue (ss_channel s')"
proof -
  from assms obtain f t b kind where f: "expect OBJECT_BEGIN s = (Inr f, t)" and
    b: "decode_object_begin (fpayload f) = Inr b" "ob_address b = a" "content_kind_of (ob_content_kind b) = Some kind" and
    run: "object_loop cfg a (described b kind) t = (Inr obj, s')"
    by (auto simp: receive_object_def mbind_Inr atomic_run described_def split: if_splits option.splits)
  from object_loop_gather [OF run] obtain mid e o1 where
    "logical_queue (ss_channel t) = mid @ e # logical_queue (ss_channel s')" "fkind e = OBJECT_END"
    "gather mid (described b kind) = Some o1" "obj = with_text cfg o1" by blast
  with expect_Inr [OF f] b show ?thesis
    unfolding describes_def by (intro exI [of _ "f # mid @ [e]"]) auto
qed

text \<open>
  C16: Receiving an object is exactly decoding a script: it returns an object and leaves some frames
  unread precisely when the logical frames before those are a description of that object, one
  \<open>OBJECT_BEGIN\<close> with the requested address, then data frames that gather into the object (a
  missing text is filled in), then \<open>OBJECT_END\<close>.
\<close>

theorem object_frames_exact:
  "(\<exists>s'. receive_object cfg a s = (Inr obj, s') \<and> logical_queue (ss_channel s') = q) \<longleftrightarrow>
   (\<exists>frames. describes cfg a frames obj \<and> logical_queue (ss_channel s) = frames @ q)"
proof
  assume "\<exists>frames. describes cfg a frames obj \<and> logical_queue (ss_channel s) = frames @ q"
  then obtain frames where "describes cfg a frames obj" "any_channel.queued (frames @ q) s"
    by (auto simp: any_channel.queued_def)
  from any_channel.queued_receive_object [OF this] show
    "\<exists>s'. receive_object cfg a s = (Inr obj, s') \<and> logical_queue (ss_channel s') = q"
    by (auto simp: any_channel.queued_def)
qed (use receive_object_describes in blast)

end
