(* ===== verification/Agent.thy ===== *)
theory Agent
  imports Capture Agent_Stream
begin

text \<open>
  The Collector with an agent that keeps to the protocol, as \<^verbatim>\<open>capture/agent/agent.c\<close> does: it
  greets with \<open>HELLO\<close>, answers \<open>HELLO_ACK\<close> with the well-known types and the roots, a request with
  a description of each object and \<open>BATCH_DONE\<close>, and \<open>FINISH\<close> with \<open>COMPLETE\<close>. Against every such
  agent the capture succeeds, and what it delivers is determined by the graph that the agent
  describes.
\<close>

section \<open>The contract of the agent\<close>

text \<open>\<open>facts a\<close> is the object at the address \<open>a\<close> of the target.\<close>

inductive_set heap_reach :: "(address \<Rightarrow> captured_object) \<Rightarrow> address set \<Rightarrow> address set"
  for facts :: "address \<Rightarrow> captured_object" and start :: "address set"
where
  start: "a \<in> start \<Longrightarrow> a \<noteq> 0 \<Longrightarrow> a \<in> heap_reach facts start"
| mention: "a \<in> heap_reach facts start \<Longrightarrow> b \<in> mentions (facts a) \<Longrightarrow> b \<noteq> 0 \<Longrightarrow> b \<in> heap_reach facts start"

abbreviation heap_start :: "address list \<Rightarrow> address list list \<Rightarrow> address set" where
  "heap_start known roots \<equiv> (\<Union>r \<in> set roots. set r) \<union> set known"

definition greets :: "collector \<Rightarrow> frame list \<Rightarrow> bool" where
  "greets cfg greeting \<longleftrightarrow> (\<forall>w \<in> set greeting. wire_ok w) \<and>
     (\<exists>f h. concat (map expand greeting) = [f] \<and> fkind f = HELLO \<and> decode_hello (fpayload f) = Inr h \<and>
        check_hello cfg h = Inr ())"

definition enumerates :: "(frame \<Rightarrow> frame list) \<Rightarrow> address list \<Rightarrow> address list list \<Rightarrow> bool" where
  "enumerates answer known roots \<longleftrightarrow>
     (\<forall>p. \<exists>k frames d. concat (map expand (answer (Frame HELLO_ACK p))) = k # frames @ [d] \<and>
        fkind k = WELL_KNOWN \<and> decode_addresses (fpayload k) = Inr known \<and> fkind d = ROOTS_DONE \<and>
        (\<forall>f \<in> set frames. fkind f = ROOT_BATCH) \<and>
        rmap (\<lambda>f. decode_addresses (fpayload f)) frames = Inr roots)"

definition serves :: "collector \<Rightarrow> (frame \<Rightarrow> frame list) \<Rightarrow> (address \<Rightarrow> captured_object) \<Rightarrow> address set \<Rightarrow> bool" where
  "serves cfg answer facts addresses \<longleftrightarrow>
     (\<forall>as p. set as \<subseteq> addresses \<longrightarrow> encode_addresses as = Inr p \<longrightarrow>
        (\<exists>scripts d. concat (map expand (answer (Frame REQUEST_OBJECTS p))) = concat scripts @ [d] \<and>
           fkind d = BATCH_DONE \<and> list_all2 (\<lambda>a fs. describes cfg a fs (facts a)) as scripts)) \<and>
     (\<exists>c. concat (map expand (answer (Frame FINISH []))) = [c] \<and> fkind c = COMPLETE)"

definition honest ::
  "collector \<Rightarrow> frame list \<Rightarrow> (frame \<Rightarrow> frame list) \<Rightarrow> address list \<Rightarrow> address list list \<Rightarrow>
   (address \<Rightarrow> captured_object) \<Rightarrow> bool" where
  "honest cfg greeting answer known roots facts \<longleftrightarrow>
     answers_ok answer \<and> greets cfg greeting \<and> enumerates answer known roots \<and>
     length known = length WELL_KNOWN_TYPE_NAMES \<and>
     serves cfg answer facts (heap_reach facts (heap_start known roots))"

text \<open>The socket to the agent before anything has been sent.\<close>

definition agent_socket :: "frame list \<Rightarrow> (frame \<Rightarrow> frame list) \<Rightarrow> (nat \<Rightarrow> nat) \<Rightarrow> sock" where
  "agent_socket greeting answer short =
     \<lparr>sk_sent = [], sk_peer = agent_peer greeting answer, sk_taken = 0, sk_reads = 0, sk_short = short\<rparr>"

text \<open>What fits: the options, a batch of addresses, and every object, in the format.\<close>

definition capture_fits :: "collector \<Rightarrow> (address \<Rightarrow> captured_object) \<Rightarrow> address set \<Rightarrow> bool" where
  "capture_fits cfg facts addresses \<longleftrightarrow>
     - (2 ^ 31) \<le> cl_str_repr_len cfg \<and> cl_str_repr_len cfg < 2 ^ 31 \<and>
     0 < cl_batch_size cfg \<and> 8 * cl_batch_size cfg \<le> int MAX_PAYLOAD \<and>
     finite addresses \<and> int (card addresses) < 2 ^ 32 - 1 \<and> (\<forall>a \<in> addresses. object_ok (facts a))"

abbreviation agent_queue :: "frame list \<Rightarrow> (frame \<Rightarrow> frame list) \<Rightarrow> frame list \<Rightarrow> session \<Rightarrow> bool" where
  "agent_queue greeting answer \<equiv> channel_property.queued (talking greeting answer)"

lemma talking_init: "\<forall>w \<in> set greeting. wire_ok w \<Longrightarrow>
   agent_queue greeting answer (concat (map expand greeting)) (session_init cfg (agent_socket greeting answer short))"
proof -
  assume ok: "\<forall>w \<in> set greeting. wire_ok w"
  have none: "logical_frames [] = []" by (simp add: logical_frames.simps [of "[]"] parse_wire_nil)
  let ?c = "framed_socket_init (agent_socket greeting answer short)"
  have avail: "avail (fs_sock ?c) = frames_wire greeting"
    by (simp add: framed_socket_init_def agent_socket_def avail_def agent_peer_def none)
  have "talking greeting answer ?c"
    unfolding talking_def using ok avail
    by (intro conjI exI [of _ "[]"] exI [of _ greeting])
      (simp_all add: framed_socket_init_def agent_socket_def)
  moreover have "logical_queue ?c = concat (map expand greeting)"
    unfolding logical_queue_def avail logical_frames_wire [OF ok] by (simp add: framed_socket_init_def)
  ultimately show ?thesis by (simp add: agent_channel.queued_def session_init_def)
qed

lemma agent_send:
  assumes "agent_queue greeting answer q s" and "answers_ok answer" and "length p \<le> MAX_PAYLOAD" and "k \<noteq> BULK_BATCH"
  shows "\<exists>s'. on_channel (send k p) s = (Inr (), s') \<and> quiet s s' \<and>
    agent_queue greeting answer (q @ concat (map expand (answer (Frame k p)))) s'"
proof -
  from assms(1) have q: "talking greeting answer (ss_channel s)" "logical_queue (ss_channel s) = q"
    by (simp_all add: agent_channel.queued_def)
  from talking_send [OF q(1) assms(2-4)] obtain c where "send k p (ss_channel s) = (Inr (), c)" "talking greeting answer c"
    "logical_queue c = q @ concat (map expand (answer (Frame k p)))" unfolding q(2) by blast
  then show ?thesis
    by (intro exI [of _ "s\<lparr>ss_channel := c\<rparr>"]) (simp add: on_channel_def quiet_def agent_channel.queued_def)
qed

section \<open>The artifact so far\<close>

lemma artifact_begun:
  assumes "known_ok known"
  shows "\<exists>w. begin_artifact known now (heap_writer_init empty_file ws True) = (Inr (), w)"
proof -
  have "artifact_ok known [] [] []"
    using assms by (simp add: artifact_ok_def threads_ok_def count_ok_def types_ok_def)
  with write_artifact_run [of "[]", OF _ refl, where ws = ws and sync = True and well_known = known
      and threads = "[]" and types = "[]" and created_at = None and now = now]
  show ?thesis by (auto simp: write_artifact_def begin_artifact_def mseq_Inr)
qed

lemma artifact_continued:
  assumes "begin_artifact known now (heap_writer_init empty_file ws True) = (Inr (), w0)"
    and "artifact_ok known [] objs types" and "\<forall>obj \<in> set objs. finite (co_referents obj)"
  shows "\<exists>w1 w2. mfor (\<lambda>obj. write_object obj known) objs w0 = (Inr (), w1) \<and> finish types w1 = (Inr (), w2)"
  using write_artifact_run [OF assms(3) refl, where ws = ws and sync = True and well_known = known
      and threads = "[]" and types = types and created_at = None and now = now] assms(1,2)
  by (auto simp: write_artifact_def begin_artifact_def mseq_Inr)

lemma known_types_ok:
  assumes "list_all address_ok known" and "length known = length WELL_KNOWN_TYPE_NAMES"
  shows "known_ok (known_types known)"
  unfolding known_ok_def
proof
  fix n assume "n \<in> set WELL_KNOWN_TYPE_NAMES"
  then have "n \<in> set (map fst (zip WELL_KNOWN_TYPE_NAMES known))" using assms(2) by simp
  then obtain a where a: "map_of (zip WELL_KNOWN_TYPE_NAMES known) n = Some a"
    by (metis map_of_eq_None_iff not_Some_eq list.set_map)
  then have "a \<in> set known" by (auto dest: map_of_SomeD set_zip_rightD)
  moreover have "dict_of (zip WELL_KNOWN_TYPE_NAMES known) = zip WELL_KNOWN_TYPE_NAMES known"
    by (rule dict_of_distinct) (simp add: assms(2) distinct_names)
  ultimately show "\<exists>a. map_of (known_types known) n = Some a \<and> u64_ok a"
    using a assms(1) by (auto simp: list_all_iff address_ok_def u64_ok_def)
qed


section \<open>The phases with such an agent\<close>

lemma length_encode_options: "encode_options opts = Inr p \<Longrightarrow> length p = 5"
  by (auto simp: encode_options_def rbind_Inr pack_sint_def pack_bool_def split: if_splits)

lemma agent_opens:
  assumes "honest cfg greeting answer known roots facts"
    and "- (2 ^ 31) \<le> cl_str_repr_len cfg" and "cl_str_repr_len cfg < 2 ^ 31"
  shows "\<exists>frames d s. open_session cfg now (session_init cfg (agent_socket greeting answer short)) = (Inr known, s) \<and>
    agent_queue greeting answer (frames @ [d]) s \<and> (\<forall>f \<in> set frames. fkind f = ROOT_BATCH) \<and>
    fkind d = ROOTS_DONE \<and> rmap (\<lambda>f. decode_addresses (fpayload f)) frames = Inr roots"
proof -
  note honest = assms(1) [unfolded honest_def]
  let ?s = "session_init cfg (agent_socket greeting answer short)"
  from honest obtain f h where greet: "concat (map expand greeting) = [f]" "fkind f = HELLO"
    "decode_hello (fpayload f) = Inr h" "check_hello cfg h = Inr ()" "\<forall>w \<in> set greeting. wire_ok w"
    by (auto simp: greets_def)
  from talking_init [OF greet(5)] have "agent_queue greeting answer [f] ?s" by (simp add: greet(1))
  from agent_channel.queued_expect [OF this greet(2)] obtain t1 where
    t1: "expect HELLO ?s = (Inr f, t1)" "quiet ?s t1" "agent_queue greeting answer [] t1" by auto
  have "options_ok (cl_str_repr_len cfg, cl_dump_attributes cfg)" using assms(2,3) by (simp add: options_ok_def)
  then obtain p where p: "encode_options (cl_str_repr_len cfg, cl_dump_attributes cfg) = Inr p"
    using options_payload.enc_total by blast
  then have "length p \<le> MAX_PAYLOAD" by (simp add: length_encode_options MAX_PAYLOAD_def)
  from agent_send [OF t1(3) _ this, of HELLO_ACK] honest obtain t2 where
    t2: "on_channel (send HELLO_ACK p) t1 = (Inr (), t2)" "quiet t1 t2"
      "agent_queue greeting answer (concat (map expand (answer (Frame HELLO_ACK p)))) t2" by auto
  from honest obtain k frames d where reply: "concat (map expand (answer (Frame HELLO_ACK p))) = k # frames @ [d]"
    "fkind k = WELL_KNOWN" "decode_addresses (fpayload k) = Inr known" "fkind d = ROOTS_DONE"
    "\<forall>f \<in> set frames. fkind f = ROOT_BATCH" "rmap (\<lambda>f. decode_addresses (fpayload f)) frames = Inr roots"
    unfolding enumerates_def by blast
  from agent_channel.queued_expect [OF t2(3) [unfolded reply(1)] reply(2)] obtain t3 where
    t3: "expect WELL_KNOWN t2 = (Inr k, t3)" "quiet t2 t3" "agent_queue greeting answer (frames @ [d]) t3" by auto
  have known: "length known = length WELL_KNOWN_TYPE_NAMES" "known_ok (known_types known)"
    using honest decode_addresses_ok [OF reply(3)] by (simp_all add: known_types_ok)
  have "ss_writer t3 = heap_writer_init empty_file (0 \<le> cl_str_repr_len cfg) True"
    using quietD(1) [OF t1(2)] quietD(1) [OF t2(2)] quietD(1) [OF t3(2)] by simp
  with artifact_begun [OF known(2), of now "0 \<le> cl_str_repr_len cfg"] obtain w1 w2 w3 where
    w: "write_header (known_types known) None now (ss_writer t3) = (Inr (), w1)" "write_threads [] w1 = (Inr (), w2)"
      "begin_objects w2 = (Inr (), w3)" by (auto simp: begin_artifact_def mseq_Inr)
  have "open_session cfg now ?s = (Inr known, t3\<lparr>ss_writer := w3\<rparr>)"
    by (simp add: open_session_def mbind_run mseq_run atomic_run t1(1) greet(3,4) p t2(1) t3(1) reply(3) known(1)
        on_writer_def w)
  moreover have "agent_queue greeting answer (frames @ [d]) (t3\<lparr>ss_writer := w3\<rparr>)"
    using t3(3) by (simp add: agent_channel.queued_def)
  ultimately show ?thesis using reply(4-6) by blast
qed

text \<open>The invariant of the object phase: what has been captured is what the agent has.\<close>

definition living ::
  "(address \<Rightarrow> captured_object) \<Rightarrow> address set \<Rightarrow> address list \<Rightarrow> heap_writer \<Rightarrow> captured_object list \<Rightarrow>
   address list \<Rightarrow> session \<Rightarrow> bool" where
  "living facts start known w0 objs rest s \<longleftrightarrow>
     progressed start known w0 objs rest s \<and> (\<forall>obj \<in> set objs. obj = facts (co_address obj))"

lemma living_reached:
  assumes "living facts start known w0 objs rest s"
  shows "ss_scheduled s \<subseteq> heap_reach facts start"
proof
  fix a assume "a \<in> ss_scheduled s"
  then have "a \<in> reached (set objs) start"
    using assms work_invD(6) by (auto simp: living_def progressed_def)
  then show "a \<in> heap_reach facts start"
  proof (induction rule: reached.induct)
    case (start a)
    then show ?case by (rule heap_reach.start)
  next
    case (mention obj a)
    then have "facts (co_address obj) = obj" using assms by (simp add: living_def)
    with mention show ?case by (auto intro: heap_reach.mention)
  qed
qed

lemma living_objects:
  assumes "living facts start known w0 objs rest s"
  shows "co_address ` set objs \<subseteq> heap_reach facts start" "set rest \<subseteq> heap_reach facts start"
    "distinct (map co_address objs)" "map facts (map co_address objs) = objs"
proof -
  note D = work_invD [of start objs rest s]
  from assms have inv: "work_inv start objs rest s" by (simp add: living_def progressed_def)
  show "co_address ` set objs \<subseteq> heap_reach facts start" "set rest \<subseteq> heap_reach facts start"
    using living_reached [OF assms] D(2) [OF inv] by auto
  show "distinct (map co_address objs)" using D(1) [OF inv] by simp
  show "map facts (map co_address objs) = objs"
    using assms by (simp add: living_def map_idI)
qed

lemma schedule_object_channel: "ss_channel (schedule_object it obj s) = ss_channel s"
proof -
  have "ss_channel (fold (\<lambda>(key, val). schedule [key, val]) es t) = ss_channel t" for es t
    by (induction es arbitrary: t) auto
  then show ?thesis by (simp add: schedule_object_def Let_def)
qed

text \<open>Everything that may be written so far fits.\<close>

lemma living_fits:
  assumes "living facts start known w0 objs rest s" and "capture_fits cfg facts (heap_reach facts start)"
    and "known_ok (known_types known)"
  shows "artifact_ok (known_types known) [] objs []" and "int (length objs) < 2 ^ 32 - 1"
proof -
  note objs = living_objects [OF assms(1)]
  have fits: "finite (heap_reach facts start)" "int (card (heap_reach facts start)) < 2 ^ 32 - 1"
    "\<forall>a \<in> heap_reach facts start. object_ok (facts a)" using assms(2) by (simp_all add: capture_fits_def)
  have "length objs = card (co_address ` set objs)"
    using distinct_card [OF objs(3)] by simp
  also have "\<dots> \<le> card (heap_reach facts start)" by (rule card_mono [OF fits(1) objs(1)])
  finally show len: "int (length objs) < 2 ^ 32 - 1" using fits(2) by linarith
  have "object_ok obj" if "obj \<in> set objs" for obj
  proof -
    from that assms(1) have "obj = facts (co_address obj)" by (simp add: living_def)
    moreover have "co_address obj \<in> heap_reach facts start" using that objs(1) by auto
    ultimately show ?thesis using fits(3) by metis
  qed
  then show "artifact_ok (known_types known) [] objs []"
    using len assms(3) by (simp add: artifact_ok_def threads_ok_def count_ok_def types_ok_def)
qed

text \<open>The setting of the object phase.\<close>

definition serving ::
  "collector \<Rightarrow> (frame \<Rightarrow> frame list) \<Rightarrow> (address \<Rightarrow> captured_object) \<Rightarrow> address set \<Rightarrow> address list \<Rightarrow> heap_writer \<Rightarrow> bool" where
  "serving cfg answer facts start known w0 \<longleftrightarrow>
     answers_ok answer \<and> serves cfg answer facts (heap_reach facts start) \<and>
     capture_fits cfg facts (heap_reach facts start) \<and> known_ok (known_types known) \<and>
     (\<exists>now. begin_artifact (known_types known) now (heap_writer_init empty_file (0 \<le> cl_str_repr_len cfg) True) = (Inr (), w0))"

lemma agent_object:
  assumes "iterates it" and "serving cfg answer facts start known w0"
    and "living facts start known w0 objs (a # rest) s" and "describes cfg a frames (facts a)"
    and "agent_queue greeting answer (frames @ q) s"
  shows "\<exists>s'. capture_object it cfg (known_types known) a s = (Inr (), s') \<and>
    living facts start known w0 (objs @ [facts a]) rest s' \<and> agent_queue greeting answer q s'"
proof -
  from assms(2) obtain now where set: "known_ok (known_types known)" "capture_fits cfg facts (heap_reach facts start)"
    "begin_artifact (known_types known) now (heap_writer_init empty_file (0 \<le> cl_str_repr_len cfg) True) = (Inr (), w0)"
    by (auto simp: serving_def)
  from agent_channel.queued_receive_object [OF assms(4,5)] obtain t where
    t: "receive_object cfg a s = (Inr (facts a), t)" "quiet s t" "agent_queue greeting answer q t" by blast
  note got = receive_object_Inr [OF t(1)]
  have prog: "progressed start known w0 objs (a # rest) t"
    using assms(3) t(2) by (simp add: living_def progressed_quiet)
  have "set (a # rest) \<subseteq> heap_reach facts start" by (rule living_objects(2) [OF assms(3)])
  then have "object_ok (facts a)" using set(2) by (simp add: capture_fits_def)
  with living_fits [OF assms(3) set(2,1)] have art: "artifact_ok (known_types known) [] (objs @ [facts a]) []"
    by (auto simp: artifact_ok_def count_ok_def)
  have "\<forall>obj \<in> set (objs @ [facts a]). finite (co_referents obj)"
    using got work_invD(7) [of start objs "a # rest" t] prog by (auto simp: progressed_def object_valid_def)
  from artifact_continued [OF set(3) art this] obtain w where
    "mfor (\<lambda>obj. write_object obj (known_types known)) (objs @ [facts a]) w0 = (Inr (), w)" by blast
  then have "write_object (facts a) (known_types known) (ss_writer t) = (Inr (), w)"
    using prog by (auto simp: progressed_def wrote_def mfor_append mseq_Inr atomic_run)
  then have run: "capture_object it cfg (known_types known) a s =
      (Inr (), schedule_object it (facts a) (t\<lparr>ss_writer := w\<rparr>))" (is "_ = (_, ?s')")
    by (simp add: capture_object_def mbind_run mseq_run atomic_run t(1) on_writer_def)
  have "progressed start known w0 objs (a # rest) s" using assms(3) by (simp add: living_def)
  from capture_object_Inr [OF run assms(1) this] t(1) have "progressed start known w0 (objs @ [facts a]) rest ?s'" by auto
  then have "living facts start known w0 (objs @ [facts a]) rest ?s'"
    using assms(3) got by (simp add: living_def)
  moreover have "ss_channel ?s' = ss_channel t"
    by (simp add: schedule_object_channel)
  then have "agent_queue greeting answer q ?s'" using t(3) by (simp add: agent_channel.queued_def)
  ultimately show ?thesis using run by blast
qed

lemma agent_objects:
  assumes "iterates it" and "serving cfg answer facts start known w0"
  shows "list_all2 (\<lambda>a fs. describes cfg a fs (facts a)) batch scripts \<Longrightarrow>
    living facts start known w0 objs batch s \<Longrightarrow> agent_queue greeting answer (concat scripts @ q) s \<Longrightarrow>
    \<exists>s'. mfor (capture_object it cfg (known_types known)) batch s = (Inr (), s') \<and>
      living facts start known w0 (objs @ map facts batch) [] s' \<and> agent_queue greeting answer q s'"
proof (induction batch scripts arbitrary: objs s rule: list_all2_induct)
  case Nil
  then show ?case by (simp add: atomic_run)
next
  case (Cons a batch fs scripts)
  from agent_object [OF assms Cons.prems(1) Cons.hyps(1), of greeting "concat scripts @ q"] Cons.prems(2) obtain t where
    t: "capture_object it cfg (known_types known) a s = (Inr (), t)"
      "living facts start known w0 (objs @ [facts a]) batch t" "agent_queue greeting answer (concat scripts @ q) t" by auto
  from Cons.IH [OF t(2,3)] t(1) show ?case by (simp add: mseq_run)
qed

lemma encode_addresses_fits:
  assumes "list_all address_ok batch" and "8 * int (length batch) \<le> int MAX_PAYLOAD"
  shows "\<exists>p. encode_addresses batch = Inr p \<and> length p \<le> MAX_PAYLOAD"
  using assms by (simp add: encode_addresses_Inr)

lemma agent_batch:
  assumes "iterates it" and "serving cfg answer facts start known w0"
    and "living facts start known w0 objs [] s" and "agent_queue greeting answer [] s" and "ss_pending s \<noteq> []"
  shows "\<exists>s' new. capture_batch it cfg (known_types known) s = (Inr (), s') \<and> new \<noteq> [] \<and>
    living facts start known w0 (objs @ new) [] s' \<and> agent_queue greeting answer [] s'"
proof -
  from assms(2) have set: "answers_ok answer" "serves cfg answer facts (heap_reach facts start)"
    "0 < cl_batch_size cfg" "8 * cl_batch_size cfg \<le> int MAX_PAYLOAD"
    by (simp_all add: serving_def capture_fits_def)
  obtain batch t where take: "take_batch cfg s = (batch, t)" by force
  note parts = take_batch_parts [OF take set(3) assms(5)]
  have t: "living facts start known w0 objs batch t"
    using progressed_take [OF _ take set(3) assms(5)] assms(3) by (simp add: living_def)
  have chan: "agent_queue greeting answer [] t"
  proof -
    from parts obtain ps where "t = s\<lparr>ss_pending := ps\<rparr>" by blast
    with assms(4) show ?thesis by (simp add: agent_channel.queued_def)
  qed
  have "list_all address_ok batch"
    using t work_invD(2,3) [of start objs batch t] by (auto simp: living_def progressed_def list_all_iff)
  with parts set(4) obtain p where p: "encode_addresses batch = Inr p" "length p \<le> MAX_PAYLOAD"
    using encode_addresses_fits [of batch] by auto
  from living_objects(2) [OF t] set(2) p(1) obtain scripts d where
    reply: "concat (map expand (answer (Frame REQUEST_OBJECTS p))) = concat scripts @ [d]" "fkind d = BATCH_DONE"
      "list_all2 (\<lambda>a fs. describes cfg a fs (facts a)) batch scripts" unfolding serves_def by blast
  from agent_send [OF chan set(1) p(2), of REQUEST_OBJECTS] reply(1) obtain t1 where
    t1: "on_channel (send REQUEST_OBJECTS p) t = (Inr (), t1)" "quiet t t1"
      "agent_queue greeting answer (concat scripts @ [d]) t1" by auto
  have "living facts start known w0 objs batch t1" using t t1(2) by (simp add: living_def progressed_quiet)
  from agent_objects [OF assms(1,2) reply(3) this t1(3)] obtain t2 where
    t2: "mfor (capture_object it cfg (known_types known)) batch t1 = (Inr (), t2)"
      "living facts start known w0 (objs @ map facts batch) [] t2" "agent_queue greeting answer [d] t2" by auto
  from agent_channel.queued_expect [OF t2(3) reply(2)] obtain t3 where
    t3: "expect BATCH_DONE t2 = (Inr d, t3)" "quiet t2 t3" "agent_queue greeting answer [] t3" by auto
  obtain s' where s': "report_progress cfg t3 = (Inr (), s')" "quiet t3 s'" "ss_channel s' = ss_channel t3"
    by (cases "cl_progress cfg") (simp_all add: report_progress_def atomic_run quiet_def)
  have "capture_batch it cfg (known_types known) s = (Inr (), s')"
    by (simp add: capture_batch_def take mbind_run mseq_run atomic_run p(1) t1(1) t2(1) t3(1) s'(1))
  moreover have "living facts start known w0 (objs @ map facts batch) [] s'"
    using t2(2) t3(2) s'(2) by (simp add: living_def progressed_quiet)
  moreover have "agent_queue greeting answer [] s'" using t3(3) s'(3) by (simp add: agent_channel.queued_def)
  ultimately show ?thesis using parts by blast
qed

lemma agent_phase:
  assumes "iterates it" and "serving cfg answer facts start known w0"
  shows "living facts start known w0 objs [] s \<Longrightarrow> agent_queue greeting answer [] s \<Longrightarrow>
    \<exists>s' objs'. object_phase it cfg (known_types known) s = Some (Inr (), s') \<and> ss_pending s' = [] \<and>
      living facts start known w0 objs' [] s' \<and> agent_queue greeting answer [] s'"
proof (induction "2 ^ 64 - length objs" arbitrary: objs s rule: less_induct)
  case less
  show ?case
  proof (cases "ss_pending s = []")
    case True
    with less.prems show ?thesis by (auto simp: object_phase.simps)
  next
    case False
    from agent_batch [OF assms less.prems False] obtain t new where
      t: "capture_batch it cfg (known_types known) s = (Inr (), t)" "new \<noteq> []"
        "living facts start known w0 (objs @ new) [] t" "agent_queue greeting answer [] t" by blast
    have "length (objs @ new) < 2 ^ 64"
      using t(3) by (auto simp: living_def progressed_def dest: work_inv_length)
    moreover have "0 < length new" using t(2) by simp
    ultimately have "2 ^ 64 - length (objs @ new) < 2 ^ 64 - length objs"
      unfolding length_append by linarith
    from less.hyps [OF this t(3,4)] False t(1) show ?thesis
      by (auto simp: object_phase.simps [of it cfg "known_types known" s])
  qed
qed

section \<open>The whole capture\<close>

lemma decoded_roots_ok:
  "rmap (\<lambda>f. decode_addresses (fpayload f)) frames = Inr roots \<Longrightarrow> \<forall>a \<in> (\<Union>r \<in> set roots. set r). address_ok a"
proof (induction frames arbitrary: roots)
  case (Cons f frames)
  then show ?case by (auto simp: rbind_Inr list_all_iff dest!: decode_addresses_ok)
qed simp

text \<open>The table of types fits: its addresses are among those that the capture has reached, or \<open>0\<close>.\<close>

lemma living_types:
  assumes "living facts (heap_start known roots) known w0 objs [] s" and "ss_pending s = []"
    and "capture_fits cfg facts (heap_reach facts (heap_start known roots))"
    and "length known = length WELL_KNOWN_TYPE_NAMES" and "list_all address_ok known"
  shows "types_ok (type_table known objs)"
proof -
  let ?R = "heap_reach facts (heap_start known roots)"
  have inv: "work_inv (heap_start known roots) objs [] s" using assms(1) by (simp add: living_def progressed_def)
  have keys: "dict_ok (type_table known objs)" "fst ` set (type_table known objs) = set known \<union> co_type_address ` set objs"
    using type_table_keys [OF assms(4)] by blast+
  have "co_type_address obj \<in> insert 0 ?R" if "obj \<in> set objs" for obj
    using work_invD(5) [OF inv that] living_reached [OF assms(1)] by (auto simp: mentions_def)
  moreover have "a \<in> insert 0 ?R" if "a \<in> set known" for a using that by (auto intro: heap_reach.start)
  ultimately have sub: "fst ` set (type_table known objs) \<subseteq> insert 0 ?R" unfolding keys(2) by blast
  have fin: "finite ?R" "int (card ?R) < 2 ^ 32 - 1" using assms(3) by (simp_all add: capture_fits_def)
  have "length (type_table known objs) = card (fst ` set (type_table known objs))"
    using keys(1) distinct_card [of "map fst (type_table known objs)"] by (simp add: dict_ok_def)
  also have "\<dots> \<le> card (insert 0 ?R)" by (rule card_mono [OF _ sub]) (simp add: fin)
  also have "\<dots> \<le> Suc (card ?R)" using fin by (simp add: card_insert_if)
  finally have "int (length (type_table known objs)) < 2 ^ 32" using fin(2) by linarith
  moreover have "u64_ok a" if "a \<in> fst ` set (type_table known objs)" for a
    using that assms(5) work_invD(7) [OF inv] unfolding keys(2)
    by (auto simp: list_all_iff object_valid_def address_ok_def u64_ok_def)
  ultimately show ?thesis using keys(1) by (simp add: types_ok_def count_ok_def)
qed

lemma agent_closes:
  assumes "serving cfg answer facts (heap_start known roots) known w0"
    and "living facts (heap_start known roots) known w0 objs [] s" and "ss_pending s = []"
    and "agent_queue greeting answer [] s"
    and "length known = length WELL_KNOWN_TYPE_NAMES" and "list_all address_ok known"
  shows "\<exists>n s'. close_session s = (Inr n, s')"
proof -
  from assms(1) obtain now where set: "answers_ok answer" "known_ok (known_types known)"
    "serves cfg answer facts (heap_reach facts (heap_start known roots))"
    "capture_fits cfg facts (heap_reach facts (heap_start known roots))"
    "begin_artifact (known_types known) now (heap_writer_init empty_file (0 \<le> cl_str_repr_len cfg) True) = (Inr (), w0)"
    by (auto simp: serving_def)
  from set(3) obtain c where c: "concat (map expand (answer (Frame FINISH []))) = [c]" "fkind c = COMPLETE"
    by (auto simp: serves_def)
  from agent_send [OF assms(4) set(1), of "[]" FINISH] c(1) obtain t1 where
    t1: "on_channel (send FINISH []) s = (Inr (), t1)" "quiet s t1" "agent_queue greeting answer [c] t1"
    by (auto simp: MAX_PAYLOAD_def)
  from agent_channel.queued_expect [OF t1(3) c(2)] obtain t2 where
    t2: "expect COMPLETE t1 = (Inr c, t2)" "quiet t1 t2" by auto
  have prog: "progressed (heap_start known roots) known w0 objs [] t2"
    using assms(2) t1(2) t2(2) by (simp add: living_def progressed_quiet)
  have "artifact_ok (known_types known) [] objs (type_table known objs)"
    using living_fits(1) [OF assms(2) set(4,2)] living_types [OF assms(2,3) set(4) assms(5,6)]
    by (simp add: artifact_ok_def)
  moreover have "\<forall>obj \<in> set objs. finite (co_referents obj)"
    using prog work_invD(7) by (fastforce simp: progressed_def object_valid_def)
  ultimately obtain w1 w2 where "mfor (\<lambda>obj. write_object obj (known_types known)) objs w0 = (Inr (), w1)"
    "finish (type_table known objs) w1 = (Inr (), w2)" using artifact_continued [OF set(5)] by blast
  then have "finish (ss_types t2) (ss_writer t2) = (Inr (), w2)"
    using prog by (simp add: progressed_def wrote_def)
  then show ?thesis
    by (simp add: close_session_def mbind_run mseq_run atomic_run t1(1) t2(1) on_writer_def)
qed

lemma agent_session:
  assumes "iterates it" and honest: "honest cfg greeting answer known roots facts"
    and fits: "capture_fits cfg facts (heap_reach facts (heap_start known roots))"
  shows "\<exists>n s objs. capture_session it cfg now (session_init cfg (agent_socket greeting answer short)) = (Some (Inr n, s)) \<and>
    n = int (length objs) \<and> distinct (map co_address objs) \<and> map facts (map co_address objs) = objs \<and>
    co_address ` set objs = heap_reach facts (heap_start known roots) \<and> (\<forall>obj \<in> set objs. object_valid obj) \<and>
    artifact_ok (known_types known) [] objs (type_table known objs) \<and>
    f_content (hw_file (ss_writer s)) =
      artifact_bytes (known_types known) now (0 \<le> cl_str_repr_len cfg) [] objs (type_table known objs)"
proof -
  let ?start = "heap_start known roots" and ?s0 = "session_init cfg (agent_socket greeting answer short)"
  from agent_opens [OF honest] fits obtain frames d s1 where
    opened: "open_session cfg now ?s0 = (Inr known, s1)" and s1: "agent_queue greeting answer (frames @ [d]) s1"
    and frames: "\<forall>f \<in> set frames. fkind f = ROOT_BATCH" "fkind d = ROOTS_DONE"
      "rmap (\<lambda>f. decode_addresses (fpayload f)) frames = Inr roots" unfolding capture_fits_def by blast
  from open_session_Inr [OF opened] have known: "list_all address_ok known" "length known = length WELL_KNOWN_TYPE_NAMES"
    and begun: "begin_artifact (known_types known) now (heap_writer_init empty_file (0 \<le> cl_str_repr_len cfg) True) =
      (Inr (), ss_writer s1)" by auto
  from agent_channel.queued_root_loop [OF frames(3,1,2), of greeting answer "[]" s1] s1 obtain t where
    t: "root_loop s1 = (Inr (), t)" "extends (\<Union>r \<in> set roots. set r) s1 t" "agent_queue greeting answer [] t" by auto
  let ?s2 = "(schedule known t)\<lparr>ss_types := dict_of (zip known WELL_KNOWN_TYPE_NAMES)\<rparr>"
  have enum: "enumerate_roots known s1 = (Inr (), ?s2)"
    by (simp add: enumerate_roots_def mseq_run atomic_run t(1))
  have live: "living facts ?start known (ss_writer s1) [] [] ?s2"
    using start_progressed [OF opened t(2) decoded_roots_ok [OF frames(3)]] by (simp add: living_def)
  have chan: "agent_queue greeting answer [] ?s2" using t(3) by (simp add: agent_channel.queued_def)
  have serving: "serving cfg answer facts ?start known (ss_writer s1)"
    using honest fits begun known_types_ok [OF known] by (auto simp: serving_def honest_def)
  from agent_phase [OF assms(1) serving live chan] obtain s3 objs where
    phase: "object_phase it cfg (known_types known) ?s2 = Some (Inr (), s3)" "ss_pending s3 = []"
      "living facts ?start known (ss_writer s1) objs [] s3" "agent_queue greeting answer [] s3" by blast
  from agent_closes [OF serving phase(3,2,4) known(2,1)] obtain n s where closed: "close_session s3 = (Inr n, s)" by blast
  have run: "capture_session it cfg now ?s0 = Some (Inr n, s)"
    by (simp add: capture_session_def mbind_run mseq_run atomic_run opened enum phase(1) closed)
  have prog: "progressed ?start known (ss_writer s1) objs [] s3" using phase(3) by (simp add: living_def)
  then have inv: "work_inv ?start objs [] s3" by (simp add: progressed_def)
  note fin = close_session_Inr [OF closed] and L = living_objects [OF phase(3)]
  have pend: "ss_pending s3 = []" by (rule phase(2))
  have addresses: "co_address ` set objs = ss_scheduled s3" using work_invD(2) [OF inv] by (simp add: pend)
  have "heap_reach facts ?start \<subseteq> ss_scheduled s3"
  proof
    fix a assume "a \<in> heap_reach facts ?start"
    then show "a \<in> ss_scheduled s3"
    proof (induction rule: heap_reach.induct)
      case (start a)
      then show ?case using work_invD(4) [OF inv] by blast
    next
      case (mention a b)
      then obtain obj where obj: "obj \<in> set objs" "a = co_address obj" using addresses by blast
      from phase(3) obj have "facts a = obj" by (simp add: living_def)
      with mention(2,3) obj(1) show ?case using work_invD(5) [OF inv] by blast
    qed
  qed
  with L(1) have reach: "co_address ` set objs = heap_reach facts ?start" unfolding addresses by blast
  have "f_content (hw_file (ss_writer s)) =
      artifact_bytes (known_types known) now (0 \<le> cl_str_repr_len cfg) [] objs (type_table known objs)"
    "artifact_ok (known_types known) [] objs (type_table known objs)"
    using written_artifact [OF begun, of objs "ss_writer s3" "type_table known objs" "ss_writer s"] prog fin work_invD(7) [OF inv]
    by (simp_all add: progressed_def wrote_def object_valid_def)
  moreover have "\<forall>obj \<in> set objs. object_valid obj" using work_invD(7) [OF inv] by simp
  moreover have "n = int (length objs)" using fin work_invD(8) [OF inv] by simp
  ultimately show ?thesis using run reach L(3,4) by (intro exI conjI)
qed

end
