(* ===== verification/Agent_Example.thy ===== *)
theory Agent_Example
  imports Agent
begin

text \<open>
  A small agent that keeps to the protocol: the thirteen well-known types and one list, which
  holds itself and the type \<open>tuple\<close>. It sends each description in a bulk batch. The examples for
  the properties of whole captures run against it.
\<close>

definition demo_cfg :: collector where
  "demo_cfg = \<lparr>cl_nonce = replicate 16 7, cl_str_repr_len = 40, cl_dump_attributes = True,
     cl_batch_size = 4, cl_progress = False\<rparr>"

definition demo_types :: "address list" where
  "demo_types = [10, 11, 12, 13, 14, 15, 16, 17, 18, 19, 20, 21, 22]"

definition demo_begin :: "address \<Rightarrow> object_begin" where
  "demo_begin a =
     (if a = 100
      then \<lparr>ob_address = 100, ob_type_address = 10, ob_shallow_size = 72, ob_content_kind = 2, ob_type_name = lit ''list''\<rparr>
      else \<lparr>ob_address = a, ob_type_address = 21, ob_shallow_size = 400, ob_content_kind = 0, ob_type_name = lit ''type''\<rparr>)"

definition addresses_payload :: "address list \<Rightarrow> bytes" where
  "addresses_payload as = concat (map (be_enc 8) as)"

definition demo_middle :: "address \<Rightarrow> frame list" where
  "demo_middle a =
     (if a = 100
      then [Frame REFERENTS (addresses_payload [100, 10]), Frame SEQUENCE_CONTENT (addresses_payload [100, 11])]
      else [])"

definition demo_begin_payload :: "address \<Rightarrow> bytes" where
  "demo_begin_payload a = (case encode_object_begin (demo_begin a) of Inr p \<Rightarrow> p | Inl _ \<Rightarrow> [])"

definition demo_script :: "address \<Rightarrow> frame list" where
  "demo_script a = Frame OBJECT_BEGIN (demo_begin_payload a) # demo_middle a @ [Frame OBJECT_END []]"

definition demo_answer :: "frame \<Rightarrow> frame list" where
  "demo_answer f =
     (case fkind f of
        HELLO_ACK \<Rightarrow>
          [Frame WELL_KNOWN (addresses_payload demo_types), Frame ROOT_BATCH (addresses_payload [100]), Frame ROOTS_DONE []]
      | REQUEST_OBJECTS \<Rightarrow>
          (case decode_addresses (fpayload f) of
             Inl _ \<Rightarrow> [Frame ERROR []]
           | Inr as \<Rightarrow> map (\<lambda>a. Frame BULK_BATCH (records_wire (demo_script a))) as @ [Frame BATCH_DONE []])
      | FINISH \<Rightarrow> [Frame COMPLETE []]
      | _ \<Rightarrow> [])"

definition demo_greeting :: "frame list" where
  "demo_greeting =
     [Frame HELLO (case encode_hello \<lparr>python_major = 3, python_minor = 12, pointer_size = 8, little_endian = True,
        hello_nonce = replicate 16 7\<rparr> of Inr p \<Rightarrow> p | Inl _ \<Rightarrow> [])]"

definition demo_facts :: "address \<Rightarrow> captured_object" where
  "demo_facts a = with_text demo_cfg
     (if a = 100
      then (described (demo_begin a) KIND_LIST)\<lparr>co_referents := {100, 10}, co_sequence_content := [100, 11]\<rparr>
      else described (demo_begin a) KIND_NONE)"

lemma demo_cfg_simps [simp]:
  "cl_nonce demo_cfg = replicate 16 7" "cl_str_repr_len demo_cfg = 40" "cl_batch_size demo_cfg = 4"
  by (simp_all add: demo_cfg_def)

lemma demo_begin_ok: "address_ok a \<Longrightarrow> object_begin_ok (demo_begin a)"
  by (simp add: demo_begin_def object_begin_ok_def address_ok_def lit_def encodable_def is_surrogate_def
      encode_string_def utf8_units_def)

lemma demo_begin_payload:
  assumes "address_ok a"
  shows "decode_object_begin (demo_begin_payload a) = Inr (demo_begin a)" "length (demo_begin_payload a) = 27"
proof -
  from object_begin_codec [OF demo_begin_ok [OF assms]] obtain p where
    p: "encode_object_begin (demo_begin a) = Inr p" "decode_object_begin p = Inr (demo_begin a)" by blast
  then show "decode_object_begin (demo_begin_payload a) = Inr (demo_begin a)" by (simp add: demo_begin_payload_def)
  have "encode_string (ob_type_name (demo_begin a)) \<noteq> []" "length (encode_string (ob_type_name (demo_begin a))) = 4"
    by (simp_all add: demo_begin_def lit_def encode_string_def utf8_units_def)
  with p(1) have "length p = 27"
    by (auto simp: encode_object_begin_def rbind_Inr Let_def)
  with p(1) show "length (demo_begin_payload a) = 27" by (simp add: demo_begin_payload_def)
qed

lemma length_addresses_payload [simp]: "length (addresses_payload as) = 8 * length as"
  by (simp add: addresses_payload_def)

lemma demo_script_bulk:
  assumes "address_ok a"
  shows "list_all bulk_record (demo_script a)" "length (records_wire (demo_script a)) \<le> 100"
  using demo_begin_payload(2) [OF assms]
  by (simp_all add: demo_script_def demo_middle_def bulk_record_def bulk_record_kinds_def length_record_wire)

lemma demo_script_expand:
  assumes "address_ok a"
  shows "expand (Frame BULK_BATCH (records_wire (demo_script a))) = demo_script a"
    "wire_ok (Frame BULK_BATCH (records_wire (demo_script a)))"
proof -
  have "decode_bulk_batch (records_wire (demo_script a)) = Inr (demo_script a)"
    using demo_script_bulk(1) [OF assms] by (simp add: decode_bulk_batch_Inr)
  then show e: "expand (Frame BULK_BATCH (records_wire (demo_script a))) = demo_script a" by (simp add: expand_def)
  show "wire_ok (Frame BULK_BATCH (records_wire (demo_script a)))"
    unfolding wire_ok_def e using demo_script_bulk(2) [OF assms] by (simp add: MAX_PAYLOAD_def demo_script_def)
qed

lemma demo_describes:
  assumes "address_ok a"
  shows "describes demo_cfg a (demo_script a) (demo_facts a)"
proof -
  have "decode_addresses (addresses_payload as) = Inr as" if "list_all address_ok as" for as
    using that by (simp add: addresses_payload_def decode_addresses_concat)
  note decode = this [of "[100, 10]"] this [of "[100, 11]"]
  have "gather (demo_middle a) (described (demo_begin a) (if a = 100 then KIND_LIST else KIND_NONE)) =
      Some (if a = 100
        then (described (demo_begin a) KIND_LIST)\<lparr>co_referents := {100, 10}, co_sequence_content := [100, 11]\<rparr>
        else described (demo_begin a) KIND_NONE)"
    using decode by (simp add: demo_middle_def described_def address_ok_def)
  moreover have "content_kind_of (ob_content_kind (demo_begin a)) = Some (if a = 100 then KIND_LIST else KIND_NONE)"
    "ob_address (demo_begin a) = a" by (simp_all add: demo_begin_def content_kind_of_def)
  ultimately show ?thesis
    unfolding describes_def demo_script_def demo_facts_def using demo_begin_payload(1) [OF assms] by auto
qed

lemma demo_answers_ok: "answers_ok demo_answer"
  unfolding answers_ok_def
proof (intro allI ballI)
  fix f w assume w: "w \<in> set (demo_answer f)"
  have plain: "wire_ok (Frame k p)" if "k \<noteq> BULK_BATCH" "length p \<le> 1000" for k p
    using that by (simp add: wire_ok_def MAX_PAYLOAD_def)
  show "wire_ok w"
  proof (cases "fkind f = REQUEST_OBJECTS")
    case True
    show ?thesis
    proof (cases "decode_addresses (fpayload f)")
      case (Inl e)
      with True w show ?thesis by (simp add: demo_answer_def plain)
    next
      case (Inr as)
      with decode_addresses_ok [OF Inr] True w show ?thesis
        by (auto simp: demo_answer_def plain list_all_iff demo_script_expand)
    qed
  next
    case False
    with w show ?thesis
      by (auto simp: demo_answer_def plain demo_types_def split: frame_kind.splits)
  qed
qed

lemma demo_expand: "k \<noteq> BULK_BATCH \<Longrightarrow> expand (Frame k p) = [Frame k p]"
  by (simp add: expand_def)

lemma demo_greets: "greets demo_cfg demo_greeting"
proof -
  let ?h = "\<lparr>python_major = 3, python_minor = 12, pointer_size = 8, little_endian = True, hello_nonce = replicate 16 7\<rparr>"
  have ok: "hello_ok ?h" by (simp add: hello_ok_def NONCE_SIZE_def)
  then obtain p where p: "encode_hello ?h = Inr p" "decode_hello p = Inr ?h" using hello_codec by blast
  then have len: "length p = 20" by (auto simp: decode_hello_def split: if_splits)
  have greeting: "demo_greeting = [Frame HELLO p]" by (simp add: demo_greeting_def p(1))
  have "check_hello demo_cfg ?h = Inr ()" by (simp add: check_hello_def)
  with p(2) len show ?thesis
    unfolding greets_def greeting
    by (intro conjI exI [of _ "Frame HELLO p"] exI [of _ ?h]) (simp_all add: wire_ok_def MAX_PAYLOAD_def demo_expand)
qed

lemma demo_enumerates: "enumerates demo_answer demo_types [[100]]"
proof -
  have "decode_addresses (addresses_payload as) = Inr as" if "list_all address_ok as" for as
    using that by (simp add: addresses_payload_def decode_addresses_concat)
  note decode = this [of demo_types] this [of "[100]"]
  show ?thesis
    unfolding enumerates_def
  proof
    fix p
    show "\<exists>k frames d. concat (map expand (demo_answer (Frame HELLO_ACK p))) = k # frames @ [d] \<and>
        fkind k = WELL_KNOWN \<and> decode_addresses (fpayload k) = Inr demo_types \<and> fkind d = ROOTS_DONE \<and>
        (\<forall>f \<in> set frames. fkind f = ROOT_BATCH) \<and>
        rmap (\<lambda>f. decode_addresses (fpayload f)) frames = Inr [[100]]"
      using decode
      by (intro exI [of _ "Frame WELL_KNOWN (addresses_payload demo_types)"]
          exI [of _ "[Frame ROOT_BATCH (addresses_payload [100])]"] exI [of _ "Frame ROOTS_DONE []"])
        (simp add: demo_answer_def demo_expand demo_types_def address_ok_def)
  qed
qed

lemma demo_serves: "serves demo_cfg demo_answer demo_facts addresses"
  unfolding serves_def
proof (intro conjI allI impI)
  fix as p assume p: "encode_addresses as = Inr p"
  then have as: "list_all address_ok as" by (simp add: encode_addresses_Inr)
  then have dec: "decode_addresses p = Inr as" using p by (simp add: encode_addresses_Inr decode_addresses_concat)
  have "concat (map expand (demo_answer (Frame REQUEST_OBJECTS p))) = concat (map demo_script as) @ [Frame BATCH_DONE []]"
  proof -
    have "map (\<lambda>a. expand (Frame BULK_BATCH (records_wire (demo_script a)))) as = map demo_script as"
      using as by (intro map_cong) (simp_all add: list_all_iff demo_script_expand)
    then have "concat (map (\<lambda>a. expand (Frame BULK_BATCH (records_wire (demo_script a)))) as) = concat (map demo_script as)"
      by (rule arg_cong)
    then show ?thesis by (simp add: demo_answer_def dec demo_expand comp_def)
  qed
  moreover have "list_all2 (\<lambda>a fs. describes demo_cfg a fs (demo_facts a)) as (map demo_script as)"
    using as by (auto simp: list_all2_conv_all_nth list_all_length demo_describes)
  ultimately show "\<exists>scripts d. concat (map expand (demo_answer (Frame REQUEST_OBJECTS p))) = concat scripts @ [d] \<and>
      fkind d = BATCH_DONE \<and> list_all2 (\<lambda>a fs. describes demo_cfg a fs (demo_facts a)) as scripts"
    by (intro exI [of _ "map demo_script as"] exI [of _ "Frame BATCH_DONE []"]) simp
qed (simp add: demo_answer_def demo_expand)

abbreviation demo_start :: "address set" where
  "demo_start \<equiv> heap_start demo_types [[100]]"

lemma demo_honest: "honest demo_cfg demo_greeting demo_answer demo_types [[100]] demo_facts"
proof -
  have "length demo_types = length WELL_KNOWN_TYPE_NAMES" by (simp add: demo_types_def WELL_KNOWN_TYPE_NAMES_def)
  then show ?thesis by (simp add: honest_def demo_answers_ok demo_greets demo_enumerates demo_serves)
qed

lemma demo_facts_simps:
  "co_address (demo_facts a) = a" "co_type_address (demo_facts a) = (if a = 100 then 10 else 21)"
  "co_content_kind (demo_facts a) = (if a = 100 then KIND_LIST else KIND_NONE)"
  "co_sequence_content (demo_facts a) = (if a = 100 then [100, 11] else [])"
  "co_dict_content (demo_facts a) = []" "co_attributes (demo_facts a) = []"
  "co_referents (demo_facts a) = (if a = 100 then {100, 10} else {})"
  by (simp_all add: demo_facts_def with_text_def described_def demo_begin_def)

lemma demo_reach: "heap_reach demo_facts demo_start = insert 100 (set demo_types)"
proof
  show "heap_reach demo_facts demo_start \<subseteq> insert 100 (set demo_types)"
  proof
    fix a assume "a \<in> heap_reach demo_facts demo_start"
    then show "a \<in> insert 100 (set demo_types)"
      by (induction rule: heap_reach.induct)
        (auto simp: mentions_def demo_facts_simps demo_types_def split: if_splits)
  qed
  show "insert 100 (set demo_types) \<subseteq> heap_reach demo_facts demo_start"
    by (auto simp: demo_types_def intro!: heap_reach.start)
qed

lemma demo_object_ok: "a \<in> insert 100 (set demo_types) \<Longrightarrow> object_ok (demo_facts a)"
  by (auto simp: demo_types_def object_ok_def demo_facts_simps content_ok_def remaining_referents_def
      container_addresses_def u64_ok_def count_ok_def)

lemma demo_fits: "capture_fits demo_cfg demo_facts (heap_reach demo_facts demo_start)"
  unfolding capture_fits_def demo_reach using demo_object_ok
  by (simp add: MAX_PAYLOAD_def demo_types_def)

lemma demo_readable:
  "containers_distinct (known_types demo_types)"
  "\<forall>a \<in> heap_reach demo_facts demo_start. kind_agrees (known_types demo_types) (demo_facts a)"
proof -
  have known: "known_types demo_types = demo_known"
    unfolding demo_known_def demo_types_def
    by (rule dict_of_distinct) (simp only: map_fst_zip_take distinct_take distinct_names)
  show "containers_distinct (known_types demo_types)"
    using demo_capture(2) by (simp add: known capture_ok_def)
  show "\<forall>a \<in> heap_reach demo_facts demo_start. kind_agrees (known_types demo_types) (demo_facts a)"
    unfolding demo_reach known
    by (auto simp: demo_types_def kind_agrees_def demo_facts_simps kind_type_def demo_known_def
        WELL_KNOWN_TYPE_NAMES_def lit_def container_type_names_def)
qed

section \<open>The type of a received object\<close>

text \<open>
  C18: Whatever the peer sends, an object that the Collector accepts is well typed: it has the address
  that was asked for; this, the address of its type and every address in its referents and in its
  content is an unsigned 64-bit number; its size has 32 bits; its referents are finite and it has no
  attributes. Receiving it writes nothing and schedules nothing.
\<close>

theorem received_object_typed:
  assumes "receive_object cfg a s = (Inr obj, s')"
  shows "co_address obj = a \<and> address_ok a \<and> address_ok (co_type_address obj) \<and>
    0 \<le> co_shallow_size obj \<and> co_shallow_size obj < 2 ^ 32 \<and>
    finite (co_referents obj) \<and> (\<forall>x \<in> co_referents obj. address_ok x) \<and>
    list_all address_ok (co_sequence_content obj) \<and>
    (\<forall>(key, val) \<in> set (co_dict_content obj). address_ok key \<and> address_ok val) \<and>
    co_attributes obj = [] \<and> ss_writer s' = ss_writer s \<and> ss_scheduled s' = ss_scheduled s \<and>
    ss_pending s' = ss_pending s"
  using receive_object_Inr [OF assms] by (simp add: object_valid_def quiet_def)

theorem received_object_typed_witness:
  "\<exists>s s'. receive_object demo_cfg 100 s = (Inr (demo_facts 100), s') \<and> finite (co_referents (demo_facts 100))"
proof -
  let ?s = "session_init demo_cfg (agent_socket (demo_script 100) (\<lambda>_. []) (\<lambda>_. 0))"
  have ok: "address_ok 100" by (simp add: address_ok_def)
  have plain: "\<forall>f \<in> set (demo_script 100). wire_ok f \<and> expand f = [f]"
    using demo_begin_payload(2) [OF ok]
    by (auto simp: demo_script_def demo_middle_def demo_expand wire_ok_def MAX_PAYLOAD_def)
  have "agent_queue (demo_script 100) (\<lambda>_. []) (concat (map expand (demo_script 100))) ?s"
    by (rule talking_init) (use plain in blast)
  moreover have "concat (map expand (demo_script 100)) = demo_script 100 @ []"
    using plain by (induction "demo_script 100") (auto simp: demo_script_def demo_middle_def demo_expand)
  ultimately obtain s' where "receive_object demo_cfg 100 ?s = (Inr (demo_facts 100), s')"
    using agent_channel.queued_receive_object [OF demo_describes [OF ok]] by metis
  with received_object_typed [OF this] show ?thesis by blast
qed

end
