(* ===== verification/Delivery.thy ===== *)
theory Delivery
  imports Agent_Example
begin

text \<open>
  What the Collector promises to whoever calls \<open>capture\<close>: it returns, it delivers a whole artifact
  under a name that was free or leaves the files as they were, the artifact holds each object that
  the target has mentioned, once, and against an agent that keeps to the protocol it succeeds.
\<close>

section \<open>The output path\<close>

lemma free_path_Some: "free_path fs requested i = Some p \<Longrightarrow> fs p = None"
  by (rule free_path.raw_induct [of "\<lambda>fs requested i p. fs p = None"]) (auto split: if_splits)

lemma available_output_path_Some: "available_output_path fs requested = Some p \<Longrightarrow> fs p = None"
  by (auto simp: available_output_path_def free_path_Some split: if_splits)

lemma available_output_path_total:
  "finite (dom fs) \<Longrightarrow> \<exists>p. available_output_path fs requested = Some p"
  using available_output_path_cases [of fs requested] by auto

lemma capture_path: "capture it cfg now sk fs output = Some d \<Longrightarrow> \<exists>final. available_output_path fs output = Some final"
  by (auto simp: capture_def split: option.splits)

lemma capture_failed:
  assumes "iterates it" and "0 < cl_batch_size cfg" and "capture it cfg now sk fs output = Some d" and "dl_result d = Inl e"
  shows "\<exists>final. available_output_path fs output = Some final \<and> dl_files d = fs(partial_path final (cl_nonce cfg) := None)"
proof -
  obtain final where "available_output_path fs output = Some final" using capture_path [OF assms(3)] by blast
  with capture_run [OF assms(1,2) this, of now sk] assms(3,4) show ?thesis by simp
qed

lemma capture_succeeded:
  assumes "iterates it" and "0 < cl_batch_size cfg" and "capture it cfg now sk fs output = Some d"
    and "dl_result d = Inr (p, n)"
  shows "available_output_path fs output = Some p \<and>
    (\<exists>s known roots objs. captured cfg now sk known roots objs s \<and> n = int (length objs) \<and>
       dl_files d = fs(p \<mapsto> f_content (hw_file (ss_writer s))) \<and> object_count (dl_stats d) = int (length objs) \<and>
       referent_count (dl_stats d) = sum_list (map (\<lambda>obj. int (card (co_referents obj))) objs) \<and>
       artifact_size (dl_stats d) = int (length (f_content (hw_file (ss_writer s)))))"
proof -
  obtain final where path: "available_output_path fs output = Some final" using capture_path [OF assms(3)] by blast
  from capture_run [OF assms(1,2) this, of now sk] assms(3,4) have "p = final" by simp
  with capture_run [OF assms(1,2) path, of now sk] path assms(3,4) show ?thesis by simp
qed

lemma agent_capture:
  assumes "iterates it" and "honest cfg greeting answer known roots facts"
    and "capture_fits cfg facts (heap_reach facts (heap_start known roots))"
    and "available_output_path fs output = Some final" and "fs (partial_path final (cl_nonce cfg)) = None"
  shows "\<exists>d objs. capture it cfg now (agent_socket greeting answer short) fs output = Some d \<and>
    dl_result d = Inr (final, int (length objs)) \<and> distinct (map co_address objs) \<and>
    map facts (map co_address objs) = objs \<and> co_address ` set objs = heap_reach facts (heap_start known roots) \<and>
    (\<forall>obj \<in> set objs. object_valid obj) \<and>
    artifact_ok (known_types known) [] objs (type_table known objs) \<and>
    dl_files d = fs(final \<mapsto>
      artifact_bytes (known_types known) now (0 \<le> cl_str_repr_len cfg) [] objs (type_table known objs))"
proof -
  from agent_session [OF assms(1-3), of now short] obtain n s objs where
    run: "capture_session it cfg now (session_init cfg (agent_socket greeting answer short)) = Some (Inr n, s)" and
    objs: "n = int (length objs)" "distinct (map co_address objs)" "map facts (map co_address objs) = objs"
      "co_address ` set objs = heap_reach facts (heap_start known roots)" "\<forall>obj \<in> set objs. object_valid obj"
      "artifact_ok (known_types known) [] objs (type_table known objs)" and
    content: "f_content (hw_file (ss_writer s)) =
      artifact_bytes (known_types known) now (0 \<le> cl_str_repr_len cfg) [] objs (type_table known objs)" by blast
  have gone: "fs(partial_path final (cl_nonce cfg) := None) = fs" using assms(5) by auto
  let ?content = "artifact_bytes (known_types known) now (0 \<le> cl_str_repr_len cfg) [] objs (type_table known objs)"
  have "capture it cfg now (agent_socket greeting answer short) fs output =
      Some \<lparr>dl_result = Inr (final, n), dl_stats = close_stats (s\<lparr>ss_stats := (ss_stats s)\<lparr>
        artifact_size := int (length ?content)\<rparr>\<rparr>), dl_progress = ss_progress s, dl_files = fs(final \<mapsto> ?content)\<rparr>"
    using run assms(4,5) content by (simp add: capture_def Let_def artifact_validates gone)
  with objs show ?thesis by (intro exI conjI) (assumption | simp)+
qed

lemma capture_total:
  assumes "iterates it" and "0 < cl_batch_size cfg" and "finite (dom fs)"
  shows "\<exists>d. capture it cfg now sk fs output = Some d"
proof -
  obtain final where "available_output_path fs output = Some final"
    using available_output_path_total [OF assms(3)] by blast
  from capture_run [OF assms(1,2) this] show ?thesis by blast
qed

lemma capture_delivered:
  assumes "iterates it" and "0 < cl_batch_size cfg" and "capture it cfg now sk fs output = Some d"
    and "dl_result d = Inr (p, n)"
  shows "fs p = None \<and> (\<exists>content. dl_files d = fs(p \<mapsto> content) \<and> validate_artifact content = Inr ())"
proof -
  from capture_succeeded [OF assms] obtain s known roots objs where
    "available_output_path fs output = Some p" "captured cfg now sk known roots objs s"
    "dl_files d = fs(p \<mapsto> f_content (hw_file (ss_writer s)))" by blast
  then show ?thesis by (auto simp: captured_def artifact_validates available_output_path_Some)
qed

section \<open>Agents that do not stop\<close>

text \<open>
  \<open>unread c ws\<close>: the agent has written the frames \<open>ws\<close>, which have not been read yet, and keeps the
  connection open. An agent that never stops is all of these, one after the other, with more and more frames.
\<close>

definition unread :: "framed_socket \<Rightarrow> frame list \<Rightarrow> bool" where
  "unread c ws \<longleftrightarrow> fs_pending c = [] \<and> avail (fs_sock c) = frames_wire ws \<and> \<not> peer_closed (fs_sock c) \<and>
     (\<forall>w \<in> set ws. fkind w \<noteq> BULK_BATCH \<and> length (fpayload w) \<le> MAX_PAYLOAD)"

definition timed_out :: exn where
  "timed_out = Exn TimeoutError ''timed out'' []"

lemma receive_unread:
  assumes "unread c (w # ws)"
  shows "\<exists>c'. receive c = (Inr w, c') \<and> unread c' ws \<and> received_frames (fs_stats c') = received_frames (fs_stats c) + 1"
proof -
  have wire: "avail (fs_sock c) = wire_bytes (fkind w) (fpayload w) @ frames_wire ws" and len: "length (fpayload w) \<le> MAX_PAYLOAD"
    and kind: "fkind w \<noteq> BULK_BATCH" and empty: "fs_pending c = []" using assms by (simp_all add: unread_def)
  from receive_wire_frame_wire [OF wire len] obtain r where
    run: "receive_wire_frame c = (Inr (Frame (fkind w) (fpayload w)), count_received (length (fpayload w))
      (c\<lparr>fs_sock := advance (12 + length (fpayload w)) r (fs_sock c)\<rparr>))" by blast
  let ?c = "count_received (length (fpayload w)) (c\<lparr>fs_sock := advance (12 + length (fpayload w)) r (fs_sock c)\<rparr>)"
  have "avail (fs_sock ?c) = frames_wire ws"
    by (simp add: wire)
  moreover have "peer_closed (fs_sock ?c) = peer_closed (fs_sock c)" by simp
  ultimately have "unread ?c ws" using assms by (simp add: unread_def)
  moreover have "received_frames (fs_stats ?c) = received_frames (fs_stats c) + 1" by (simp add: count_received_def)
  moreover have "receive c = (Inr w, ?c)" using run empty kind by (simp add: receive_def mbind_run atomic_run)
  ultimately show ?thesis by blast
qed

lemma receive_silent:
  assumes "unread c []"
  shows "\<exists>c'. receive c = (Inl timed_out, c') \<and> received_frames (fs_stats c') = received_frames (fs_stats c)"
proof -
  have none: "avail (fs_sock c) = []" "fs_pending c = []" "\<not> peer_closed (fs_sock c)" using assms by (simp_all add: unread_def)
  from receive_exact_spec [of 12 c] none obtain r where
    "receive_exact 12 c = (Inl timed_out, c\<lparr>fs_sock := advance 0 r (fs_sock c)\<rparr>)"
    by (auto simp: disconnected_def timed_out_def)
  then show ?thesis using none(2) by (simp add: receive_def receive_wire_frame_def mbind_run)
qed

text \<open>Roots without end: all of them are scheduled, and then the Collector waits for more.\<close>

definition root_frame :: "frame \<Rightarrow> bool" where
  "root_frame w \<longleftrightarrow> fkind w = ROOT_BATCH \<and> (\<exists>as. decode_addresses (fpayload w) = Inr as)"

lemma endless_roots:
  assumes "unread (ss_channel s) ws" and "\<forall>w \<in> set ws. root_frame w"
  shows "\<exists>s'. root_loop s = (Inl timed_out, s') \<and>
    received_frames (fs_stats (ss_channel s')) = received_frames (fs_stats (ss_channel s)) + int (length ws)"
  using assms
proof (induction ws arbitrary: s)
  case Nil
  from receive_silent [OF Nil(1)] show ?case by (auto simp: root_loop.simps [of s] on_channel_run on_channel_def)
next
  case (Cons w ws)
  from receive_unread [OF Cons.prems(1)] obtain c where c: "receive (ss_channel s) = (Inr w, c)" "unread c ws"
    "received_frames (fs_stats c) = received_frames (fs_stats (ss_channel s)) + 1" by blast
  from Cons.prems(2) obtain as where w: "fkind w = ROOT_BATCH" "decode_addresses (fpayload w) = Inr as"
    by (auto simp: root_frame_def)
  from Cons.IH [of "schedule as (s\<lparr>ss_channel := c\<rparr>)"] Cons.prems(2) c w show ?case
    by (auto simp: root_loop.simps [of s] on_channel_def)
qed

text \<open>The same for the frames of one object.\<close>

definition part_frame :: "frame \<Rightarrow> bool" where
  "part_frame w \<longleftrightarrow> fkind w \<in> {PREVIEW, WARNING} \<or>
     fkind w \<in> {REFERENTS, SEQUENCE_CONTENT} \<and> (\<exists>as. decode_addresses (fpayload w) = Inr as)"

lemma endless_object:
  assumes "unread (ss_channel s) ws" and "\<forall>w \<in> set ws. part_frame w"
  shows "\<exists>s'. object_loop cfg a obj s = (Inl timed_out, s') \<and>
    received_frames (fs_stats (ss_channel s')) = received_frames (fs_stats (ss_channel s)) + int (length ws)"
  using assms
proof (induction ws arbitrary: s obj)
  case Nil
  from receive_silent [OF Nil(1)] show ?case by (auto simp: object_loop.simps [of cfg a obj s] on_channel_def)
next
  case (Cons w ws)
  from receive_unread [OF Cons.prems(1)] obtain c where c: "receive (ss_channel s) = (Inr w, c)" "unread c ws"
    "received_frames (fs_stats c) = received_frames (fs_stats (ss_channel s)) + 1" by blast
  have ih: "\<exists>s'. object_loop cfg a obj' t = (Inl timed_out, s') \<and>
      received_frames (fs_stats (ss_channel s')) = received_frames (fs_stats (ss_channel s)) + 1 + int (length ws)"
    if "ss_channel t = c" for obj' t
    using Cons.IH [of t obj'] Cons.prems(2) c(2,3) that by simp
  have "part_frame w" using Cons.prems(2) by simp
  then consider "fkind w = PREVIEW" | "fkind w = WARNING"
    | as where "fkind w = REFERENTS" "decode_addresses (fpayload w) = Inr as"
    | as where "fkind w = SEQUENCE_CONTENT" "decode_addresses (fpayload w) = Inr as"
    by (auto simp: part_frame_def)
  then show ?case
    by cases (use c(1) ih in \<open>simp_all add: object_loop.simps [of cfg a obj s] on_channel_def add.assoc\<close>)
qed

section \<open>Properties\<close>

text \<open>
  C13: Whatever the peer sends, a capture returns, provided that the peer writes finitely many bytes in answer to what
  it has been sent: no address is requested twice. There is no other limit. While an agent goes on sending
  batches of roots, or previews, warnings and addresses of one object, the Collector goes on reading: however many
  there are, it reads them all, and ends only when it has waited for more in vain.
\<close>

theorem capture_returns:
  assumes "iterates it" and "0 < cl_batch_size cfg" and "finite (dom fs)"
  shows "(\<exists>d. capture it cfg now sk fs output = Some d) \<and>
    (\<forall>s ws. unread (ss_channel s) ws \<and> (\<forall>w \<in> set ws. root_frame w) \<longrightarrow>
      (\<exists>s'. root_loop s = (Inl timed_out, s') \<and>
        received_frames (fs_stats (ss_channel s')) = received_frames (fs_stats (ss_channel s)) + int (length ws))) \<and>
    (\<forall>s ws a obj. unread (ss_channel s) ws \<and> (\<forall>w \<in> set ws. part_frame w) \<longrightarrow>
      (\<exists>s'. object_loop cfg a obj s = (Inl timed_out, s') \<and>
        received_frames (fs_stats (ss_channel s')) = received_frames (fs_stats (ss_channel s)) + int (length ws)))"
  using capture_total [OF assms] endless_roots endless_object by blast

text \<open>
  C10: Delivery is all or nothing. A capture that succeeds adds one file, under a path that was
  free, whose content \<open>validate_artifact\<close> accepts and whose size it reports; every other file is as
  before and no partial file is left. A capture that fails adds no file and removes at most the
  partial file.
\<close>

theorem delivery_atomic:
  assumes "iterates it" and "0 < cl_batch_size cfg" and "capture it cfg now sk fs output = Some d"
  shows "\<exists>final. available_output_path fs output = Some final \<and> fs final = None \<and>
    (case dl_result d of
       Inl e \<Rightarrow> dl_files d = fs(partial_path final (cl_nonce cfg) := None)
     | Inr (p, n) \<Rightarrow> p = final \<and>
         (\<exists>content. dl_files d = fs(final \<mapsto> content) \<and> validate_artifact content = Inr () \<and>
            artifact_size (dl_stats d) = int (length content) \<and> object_count (dl_stats d) = n))"
proof (cases "dl_result d")
  case (Inl e)
  from capture_failed [OF assms Inl] Inl show ?thesis by (auto simp: available_output_path_Some)
next
  case (Inr r)
  obtain p n where r: "r = (p, n)" by (cases r)
  from capture_succeeded [OF assms Inr [unfolded r]] obtain s known roots objs where
    won: "available_output_path fs output = Some p" "captured cfg now sk known roots objs s"
      "n = int (length objs)" "dl_files d = fs(p \<mapsto> f_content (hw_file (ss_writer s)))"
      "object_count (dl_stats d) = int (length objs)"
      "artifact_size (dl_stats d) = int (length (f_content (hw_file (ss_writer s))))" by blast
  have "validate_artifact (f_content (hw_file (ss_writer s))) = Inr ()"
    using won(2) by (simp add: captured_def artifact_validates)
  with won Inr r show ?thesis by (auto simp: available_output_path_Some)
qed

text \<open>
  C5: The graph is captured completely, whatever the peer: a capture that succeeds has written the
  artifact of a list of objects with different addresses, and these addresses are exactly those
  that can be reached from the roots and the well-known types that the peer has sent, through what the objects
  mention (referents, elements, keys, values, types). It counts them and their referents.
\<close>

theorem capture_closure:
  assumes "iterates it" and "0 < cl_batch_size cfg"
    and "capture it cfg now sk fs output = Some d" and "dl_result d = Inr (final, n)"
  shows "\<exists>known roots objs. received_roots cfg now sk known roots \<and>
    n = int (length objs) \<and> distinct (map co_address objs) \<and>
    co_address ` set objs = reached (set objs) (roots \<union> set known) \<and>
    dl_files d final =
      Some (artifact_bytes (known_types known) now (0 \<le> cl_str_repr_len cfg) [] objs (type_table known objs)) \<and>
    object_count (dl_stats d) = n \<and>
    referent_count (dl_stats d) = sum_list (map (\<lambda>obj. int (card (co_referents obj))) objs)"
proof -
  from capture_succeeded [OF assms] obtain s known roots objs where
    c: "captured cfg now sk known roots objs s" "n = int (length objs)"
      "dl_files d = fs(final \<mapsto> f_content (hw_file (ss_writer s)))" "object_count (dl_stats d) = int (length objs)"
      "referent_count (dl_stats d) = sum_list (map (\<lambda>obj. int (card (co_referents obj))) objs)" by blast
  then show ?thesis
    by (intro exI [of _ known] exI [of _ roots] exI [of _ objs]) (simp add: captured_def)
qed

text \<open>
  The artifact gets the requested name if that is free, else the requested name with the
  first number that is free.
\<close>

theorem output_path_first_free:
  assumes "finite (dom fs)"
  shows "\<exists>p. available_output_path fs requested = Some p \<and> fs p = None \<and>
    (p = requested \<or>
     (\<exists>i. fs requested \<noteq> None \<and> p = numbered requested i \<and> (\<forall>j < i. fs (numbered requested j) \<noteq> None)))"
  using available_output_path_cases [OF assms, of requested] by blast

text \<open>
  A file that happens to have the name of the partial file makes the capture fail before
  anything is received or sent, and the clean-up removes that file, which is not the capture's.
\<close>

theorem foreign_partial_removed:
  assumes "available_output_path fs output = Some final"
    and "fs (partial_path final (cl_nonce cfg)) = Some content"
  shows "\<exists>d. capture it cfg now sk fs output = Some d \<and> dl_result d =
      Inl (Exn FileExistsError ''file exists: {temporary}'' [AStr (snd (partial_path final (cl_nonce cfg)))]) \<and>
    dl_files d = fs(partial_path final (cl_nonce cfg) := None) \<and>
    wire_sent_frames (dl_stats d) = 0 \<and> wire_received_frames (dl_stats d) = 0"
  using assms by (simp add: capture_def Let_def close_stats_def session_init_def framed_socket_init_def socket_stats0_def)

text \<open>
  C9: An agent that keeps to the protocol is captured. If everything it has fits the format, and
  the partial file does not exist, the capture succeeds, with the objects that can be reached in
  the agent's heap, each once and as the agent describes it, and the delivered file is the
  artifact of these objects.
\<close>

theorem honest_capture:
  assumes "iterates it" and "honest cfg greeting answer known roots facts"
    and "capture_fits cfg facts (heap_reach facts (heap_start known roots))"
    and "available_output_path fs output = Some final" and "fs (partial_path final (cl_nonce cfg)) = None"
  shows "\<exists>d objs. capture it cfg now (agent_socket greeting answer short) fs output = Some d \<and>
    dl_result d = Inr (final, int (length objs)) \<and> distinct (map co_address objs) \<and>
    map facts (map co_address objs) = objs \<and> co_address ` set objs = heap_reach facts (heap_start known roots) \<and>
    dl_files d = fs(final \<mapsto>
      artifact_bytes (known_types known) now (0 \<le> cl_str_repr_len cfg) [] objs (type_table known objs))"
  using agent_capture [OF assms, of now short] by blast

section \<open>Examples\<close>

abbreviation demo_sock :: sock where
  "demo_sock \<equiv> agent_socket demo_greeting demo_answer (\<lambda>_. 2)"

definition demo_output :: path where
  "demo_output = (lit ''/tmp'', lit ''heap'')"

lemma demo_path: "available_output_path Map.empty demo_output = Some demo_output"
  by (simp add: available_output_path_def)

lemma demo_run:
  "\<exists>d n. capture sorted_list_of_set demo_cfg now demo_sock Map.empty demo_output = Some d \<and>
    dl_result d = Inr (demo_output, n)"
  using agent_capture [OF iterates_sorted demo_honest demo_fits demo_path, of now "\<lambda>_. 2"] by fastforce

text \<open>An agent that has sent a thousand times the same root.\<close>

definition busy_session :: session where
  "busy_session = session_init demo_cfg \<lparr>sk_sent = [],
     sk_peer = (\<lambda>_. (frames_wire (replicate 1000 (Frame ROOT_BATCH (be_enc 8 100))), False)),
     sk_taken = 0, sk_reads = 0, sk_short = (\<lambda>_. 2)\<rparr>"

theorem capture_returns_witness:
  "(\<exists>d. capture sorted_list_of_set demo_cfg (lit ''now'') demo_sock Map.empty demo_output = Some d) \<and>
   (\<exists>s. root_loop busy_session = (Inl timed_out, s) \<and> received_frames (fs_stats (ss_channel s)) = 1000)"
proof -
  let ?ws = "replicate 1000 (Frame ROOT_BATCH (be_enc 8 100))"
  have "decode_addresses (be_enc 8 100) = Inr [100]"
    using decode_addresses_concat [of "[100]"] by (simp add: address_ok_def)
  then have "\<forall>w \<in> set ?ws. root_frame w" by (simp add: root_frame_def)
  moreover have "unread (ss_channel busy_session) ?ws"
    by (simp add: unread_def busy_session_def session_init_def framed_socket_init_def avail_def peer_closed_def MAX_PAYLOAD_def)
  moreover have "received_frames (fs_stats (ss_channel busy_session)) = 0"
    by (simp add: busy_session_def session_init_def framed_socket_init_def socket_stats0_def)
  moreover have "length ?ws = 1000" by (rule length_replicate)
  ultimately show ?thesis
    using capture_returns [OF iterates_sorted, of demo_cfg Map.empty "lit ''now''" demo_sock demo_output] by fastforce
qed

theorem delivery_atomic_witness:
  "\<exists>d content. capture sorted_list_of_set demo_cfg (lit ''now'') demo_sock Map.empty demo_output = Some d \<and>
    dl_files d = [demo_output \<mapsto> content] \<and> validate_artifact content = Inr ()"
proof -
  obtain d n where d: "capture sorted_list_of_set demo_cfg (lit ''now'') demo_sock Map.empty demo_output = Some d"
    "dl_result d = Inr (demo_output, n)" using demo_run by blast
  from delivery_atomic [OF iterates_sorted _ d(1)] d show ?thesis by (auto simp: demo_path)
qed

theorem capture_closure_witness:
  "\<exists>d n content. capture sorted_list_of_set demo_cfg (lit ''now'') demo_sock Map.empty demo_output = Some d \<and>
    dl_result d = Inr (demo_output, n) \<and> dl_files d demo_output = Some content \<and> object_count (dl_stats d) = n"
proof -
  obtain d n where d: "capture sorted_list_of_set demo_cfg (lit ''now'') demo_sock Map.empty demo_output = Some d"
    "dl_result d = Inr (demo_output, n)" using demo_run by blast
  from capture_closure [OF iterates_sorted _ d] d show ?thesis by auto
qed

theorem output_path_first_free_witness:
  "available_output_path [demo_output \<mapsto> [], numbered demo_output 0 \<mapsto> []] demo_output = Some (numbered demo_output 1)"
proof -
  let ?fs = "[demo_output \<mapsto> [], numbered demo_output 0 \<mapsto> []] :: files"
  have other: "numbered demo_output i \<noteq> demo_output" for i
    by (simp add: numbered_def demo_output_def lit_def)
  have "finite (dom ?fs)" by simp
  from output_path_first_free [OF this, of demo_output] obtain p where
    p: "available_output_path ?fs demo_output = Some p" "?fs p = None" "p = demo_output \<or>
      (\<exists>i. ?fs demo_output \<noteq> None \<and> p = numbered demo_output i \<and> (\<forall>j < i. ?fs (numbered demo_output j) \<noteq> None))"
    by (elim exE conjE) (rule that)
  have "p \<noteq> demo_output" using p(2) by (auto split: if_splits)
  with p(3) obtain i where i: "p = numbered demo_output i" "\<forall>j < i. ?fs (numbered demo_output j) \<noteq> None" by blast
  have "i \<noteq> 0"
  proof
    assume "i = 0"
    with p(2) i(1) show False by simp
  qed
  moreover have "\<not> 1 < i"
  proof
    assume "1 < i"
    with i(2) have "?fs (numbered demo_output 1) \<noteq> None" by blast
    then show False using other [of 1] numbered_inj [of demo_output 1 0] by (auto split: if_splits)
  qed
  ultimately have "i = 1" by linarith
  with p(1) i(1) show ?thesis by simp
qed

theorem foreign_partial_removed_witness:
  "\<exists>d e. capture sorted_list_of_set demo_cfg (lit ''now'') demo_sock
      [partial_path demo_output (replicate 16 7) \<mapsto> [1, 2, 3]] demo_output = Some d \<and>
    dl_result d = Inl e \<and> dl_files d = Map.empty"
proof -
  let ?fs = "[partial_path demo_output (replicate 16 7) \<mapsto> [1, 2, 3]] :: files"
  have "available_output_path ?fs demo_output = Some demo_output"
    using partial_not_final [of demo_output, symmetric] by (simp add: available_output_path_def)
  from foreign_partial_removed [OF this, of demo_cfg "[1, 2, 3]" sorted_list_of_set "lit ''now''" demo_sock]
  show ?thesis by auto
qed

theorem honest_capture_witness:
  "\<exists>d objs. capture sorted_list_of_set demo_cfg (lit ''now'') demo_sock Map.empty demo_output = Some d \<and>
    dl_result d = Inr (demo_output, 14) \<and> demo_facts 100 \<in> set objs \<and>
    co_address ` set objs = {100, 10, 11, 12, 13, 14, 15, 16, 17, 18, 19, 20, 21, 22}"
proof -
  obtain d objs where d: "capture sorted_list_of_set demo_cfg (lit ''now'') demo_sock Map.empty demo_output = Some d"
    "dl_result d = Inr (demo_output, int (length objs))" and objs: "distinct (map co_address objs)"
    "map demo_facts (map co_address objs) = objs" "co_address ` set objs = insert 100 (set demo_types)"
    using honest_capture [OF iterates_sorted demo_honest demo_fits demo_path, of "lit ''now''" "\<lambda>_. 2"]
    unfolding demo_reach by auto
  have "length objs = card (insert 100 (set demo_types))"
    using distinct_card [OF objs(1)] objs(3) by simp
  also have "\<dots> = 14" by (simp add: demo_types_def)
  finally have "length objs = 14" .
  moreover have "demo_facts 100 \<in> set (map demo_facts (map co_address objs))"
    using objs(3) by (metis imageI insertI1 set_map)
  then have "demo_facts 100 \<in> set objs" unfolding objs(2) .
  ultimately show ?thesis using d objs by (intro exI [of _ d] exI [of _ objs]) (simp add: demo_types_def)
qed

end
