(* ===== verification/Conversation.thy ===== *)
theory Conversation
  imports Delivery
begin

text \<open>
  The Collector's side of the conversation: everything that a session sends, whether it succeeds or
  fails. \<open>still v m\<close> says that the action \<open>m\<close> does not change the value \<open>v\<close> of the state; what has
  been sent is such a value for every action but \<open>send\<close>.
\<close>

section \<open>Actions that send nothing\<close>

definition still :: "('s \<Rightarrow> 'v) \<Rightarrow> ('s, 'a) py \<Rightarrow> bool" where
  "still v m \<longleftrightarrow> (\<forall>s. v (snd (m s)) = v s)"

named_theorems still_rules

lemma stillD: "still v m \<Longrightarrow> m s = (r, s') \<Longrightarrow> v s' = v s"
  by (metis still_def snd_conv)

lemma still_atomic [still_rules]:
  "still v (mret x)" "still v (mraise c t as)" "still v (mlift r)" "still v (mget f)"
  by (simp_all add: still_def atomic_run)

lemma still_modify [still_rules]: "(\<And>s. v (g s) = v s) \<Longrightarrow> still v (mmodify g)"
  by (simp add: still_def atomic_run)

lemma still_bind [still_rules]: "still v m \<Longrightarrow> (\<And>x. still v (f x)) \<Longrightarrow> still v (mbind m f)"
  unfolding still_def mbind_run by (auto split: prod.splits sum.splits) (metis snd_conv)+

lemma still_seq [still_rules]: "still v m \<Longrightarrow> still v k \<Longrightarrow> still v (mseq m k)"
  unfolding mseq_def by (rule still_bind)

lemma still_for [still_rules]: "(\<And>x. still v (f x)) \<Longrightarrow> still v (mfor f xs)"
  by (induction xs) (simp_all add: still_rules)

lemma still_option [still_rules]:
  "still v m \<Longrightarrow> (\<And>x. still v (f x)) \<Longrightarrow> still v (case o1 of None \<Rightarrow> m | Some x \<Rightarrow> f x)"
  by (cases o1) simp_all

lemma still_list [still_rules]:
  "still v m \<Longrightarrow> (\<And>x xs. still v (f x xs)) \<Longrightarrow> still v (case l of [] \<Rightarrow> m | x # xs \<Rightarrow> f x xs)"
  by (cases l) simp_all

lemma still_if [still_rules]: "still v m \<Longrightarrow> still v k \<Longrightarrow> still v (if c then m else k)"
  by simp

lemma still_recv: "recv_into n s = (r, s') \<Longrightarrow> sk_sent s' = sk_sent s"
  by (auto simp: recv_into_def Let_def split: if_splits)

lemma still_receive_loop: "sk_sent (snd (receive_loop want chunks s)) = sk_sent s"
proof (induction want chunks s rule: receive_loop.induct)
  case (1 want chunks s)
  show ?case
  proof (cases "length chunks < want")
    case False
    then show ?thesis by (simp add: receive_loop.simps [of want chunks s])
  next
    case True
    obtain r t where recv: "recv_into (want - length chunks) s = (r, t)" by force
    have IH: "sk_sent (snd (receive_loop want (chunks @ b # bs) t)) = sk_sent t" if "r = Inr (b # bs)" for b bs
      using 1 [OF True recv [symmetric] that refl] .
    show ?thesis
      using True recv still_recv [OF recv] IH
      by (simp add: receive_loop.simps [of want chunks s] atomic_run split: sum.splits list.splits)
  qed
qed

abbreviation chan_sent :: "framed_socket \<Rightarrow> bytes" where
  "chan_sent c \<equiv> sk_sent (fs_sock c)"

lemma still_receive_exact [still_rules]: "still chan_sent (receive_exact n)"
  by (auto simp: still_def receive_exact_def on_sock_def split: prod.splits) (metis still_receive_loop snd_conv)

lemma still_receive_wire: "still chan_sent receive_wire_frame"
  unfolding receive_wire_frame_def Let_def
  by (intro still_rules) simp_all

lemma still_receive: "still chan_sent receive"
proof -
  have "still chan_sent (mbind receive_wire_frame (\<lambda>frame.
         if fkind frame \<noteq> BULK_BATCH then mret frame
         else
           mbind (mlift (decode_bulk_batch (fpayload frame))) (\<lambda>records.
           case records of
             [] \<Rightarrow> mraise ProtocolError ''BULK_BATCH must contain at least one record'' []
           | first # rest \<Rightarrow>
               mseq (mmodify (\<lambda>s. s\<lparr>
                   fs_stats := (fs_stats s)\<lparr>
                     received_records := received_records (fs_stats s) + int (length records)\<rparr>,
                   fs_pending := rest\<rparr>))
                 (mret first))))"
    by (intro still_rules still_receive_wire) simp_all
  then show ?thesis by (auto simp: still_def receive_def split: list.splits)
qed

text \<open>What a session has sent.\<close>

abbreviation sent :: "session \<Rightarrow> bytes" where
  "sent s \<equiv> chan_sent (ss_channel s)"

lemma still_on_channel [still_rules]: "still sent (on_channel receive)"
  using still_receive by (auto simp: still_def on_channel_def split: prod.splits) (metis snd_conv)

lemma still_on_writer [still_rules]: "still sent (on_writer m)"
  by (simp add: still_def on_writer_def split: prod.splits)

lemma still_expect [still_rules]: "still sent (expect k)"
  unfolding expect_def by (intro still_rules)

lemma still_unexpected: "sent (snd (raise_unexpected f stage s)) = sent s"
  by (simp add: raise_unexpected_def atomic_run)

lemma still_root_loop: "sent (snd (root_loop s)) = sent s"
proof (induction s rule: root_loop.induct)
  case (1 s)
  obtain r t where rcv: "on_channel receive s = (r, t)" by force
  from stillD [OF still_on_channel rcv] have same: "sent t = sent s" .
  show ?case
  proof (cases r)
    case (Inl e)
    then show ?thesis using rcv same by (simp add: root_loop.simps [of s])
  next
    case (Inr f)
    have "sent (snd (root_loop (schedule as t))) = sent t" if "fkind f = ROOT_BATCH" "decode_addresses (fpayload f) = Inr as" for as
      using 1 [OF rcv [symmetric] Inr that] by simp
    then show ?thesis using rcv same Inr
      by (simp add: root_loop.simps [of s] still_unexpected split: sum.splits)
  qed
qed

lemma still_object_loop: "sent (snd (object_loop cfg a obj s)) = sent s"
proof (induction cfg a obj s rule: object_loop.induct)
  case (1 cfg a obj s)
  obtain r t where rcv: "on_channel receive s = (r, t)" by force
  from stillD [OF still_on_channel rcv] have same: "sent t = sent s" .
  show ?case
  proof (cases r)
    case (Inl e)
    then show ?thesis using rcv same by (simp add: object_loop.simps [of cfg a obj s])
  next
    case (Inr f)
    note IH = 1 [OF rcv [symmetric] Inr]
    show ?thesis using rcv same Inr IH
      by (cases "fkind f")
        (simp_all add: object_loop.simps [of cfg a obj s] still_unexpected split: sum.splits)
  qed
qed

lemma still_receive_object [still_rules]: "still sent (receive_object cfg a)"
  unfolding receive_object_def
  by (intro still_rules) (simp add: still_def still_object_loop)

lemma still_capture_object [still_rules]: "still sent (capture_object it cfg known a)"
  unfolding capture_object_def by (intro still_rules) (simp add: schedule_object_channel)

lemma still_enumerate: "still sent (enumerate_roots known)"
  unfolding enumerate_roots_def by (intro still_rules) (simp_all add: still_def still_root_loop)

lemma still_report [still_rules]: "still sent (report_progress cfg)"
  unfolding report_progress_def by (intro still_rules) simp

lemma sending:
  assumes "on_channel (send k p) s = (r, s')"
  shows "sent s' = sent s @ (case r of Inl _ \<Rightarrow> [] | Inr _ \<Rightarrow> frames_wire [Frame k p])"
  using assms send_run [of p k "ss_channel s"] send_too_long [of p k "ss_channel s"]
  by (cases "length p \<le> MAX_PAYLOAD") (auto simp: on_channel_run not_le)

section \<open>The phases\<close>

definition request :: "address list \<Rightarrow> frame" where
  "request batch = Frame REQUEST_OBJECTS (concat (map (be_enc 8) batch))"

lemma opening_sends:
  assumes "open_session cfg now s = (r, s')"
  shows "(sent s' = sent s \<and> (\<forall>x. r \<noteq> Inr x)) \<or>
    (\<exists>f h rest p. sent s' = sent s @ frames_wire [Frame HELLO_ACK p] \<and>
       logical_queue (ss_channel s) = f # rest \<and> fkind f = HELLO \<and> decode_hello (fpayload f) = Inr h \<and>
       check_hello cfg h = Inr ())"
proof -
  have before: "still sent (mbind (expect HELLO) (\<lambda>frame.
     mbind (mlift (decode_hello (fpayload frame))) (\<lambda>hello.
     mseq (mlift (check_hello cfg hello)) (
     mlift (encode_options (cl_str_repr_len cfg, cl_dump_attributes cfg))))))" (is "still sent ?before")
    by (intro still_rules)
  let ?after = "mbind (expect WELL_KNOWN) (\<lambda>frame.
     mbind (mlift (decode_addresses (fpayload frame))) (\<lambda>well_known_addresses.
     if length well_known_addresses \<noteq> length WELL_KNOWN_TYPE_NAMES then
       mraise ProtocolError ''agent returned {n} well-known types, expected {m}''
         [AInt (int (length well_known_addresses)), AInt (int (length WELL_KNOWN_TYPE_NAMES))]
     else
       mseq (on_writer (write_header (dict_of (zip WELL_KNOWN_TYPE_NAMES well_known_addresses)) None now)) (
       mseq (on_writer (write_threads [])) (
       mseq (on_writer begin_objects) (
       mret well_known_addresses)))))"
  have after: "still sent ?after" by (intro still_rules)
  have split: "open_session cfg now s = mbind ?before (\<lambda>p. mseq (on_channel (send HELLO_ACK p)) ?after) s"
    by (simp add: open_session_def mbind_run mseq_run atomic_run split: prod.splits sum.splits)
  obtain q t where run: "?before s = (q, t)" by force
  with stillD [OF before] have same: "sent t = sent s" by blast
  show ?thesis
  proof (cases q)
    case (Inl e)
    with run assms have "r = Inl e" "s' = t" unfolding split mbind_run [of ?before] by auto
    with same show ?thesis by simp
  next
    case (Inr p)
    with run obtain f h t1 where "expect HELLO s = (Inr f, t1)" "decode_hello (fpayload f) = Inr h"
      "check_hello cfg h = Inr ()" by (auto simp: mbind_Inr mseq_Inr atomic_run)
    with expect_Inr have hello: "\<exists>f h rest. logical_queue (ss_channel s) = f # rest \<and> fkind f = HELLO \<and>
        decode_hello (fpayload f) = Inr h \<and> check_hello cfg h = Inr ()" by blast
    obtain q2 t2 where send: "on_channel (send HELLO_ACK p) t = (q2, t2)" by force
    show ?thesis
    proof (cases q2)
      case (Inl e)
      with send run Inr assms have "r = Inl e" "s' = t2"
        unfolding split mbind_run [of ?before] mseq_run by auto
      with Inl sending [OF send] same show ?thesis by simp
    next
      case (Inr u)
      obtain q3 t3 where rest: "?after t2 = (q3, t3)" by force
      with stillD [OF after] have "sent t3 = sent t2" by blast
      moreover have "s' = t3"
        using Inr send run \<open>q = Inr p\<close> rest assms unfolding split mbind_run [of ?before] mseq_run by auto
      ultimately have "sent s' = sent s @ frames_wire [Frame HELLO_ACK p]"
        using Inr sending [OF send] same by simp
      with hello show ?thesis by blast
    qed
  qed
qed

lemma batch_requested:
  assumes "capture_batch it cfg known s = (r, s')"
  shows "(sent s' = sent s \<and> r \<noteq> Inr ()) \<or> sent s' = sent s @ frames_wire [request (fst (take_batch cfg s))]"
proof -
  obtain batch t where take: "take_batch cfg s = (batch, t)" by force
  then have same: "sent t = sent s" by (auto simp: take_batch_def Let_def)
  let ?rest = "mseq (mfor (capture_object it cfg known) batch) (mbind (expect BATCH_DONE) (\<lambda>_. report_progress cfg))"
  have still: "still sent ?rest" by (intro still_rules)
  have run: "capture_batch it cfg known s = mbind (mlift (encode_addresses batch)) (\<lambda>payload.
      mseq (on_channel (send REQUEST_OBJECTS payload)) ?rest) t"
    by (simp add: capture_batch_def take)
  show ?thesis
  proof (cases "encode_addresses batch")
    case (Inl e)
    with assms have "r = Inl e" "s' = t" by (auto simp: run mbind_run atomic_run)
    with same show ?thesis by simp
  next
    case (Inr p)
    then have p: "Frame REQUEST_OBJECTS p = request batch" by (simp add: encode_addresses_Inr request_def)
    obtain q t1 where send: "on_channel (send REQUEST_OBJECTS p) t = (q, t1)" by force
    show ?thesis
    proof (cases q)
      case (Inl e)
      with Inr send assms have "r = Inl e" "s' = t1" by (auto simp: run mbind_run mseq_run atomic_run)
      with Inl sending [OF send] same show ?thesis by simp
    next
      case ok: (Inr u)
      obtain q2 t2 where rest: "?rest t1 = (q2, t2)" by force
      with stillD [OF still] have "sent t2 = sent t1" by blast
      moreover have "s' = t2"
        using Inr ok send rest assms by (auto simp: run mbind_run [of "mlift _"] mseq_run [of "on_channel _"] atomic_run)
      ultimately show ?thesis using ok sending [OF send] same by (simp add: take p)
    qed
  qed
qed

definition requests_ok :: "collector \<Rightarrow> address list list \<Rightarrow> bool" where
  "requests_ok cfg batches \<longleftrightarrow>
     distinct (concat batches) \<and> (\<forall>b \<in> set batches. b \<noteq> [] \<and> int (length b) \<le> cl_batch_size cfg \<and> 0 \<notin> set b)"

text \<open>A batch before the batches of the rest of the phase.\<close>

lemma requested_more:
  assumes "sent u = sent s @ frames_wire [request batch]" and "sent s' = sent u @ frames_wire (map request batches)"
    and "requests_ok cfg [batch]" and "requests_ok cfg batches" and "map co_address new = batch"
    and "set batch \<inter> co_address ` set objs = {}" and "set (concat batches) \<inter> co_address ` set (objs @ new) = {}"
  shows "sent s' = sent s @ frames_wire (map request (batch # batches)) \<and> requests_ok cfg (batch # batches) \<and>
    set (concat (batch # batches)) \<inter> co_address ` set objs = {}"
proof -
  have "set batch = co_address ` set new" using assms(5) by auto
  then have "set batch \<inter> set (concat batches) = {}" using assms(7) by (simp only: set_append image_Un) blast
  then have "requests_ok cfg (batch # batches)" using assms(3,4) by (auto simp: requests_ok_def)
  moreover have "set (concat (batch # batches)) \<inter> co_address ` set objs = {}" using assms(6,7) by auto
  ultimately show ?thesis using assms(1,2) by simp
qed

lemma phase_requests:
  assumes "iterates it" and "0 < cl_batch_size cfg"
  shows "progressed start known w0 objs [] s \<Longrightarrow> object_phase it cfg (known_types known) s = Some (r, s') \<Longrightarrow>
    \<exists>batches. sent s' = sent s @ frames_wire (map request batches) \<and> requests_ok cfg batches \<and>
      set (concat batches) \<inter> co_address ` set objs = {} \<and>
      (r = Inr () \<longrightarrow> (\<exists>new. progressed start known w0 (objs @ new) [] s' \<and> map co_address new = concat batches))"
proof (induction "2 ^ 64 - length objs" arbitrary: objs s rule: less_induct)
  case less
  show ?case
  proof (cases "ss_pending s = []")
    case True
    with less.prems show ?thesis
      by (intro exI [of _ "[]"]) (auto simp: object_phase.simps requests_ok_def intro!: exI [of _ "[]"])
  next
    case False
    obtain batch t where take: "take_batch cfg s = (batch, t)" by force
    note parts = take_batch_parts [OF take assms(2) False]
    have inv: "work_inv start objs batch t"
      using progressed_take [OF less.prems(1) take assms(2) False] by (simp add: progressed_def)
    have batch: "distinct batch" "set batch \<inter> co_address ` set objs = {}" "0 \<notin> set batch"
      using work_invD(1,2,3) [OF inv] by auto
    then have one: "requests_ok cfg [batch]" using parts by (simp add: requests_ok_def)
    obtain q u where run: "capture_batch it cfg (known_types known) s = (q, u)" by force
    note asked = batch_requested [OF run, unfolded take fst_conv]
    show ?thesis
    proof (cases q)
      case (Inl e)
      then have "r = Inl e" "s' = u"
        using less.prems(2) False run by (simp_all add: object_phase.simps [of it cfg "known_types known" s])
      moreover have "sent u = sent s \<or> sent u = sent s @ frames_wire [request batch]" using asked by blast
      moreover have "requests_ok cfg []" by (simp add: requests_ok_def)
      ultimately show ?thesis
      proof (elim disjE, goal_cases)
        case 1
        then show ?case by (intro exI [of _ "[]"]) simp
      next
        case 2
        then show ?case using one batch by (intro exI [of _ "[batch]"]) simp
      qed
    next
      case (Inr v)
      with run obtain new where new: "progressed start known w0 (objs @ new) [] u" "new \<noteq> []" "map co_address new = batch"
        using capture_batch_Inr [OF _ assms(1) less.prems(1) assms(2) False] take by fastforce
      have "length (objs @ new) < 2 ^ 64"
        using new(1) by (auto simp: progressed_def dest: work_inv_length)
      moreover have "0 < length new" using new(2) by simp
      ultimately have shorter: "2 ^ 64 - length (objs @ new) < 2 ^ 64 - length objs"
        unfolding length_append by linarith
      have "object_phase it cfg (known_types known) u = Some (r, s')"
        using less.prems(2) False run Inr by (simp add: object_phase.simps [of it cfg "known_types known" s])
      from less.hyps [OF shorter new(1) this] obtain batches where
        IH: "sent s' = sent u @ frames_wire (map request batches)" "requests_ok cfg batches"
          "set (concat batches) \<inter> co_address ` set (objs @ new) = {}"
          "r = Inr () \<longrightarrow> (\<exists>more. progressed start known w0 ((objs @ new) @ more) [] s' \<and> map co_address more = concat batches)"
        by blast
      have "sent u = sent s @ frames_wire [request batch]" using asked Inr by simp
      from requested_more [OF this IH(1) one IH(2) new(3) batch(2) IH(3)] IH(4) show ?thesis
        unfolding append_assoc by (metis map_append new(3) concat.simps(2) append_assoc)
    qed
  qed
qed

lemma closing_sends:
  assumes "close_session s = (r, s')"
  shows "sent s' = sent s @ frames_wire [Frame FINISH []]"
proof -
  let ?rest = "mbind (expect COMPLETE) (\<lambda>_. mbind (mget ss_types) (\<lambda>types. mseq (on_writer (finish types)) (mget ss_completed)))"
  have still: "still sent ?rest" by (intro still_rules)
  obtain q t where send: "on_channel (send FINISH []) s = (q, t)" by force
  have ok: "q = Inr ()" using send send_run [of "[]" FINISH "ss_channel s"] by (auto simp: on_channel_run MAX_PAYLOAD_def)
  obtain q2 t2 where rest: "?rest t = (q2, t2)" by force
  with stillD [OF still] have "sent t2 = sent t" by blast
  with assms sending [OF send] send ok rest show ?thesis
    by (simp add: close_session_def mseq_run [of "on_channel _"])
qed

text \<open>The frames of a conversation: the options, the requests, and \<open>FINISH\<close> at the end.\<close>

definition conversation :: "address list list \<Rightarrow> bool \<Rightarrow> frame list \<Rightarrow> bool" where
  "conversation batches whole reqs \<longleftrightarrow>
     (reqs = [] \<and> batches = [] \<and> \<not> whole) \<or>
     (\<exists>options. reqs = Frame HELLO_ACK options # map request batches @ (if whole then [Frame FINISH []] else []))"

lemma after_roots_requests:
  assumes "iterates it" and "0 < cl_batch_size cfg" and "capture_session it cfg now (session_init cfg sk) = Some (r, s)"
    and opened: "open_session cfg now (session_init cfg sk) = (Inr known, s1)" and roots: "enumerate_roots known s1 = (Inr u, s2)"
  shows "\<exists>batches whole. sent s = sent s2 @ frames_wire (map request batches @ (if whole then [Frame FINISH []] else [])) \<and>
    requests_ok cfg batches \<and> (\<forall>n. r = Inr n \<longrightarrow> whole \<and> n = int (length (concat batches)))"
proof -
  from roots_progressed [OF opened, of u s2] roots obtain rs where
    prog: "progressed (rs \<union> set known) known (ss_writer s1) [] [] s2" by blast
  obtain q3 s3 where phase: "object_phase it cfg (known_types known) s2 = Some (q3, s3)"
    using object_phase_run [OF assms(1,2) prog] by blast
  from phase_requests [OF assms(1,2) prog phase] obtain batches where
    batches: "sent s3 = sent s2 @ frames_wire (map request batches)" "requests_ok cfg batches"
    "q3 = Inr () \<longrightarrow> (\<exists>new. progressed (rs \<union> set known) known (ss_writer s1) new [] s3 \<and>
       map co_address new = concat batches)" by auto
  have run: "Some (r, s) = Some (case q3 of Inl e \<Rightarrow> (Inl e, s3) | Inr _ \<Rightarrow> close_session s3)"
    using assms(3) opened roots phase
    by (simp add: capture_session_def mbind_run mseq_run atomic_run split: sum.splits)
  show ?thesis
  proof (cases q3)
    case (Inl e)
    with run batches show ?thesis by (intro exI [of _ batches] exI [of _ False]) simp
  next
    case (Inr v)
    with run have closed: "close_session s3 = (r, s)" by simp
    obtain new where new: "progressed (rs \<union> set known) known (ss_writer s1) new [] s3"
      "map co_address new = concat batches" using batches(3) Inr by auto
    have "work_inv (rs \<union> set known) new [] s3" using new(1) by (simp add: progressed_def)
    from work_invD(8) [OF this] have n: "ss_completed s3 = int (length (concat batches))"
      using new(2) [THEN arg_cong [of _ _ length]] by simp
    have "n = int (length (concat batches))" if "r = Inr n" for n
      using close_session_Inr [of s3 n s] closed that n by simp
    with closing_sends [OF closed] batches show ?thesis by (intro exI [of _ batches] exI [of _ True]) simp
  qed
qed

lemma session_requests:
  assumes "iterates it" and "0 < cl_batch_size cfg" and "capture_session it cfg now (session_init cfg sk) = Some (r, s)"
  shows "\<exists>batches whole reqs. sent s = sk_sent sk @ frames_wire reqs \<and> conversation batches whole reqs \<and>
    requests_ok cfg batches \<and>
    (reqs \<noteq> [] \<longrightarrow> (\<exists>f h rest. logical_queue (framed_socket_init sk) = f # rest \<and> fkind f = HELLO \<and>
       decode_hello (fpayload f) = Inr h \<and> check_hello cfg h = Inr ())) \<and>
    (\<forall>n. r = Inr n \<longrightarrow> whole \<and> n = int (length (concat batches)))"
proof -
  let ?s0 = "session_init cfg sk"
  have init: "sent ?s0 = sk_sent sk" "ss_channel ?s0 = framed_socket_init sk"
    by (simp_all add: session_init_def framed_socket_init_def)
  have none: "requests_ok cfg []" "conversation [] False []" by (simp_all add: requests_ok_def conversation_def)
  obtain q s1 where opened: "open_session cfg now ?s0 = (q, s1)" by force
  from opening_sends [OF opened] show ?thesis
  proof (elim disjE conjE exE)
    assume "sent s1 = sent ?s0" "\<forall>x. q \<noteq> Inr x"
    then obtain e where "q = Inl e" by (cases q) auto
    then have "r = Inl e" "s = s1" using assms(3) opened by (simp_all add: capture_session_def mbind_run)
    with none init \<open>sent s1 = sent ?s0\<close> show ?thesis
      by (intro exI [of _ "[]"] exI [of _ False]) simp
  next
    fix f h rest p assume sent: "sent s1 = sent ?s0 @ frames_wire [Frame HELLO_ACK p]"
      and queue: "logical_queue (ss_channel ?s0) = f # rest" and hello: "fkind f = HELLO"
        "decode_hello (fpayload f) = Inr h" "check_hello cfg h = Inr ()"
    have result: ?thesis if "sent s = sent s1 @ frames_wire (map request batches @ (if whole then [Frame FINISH []] else []))"
      "requests_ok cfg batches" "\<forall>n. r = Inr n \<longrightarrow> whole \<and> n = int (length (concat batches))" for batches whole
      using that sent queue hello unfolding init
      by (intro exI [of _ batches] exI [of _ whole]
          exI [of _ "Frame HELLO_ACK p # map request batches @ (if whole then [Frame FINISH []] else [])"])
        (auto simp: conversation_def init(1) [unfolded init(2)])
    show ?thesis
    proof (cases q)
      case (Inl e)
      then have "r = Inl e" "s = s1" using assms(3) opened by (simp_all add: capture_session_def mbind_run)
      then show ?thesis by (intro result [of "[]" False]) (simp_all add: none)
    next
      case (Inr known)
      obtain q2 s2 where roots: "enumerate_roots known s1 = (q2, s2)" by force
      from stillD [OF still_enumerate roots] have s2: "sent s2 = sent s1" .
      show ?thesis
      proof (cases q2)
        case (Inl e)
        then have "r = Inl e" "s = s2"
          using assms(3) opened Inr roots by (auto simp: capture_session_def mbind_run mseq_run)
        then show ?thesis using s2 by (intro result [of "[]" False]) (simp_all add: none)
      next
        case ok: (Inr u)
        from after_roots_requests [OF assms opened [unfolded Inr] roots [unfolded ok]] obtain batches whole where
          "sent s = sent s2 @ frames_wire (map request batches @ (if whole then [Frame FINISH []] else []))"
          "requests_ok cfg batches" "\<forall>n. r = Inr n \<longrightarrow> whole \<and> n = int (length (concat batches))" by blast
        with s2 show ?thesis by (intro result [of batches whole]) simp_all
      qed
    qed
  qed
qed

section \<open>Properties\<close>

text \<open>
  C7: Whatever the peer sends, what the Collector has sent when a session ends is a conversation:
  nothing, or the options, requests for objects, and at the end \<open>FINISH\<close> if all went well. Nothing
  is sent before a \<open>HELLO\<close> with the session's nonce from a little-endian 64-bit CPython 3.10 or
  later. No object is requested twice, and a batch has between one object and the batch size. The
  number of objects that a successful session returns is the number that it has requested.
\<close>

theorem conversation_conforms:
  assumes "iterates it" and "0 < cl_batch_size cfg"
    and "capture_session it cfg now (session_init cfg sk) = Some (r, s)" and "sk_sent sk = []"
  shows "\<exists>batches whole reqs. sk_sent (fs_sock (ss_channel s)) = frames_wire reqs \<and>
    conversation batches whole reqs \<and> distinct (concat batches) \<and>
    (\<forall>b \<in> set batches. 0 < length b \<and> int (length b) \<le> cl_batch_size cfg \<and> 0 \<notin> set b) \<and>
    (reqs \<noteq> [] \<longrightarrow> (\<exists>f h rest. logical_queue (framed_socket_init sk) = f # rest \<and> fkind f = HELLO \<and>
       decode_hello (fpayload f) = Inr h \<and> hello_nonce h = cl_nonce cfg \<and> python_major h = 3 \<and>
       10 \<le> python_minor h \<and> pointer_size h = 8 \<and> little_endian h)) \<and>
    (\<forall>n. r = Inr n \<longrightarrow> whole \<and> n = int (length (concat batches)))"
proof -
  have hello: "hello_nonce h = cl_nonce cfg \<and> python_major h = 3 \<and> 10 \<le> python_minor h \<and> pointer_size h = 8 \<and>
      little_endian h" if "check_hello cfg h = Inr ()" for h
    using that by (simp add: check_hello_def split: if_splits)
  from session_requests [OF assms(1-3)] obtain batches whole reqs where
    "sent s = frames_wire reqs" "conversation batches whole reqs" "requests_ok cfg batches"
    "reqs \<noteq> [] \<longrightarrow> (\<exists>f h rest. logical_queue (framed_socket_init sk) = f # rest \<and> fkind f = HELLO \<and>
       decode_hello (fpayload f) = Inr h \<and> check_hello cfg h = Inr ())"
    "\<forall>n. r = Inr n \<longrightarrow> whole \<and> n = int (length (concat batches))" unfolding assms(4) by auto
  with hello show ?thesis
    by (intro exI [of _ batches] exI [of _ whole] exI [of _ reqs] conjI) (auto simp: requests_ok_def)
qed

theorem conversation_conforms_witness:
  "\<exists>n s batches reqs. capture_session sorted_list_of_set demo_cfg (lit ''now'') (session_init demo_cfg demo_sock) = Some (Inr n, s) \<and>
    sk_sent (fs_sock (ss_channel s)) = frames_wire reqs \<and> conversation batches True reqs \<and> n = int (length (concat batches))"
proof -
  from agent_session [OF iterates_sorted demo_honest demo_fits] obtain n s where
    run: "capture_session sorted_list_of_set demo_cfg (lit ''now'') (session_init demo_cfg demo_sock) = Some (Inr n, s)" by blast
  have "sk_sent demo_sock = []" by (simp add: agent_socket_def)
  from conversation_conforms [OF iterates_sorted _ run this] obtain batches whole reqs where
    "sk_sent (fs_sock (ss_channel s)) = frames_wire reqs" "conversation batches whole reqs"
    "whole" "n = int (length (concat batches))" by (metis demo_cfg_simps(3) zero_less_numeral)
  with run show ?thesis by (intro exI conjI) (assumption | simp)+
qed

end
