(* ===== verification/Accounting.thy ===== *)
theory Accounting
  imports Conversation
begin

text \<open>
  The figures of the capture profile are true. \<open>upholds P Q E m\<close> is a triple with a postcondition
  for a return and one for an exception. \<open>agenda p k\<close> is the invariant of the work list and of the
  figures about it, where \<open>k\<close> objects have been taken off the list and are not yet counted and at least
  \<open>p\<close> addresses have been pending at once; \<open>wire_exact\<close> is the invariant of the channel between two calls,
  and \<open>wire_sound\<close> what remains of it when reading a frame was cut short.
\<close>

section \<open>Triples\<close>

definition upholds :: "('s \<Rightarrow> bool) \<Rightarrow> ('s \<Rightarrow> bool) \<Rightarrow> ('s \<Rightarrow> bool) \<Rightarrow> ('s, 'a) py \<Rightarrow> bool" where
  "upholds P Q E m \<longleftrightarrow> (\<forall>s. P s \<longrightarrow> (case m s of (Inl e, s') \<Rightarrow> E s' | (Inr x, s') \<Rightarrow> Q s'))"

lemma upholdsI:
  assumes "\<And>s x s'. P s \<Longrightarrow> m s = (Inr x, s') \<Longrightarrow> Q s'" and "\<And>s e s'. P s \<Longrightarrow> m s = (Inl e, s') \<Longrightarrow> E s'"
  shows "upholds P Q E m"
  using assms by (auto simp: upholds_def split: sum.splits prod.splits)

lemma upholdsD:
  assumes "upholds P Q E m" and "P s" and "m s = (r, s')"
  shows "(\<forall>e. r = Inl e \<longrightarrow> E s') \<and> (\<forall>x. r = Inr x \<longrightarrow> Q s')"
  using assms by (auto simp: upholds_def split: sum.splits)

lemma upholds_bind:
  "upholds P R E m \<Longrightarrow> (\<And>x. upholds R Q E (f x)) \<Longrightarrow> upholds P Q E (mbind m f)"
  unfolding upholds_def mbind_run by (fastforce split: sum.splits prod.splits)

lemma upholds_seq: "upholds P R E m \<Longrightarrow> upholds R Q E k \<Longrightarrow> upholds P Q E (mseq m k)"
  unfolding mseq_def by (rule upholds_bind)

lemma upholds_return: "upholds P P E (mret x)" "upholds P P E (mget f)"
  by (simp_all add: upholds_def atomic_run)

lemma upholds_raise: "(\<And>s. P s \<Longrightarrow> E s) \<Longrightarrow> upholds P Q E (mraise c t as)"
  by (simp add: upholds_def atomic_run)

lemma upholds_lift: "(\<And>s. P s \<Longrightarrow> E s) \<Longrightarrow> upholds P P E (mlift r)"
  by (simp add: upholds_def atomic_run split: sum.splits)

lemma upholds_modify: "(\<And>s. P s \<Longrightarrow> Q (g s)) \<Longrightarrow> upholds P Q E (mmodify g)"
  by (simp add: upholds_def atomic_run)

lemma upholds_if: "upholds P Q E m \<Longrightarrow> upholds P Q E k \<Longrightarrow> upholds P Q E (if c then m else k)"
  by simp

lemma upholds_option:
  "upholds P Q E m \<Longrightarrow> (\<And>x. upholds P Q E (f x)) \<Longrightarrow> upholds P Q E (case o1 of None \<Rightarrow> m | Some x \<Rightarrow> f x)"
  by (cases o1) simp_all

lemma upholds_for:
  assumes "\<And>x n. upholds (P (Suc n)) (P n) E (f x)"
  shows "upholds (P (length xs)) (P 0) E (mfor f xs)"
proof (induction xs)
  case (Cons x xs)
  from upholds_seq [OF assms Cons] show ?case by simp
qed (simp add: upholds_return)

section \<open>The channel\<close>

text \<open>What a process has written cannot be withdrawn: the more is sent to it, the more it has written.\<close>

definition appending :: "(bytes \<Rightarrow> bytes \<times> bool) \<Rightarrow> bool" where
  "appending peer \<longleftrightarrow> (\<forall>sent extra. \<exists>written. fst (peer (sent @ extra)) = fst (peer sent) @ written)"

lemma parse_wire_prefix: "parse_wire bs = Some (f, rest) \<Longrightarrow> parse_wire (bs @ extra) = Some (f, rest @ extra)"
  by (simp add: parse_wire_Some)

lemma logical_frames_prefix: "\<exists>fs. logical_frames (bs @ extra) = logical_frames bs @ fs"
proof (induction bs rule: logical_frames.induct)
  case (1 bs)
  show ?case
  proof (cases "parse_wire bs")
    case None
    then show ?thesis by (simp add: logical_frames.simps [of bs])
  next
    case (Some p)
    obtain f rest where p: "p = (f, rest)" by (cases p)
    note parsed = Some [unfolded p]
    note more = parse_wire_prefix [OF parsed, of extra]
    show ?thesis
    proof (cases "fkind f = BULK_BATCH")
      case False
      from 1(1) [OF Some p [symmetric] False] parsed more False show ?thesis
        by (auto simp: logical_frames.simps [of bs] logical_frames.simps [of "bs @ extra"])
    next
      case True
      show ?thesis
      proof (cases "decode_bulk_batch (fpayload f)")
        case (Inr rs)
        with 1(2) [OF Some p [symmetric]] parsed more True show ?thesis
          by (cases rs) (auto simp: logical_frames.simps [of bs] logical_frames.simps [of "bs @ extra"])
      qed (use parsed more True in \<open>simp add: logical_frames.simps [of bs] logical_frames.simps [of "bs @ extra"]\<close>)
    qed
  qed
qed

lemma appending_agent: "appending (agent_peer greeting answer)"
proof -
  have "\<exists>written. fst (agent_peer greeting answer (sent @ extra)) = fst (agent_peer greeting answer sent) @ written" for sent extra
  proof -
    obtain fs where "logical_frames (sent @ extra) = logical_frames sent @ fs" using logical_frames_prefix by blast
    then show ?thesis by (simp add: agent_peer_def)
  qed
  then show ?thesis by (simp add: appending_def)
qed

text \<open>The bytes that were read from the socket, and the records in a frame.\<close>

definition heard :: "sock \<Rightarrow> bytes" where
  "heard sk = take (sk_taken sk) (fst (sk_peer sk (sk_sent sk)))"

definition records_in :: "frame \<Rightarrow> nat" where
  "records_in w = (if fkind w = BULK_BATCH then length (expand w) else 0)"

text \<open>\<open>ws\<close> are the frames that were received, and \<open>torn\<close> what was read of one that was not.\<close>

definition wire_figures :: "framed_socket \<Rightarrow> frame list \<Rightarrow> bytes \<Rightarrow> bool" where
  "wire_figures c ws torn \<longleftrightarrow>
     (\<exists>reqs. chan_sent c = frames_wire reqs \<and> sent_frames (fs_stats c) = int (length reqs)) \<and>
     sent_bytes (fs_stats c) = int (length (chan_sent c)) \<and>
     appending (sk_peer (fs_sock c)) \<and>
     sk_taken (fs_sock c) \<le> length (fst (sk_peer (fs_sock c) (sk_sent (fs_sock c)))) \<and>
     heard (fs_sock c) = frames_wire ws @ torn \<and> parse_wire torn = None \<and>
     received_bytes (fs_stats c) = int (length (frames_wire ws)) \<and> received_frames (fs_stats c) = int (length ws) \<and>
     received_records (fs_stats c) = int (sum_list (map records_in ws))"

definition wire_sound :: "framed_socket \<Rightarrow> bool" where
  "wire_sound c \<longleftrightarrow> (\<exists>ws torn. wire_figures c ws torn)"

definition wire_exact :: "framed_socket \<Rightarrow> bool" where
  "wire_exact c \<longleftrightarrow> (\<exists>ws. wire_figures c ws [])"

lemma wire_exact_sound: "wire_exact c \<Longrightarrow> wire_sound c"
  by (auto simp: wire_exact_def wire_sound_def)

lemma wire_exact_init: "sk_sent sk = [] \<Longrightarrow> sk_taken sk = 0 \<Longrightarrow> appending (sk_peer sk) \<Longrightarrow> wire_exact (framed_socket_init sk)"
  by (auto simp: wire_exact_def wire_figures_def framed_socket_init_def socket_stats0_def heard_def parse_wire_nil
      intro!: exI [of _ "[]"])

lemma heard_send:
  assumes "appending (sk_peer sk)" and "sk_taken sk \<le> length (fst (sk_peer sk (sk_sent sk)))"
  shows "heard (sk\<lparr>sk_sent := sk_sent sk @ extra\<rparr>) = heard sk"
    and "sk_taken sk \<le> length (fst (sk_peer sk (sk_sent sk @ extra)))"
proof -
  from assms(1) obtain written where "fst (sk_peer sk (sk_sent sk @ extra)) = fst (sk_peer sk (sk_sent sk)) @ written"
    by (auto simp: appending_def)
  with assms(2) show "heard (sk\<lparr>sk_sent := sk_sent sk @ extra\<rparr>) = heard sk"
    "sk_taken sk \<le> length (fst (sk_peer sk (sk_sent sk @ extra)))" by (simp_all add: heard_def)
qed

lemma wire_send: "upholds wire_exact wire_exact wire_sound (send k p)"
proof (cases "length p \<le> MAX_PAYLOAD")
  case False
  then show ?thesis by (auto simp: upholds_def send_too_long wire_exact_sound)
next
  case True
  have more: "\<exists>reqs'. frames_wire reqs @ wire_bytes k p = frames_wire reqs' \<and> int (length reqs) + 1 = int (length reqs')" for reqs
    by (intro exI [of _ "reqs @ [Frame k p]"]) simp
  show ?thesis
    unfolding upholds_def send_run [OF True] wire_exact_def wire_figures_def
    by (auto simp: more heard_send)
qed

text \<open>Reading on: the bytes that were read next, of which \<open>avail\<close> is the rest.\<close>

lemma heard_advance: "heard (advance n r sk) = heard sk @ take n (avail sk)"
  by (simp add: heard_def advance_def avail_def take_add)

lemma advance_within: "n \<le> length (avail sk) \<Longrightarrow> sk_taken sk \<le> length (fst (sk_peer sk (sk_sent sk))) \<Longrightarrow>
    sk_taken (advance n r sk) \<le> length (fst (sk_peer sk (sk_sent sk)))"
  by (simp add: advance_def avail_def)

text \<open>\<open>reads_on s s'\<close>: between the two, some bytes were read and nothing else has changed.\<close>

definition reads_on :: "framed_socket \<Rightarrow> framed_socket \<Rightarrow> bool" where
  "reads_on s s' \<longleftrightarrow> (\<exists>n r. n \<le> length (avail (fs_sock s)) \<and> s' = s\<lparr>fs_sock := advance n r (fs_sock s)\<rparr>)"

lemma reads_on_exact: "receive_exact n s = (r, s') \<Longrightarrow> reads_on s s'"
  using receive_exact_spec [of n s] by (auto simp: reads_on_def split: if_splits)

lemma reads_on_trans: "reads_on s t \<Longrightarrow> reads_on t u \<Longrightarrow> reads_on s u"
proof -
  assume "reads_on s t" and "reads_on t u"
  then obtain n r m q where "n \<le> length (avail (fs_sock s))" "t = s\<lparr>fs_sock := advance n r (fs_sock s)\<rparr>"
    "m \<le> length (avail (fs_sock t))" "u = t\<lparr>fs_sock := advance m q (fs_sock t)\<rparr>" unfolding reads_on_def by blast
  then show ?thesis
    unfolding reads_on_def by (intro exI [of _ "n + m"] exI [of _ q]) (auto simp: advance_def avail_def)
qed

lemma wire_cut:
  assumes "receive_wire_frame s = (Inl e, s')"
  shows "reads_on s s'"
proof -
  obtain r t where header: "receive_exact 12 s = (r, t)" by force
  define fields where "fields = (case r of Inl _ \<Rightarrow> [] | Inr h \<Rightarrow> unpack_fields [1, 1, 2, 4] (drop 4 h))"
  obtain q u where body: "receive_exact (nat (fields ! 3)) t = (q, u)" by force
  have "s' = t \<or> s' = u"
    using assms body
    by (auto simp: receive_wire_frame_def mbind_run mseq_run atomic_run header Let_def fields_def
        split: sum.splits if_splits option.splits prod.splits)
  with reads_on_exact [OF header] reads_on_exact [OF body] show ?thesis by (auto intro: reads_on_trans)
qed

text \<open>A frame that was received, with \<open>k\<close> of its records counted; and one that was not.\<close>

lemma wire_frame:
  assumes "wire_figures s ws []" and "receive_wire_frame s = (Inr w, s')"
  shows "records_in w = 0 \<Longrightarrow> wire_figures s' (ws @ [w]) []"
    and "wire_figures (s'\<lparr>fs_stats := (fs_stats s')\<lparr>received_records := received_records (fs_stats s') + int (records_in w)\<rparr>,
      fs_pending := rest\<rparr>) (ws @ [w]) []"
proof -
  from receive_wire_frame_Inr [OF assms(2)] obtain after r where
    wire: "avail (fs_sock s) = wire_bytes (fkind w) (fpayload w) @ after" and
    s': "s' = count_received (length (fpayload w)) (s\<lparr>fs_sock := advance (12 + length (fpayload w)) r (fs_sock s)\<rparr>)" by blast
  have next_heard: "heard (advance (12 + length (fpayload w)) r (fs_sock s)) = frames_wire (ws @ [w])"
    using assms(1) wire by (simp add: heard_advance wire_figures_def)
  have within: "sk_taken (advance (12 + length (fpayload w)) r (fs_sock s)) \<le>
      length (fst (sk_peer (fs_sock s) (sk_sent (fs_sock s))))"
    using assms(1) wire by (intro advance_within) (simp_all add: wire_figures_def)
  note facts = assms(1) [unfolded wire_figures_def] next_heard within
  show "wire_figures (s'\<lparr>fs_stats := (fs_stats s')\<lparr>received_records := received_records (fs_stats s') + int (records_in w)\<rparr>,
      fs_pending := rest\<rparr>) (ws @ [w]) []"
    using facts unfolding s' wire_figures_def by (simp add: count_received_def advance_def)
  show "wire_figures s' (ws @ [w]) []" if "records_in w = 0"
    using facts that unfolding s' wire_figures_def by (simp add: count_received_def advance_def)
qed

lemma wire_frame_cut:
  assumes "wire_figures s ws []" and "receive_wire_frame s = (Inl e, s')"
  shows "\<exists>torn. wire_figures s' ws torn"
proof -
  from wire_cut [OF assms(2)] obtain n r where
    n: "n \<le> length (avail (fs_sock s))" "s' = s\<lparr>fs_sock := advance n r (fs_sock s)\<rparr>" by (auto simp: reads_on_def)
  let ?torn = "take n (avail (fs_sock s))"
  have none: "parse_wire (avail (fs_sock s)) = None"
  proof (cases "parse_wire (avail (fs_sock s))")
    case (Some p)
    then obtain f rest where "parse_wire (avail (fs_sock s)) = Some (f, rest)" by (cases p) auto
    from receive_wire_frame_parse [OF this] assms(2) show ?thesis by auto
  qed
  have torn: "parse_wire ?torn = None"
  proof (cases "parse_wire ?torn")
    case (Some p)
    then obtain f rest where "parse_wire ?torn = Some (f, rest)" by (cases p) auto
    from parse_wire_prefix [OF this, of "drop n (avail (fs_sock s))"] none show ?thesis by simp
  qed
  have "heard (advance n r (fs_sock s)) = frames_wire ws @ ?torn"
    using assms(1) by (simp add: heard_advance wire_figures_def)
  moreover have "sk_taken (advance n r (fs_sock s)) \<le> length (fst (sk_peer (fs_sock s) (sk_sent (fs_sock s))))"
    using assms(1) n(1) by (intro advance_within) (simp_all add: wire_figures_def)
  ultimately have "wire_figures s' ws ?torn"
    using assms(1) torn unfolding n(2) wire_figures_def by (simp add: advance_def)
  then show ?thesis by blast
qed

lemma wire_receive: "upholds wire_exact wire_exact wire_sound receive"
proof (rule upholdsI)
  fix s f s' assume "wire_exact s" and run: "receive s = (Inr f, s')"
  then obtain ws where exact: "wire_figures s ws []" by (auto simp: wire_exact_def)
  from run show "wire_exact s'"
  proof (cases rule: receive_Inr_cases)
    case buffered
    have "wire_figures (s\<lparr>fs_pending := fs_pending s'\<rparr>) ws []" using exact by (simp add: wire_figures_def)
    then have "wire_exact (s\<lparr>fs_pending := fs_pending s'\<rparr>)" by (auto simp: wire_exact_def)
    then show ?thesis by (rule ssubst [OF buffered(2), of wire_exact])
  next
    case single
    from wire_frame(1) [OF exact single(3)] single(2) show ?thesis by (auto simp: wire_exact_def records_in_def)
  next
    case (bulk w s1 rest)
    then have "records_in w = length (f # rest)" by (simp add: records_in_def expand_def)
    with wire_frame(2) [OF exact bulk(2), of rest] show ?thesis unfolding bulk(5) wire_exact_def by auto
  qed
next
  fix s e s' assume "wire_exact s" and run: "receive s = (Inl e, s')"
  then obtain ws where exact: "wire_figures s ws []" by (auto simp: wire_exact_def)
  have empty: "fs_pending s = []" using run by (auto simp: receive_def split: list.splits)
  obtain r t where frame: "receive_wire_frame s = (r, t)" by force
  have t: "s' = t" "\<And>w. r = Inr w \<Longrightarrow> records_in w = 0"
    using run frame empty
    by (auto simp: receive_def mbind_run mseq_run atomic_run records_in_def expand_def split: sum.splits if_splits list.splits)
  show "wire_sound s'"
  proof (cases r)
    case (Inl e')
    with wire_frame_cut [OF exact] frame t(1) show ?thesis by (auto simp: wire_sound_def)
  next
    case (Inr w)
    with wire_frame(1) [OF exact] frame t show ?thesis unfolding wire_sound_def by blast
  qed
qed

section \<open>The work list\<close>

definition reports_ok :: "int \<Rightarrow> int \<Rightarrow> int \<Rightarrow> (int \<times> int) list \<Rightarrow> bool" where
  "reports_ok completed pending scheduled reports \<longleftrightarrow>
     sorted (map fst reports) \<and>
     (\<forall>(c, remain) \<in> set reports. 0 \<le> c \<and> c \<le> completed \<and> 0 \<le> remain \<and> remain \<le> pending \<and> c + remain \<le> scheduled)"

lemma reports_ok_mono:
  "reports_ok c p n rs \<Longrightarrow> c \<le> c' \<Longrightarrow> p \<le> p' \<Longrightarrow> n \<le> n' \<Longrightarrow> reports_ok c' p' n' rs"
  by (fastforce simp: reports_ok_def)

lemma reports_ok_snoc:
  "reports_ok c p n rs \<Longrightarrow> 0 \<le> c \<Longrightarrow> 0 \<le> r \<Longrightarrow> r \<le> p \<Longrightarrow> c + r \<le> n \<Longrightarrow> reports_ok c p n (rs @ [(c, r)])"
  by (auto simp: reports_ok_def sorted_append)

definition agenda :: "int \<Rightarrow> nat \<Rightarrow> session \<Rightarrow> bool" where
  "agenda p k s \<longleftrightarrow>
     finite (ss_scheduled s) \<and> distinct (ss_pending s) \<and> set (ss_pending s) \<subseteq> ss_scheduled s \<and>
     0 \<le> ss_completed s \<and> ss_completed s + int (length (ss_pending s)) + int k = int (card (ss_scheduled s)) \<and>
     object_count (ss_stats s) = ss_completed s \<and> scheduled_peak (ss_stats s) = int (card (ss_scheduled s)) \<and>
     p \<le> pending_peak (ss_stats s) \<and>
     int (length (ss_pending s)) \<le> pending_peak (ss_stats s) \<and> pending_peak (ss_stats s) \<le> int (card (ss_scheduled s)) \<and>
     reports_ok (ss_completed s) (pending_peak (ss_stats s)) (int (card (ss_scheduled s))) (ss_progress s)"

lemma agenda_init: "agenda 0 0 (session_init cfg sk)"
  by (simp add: agenda_def session_init_def capture_stats0_def reports_ok_def)

lemma agenda_same:
  assumes "agenda p k s" and "ss_scheduled s' = ss_scheduled s" and "ss_pending s' = ss_pending s"
    and "ss_completed s' = ss_completed s" and "ss_stats s' = ss_stats s" and "ss_progress s' = ss_progress s"
  shows "agenda p k s'"
  using assms(1) by (simp only: agenda_def assms(2-6))

lemma schedule_progress [simp]: "ss_progress (schedule as s) = ss_progress s"
proof -
  have "ss_progress (fold schedule_one as s) = ss_progress s"
    by (induction as arbitrary: s) (simp_all add: schedule_one_def)
  then show ?thesis by (simp add: schedule_def Let_def)
qed

lemma agenda_schedule:
  assumes "agenda p k s"
  shows "agenda p k (schedule as s)"
proof -
  let ?t = "fold schedule_one as s"
  have "extends (set as) s ?t" using extends_fold [of as "\<lambda>a. {a}" schedule_one s] extends_one by simp
  then obtain new where new: "ss_pending ?t = ss_pending s @ new" "distinct new"
    "set new = set as - {0} - ss_scheduled s" and sched: "ss_scheduled ?t = ss_scheduled s \<union> (set as - {0})"
    by (auto simp: extends_def)
  have fin: "finite (ss_scheduled s)" using assms by (simp add: agenda_def)
  have part: "ss_scheduled ?t = ss_scheduled s \<union> set new" "ss_scheduled s \<inter> set new = {}"
    unfolding sched new(3) by blast+
  then have card: "card (ss_scheduled ?t) = card (ss_scheduled s) + length new"
    by (simp add: card_Un_disjoint fin distinct_card [OF new(2)])
  have fields: "ss_scheduled (schedule as s) = ss_scheduled ?t" "ss_pending (schedule as s) = ss_pending ?t"
    "pending_peak (ss_stats (schedule as s)) = max (pending_peak (ss_stats s)) (int (length (ss_pending ?t)))"
    "scheduled_peak (ss_stats (schedule as s)) = max (scheduled_peak (ss_stats s)) (int (card (ss_scheduled ?t)))"
    by (simp_all add: schedule_def Let_def)
  have "finite (ss_scheduled ?t)" "distinct (ss_pending ?t)" "set (ss_pending ?t) \<subseteq> ss_scheduled ?t"
    using assms new part by (auto simp: agenda_def)
  then show ?thesis
    using assms unfolding agenda_def fields schedule_frame schedule_progress card new(1)
    by (auto elim: reports_ok_mono)
qed

lemma agenda_fold: "(\<And>x s. agenda p k s \<Longrightarrow> agenda p k (f x s)) \<Longrightarrow> agenda p k s \<Longrightarrow> agenda p k (fold f xs s)"
  by (induction xs arbitrary: s) simp_all

lemma agenda_object:
  assumes "agenda p (Suc k) s"
  shows "agenda p k (schedule_object it obj s)"
proof -
  define s1 where "s1 = schedule (it (co_referents obj))
    (s\<lparr>ss_types := dict_set (co_type_address obj) (co_type_name obj) (ss_types s)\<rparr>)"
  define s2 where "s2 = (if co_content_kind obj = KIND_DICT
    then fold (\<lambda>(key, val). schedule [key, val]) (co_dict_content obj) s1 else schedule (co_sequence_content obj) s1)"
  define s3 where "s3 = schedule [co_type_address obj] (schedule (map attr_address (co_attributes obj)) s2)"
  have "agenda p (Suc k) (s\<lparr>ss_types := ts\<rparr>)" for ts by (rule agenda_same [OF assms]) simp_all
  then have "agenda p (Suc k) s1" unfolding s1_def by (rule agenda_schedule)
  then have "agenda p (Suc k) s2"
    unfolding s2_def by (auto intro!: agenda_schedule agenda_fold)
  then have "agenda p (Suc k) s3" unfolding s3_def by (intro agenda_schedule)
  moreover have "schedule_object it obj s = s3\<lparr>ss_completed := ss_completed s3 + 1,
      ss_stats := (ss_stats s3)\<lparr>object_count := ss_completed s3 + 1,
        referent_count := referent_count (ss_stats s3) + int (card (co_referents obj))\<rparr>\<rparr>"
    by (simp only: schedule_object_def Let_def s3_def s2_def s1_def)
  ultimately show ?thesis by (auto simp: agenda_def elim: reports_ok_mono)
qed

lemma agenda_take:
  assumes "agenda p 0 s" and "take_batch cfg s = (batch, t)"
  shows "agenda p (length batch) t"
proof -
  let ?n = "nat (min (cl_batch_size cfg) (int (length (ss_pending s))))"
  from assms(2) have batch: "batch = take ?n (rev (ss_pending s))"
    and t: "t = s\<lparr>ss_pending := take (length (ss_pending s) - ?n) (ss_pending s)\<rparr>"
    by (auto simp: take_batch_def Let_def)
  have "?n \<le> length (ss_pending s)" by simp
  moreover have "set (take m (ss_pending s)) \<subseteq> ss_scheduled s" for m
    using assms(1) set_take_subset [of m] by (fastforce simp: agenda_def)
  ultimately show ?thesis using assms(1) unfolding t batch agenda_def by fastforce
qed

lemma agenda_report:
  assumes "agenda p 0 s"
  shows "agenda p 0 (s\<lparr>ss_progress := ss_progress s @ [(ss_completed s, int (length (ss_pending s)))]\<rparr>)"
  using assms by (auto simp: agenda_def intro!: reports_ok_snoc)

section \<open>The session\<close>

definition books :: "int \<Rightarrow> nat \<Rightarrow> session \<Rightarrow> bool" where
  "books p k s \<longleftrightarrow> agenda p k s \<and> wire_exact (ss_channel s)"

definition books_shut :: "int \<Rightarrow> session \<Rightarrow> bool" where
  "books_shut p s \<longleftrightarrow> (\<exists>k. agenda p k s) \<and> wire_sound (ss_channel s)"

abbreviation keeps_books :: "int \<Rightarrow> nat \<Rightarrow> (session, 'a) py \<Rightarrow> bool" where
  "keeps_books p k \<equiv> upholds (books p k) (books p k) (books_shut p)"

lemma books_shut: "books p k s \<Longrightarrow> books_shut p s"
  by (auto simp: books_def books_shut_def wire_exact_sound)

lemma books_same:
  assumes "books p k s" and "agenda p k s \<Longrightarrow> agenda p k s'" and "ss_channel s' = ss_channel s"
  shows "books p k s'"
  using assms by (simp add: books_def)

lemma books_on_channel:
  assumes "upholds wire_exact wire_exact wire_sound m"
  shows "keeps_books p k (on_channel m)"
proof (rule upholdsI)
  fix s x s' assume "books p k s" and "on_channel m s = (Inr x, s')"
  with assms show "books p k s'"
    by (auto simp: on_channel_run books_def dest: upholdsD intro: agenda_same)
next
  fix s e s' assume "books p k s" and "on_channel m s = (Inl e, s')"
  with assms show "books_shut p s'"
    by (auto simp: on_channel_run books_def books_shut_def dest: upholdsD intro!: exI [of _ k] intro: agenda_same)
qed

lemma books_on_writer: "keeps_books p k (on_writer m)"
proof -
  have "books p k (s\<lparr>ss_writer := w\<rparr>)" if "books p k s" for s w
    using that by (rule books_same) (auto intro: agenda_same)
  then show ?thesis by (auto simp: upholds_def on_writer_def split: sum.splits prod.splits dest: books_shut)
qed

lemma books_bind: "keeps_books p k m \<Longrightarrow> (\<And>x. keeps_books p k (f x)) \<Longrightarrow> keeps_books p k (mbind m f)"
  by (rule upholds_bind)

lemma books_seq: "keeps_books p k m \<Longrightarrow> keeps_books p k q \<Longrightarrow> keeps_books p k (mseq m q)"
  by (rule upholds_seq)

lemmas books_rules = books_bind books_seq upholds_return upholds_raise [OF books_shut] upholds_lift [OF books_shut]
  upholds_if upholds_option books_on_channel [OF wire_receive] books_on_channel [OF wire_send] books_on_writer

lemma books_expect: "keeps_books p k (expect kind)"
  unfolding expect_def by (intro books_rules)

lemma books_unexpected: "books p k s \<Longrightarrow> \<exists>e. raise_unexpected f stage s = (Inl e, s)"
  by (simp add: raise_unexpected_def atomic_run)

lemma books_receive:
  assumes "books p k s" and "on_channel receive s = (r, t)"
  shows "(\<forall>e. r = Inl e \<longrightarrow> books_shut p t) \<and> (\<forall>f. r = Inr f \<longrightarrow> books p k t)"
  using upholdsD [OF books_on_channel [OF wire_receive] assms] .

lemma books_schedule: "books p k s \<Longrightarrow> books p k (schedule as s)"
  by (auto intro: books_same agenda_schedule)

lemma books_root_loop: "keeps_books p k root_loop"
proof -
  have "books p k s \<Longrightarrow> case root_loop s of (Inl e, s') \<Rightarrow> books_shut p s' | (Inr x, s') \<Rightarrow> books p k s'" for s
  proof (induction s rule: root_loop.induct)
    case (1 s)
    obtain r t where rcv: "on_channel receive s = (r, t)" by force
    note got = books_receive [OF 1(2) rcv]
    show ?case
    proof (cases r)
      case (Inl e)
      then show ?thesis using rcv got by (simp add: root_loop.simps [of s])
    next
      case (Inr f)
      have "case root_loop (schedule as t) of (Inl e, s') \<Rightarrow> books_shut p s' | (Inr x, s') \<Rightarrow> books p k s'"
        if "fkind f = ROOT_BATCH" "decode_addresses (fpayload f) = Inr as" for as
        by (rule 1(1) [OF rcv [symmetric] Inr that]) (use got Inr in \<open>simp add: books_schedule\<close>)
      moreover from got Inr have "books p k t" "books_shut p t" by (auto intro: books_shut)
      ultimately show ?thesis using rcv Inr
        by (simp add: root_loop.simps [of s] raise_unexpected_def atomic_run split: sum.splits)
    qed
  qed
  then show ?thesis by (simp add: upholds_def)
qed

lemma books_object_loop: "keeps_books p k (object_loop cfg a obj)"
proof -
  have "books p k s \<Longrightarrow> case object_loop cfg a obj s of (Inl e, s') \<Rightarrow> books_shut p s' | (Inr x, s') \<Rightarrow> books p k s'" for s
  proof (induction cfg a obj s rule: object_loop.induct)
    case (1 cfg a obj s)
    obtain r t where rcv: "on_channel receive s = (r, t)" by force
    note got = books_receive [OF 1(6) rcv]
    show ?case
    proof (cases r)
      case (Inl e)
      then show ?thesis using rcv got by (simp add: object_loop.simps [of cfg a obj s])
    next
      case (Inr f)
      with got have t: "books p k t" by blast
      then have "books p k (t\<lparr>ss_warnings := ws\<rparr>)" for ws by (rule books_same) (auto intro: agenda_same)
      with 1(1-5) [OF rcv [symmetric] Inr] t show ?thesis using rcv Inr
        by (cases "fkind f")
          (simp_all add: object_loop.simps [of cfg a obj s] raise_unexpected_def atomic_run books_shut [OF t] split: sum.splits)
    qed
  qed
  then show ?thesis by (simp add: upholds_def)
qed

lemma books_receive_object: "keeps_books p k (receive_object cfg a)"
  unfolding receive_object_def by (intro books_rules books_expect books_object_loop)

lemma books_capture_object: "upholds (books p (Suc k)) (books p k) (books_shut p) (capture_object it cfg known a)"
proof -
  have "books p k (schedule_object it obj s)" if "books p (Suc k) s" for obj s
    using that agenda_object by (simp add: books_def schedule_object_channel)
  then show ?thesis
    unfolding capture_object_def
    by (intro upholds_bind [OF books_receive_object] upholds_seq [OF books_on_writer] upholds_modify)
qed

lemma books_open: "keeps_books p k (open_session cfg now)"
  unfolding open_session_def by (intro books_rules books_expect)

lemma books_roots: "keeps_books p k (enumerate_roots known)"
proof -
  have "books p k ((schedule known s)\<lparr>ss_types := ts\<rparr>)" if "books p k s" for s ts
    using books_schedule [OF that, of known] by (rule books_same) (auto intro: agenda_same)
  then show ?thesis unfolding enumerate_roots_def by (intro upholds_seq [OF books_root_loop] upholds_modify)
qed

lemma books_batch: "keeps_books p 0 (capture_batch it cfg known)"
proof -
  let ?batch = "\<lambda>batch. mbind (mlift (encode_addresses batch)) (\<lambda>payload.
    mseq (on_channel (send REQUEST_OBJECTS payload)) (mseq (mfor (capture_object it cfg known) batch)
    (mbind (expect BATCH_DONE) (\<lambda>_. report_progress cfg))))"
  have report: "keeps_books p 0 (report_progress cfg)"
    unfolding report_progress_def by (rule upholds_modify) (auto simp: books_def intro: agenda_report)
  have "upholds (books p (length batch)) (books p 0) (books_shut p) (mfor (capture_object it cfg known) batch)" for batch
    by (rule upholds_for [of "books p"]) (rule books_capture_object)
  then have run: "upholds (books p (length batch)) (books p 0) (books_shut p) (?batch batch)" for batch
    by (intro upholds_bind [OF upholds_lift [OF books_shut]] upholds_seq [OF books_on_channel [OF wire_send]]
        upholds_seq [where R = "books p 0"] books_bind books_expect report)
  have taken: "books p (length batch) t" if "books p 0 s" "take_batch cfg s = (batch, t)" for s t batch
    using that agenda_take by (auto simp: books_def take_batch_def Let_def)
  show ?thesis
    by (rule upholdsI)
      (auto simp: capture_batch_def split: prod.splits dest: upholdsD [OF run taken])
qed

lemma books_phase:
  assumes "object_phase it cfg known s = Some (r, s')" and "books p 0 s"
  shows "(\<forall>e. r = Inl e \<longrightarrow> books_shut p s') \<and> (\<forall>u. r = Inr u \<longrightarrow> books p 0 s' \<and> ss_pending s' = [])"
proof -
  let ?P = "\<lambda>it cfg known s q. books p 0 s \<longrightarrow>
    (\<forall>e s'. q = (Inl e, s') \<longrightarrow> books_shut p s') \<and> (\<forall>u s'. q = (Inr u, s') \<longrightarrow> books p 0 s' \<and> ss_pending s' = [])"
  have "?P it cfg known s (r, s')"
  proof (rule object_phase.raw_induct [of ?P, OF _ assms(1)])
    fix phase it cfg known s q
    assume IH: "\<And>it cfg known s q. phase it cfg known s = Some q \<Longrightarrow> ?P it cfg known s q"
      and step: "(if ss_pending s = [] then Some (Inr (), s) else
        case capture_batch it cfg known s of
          (Inl e, s') \<Rightarrow> Some (Inl e, s') | (Inr _, s') \<Rightarrow> phase it cfg known s') = Some q"
    show "?P it cfg known s q"
    proof (cases "ss_pending s = []")
      case True
      with step show ?thesis by auto
    next
      case False
      obtain r t where batch: "capture_batch it cfg known s = (r, t)" by force
      note t = upholdsD [OF books_batch _ batch]
      show ?thesis
      proof (cases r)
        case (Inl e)
        with False batch step t show ?thesis by auto
      next
        case (Inr u)
        with False batch step have "phase it cfg known t = Some q" by simp
        from IH [OF this] t Inr show ?thesis by blast
      qed
    qed
  qed
  with assms(2) show ?thesis by blast
qed

lemma close_session_pending: "close_session s = (Inr n, s') \<Longrightarrow> ss_completed s' = n \<and> ss_pending s' = ss_pending s"
proof -
  assume "close_session s = (Inr n, s')"
  then obtain t1 f t2 u t3 where steps: "on_channel (send FINISH []) s = (Inr (), t1)" "expect COMPLETE t1 = (Inr f, t2)"
    "on_writer (finish (ss_types t2)) t2 = (Inr u, t3)" "n = ss_completed t3" "s' = t3"
    by (auto simp: close_session_def mbind_Inr mseq_Inr atomic_run)
  from steps(1,2) have "quiet s t2" using on_channel_quiet expect_Inr by (blast intro: quiet_trans)
  with steps(3-5) show ?thesis by (auto simp: on_writer_run quiet_def)
qed

lemma books_close: "keeps_books p 0 close_session"
  unfolding close_session_def by (intro books_rules books_expect)

lemma agenda_weaken: "agenda p k s \<Longrightarrow> q \<le> p \<Longrightarrow> agenda q k s"
  by (simp add: agenda_def)

lemma books_weaken: "books p k s \<Longrightarrow> q \<le> p \<Longrightarrow> books q k s" "books_shut p s \<Longrightarrow> q \<le> p \<Longrightarrow> books_shut q s"
  by (auto simp: books_def books_shut_def intro: agenda_weaken)

text \<open>After the roots, each of them and of the known types is pending.\<close>

lemma books_roots_pending:
  assumes "progressed (roots \<union> set known) known w [] [] t" and "books 0 0 t"
  shows "books (int (card (roots \<union> set known - {0}))) 0 t"
proof -
  have work: "work_inv (roots \<union> set known) [] [] t" using assms(1) by (simp add: progressed_def)
  have fin: "finite (ss_scheduled t)" using assms(2) by (simp add: books_def agenda_def)
  have "card (roots \<union> set known - {0}) \<le> card (ss_scheduled t)"
    by (rule card_mono [OF fin work_invD(4) [OF work]])
  moreover have "int (card (ss_scheduled t)) = int (length (ss_pending t))"
    using assms(2) work_invD(8) [OF work] by (simp add: books_def agenda_def)
  ultimately have "int (card (roots \<union> set known - {0})) \<le> pending_peak (ss_stats t)"
    using assms(2) by (simp add: books_def agenda_def)
  with assms(2) show ?thesis by (auto simp: books_def agenda_def)
qed

lemma books_session:
  assumes "capture_session it cfg now (session_init cfg sk) = Some (r, s)" and "sk_sent sk = []" and "sk_taken sk = 0"
    and "appending (sk_peer sk)"
  shows "books_shut 0 s \<and> (\<forall>n. r = Inr n \<longrightarrow> ss_pending s = [] \<and> ss_completed s = n \<and>
    (\<exists>known roots. received_roots cfg now sk known roots \<and> books (int (card (roots \<union> set known - {0}))) 0 s))"
proof -
  have init: "books 0 0 (session_init cfg sk)"
    using wire_exact_init [OF assms(2-4)] agenda_init [of cfg sk] by (simp add: books_def session_init_def)
  have "keeps_books 0 0 (mbind (open_session cfg now) (\<lambda>addresses. mseq (enumerate_roots addresses) (mret addresses)))"
    by (intro books_rules books_open books_roots)
  obtain q t where opened: "mbind (open_session cfg now) (\<lambda>addresses. mseq (enumerate_roots addresses) (mret addresses))
      (session_init cfg sk) = (q, t)" by force
  from upholdsD [OF \<open>keeps_books 0 0 _\<close> init this]
  have t: "\<And>e. q = Inl e \<Longrightarrow> books_shut 0 t" "\<And>x. q = Inr x \<Longrightarrow> books 0 0 t" by auto
  show ?thesis
  proof (cases q)
    case (Inl e)
    with assms(1) opened t show ?thesis by (auto simp: capture_session_def)
  next
    case (Inr known)
    with opened obtain s1 where "open_session cfg now (session_init cfg sk) = (Inr known, s1)" "enumerate_roots known s1 = (Inr (), t)"
      by (auto simp: mbind_Inr mseq_Inr atomic_run)
    from roots_progressed [OF this] obtain roots where roots: "received_roots cfg now sk known roots"
      "progressed (roots \<union> set known) known (ss_writer s1) [] [] t" by blast
    define p where "p = int (card (roots \<union> set known - {0}))"
    have start: "books p 0 t" unfolding p_def by (rule books_roots_pending [OF roots(2) t(2) [OF Inr]])
    have p: "0 \<le> p" by (simp add: p_def)
    from Inr assms(1) opened obtain q2 t2 where phase: "object_phase it cfg (known_types known) t = Some (q2, t2)"
      by (auto simp: capture_session_def split: option.splits)
    note ph = books_phase [OF phase start]
    show ?thesis
    proof (cases q2)
      case (Inl e)
      with assms(1) opened Inr phase ph p show ?thesis by (auto simp: capture_session_def intro: books_weaken)
    next
      case ok: (Inr u)
      with assms(1) opened Inr phase have closed: "close_session t2 = (r, s)" by (auto simp: capture_session_def)
      from ph ok have t2: "books p 0 t2" "ss_pending t2 = []" by auto
      from upholdsD [OF books_close t2(1) closed] have s: "\<And>e. r = Inl e \<Longrightarrow> books_shut p s" "\<And>x. r = Inr x \<Longrightarrow> books p 0 s"
        by auto
      show ?thesis
      proof (cases r)
        case (Inl e)
        with s p show ?thesis by (auto intro: books_weaken)
      next
        case fin: (Inr n)
        with closed have "ss_completed s = n \<and> ss_pending s = []"
          using close_session_pending [of t2 n s] t2(2) by auto
        with fin s(2) [OF fin] p roots(1) show ?thesis by (auto simp: p_def intro: books_shut books_weaken)
      qed
    qed
  qed
qed

section \<open>Properties\<close>

lemma close_stats_figures:
  "sent_bytes (fs_stats (ss_channel s)) = wire_sent_bytes (close_stats s)"
  "received_bytes (fs_stats (ss_channel s)) = wire_received_bytes (close_stats s)"
  "sent_frames (fs_stats (ss_channel s)) = wire_sent_frames (close_stats s)"
  "received_frames (fs_stats (ss_channel s)) = wire_received_frames (close_stats s)"
  "received_records (fs_stats (ss_channel s)) = bulk_records (close_stats s)"
  "object_count (ss_stats s) = object_count (close_stats s)"
  "pending_peak (ss_stats s) = pending_peak (close_stats s)"
  "scheduled_peak (ss_stats s) = scheduled_peak (close_stats s)"
  by (simp_all add: close_stats_def Let_def)

text \<open>
  C39: The figures of the profile are true, whatever the peer sends and however the session ends, for a
  peer that does not withdraw what it has written. The bytes and frames sent are those that the socket was
  given. What was read from the socket is a sequence of whole frames and then what was read of one that
  did not arrive whole or cannot be read; the bytes, the frames and the bulk records received are those of the
  whole frames. The peak of the scheduled addresses is their number, at least the objects counted. The peak of the
  pending ones is a bound: not less than are pending at the end or in any progress report, not more than were
  scheduled. The progress reports are in order and agree with both peaks. After a success each scheduled object
  is counted, each byte read belongs to a whole frame, and the peak of the pending ones is at least the number of
  the roots and known types, which are all pending when the first batch is requested.
\<close>

theorem profile_figures:
  assumes "capture_session it cfg now (session_init cfg sk) = Some (r, s)" and "sk_sent sk = []" and "sk_taken sk = 0"
    and "appending (sk_peer sk)"
  shows "(\<exists>frames. sk_sent (fs_sock (ss_channel s)) = frames_wire frames \<and> wire_sent_frames (close_stats s) = int (length frames)) \<and>
    wire_sent_bytes (close_stats s) = int (length (sk_sent (fs_sock (ss_channel s)))) \<and>
    (\<exists>ws torn. heard (fs_sock (ss_channel s)) = frames_wire ws @ torn \<and> parse_wire torn = None \<and>
       wire_received_bytes (close_stats s) = int (length (frames_wire ws)) \<and>
       wire_received_frames (close_stats s) = int (length ws) \<and>
       bulk_records (close_stats s) = int (sum_list (map records_in ws)) \<and>
       (\<forall>n. r = Inr n \<longrightarrow> torn = [])) \<and>
    scheduled_peak (close_stats s) = int (card (ss_scheduled s)) \<and>
    object_count (close_stats s) + int (length (ss_pending s)) \<le> scheduled_peak (close_stats s) \<and>
    int (length (ss_pending s)) \<le> pending_peak (close_stats s) \<and> pending_peak (close_stats s) \<le> scheduled_peak (close_stats s) \<and>
    sorted (map fst (ss_progress s)) \<and>
    (\<forall>(completed, remain) \<in> set (ss_progress s). 0 \<le> completed \<and> completed \<le> object_count (close_stats s) \<and>
       remain \<le> pending_peak (close_stats s) \<and> completed + remain \<le> scheduled_peak (close_stats s)) \<and>
    (\<forall>n. r = Inr n \<longrightarrow> object_count (close_stats s) = n \<and> scheduled_peak (close_stats s) = n \<and>
       (\<exists>known roots. received_roots cfg now sk known roots \<and>
         int (card (roots \<union> set known - {0})) \<le> pending_peak (close_stats s)))"
proof -
  from books_session [OF assms] obtain k where k: "agenda 0 k s" "wire_sound (ss_channel s)"
    and won: "\<And>n. r = Inr n \<Longrightarrow> ss_pending s = [] \<and> ss_completed s = n \<and>
      (\<exists>known roots. received_roots cfg now sk known roots \<and> books (int (card (roots \<union> set known - {0}))) 0 s)"
    by (auto simp: books_shut_def)
  have last: "object_count (close_stats s) = n \<and> scheduled_peak (close_stats s) = n \<and>
       (\<exists>known roots. received_roots cfg now sk known roots \<and>
         int (card (roots \<union> set known - {0})) \<le> pending_peak (close_stats s))" if "r = Inr n" for n
    using won [OF that] unfolding books_def agenda_def close_stats_figures by auto
  have "\<exists>ws torn. wire_figures (ss_channel s) ws torn \<and> (\<forall>n. r = Inr n \<longrightarrow> torn = [])"
  proof (cases r)
    case (Inl e)
    with k(2) show ?thesis by (auto simp: wire_sound_def)
  next
    case (Inr n)
    with won [OF Inr] show ?thesis by (auto simp: books_def wire_exact_def)
  qed
  then obtain ws torn where figures: "wire_figures (ss_channel s) ws torn" "\<forall>n. r = Inr n \<longrightarrow> torn = []" by blast
  from figures(1) have sent: "\<exists>frames. sk_sent (fs_sock (ss_channel s)) = frames_wire frames \<and>
      wire_sent_frames (close_stats s) = int (length frames)"
    "wire_sent_bytes (close_stats s) = int (length (sk_sent (fs_sock (ss_channel s))))"
    and received: "heard (fs_sock (ss_channel s)) = frames_wire ws @ torn" "parse_wire torn = None"
    "wire_received_bytes (close_stats s) = int (length (frames_wire ws))"
    "wire_received_frames (close_stats s) = int (length ws)"
    "bulk_records (close_stats s) = int (sum_list (map records_in ws))"
    unfolding wire_figures_def close_stats_figures by simp_all
  from k(1) have work: "scheduled_peak (close_stats s) = int (card (ss_scheduled s))"
    "object_count (close_stats s) + int (length (ss_pending s)) \<le> scheduled_peak (close_stats s)"
    "int (length (ss_pending s)) \<le> pending_peak (close_stats s)"
    "pending_peak (close_stats s) \<le> scheduled_peak (close_stats s)"
    and reports: "reports_ok (object_count (close_stats s)) (pending_peak (close_stats s)) (scheduled_peak (close_stats s)) (ss_progress s)"
    unfolding agenda_def close_stats_figures by simp_all
  from reports have order: "sorted (map fst (ss_progress s))" and parts: "\<forall>(completed, remain) \<in> set (ss_progress s). 0 \<le> completed \<and>
      completed \<le> object_count (close_stats s) \<and> remain \<le> pending_peak (close_stats s) \<and>
      completed + remain \<le> scheduled_peak (close_stats s)" unfolding reports_ok_def by auto
  have "\<exists>ws torn. heard (fs_sock (ss_channel s)) = frames_wire ws @ torn \<and> parse_wire torn = None \<and>
       wire_received_bytes (close_stats s) = int (length (frames_wire ws)) \<and>
       wire_received_frames (close_stats s) = int (length ws) \<and>
       bulk_records (close_stats s) = int (sum_list (map records_in ws)) \<and> (\<forall>n. r = Inr n \<longrightarrow> torn = [])"
    using received figures(2) by (intro exI [of _ ws] exI [of _ torn]) simp
  moreover have "\<forall>n. r = Inr n \<longrightarrow> object_count (close_stats s) = n \<and> scheduled_peak (close_stats s) = n \<and>
       (\<exists>known roots. received_roots cfg now sk known roots \<and>
         int (card (roots \<union> set known - {0})) \<le> pending_peak (close_stats s))"
    using last by blast
  ultimately show ?thesis using sent work order parts by (intro conjI)
qed

theorem profile_figures_witness:
  "\<exists>n s frames ws. capture_session sorted_list_of_set demo_cfg (lit ''now'') (session_init demo_cfg demo_sock) = Some (Inr n, s) \<and>
    sk_sent (fs_sock (ss_channel s)) = frames_wire frames \<and> wire_sent_frames (close_stats s) = int (length frames) \<and>
    heard (fs_sock (ss_channel s)) = frames_wire ws \<and> wire_received_frames (close_stats s) = int (length ws) \<and>
    scheduled_peak (close_stats s) = n"
proof -
  from agent_session [OF iterates_sorted demo_honest demo_fits] obtain n s where
    run: "capture_session sorted_list_of_set demo_cfg (lit ''now'') (session_init demo_cfg demo_sock) = Some (Inr n, s)" by blast
  have "sk_sent demo_sock = []" "sk_taken demo_sock = 0" "appending (sk_peer demo_sock)"
    by (simp_all add: agent_socket_def appending_agent)
  from profile_figures [OF run this] run show ?thesis by auto
qed

end
