(* ===== verification/Argparse.thy ===== *)
theory Argparse
  imports Py_Text
begin

text \<open>
  \<^verbatim>\<open>argparse\<close> of the Python standard library (as of 3.12.0), as the two command lines use it:
  options with one value, a type and maybe choices; flags; options that print something and stop; options
  that are required, and one group of options of which exactly one is required. A parser takes an
  abbreviation of a long name, or not (\<^verbatim>\<open>allow_abbrev\<close>). A command line is parsed, or it is refused
  with exit code 2, or it only asks for help or the version. An abbreviation of more than one name is refused
  before anything is read; later releases refuse it where it stands. No flag that is stored has a
  one-letter name; a cluster of letters behind \<open>-h\<close> asks for help, if all of them are options.
\<close>

section \<open>Options\<close>

datatype 'v option_action = Store "pystr \<Rightarrow> 'v res" | Flag 'v | Show

record 'v option_spec =
  op_names :: "pystr list"
  op_dest :: pystr
  op_action :: "'v option_action"
  op_required :: bool
  op_exclusive :: bool

datatype usage =
    Expected_argument pystr
  | Ignored_argument pystr pystr
  | Invalid_value pystr exn
  | Not_allowed pystr
  | Missing "pystr list"
  | Missing_group
  | Unrecognized "pystr list"
  | Invalid_choice pystr
  | Ambiguous_option pystr

datatype 'a parse = Parsed 'a | Shown | Usage usage

primrec parse_bind :: "'a parse \<Rightarrow> ('a \<Rightarrow> 'b parse) \<Rightarrow> 'b parse" where
  "parse_bind (Parsed x) f = f x"
| "parse_bind Shown f = Shown"
| "parse_bind (Usage u) f = Usage u"

section \<open>The kinds of arguments\<close>

datatype 'v token =
    Argument pystr
  | Dashes
  | Option "'v option_spec" pystr "pystr option"
  | Unknown pystr
  | Ambiguous pystr

definition find_option :: "'v option_spec list \<Rightarrow> pystr \<Rightarrow> 'v option_spec option" where
  "find_option options name = find (\<lambda>o'. name \<in> set (op_names o')) options"

text \<open>\<^verbatim>\<open>^-\d+$|^-\d*\.\d+$\<close>, where \<^verbatim>\<open>$\<close> also matches before a last line feed.\<close>

definition is_digit :: "nat \<Rightarrow> bool" where
  "is_digit c \<longleftrightarrow> digit_value c \<noteq> None"

definition negative_number :: "pystr \<Rightarrow> bool" where
  "negative_number s \<longleftrightarrow>
     (let whole = takeWhile is_digit (tl s); rest = dropWhile is_digit (tl s);
          ends = (\<lambda>t. t = [] \<or> t = [10]) in
      starts_with [45] s \<and>
      (whole \<noteq> [] \<and> ends rest \<or>
       starts_with [46] rest \<and> takeWhile is_digit (tl rest) \<noteq> [] \<and> ends (dropWhile is_digit (tl rest))))"

text \<open>
  The options an argument may mean, when it is not the name of one: of a long name every option that begins so,
  with the text behind an equals sign as its value; of a short one the option of its letter, with the rest as its value.
\<close>

definition option_matches ::
  "bool \<Rightarrow> 'v option_spec list \<Rightarrow> pystr \<Rightarrow> ('v option_spec \<times> pystr \<times> pystr option) list" where
  "option_matches abbrev options s =
     (let name = takeWhile (\<lambda>c. c \<noteq> 61) s;
          value = (if 61 \<in> set s then Some (tl (dropWhile (\<lambda>c. c \<noteq> 61) s)) else None) in
      if starts_with [45, 45] s then
        if abbrev
        then concat (map (\<lambda>o'. map (\<lambda>n. (o', n, value)) (filter (starts_with name) (op_names o'))) options)
        else []
      else
        (case find_option options (take 2 s) of
           None \<Rightarrow> []
         | Some o' \<Rightarrow> [(o', take 2 s, Some (drop 2 s))]))"

definition classify :: "bool \<Rightarrow> 'v option_spec list \<Rightarrow> pystr \<Rightarrow> 'v token" where
  "classify abbrev options s =
     (if \<not> starts_with [45] s then Argument s
      else
        (case find_option options s of
           Some o' \<Rightarrow> Option o' s None
         | None \<Rightarrow>
             if length s = 1 then Argument s
             else
               let name = takeWhile (\<lambda>c. c \<noteq> 61) s in
               (case (if 61 \<in> set s then find_option options name else None) of
                  Some o' \<Rightarrow> Option o' name (Some (tl (dropWhile (\<lambda>c. c \<noteq> 61) s)))
                | None \<Rightarrow>
                    (case option_matches abbrev options s of
                       [(o', full, value)] \<Rightarrow> Option o' full value
                     | [] \<Rightarrow> if negative_number s \<or> 32 \<in> set s then Argument s else Unknown s
                     | _ \<Rightarrow> Ambiguous s))))"

fun tokens :: "bool \<Rightarrow> 'v option_spec list \<Rightarrow> pystr list \<Rightarrow> 'v token list" where
  "tokens abbrev options [] = []"
| "tokens abbrev options (s # ss) =
     (if s = [45, 45] then Dashes # map Argument ss else classify abbrev options s # tokens abbrev options ss)"

fun ambiguous :: "'v token list \<Rightarrow> pystr option" where
  "ambiguous [] = None"
| "ambiguous (Ambiguous s # ts) = Some s"
| "ambiguous (t # ts) = ambiguous ts"

section \<open>Parsing\<close>

record 'v parse_state =
  ap_values :: "pystr \<rightharpoonup> 'v"
  ap_seen :: "pystr set"
  ap_extras :: "pystr list"

definition exclusive_dests :: "'v option_spec list \<Rightarrow> pystr set" where
  "exclusive_dests options = op_dest ` {o' \<in> set options. op_exclusive o'}"

definition set_value :: "'v option_spec \<Rightarrow> 'v \<Rightarrow> 'v parse_state \<Rightarrow> 'v parse_state" where
  "set_value o' v st =
     st\<lparr>ap_values := (ap_values st)(op_dest o' \<mapsto> v), ap_seen := insert (op_dest o') (ap_seen st)\<rparr>"

definition add_extra :: "pystr \<Rightarrow> 'v parse_state \<Rightarrow> 'v parse_state" where
  "add_extra s st = st\<lparr>ap_extras := ap_extras st @ [s]\<rparr>"

text \<open>The value is converted; then a second option of the group is refused.\<close>

definition take_value ::
  "'v option_spec list \<Rightarrow> 'v option_spec \<Rightarrow> pystr \<Rightarrow> 'v res \<Rightarrow> 'v parse_state \<Rightarrow> 'v parse_state parse" where
  "take_value options o' name r st =
     (case r of
        Inl e \<Rightarrow> Usage (Invalid_value name e)
      | Inr v \<Rightarrow>
          if op_exclusive o' \<and> ap_seen st \<inter> exclusive_dests options - {op_dest o'} \<noteq> {}
          then Usage (Not_allowed name)
          else Parsed (set_value o' v st))"

text \<open>A cluster behind an option that only shows something: why it is refused, if it is.\<close>

fun cluster_error :: "'v option_spec list \<Rightarrow> pystr \<Rightarrow> pystr \<Rightarrow> bool \<Rightarrow> usage option" where
  "cluster_error options name [] value_follows = Some (Ignored_argument name [])"
| "cluster_error options name (c # s) value_follows =
     (if starts_with [45, 45] name then Some (Ignored_argument name (c # s))
      else
        (case find_option options [45, c] of
           None \<Rightarrow> Some (Ignored_argument name (c # s))
         | Some o' \<Rightarrow>
             (case op_action o' of
                Store f \<Rightarrow> if s = [] \<and> \<not> value_follows then Some (Expected_argument [45, c]) else None
              | _ \<Rightarrow> if s = [] then None else cluster_error options [45, c] s value_follows)))"

definition show_cluster :: "'v option_spec list \<Rightarrow> pystr \<Rightarrow> pystr \<Rightarrow> bool \<Rightarrow> 'a parse" where
  "show_cluster options name s value_follows =
     (case cluster_error options name s value_follows of None \<Rightarrow> Shown | Some u \<Rightarrow> Usage u)"

definition argument_follows :: "'v token list \<Rightarrow> bool" where
  "argument_follows ts = (case ts of Argument s # _ \<Rightarrow> True | _ \<Rightarrow> False)"

fun parse_tokens :: "'v option_spec list \<Rightarrow> 'v token list \<Rightarrow> 'v parse_state \<Rightarrow> 'v parse_state parse" where
  "parse_tokens options [] st = Parsed st"
| "parse_tokens options (Argument s # ts) st = parse_tokens options ts (add_extra s st)"
| "parse_tokens options (Dashes # ts) st = parse_tokens options ts (add_extra [45, 45] st)"
| "parse_tokens options (Unknown s # ts) st = parse_tokens options ts (add_extra s st)"
| "parse_tokens options (Ambiguous s # ts) st = Usage (Ambiguous_option s)"
| "parse_tokens options (Option o' name (Some s) # ts) st =
     (case op_action o' of
        Store f \<Rightarrow> parse_bind (take_value options o' name (f s) st) (parse_tokens options ts)
      | Flag v \<Rightarrow> Usage (Ignored_argument name s)
      | Show \<Rightarrow> show_cluster options name s (argument_follows ts))"
| "parse_tokens options [Option o' name None] st =
     (case op_action o' of
        Store f \<Rightarrow> Usage (Expected_argument name)
      | Flag v \<Rightarrow> take_value options o' name (Inr v) st
      | Show \<Rightarrow> Shown)"
| "parse_tokens options (Option o' name None # t # ts) st =
     (case op_action o' of
        Store f \<Rightarrow>
          (case t of
             Argument s \<Rightarrow> parse_bind (take_value options o' name (f s) st) (parse_tokens options ts)
           | _ \<Rightarrow> Usage (Expected_argument name))
      | Flag v \<Rightarrow> parse_bind (take_value options o' name (Inr v) st) (parse_tokens options (t # ts))
      | Show \<Rightarrow> Shown)"

text \<open>What is required, after the last argument; then what was not recognised.\<close>

definition check_required :: "'v option_spec list \<Rightarrow> 'v parse_state \<Rightarrow> 'v parse_state parse" where
  "check_required options st =
     (let missing = filter (\<lambda>o'. op_required o' \<and> op_dest o' \<notin> ap_seen st) options in
      if missing \<noteq> [] then Usage (Missing (map op_dest missing))
      else if exclusive_dests options \<noteq> {} \<and> ap_seen st \<inter> exclusive_dests options = {} then Usage Missing_group
      else Parsed st)"

definition parse_known ::
  "bool \<Rightarrow> 'v option_spec list \<Rightarrow> (pystr \<rightharpoonup> 'v) \<Rightarrow> pystr list \<Rightarrow> 'v parse_state parse" where
  "parse_known abbrev options defaults args =
     (case ambiguous (tokens abbrev options args) of
        Some s \<Rightarrow> Usage (Ambiguous_option s)
      | None \<Rightarrow>
          parse_bind
            (parse_tokens options (tokens abbrev options args) \<lparr>ap_values = defaults, ap_seen = {}, ap_extras = []\<rparr>)
            (check_required options))"

definition parse_all ::
  "bool \<Rightarrow> 'v option_spec list \<Rightarrow> (pystr \<rightharpoonup> 'v) \<Rightarrow> pystr list \<Rightarrow> (pystr \<rightharpoonup> 'v) parse" where
  "parse_all abbrev options defaults args =
     parse_bind (parse_known abbrev options defaults args) (\<lambda>st.
     if ap_extras st \<noteq> [] then Usage (Unrecognized (ap_extras st)) else Parsed (ap_values st))"

text \<open>
  A parser with only its help option and the names of commands, each with a parser of its own. It takes no
  abbreviations, but those of the commands do, as it is their default. Options that it does
  not know are kept for the end. Two dashes are the name of a command, as long as something follows them.
\<close>

fun parse_command ::
  "'v option_spec list \<Rightarrow> (pystr \<rightharpoonup> 'v option_spec list \<times> (pystr \<rightharpoonup> 'v)) \<Rightarrow> pystr list \<Rightarrow> pystr list \<Rightarrow>
   (pystr \<times> (pystr \<rightharpoonup> 'v)) parse" where
  "parse_command options commands extras [] = Usage (Missing [lit ''command''])"
| "parse_command options commands extras (s # ss) =
     (case (if s = [45, 45] then Argument s else classify False options s) of
        Argument name \<Rightarrow>
          (case commands name of
             None \<Rightarrow> Usage (if s = [45, 45] \<and> ss = [] then Missing [lit ''command''] else Invalid_choice name)
           | Some (own, defaults) \<Rightarrow>
               parse_bind (parse_known True own defaults ss) (\<lambda>st.
               if extras @ ap_extras st \<noteq> [] then Usage (Unrecognized (extras @ ap_extras st))
               else Parsed (name, ap_values st)))
      | Unknown name \<Rightarrow> parse_command options commands (extras @ [name]) ss
      | Option o' name (Some v) \<Rightarrow> show_cluster options name v False
      | Ambiguous name \<Rightarrow> Usage (Ambiguous_option name)
      | _ \<Rightarrow> Shown)"

text \<open>The choices of an option, after its type.\<close>

definition among :: "pystr list \<Rightarrow> pystr \<Rightarrow> pystr res" where
  "among choices s = (if s \<in> set choices then Inr s else raise ValueError ''invalid choice'' [AStr s])"

section \<open>Paths\<close>

text \<open>The normal form of \<^verbatim>\<open>Path(text)\<close>; its directory with its last component, and their text.\<close>

definition path_root :: "pystr \<Rightarrow> pystr" where
  "path_root s =
     (if starts_with [47, 47] s \<and> \<not> starts_with [47, 47, 47] s then [47, 47]
      else if starts_with [47] s then [47] else [])"

definition path_parts :: "pystr \<Rightarrow> pystr list" where
  "path_parts s = filter (\<lambda>part. part \<noteq> [] \<and> part \<noteq> lit ''.'') (split_at 47 s)"

definition path_text :: "pystr \<Rightarrow> pystr" where
  "path_text s =
     (if path_root s @ join [47] (path_parts s) = [] then lit ''.'' else path_root s @ join [47] (path_parts s))"

definition path_pair :: "pystr \<Rightarrow> pystr \<times> pystr" where
  "path_pair s =
     (let parts = path_parts s in
      if parts = [] then (path_root s, if path_root s = [] then lit ''.'' else []) else (path_root s @ join [47] (butlast parts), last parts))"

definition path_line :: "pystr \<times> pystr \<Rightarrow> pystr" where
  "path_line p = (if fst p = [] \<or> last (fst p) = 47 then fst p @ snd p else fst p @ 47 # snd p)"

section \<open>Laws\<close>

lemma parse_bind_Parsed: "parse_bind p f = Parsed y \<longleftrightarrow> (\<exists>x. p = Parsed x \<and> f x = Parsed y)"
  by (cases p) simp_all

text \<open>Every value that was set comes from an option of the table, and the group has at most one.\<close>

definition set_by :: "'v option_spec list \<Rightarrow> pystr \<Rightarrow> 'v \<Rightarrow> bool" where
  "set_by options dest v \<longleftrightarrow>
     (\<exists>o' \<in> set options. op_dest o' = dest \<and>
        (case op_action o' of Store f \<Rightarrow> \<exists>s. f s = Inr v | Flag w \<Rightarrow> v = w | Show \<Rightarrow> False))"

definition state_ok :: "'v option_spec list \<Rightarrow> (pystr \<rightharpoonup> 'v) \<Rightarrow> 'v parse_state \<Rightarrow> bool" where
  "state_ok options defaults st \<longleftrightarrow>
     (\<forall>dest. if dest \<in> ap_seen st then \<exists>v. ap_values st dest = Some v \<and> set_by options dest v
             else ap_values st dest = defaults dest) \<and>
     (\<forall>d \<in> ap_seen st \<inter> exclusive_dests options. \<forall>e \<in> ap_seen st \<inter> exclusive_dests options. d = e)"

definition known_token :: "'v option_spec list \<Rightarrow> 'v token \<Rightarrow> bool" where
  "known_token options t \<longleftrightarrow> (case t of Option o' _ _ \<Rightarrow> o' \<in> set options | _ \<Rightarrow> True)"

lemma find_option_in: "find_option options name = Some o' \<Longrightarrow> o' \<in> set options \<and> name \<in> set (op_names o')"
  by (auto simp: find_option_def find_Some_iff)

lemma option_matches_in: "m \<in> set (option_matches abbrev options s) \<Longrightarrow> fst m \<in> set options"
  by (auto simp: option_matches_def Let_def split: if_splits option.splits dest: find_option_in [OF sym])

lemma classify_known: "known_token options (classify abbrev options s)"
  using option_matches_in [of _ abbrev options s]
  by (auto simp: known_token_def classify_def Let_def split: option.splits list.splits dest: find_option_in)

lemma tokens_known: "t \<in> set (tokens abbrev options args) \<Longrightarrow> known_token options t"
  by (induction args) (auto simp: classify_known split: if_splits, auto simp: known_token_def)

lemma add_extra_ok [simp]: "state_ok options defaults (add_extra s st) \<longleftrightarrow> state_ok options defaults st"
  by (simp add: state_ok_def add_extra_def)

definition table_ok :: "'v option_spec list \<Rightarrow> bool" where
  "table_ok options \<longleftrightarrow> distinct (map op_dest options)"

lemma exclusive_of_table:
  assumes "table_ok options" and "o' \<in> set options" and "op_dest o' \<in> exclusive_dests options"
  shows "op_exclusive o'"
proof -
  obtain o2 where "o2 \<in> set options" "op_exclusive o2" "op_dest o2 = op_dest o'"
    using assms(3) by (auto simp: exclusive_dests_def)
  with assms(1,2) show ?thesis by (auto simp: table_ok_def distinct_map dest: inj_onD)
qed

lemma take_value_ok:
  assumes "take_value options o' name r st = Parsed st'" and "state_ok options defaults st"
    and "table_ok options" and "o' \<in> set options"
    and "\<And>v. r = Inr v \<Longrightarrow> set_by options (op_dest o') v"
  shows "state_ok options defaults st'"
proof -
  from assms(1) obtain v where v: "r = Inr v" "st' = set_value o' v st"
    "op_exclusive o' \<Longrightarrow> ap_seen st \<inter> exclusive_dests options - {op_dest o'} = {}"
    by (auto simp: take_value_def split: sum.splits if_splits)
  have group: "\<forall>d \<in> ap_seen st \<inter> exclusive_dests options. \<forall>e \<in> ap_seen st \<inter> exclusive_dests options. d = e"
    and vals: "\<forall>dest. if dest \<in> ap_seen st then \<exists>v. ap_values st dest = Some v \<and> set_by options dest v
             else ap_values st dest = defaults dest"
    using assms(2) by (simp_all add: state_ok_def)
  have "\<forall>d \<in> ap_seen st' \<inter> exclusive_dests options. \<forall>e \<in> ap_seen st' \<inter> exclusive_dests options. d = e"
  proof (cases "op_dest o' \<in> exclusive_dests options")
    case True
    then have "op_exclusive o'" by (rule exclusive_of_table [OF assms(3,4)])
    with v(3) have "ap_seen st \<inter> exclusive_dests options \<subseteq> {op_dest o'}" by blast
    then show ?thesis by (auto simp: v(2) set_value_def)
  next
    case False
    with group show ?thesis by (auto simp: v(2) set_value_def)
  qed
  moreover have "set_by options (op_dest o') v" using assms(5) v(1) .
  with vals have "\<forall>dest. if dest \<in> ap_seen st' then \<exists>v. ap_values st' dest = Some v \<and> set_by options dest v
             else ap_values st' dest = defaults dest"
    by (simp add: v(2) set_value_def)
  ultimately show ?thesis by (simp add: state_ok_def)
qed

lemma set_by_option:
  assumes "o' \<in> set options"
    and "case op_action o' of Store f \<Rightarrow> \<exists>s. f s = Inr v | Flag w \<Rightarrow> v = w | Show \<Rightarrow> False"
  shows "set_by options (op_dest o') v"
  using assms unfolding set_by_def by blast

text \<open>A step with an option gives the rest of the arguments a state that is as good.\<close>

lemma option_step_ok:
  assumes "parse_bind (take_value options o' name r st) k = Parsed st'"
    and "state_ok options defaults st" and "table_ok options" and "o' \<in> set options"
    and "\<And>v. r = Inr v \<Longrightarrow> case op_action o' of Store f \<Rightarrow> \<exists>s. f s = Inr v | Flag w \<Rightarrow> v = w | Show \<Rightarrow> False"
  obtains st1 where "k st1 = Parsed st'" and "state_ok options defaults st1"
    and "take_value options o' name r st = Parsed st1"
  using assms(1) take_value_ok [OF _ assms(2-4) set_by_option [OF assms(4,5)]]
  by (auto simp: parse_bind_Parsed)

lemma parse_tokens_ok:
  "parse_tokens options ts st = Parsed st' \<Longrightarrow> state_ok options defaults st \<Longrightarrow> table_ok options \<Longrightarrow>
    \<forall>t \<in> set ts. known_token options t \<Longrightarrow> state_ok options defaults st'"
proof (induction options ts st rule: parse_tokens.induct)
  case (6 options o' name s ts st)
  have o': "o' \<in> set options" using "6.prems"(4) by (simp add: known_token_def)
  from "6.prems"(1) obtain f where f: "op_action o' = Store f"
    by (cases "op_action o'") (simp_all add: show_cluster_def split: option.splits)
  with "6.prems"(1) have "parse_bind (take_value options o' name (f s) st) (parse_tokens options ts) = Parsed st'" by simp
  then obtain st1 where "parse_tokens options ts st1 = Parsed st'" "state_ok options defaults st1"
    by (rule option_step_ok [OF _ "6.prems"(2,3) o']) (use f in auto)
  with "6.IH" [OF f] "6.prems"(3,4) show ?case by simp
next
  case (7 options o' name st)
  have o': "o' \<in> set options" using "7.prems"(4) by (simp add: known_token_def)
  from "7.prems"(1) obtain v where v: "op_action o' = Flag v" by (cases "op_action o'") simp_all
  with "7.prems"(1) have "take_value options o' name (Inr v) st = Parsed st'" by simp
  then show ?case
    by (rule take_value_ok [OF _ "7.prems"(2,3) o']) (use v in \<open>auto intro!: set_by_option [OF o']\<close>)
next
  case (8 options o' name t ts st)
  have o': "o' \<in> set options" using "8.prems"(4) by (simp add: known_token_def)
  show ?case
  proof (cases "op_action o'")
    case (Store f)
    with "8.prems"(1) obtain s where s: "t = Argument s" by (cases t) simp_all
    with Store "8.prems"(1) have "parse_bind (take_value options o' name (f s) st) (parse_tokens options ts) = Parsed st'" by simp
    then obtain st1 where "parse_tokens options ts st1 = Parsed st'" "state_ok options defaults st1"
      by (rule option_step_ok [OF _ "8.prems"(2,3) o']) (use Store in auto)
    with "8.IH"(1) [OF Store s] "8.prems"(3,4) show ?thesis by simp
  next
    case (Flag v)
    with "8.prems"(1) have "parse_bind (take_value options o' name (Inr v) st) (parse_tokens options (t # ts)) = Parsed st'" by simp
    then obtain st1 where "parse_tokens options (t # ts) st1 = Parsed st'" "state_ok options defaults st1"
      by (rule option_step_ok [OF _ "8.prems"(2,3) o']) (use Flag in auto)
    with "8.IH"(2) [OF Flag] "8.prems"(3,4) show ?thesis by simp
  qed (use "8.prems"(1) in simp)
qed auto

text \<open>An accepted command line: what was set, what is required, and one of the group.\<close>

lemma parse_known_ok:
  assumes "parse_known abbrev options defaults args = Parsed st" and "table_ok options"
  shows "\<forall>dest. dest \<notin> ap_seen st \<longrightarrow> ap_values st dest = defaults dest"
    and "\<forall>dest. dest \<in> ap_seen st \<longrightarrow> (\<exists>v. ap_values st dest = Some v \<and> set_by options dest v)"
    and "\<forall>o' \<in> set options. op_required o' \<longrightarrow> op_dest o' \<in> ap_seen st"
    and "exclusive_dests options \<noteq> {} \<longrightarrow> (\<exists>d. ap_seen st \<inter> exclusive_dests options = {d})"
proof -
  let ?init = "\<lparr>ap_values = defaults, ap_seen = {}, ap_extras = []\<rparr>"
  from assms(1) have st: "parse_tokens options (tokens abbrev options args) ?init = Parsed st" "check_required options st = Parsed st"
    by (auto simp: parse_known_def parse_bind_Parsed check_required_def Let_def split: if_splits option.splits)
  have ok: "state_ok options defaults st"
    using tokens_known by (intro parse_tokens_ok [OF st(1) _ assms(2)]) (auto simp: state_ok_def)
  then show "\<forall>dest. dest \<in> ap_seen st \<longrightarrow> (\<exists>v. ap_values st dest = Some v \<and> set_by options dest v)"
    by (auto simp: state_ok_def split: if_splits)
  show "\<forall>dest. dest \<notin> ap_seen st \<longrightarrow> ap_values st dest = defaults dest"
    using ok unfolding state_ok_def by meson
  show "\<forall>o' \<in> set options. op_required o' \<longrightarrow> op_dest o' \<in> ap_seen st"
    using st(2) by (auto simp: check_required_def Let_def filter_empty_conv split: if_splits)
  show "exclusive_dests options \<noteq> {} \<longrightarrow> (\<exists>d. ap_seen st \<inter> exclusive_dests options = {d})"
  proof
    assume "exclusive_dests options \<noteq> {}"
    with st(2) obtain d where "d \<in> ap_seen st \<inter> exclusive_dests options"
      by (auto simp: check_required_def Let_def split: if_splits)
    moreover from this ok have "ap_seen st \<inter> exclusive_dests options \<subseteq> {d}" unfolding state_ok_def by blast
    ultimately show "\<exists>d. ap_seen st \<inter> exclusive_dests options = {d}" by blast
  qed
qed

lemma parse_all_known:
  "parse_all abbrev options defaults args = Parsed vals \<longleftrightarrow>
    (\<exists>st. parse_known abbrev options defaults args = Parsed st \<and> ap_extras st = [] \<and> ap_values st = vals)"
  by (auto simp: parse_all_def parse_bind_Parsed)

text \<open>Options with their values behind an equals sign, as they are written and read.\<close>

definition assigned :: "pystr \<times> pystr \<Rightarrow> pystr" where
  "assigned nv = fst nv @ 61 # snd nv"

text \<open>The option that a name stands for: its own, or the only one that begins so where abbreviations are taken.\<close>

definition stands_for :: "bool \<Rightarrow> 'v option_spec list \<Rightarrow> pystr \<Rightarrow> 'v option_spec \<Rightarrow> bool" where
  "stands_for abbrev options name o' \<longleftrightarrow>
     (case find_option options name of
        Some o2 \<Rightarrow> o2 = o'
      | None \<Rightarrow>
          abbrev \<and> concat (map (\<lambda>o'. map (\<lambda>n. o') (filter (starts_with name) (op_names o'))) options) = [o'])"

lemma stands_for_itself: "find_option options name = Some o' \<Longrightarrow> stands_for abbrev options name o'"
  by (simp add: stands_for_def)

lemma stands_for_in: "stands_for abbrev options name o' \<Longrightarrow> o' \<in> set options"
proof (cases "find_option options name")
  case None
  assume "stands_for abbrev options name o'"
  with None have "o' \<in> set (concat (map (\<lambda>o'. map (\<lambda>n. o') (filter (starts_with name) (op_names o'))) options))"
    by (simp add: stands_for_def)
  then show ?thesis by auto
qed (auto simp: stands_for_def dest: find_option_in)

lemma only_match:
  assumes "concat (map (\<lambda>o'. map (\<lambda>n. o') (filter (f o') (op_names o'))) options) = [o']"
  obtains full where "concat (map (\<lambda>o'. map (\<lambda>n. (o', n, value)) (filter (f o') (op_names o'))) options) = [(o', full, value)]"
proof -
  let ?all = "concat (map (\<lambda>o'. map (\<lambda>n. (o', n, value)) (filter (f o') (op_names o'))) options)"
  have "map fst ?all = [o']" using assms by (simp add: map_concat o_def)
  then obtain m where "?all = [m]" "fst m = o'" by (cases ?all) auto
  moreover then have "m \<in> set ?all" by simp
  then have "snd (snd m) = value" by auto
  ultimately have "?all = [(o', fst (snd m), value)]" by (cases m) simp
  then show ?thesis by (rule that)
qed

lemma classify_assigned:
  assumes "stands_for abbrev options name o'" and "starts_with [45, 45] name" and "61 \<notin> set name"
    and "\<And>o2 n. o2 \<in> set options \<Longrightarrow> n \<in> set (op_names o2) \<Longrightarrow> 61 \<notin> set n"
  shows "\<exists>full. classify abbrev options (assigned (name, s)) = Option o' full (Some s)"
proof -
  have other: "find_option options (assigned (name, s)) = None"
    using assms(4) by (force simp: find_option_def find_None_iff assigned_def)
  obtain t where t: "name = 45 # 45 # t" using assms(2) by (auto simp: starts_with_iff)
  have parts: "takeWhile (\<lambda>c. c \<noteq> 61) (assigned (name, s)) = name" "dropWhile (\<lambda>c. c \<noteq> 61) (assigned (name, s)) = 61 # s"
    using assms(3) unfolding assigned_def by (induction name) auto
  have starts: "starts_with [45] (assigned (name, s))" "starts_with [45, 45] (assigned (name, s))" "61 \<in> set (assigned (name, s))"
    "length (assigned (name, s)) \<noteq> 1"
    by (simp_all add: t assigned_def starts_with_def)
  show ?thesis
  proof (cases "find_option options name")
    case None
    with assms(1) have "abbrev"
      and "concat (map (\<lambda>o'. map (\<lambda>n. o') (filter (starts_with name) (op_names o'))) options) = [o']"
      by (simp_all add: stands_for_def)
    from this(2) obtain full where
      "concat (map (\<lambda>o'. map (\<lambda>n. (o', n, Some s)) (filter (starts_with name) (op_names o'))) options) = [(o', full, Some s)]"
      by (rule only_match)
    then have "option_matches abbrev options (assigned (name, s)) = [(o', full, Some s)]"
      using \<open>abbrev\<close> starts parts by (simp add: option_matches_def Let_def)
    with None other starts parts show ?thesis by (simp add: classify_def Let_def)
  next
    case (Some o2)
    with assms(1) have "o2 = o'" by (simp add: stands_for_def)
    with Some other starts parts show ?thesis by (simp add: classify_def Let_def)
  qed
qed

text \<open>\<open>absorbs abbrev options args st st'\<close>: the arguments \<open>args\<close> take the parser from \<open>st\<close> to \<open>st'\<close>.\<close>

definition absorbs ::
  "bool \<Rightarrow> 'v option_spec list \<Rightarrow> pystr list \<Rightarrow> 'v parse_state \<Rightarrow> 'v parse_state \<Rightarrow> bool" where
  "absorbs abbrev options args st st' \<longleftrightarrow>
     (\<forall>rest. ambiguous (tokens abbrev options (args @ rest)) = ambiguous (tokens abbrev options rest) \<and>
        parse_tokens options (tokens abbrev options (args @ rest)) st = parse_tokens options (tokens abbrev options rest) st')"

lemma absorbs_Nil: "absorbs abbrev options [] st st"
  by (simp add: absorbs_def)

lemma absorbs_append:
  "absorbs abbrev options args st st1 \<Longrightarrow> absorbs abbrev options args2 st1 st2 \<Longrightarrow>
    absorbs abbrev options (args @ args2) st st2"
  by (simp add: absorbs_def)

text \<open>The parser keeps names without equals signs; the options of a group come one at a time.\<close>

definition names_ok :: "'v option_spec list \<Rightarrow> bool" where
  "names_ok options \<longleftrightarrow> (\<forall>o' \<in> set options. \<forall>n \<in> set (op_names o'). 61 \<notin> set n)"

lemma absorbs_assigned:
  assumes "names_ok options" and "stands_for abbrev options name o'" and "starts_with [45, 45] name" and "61 \<notin> set name"
    and "op_action o' = Store f" and "f s = Inr v" and "op_exclusive o' \<Longrightarrow> ap_seen st = {}"
  shows "absorbs abbrev options [assigned (name, s)] st (set_value o' v st)"
proof -
  obtain full where "classify abbrev options (assigned (name, s)) = Option o' full (Some s)"
    using classify_assigned [OF assms(2,3,4)] assms(1) by (force simp: names_ok_def)
  moreover have "assigned (name, s) \<noteq> [45, 45]"
  proof
    assume "assigned (name, s) = [45, 45]"
    then have "61 \<in> set [45, 45 :: nat]" by (metis assigned_def fst_conv in_set_conv_decomp)
    then show False by simp
  qed
  moreover have "take_value options o' full (f s) st = Parsed (set_value o' v st)"
    using assms(6,7) by (auto simp: take_value_def)
  ultimately show ?thesis using assms(5) by (simp add: absorbs_def)
qed

lemma absorbs_flag:
  assumes "find_option options name = Some o'" and "starts_with [45] name" and "name \<noteq> [45, 45]"
    and "op_action o' = Flag v" and "\<not> op_exclusive o'"
  shows "absorbs abbrev options [name] st (set_value o' v st)"
proof -
  have "classify abbrev options name = Option o' name None" using assms(1,2) by (simp add: classify_def)
  moreover have "parse_tokens options (Option o' name None # ts) st = parse_tokens options ts (set_value o' v st)" for ts
    using assms(4,5) by (cases ts) (simp_all add: take_value_def)
  ultimately show ?thesis using assms(3) by (simp add: absorbs_def)
qed

lemma parse_absorbed:
  assumes "absorbs abbrev options args \<lparr>ap_values = defaults, ap_seen = {}, ap_extras = []\<rparr> st"
    and "\<And>o'. o' \<in> set options \<Longrightarrow> op_required o' \<Longrightarrow> op_dest o' \<in> ap_seen st"
    and "exclusive_dests options = {} \<or> ap_seen st \<inter> exclusive_dests options \<noteq> {}"
  shows "parse_known abbrev options defaults args = Parsed st"
proof -
  have "parse_tokens options (tokens abbrev options args) \<lparr>ap_values = defaults, ap_seen = {}, ap_extras = []\<rparr> = Parsed st"
    and "ambiguous (tokens abbrev options args) = None"
    using assms(1) [unfolded absorbs_def, rule_format, of "[]"] by simp_all
  moreover have "check_required options st = Parsed st"
    using assms(2,3) by (auto simp: check_required_def Let_def filter_empty_conv)
  ultimately show ?thesis by (simp add: parse_known_def)
qed

text \<open>An option that is given or left out.\<close>

definition given :: "'v option_spec \<Rightarrow> ('a \<Rightarrow> 'v) \<Rightarrow> 'a option \<Rightarrow> 'v parse_state \<Rightarrow> 'v parse_state" where
  "given o' f x st = (case x of None \<Rightarrow> st | Some s \<Rightarrow> set_value o' (f s) st)"

lemma given_simps [simp]:
  "ap_values (given o' f x st) d = (if d = op_dest o' \<and> x \<noteq> None then map_option f x else ap_values st d)"
  "ap_seen (given o' f x st) = (if x = None then ap_seen st else insert (op_dest o') (ap_seen st))"
  "ap_extras (given o' f x st) = ap_extras st"
  by (auto simp: given_def set_value_def split: option.splits)

lemma absorbs_given:
  assumes "\<And>s. x = Some s \<Longrightarrow> absorbs abbrev options [g s] st (set_value o' (f s) st)"
  shows "absorbs abbrev options (map g (case x of None \<Rightarrow> [] | Some s \<Rightarrow> [s])) st (given o' f x st)"
  using assms by (cases x) (simp_all add: absorbs_Nil given_def)

end
