(* ===== verification/Json.thy ===== *)
theory Json
  imports Py_Text
begin

text \<open>
  The module \<^verbatim>\<open>json\<close> of the Python standard library, as the Collector and the analyzer use
  it: \<^verbatim>\<open>json.dump\<close> with the default separators or with an indentation, always in ASCII, and
  \<^verbatim>\<open>json.load\<close> on UTF-8, with the accelerated scanner's treatment of surrogate pairs, big
  integers, \<open>NaN\<close> and the infinities. A float is read as the binary64 number nearest to its digits;
  how a finite float is printed is a parameter, since the program prints none. The messages of errors
  come without their positions. \<open>depth\<close> is how many more arrays and objects the interpreter's
  recursion limit allows to nest.
\<close>

section \<open>Binary floating point\<close>

definition pow2 :: "int \<Rightarrow> rat" where
  "pow2 e = (if 0 \<le> e then 2 ^ nat e else 1 / 2 ^ nat (- e))"

fun bit_length :: "nat \<Rightarrow> nat" where
  "bit_length n = (if n = 0 then 0 else Suc (bit_length (n div 2)))"

declare bit_length.simps [simp del]

text \<open>The exponent of the greatest power of two that is not above a positive number.\<close>

definition floor_log2 :: "rat \<Rightarrow> int" where
  "floor_log2 q =
     (case quotient_of q of (a, b) \<Rightarrow>
        let k = int (bit_length (nat a)) - int (bit_length (nat b)) in if pow2 k \<le> q then k else k - 1)"

definition half_even :: "rat \<Rightarrow> int" where
  "half_even q =
     (let f = floor q; d = q - of_int f in
      if d < 1 / 2 \<or> (d = 1 / 2 \<and> even f) then f else f + 1)"

definition round_binary64 :: "rat \<Rightarrow> json_float" where
  "round_binary64 q =
     (if q = 0 then FFinite 0
      else
        let e = max (floor_log2 \<bar>q\<bar> - 52) (- 1074);
            r = of_int (half_even (\<bar>q\<bar> / pow2 e)) * pow2 e in
        if pow2 1024 \<le> r then FInfinite (q < 0) else FFinite (if q < 0 then - r else r))"

section \<open>Printing\<close>

definition hex4 :: "nat \<Rightarrow> pystr" where
  "hex4 u = [hex_digit (u div 4096 mod 16), hex_digit (u div 256 mod 16), hex_digit (u div 16 mod 16), hex_digit (u mod 16)]"

text \<open>A backslash and a letter, for the characters that have one.\<close>

definition letter_escapes :: "(nat \<times> nat) list" where
  "letter_escapes = [(34, 34), (92, 92), (10, 110), (13, 114), (9, 116), (12, 102), (8, 98)]"

definition escape_char :: "nat \<Rightarrow> pystr" where
  "escape_char c =
     (case map_of letter_escapes c of
        Some letter \<Rightarrow> [92, letter]
      | None \<Rightarrow>
          if 32 \<le> c \<and> c \<le> 126 then [c]
          else if c < 0x10000 then [92, 117] @ hex4 c
          else
            let n = c - 0x10000 in
            [92, 117] @ hex4 (0xD800 + n div 1024) @ [92, 117] @ hex4 (0xDC00 + n mod 1024))"

definition string_text :: "pystr \<Rightarrow> pystr" where
  "string_text s = [34] @ concat (map escape_char s) @ [34]"

text \<open>\<open>indent\<close> is \<open>None\<close> for one line. \<open>level\<close> is the depth of the value.\<close>

definition new_line :: "nat option \<Rightarrow> nat \<Rightarrow> pystr" where
  "new_line indent level = (case indent of None \<Rightarrow> [] | Some n \<Rightarrow> 10 # replicate (n * level) 32)"

definition separator :: "nat option \<Rightarrow> nat \<Rightarrow> pystr" where
  "separator indent level = (case indent of None \<Rightarrow> [44, 32] | Some _ \<Rightarrow> 44 # new_line indent level)"

definition enclosed :: "nat \<Rightarrow> nat \<Rightarrow> nat option \<Rightarrow> nat \<Rightarrow> pystr list \<Rightarrow> pystr" where
  "enclosed left right indent level parts =
     (if parts = [] then [left, right]
      else [left] @ new_line indent (Suc level) @ join (separator indent (Suc level)) parts @
        new_line indent level @ [right])"

fun json_text :: "(rat \<Rightarrow> pystr) \<Rightarrow> nat option \<Rightarrow> nat \<Rightarrow> json \<Rightarrow> pystr" where
  "json_text float_text indent level JNull = lit ''null''"
| "json_text float_text indent level (JBool b) = (if b then lit ''true'' else lit ''false'')"
| "json_text float_text indent level (JInt i) = decimal_text i"
| "json_text float_text indent level (JFloat f) =
     (case f of
        FFinite r \<Rightarrow> float_text r
      | FInfinite negative \<Rightarrow> if negative then lit ''-Infinity'' else lit ''Infinity''
      | FNan \<Rightarrow> lit ''NaN'')"
| "json_text float_text indent level (JText s) = string_text s"
| "json_text float_text indent level (JList vs) =
     enclosed 91 93 indent level (map (json_text float_text indent (Suc level)) vs)"
| "json_text float_text indent level (JDict kvs) =
     enclosed 123 125 indent level
       (map (\<lambda>(k, v). string_text k @ [58, 32] @ json_text float_text indent (Suc level) v) kvs)"

text \<open>\<open>json.dump\<close> to a file; the text is ASCII.\<close>

definition json_dump :: "(rat \<Rightarrow> pystr) \<Rightarrow> nat option \<Rightarrow> json \<Rightarrow> bytes" where
  "json_dump float_text indent v = map word_of_nat (json_text float_text indent 0 v)"

section \<open>Scanning strings and numbers\<close>

definition json_space :: "nat \<Rightarrow> bool" where
  "json_space c \<longleftrightarrow> c = 32 \<or> c = 9 \<or> c = 10 \<or> c = 13"

definition skip :: "pystr \<Rightarrow> pystr" where
  "skip s = dropWhile json_space s"

definition hex_value :: "nat \<Rightarrow> nat option" where
  "hex_value c =
     (if 48 \<le> c \<and> c \<le> 57 then Some (c - 48)
      else if 97 \<le> c \<and> c \<le> 102 then Some (c - 87)
      else if 65 \<le> c \<and> c \<le> 70 then Some (c - 55)
      else None)"

fun read_hex4 :: "pystr \<Rightarrow> (nat \<times> pystr) option" where
  "read_hex4 (a # b # c # d # s) =
     (case (hex_value a, hex_value b, hex_value c, hex_value d) of
        (Some w, Some x, Some y, Some z) \<Rightarrow> Some (w * 4096 + x * 256 + y * 16 + z, s)
      | _ \<Rightarrow> None)"
| "read_hex4 _ = None"

text \<open>The escape of a low surrogate, if the text begins with one.\<close>

definition low_surrogate :: "pystr \<Rightarrow> (nat \<times> pystr) option" where
  "low_surrogate s =
     (if starts_with [92, 117] s then
        (case read_hex4 (drop 2 s) of
           Some (u, r) \<Rightarrow> if 0xDC00 \<le> u \<and> u \<le> 0xDFFF then Some (u, r) else None
         | None \<Rightarrow> None)
      else None)"

text \<open>After a backslash.\<close>

definition read_escape :: "pystr \<Rightarrow> (nat \<times> pystr) res" where
  "read_escape s =
     (case s of
        [] \<Rightarrow> raise ValueError ''Unterminated string starting at'' []
      | e # t \<Rightarrow>
          if e = 117 then
            (case read_hex4 t of
               None \<Rightarrow> raise ValueError ''Invalid u escape'' []
             | Some (u, t) \<Rightarrow>
                 if 0xD800 \<le> u \<and> u \<le> 0xDBFF then
                   (case low_surrogate t of
                      Some (l, r) \<Rightarrow> Inr (0x10000 + (u - 0xD800) * 1024 + (l - 0xDC00), r)
                    | None \<Rightarrow> Inr (u, t))
                 else Inr (u, t))
          else
            (case map_of (map prod.swap letter_escapes @ [(47, 47)]) e of
               Some c \<Rightarrow> Inr (c, t)
             | None \<Rightarrow> raise ValueError ''Invalid escape'' []))"

definition read_char :: "nat \<Rightarrow> pystr \<Rightarrow> (nat \<times> pystr) res" where
  "read_char c s =
     (if c = 92 then read_escape s
      else if c < 32 then raise ValueError ''Invalid control character at'' []
      else Inr (c, s))"

lemma read_hex4_length: "read_hex4 s = Some (u, r) \<Longrightarrow> length s = length r + 4"
  by (cases s rule: read_hex4.cases) (auto split: option.splits)

lemma low_surrogate_length: "low_surrogate s = Some (u, r) \<Longrightarrow> length r < length s"
  by (auto simp: low_surrogate_def dest!: read_hex4_length split: if_splits option.splits)

lemma read_escape_length: "read_escape s = Inr (c, r) \<Longrightarrow> length r < length s"
  by (auto simp: read_escape_def dest!: read_hex4_length low_surrogate_length
      split: list.splits if_splits option.splits)

lemma read_char_length: "read_char c s = Inr (d, r) \<Longrightarrow> length r \<le> length s"
  using read_escape_length [of s d r] by (auto simp: read_char_def split: if_splits)

text \<open>After the opening quote: the string, and what follows its closing quote.\<close>

function scan_string :: "pystr \<Rightarrow> (pystr \<times> pystr) res" where
  "scan_string [] = raise ValueError ''Unterminated string starting at'' []"
| "scan_string (c # s) =
     (if c = 34 then Inr ([], s)
      else
        (case read_char c s of
           Inl e \<Rightarrow> Inl e
         | Inr (d, r) \<Rightarrow> rbind (scan_string r) (\<lambda>(v, r). Inr (d # v, r))))"
  by pat_completeness auto
termination
  by (relation "measure length") (auto dest!: read_char_length)

declare scan_string.simps(2) [simp del]

text \<open>The parts of a number: the integer, the fraction and the exponent.\<close>

definition int_part :: "pystr \<Rightarrow> (pystr \<times> pystr) option" where
  "int_part s =
     (case s of
        [] \<Rightarrow> None
      | c # t \<Rightarrow>
          if c = 48 then Some ([48], t)
          else if is_ascii_digit c then Some (takeWhile is_ascii_digit s, dropWhile is_ascii_digit s)
          else None)"

definition fraction_part :: "pystr \<Rightarrow> pystr option \<times> pystr" where
  "fraction_part s =
     (let ds = takeWhile is_ascii_digit (tl s) in
      if starts_with [46] s \<and> ds \<noteq> [] then (Some ds, dropWhile is_ascii_digit (tl s)) else (None, s))"

definition exponent_part :: "pystr \<Rightarrow> int option \<times> pystr" where
  "exponent_part s =
     (if s \<noteq> [] \<and> hd s \<in> {69, 101} then
        let t = tl s; negative = starts_with [45] t;
            t = (if negative \<or> starts_with [43] t then tl t else t);
            ds = takeWhile is_ascii_digit t; n = int (digits_value ds) in
        if ds \<noteq> [] then (Some (if negative then - n else n), dropWhile is_ascii_digit t) else (None, s)
      else (None, s))"

definition pow10 :: "int \<Rightarrow> rat" where
  "pow10 e = (if 0 \<le> e then 10 ^ nat e else 1 / 10 ^ nat (- e))"

definition scan_number :: "pystr \<Rightarrow> (json \<times> pystr) res" where
  "scan_number s =
     (let negative = starts_with [45] s; s = (if negative then tl s else s) in
      case int_part s of
        None \<Rightarrow> raise ValueError ''Expecting value'' []
      | Some (ds, s) \<Rightarrow>
          (case fraction_part s of (fraction, s) \<Rightarrow>
          (case exponent_part s of (exponent, s) \<Rightarrow>
             if fraction = None \<and> exponent = None then
               if MAX_INT_DIGITS < length ds then raise ValueError ''Exceeds the limit (4300 digits)'' []
               else Inr (JInt (if negative then - int (digits_value ds) else int (digits_value ds)), s)
             else
               let fs = (case fraction of Some fs \<Rightarrow> fs | None \<Rightarrow> []);
                   e = (case exponent of Some e \<Rightarrow> e | None \<Rightarrow> 0);
                   q = of_nat (digits_value (ds @ fs)) * pow10 (e - int (length fs)) in
               Inr (JFloat (round_binary64 (if negative then - q else q)), s))))"

section \<open>Parsing\<close>

definition scan_scalar :: "pystr \<Rightarrow> (json \<times> pystr) res" where
  "scan_scalar s =
     (if starts_with [34] s then rbind (scan_string (tl s)) (\<lambda>(v, r). Inr (JText v, r))
      else if starts_with (lit ''null'') s then Inr (JNull, drop 4 s)
      else if starts_with (lit ''true'') s then Inr (JBool True, drop 4 s)
      else if starts_with (lit ''false'') s then Inr (JBool False, drop 5 s)
      else if starts_with (lit ''NaN'') s then Inr (JFloat FNan, drop 3 s)
      else if starts_with (lit ''Infinity'') s then Inr (JFloat (FInfinite False), drop 8 s)
      else if starts_with (lit ''-Infinity'') s then Inr (JFloat (FInfinite True), drop 9 s)
      else scan_number s)"

text \<open>
  The loops over the items of an array and the members of an object, after their opening bracket and
  white space, with a scanner for one value. The number bounds the rounds; the length of the text
  is enough, as \<open>items_rounds\<close> and \<open>members_rounds\<close> show.
\<close>

fun scan_items :: "(pystr \<Rightarrow> (json \<times> pystr) res) \<Rightarrow> nat \<Rightarrow> pystr \<Rightarrow> (json list \<times> pystr) res" where
  "scan_items scan 0 s = raise ValueError ''Expecting value'' []"
| "scan_items scan (Suc n) s =
     rbind (scan s) (\<lambda>(v, r).
     if starts_with [93] (skip r) then Inr ([v], tl (skip r))
     else if starts_with [44] (skip r) then
       rbind (scan_items scan n (skip (tl (skip r)))) (\<lambda>(vs, r). Inr (v # vs, r))
     else raise ValueError ''Expecting comma delimiter'' [])"

fun scan_members :: "(pystr \<Rightarrow> (json \<times> pystr) res) \<Rightarrow> nat \<Rightarrow> pystr \<Rightarrow> ((pystr \<times> json) list \<times> pystr) res" where
  "scan_members scan 0 s = raise ValueError ''Expecting property name enclosed in double quotes'' []"
| "scan_members scan (Suc n) s =
     (if \<not> starts_with [34] s then
        raise ValueError ''Expecting property name enclosed in double quotes'' []
      else
        rbind (scan_string (tl s)) (\<lambda>(k, r).
        if \<not> starts_with [58] (skip r) then raise ValueError ''Expecting colon delimiter'' []
        else
          rbind (scan (skip (tl (skip r)))) (\<lambda>(v, r).
          if starts_with [125] (skip r) then Inr ([(k, v)], tl (skip r))
          else if starts_with [44] (skip r) then
            rbind (scan_members scan n (skip (tl (skip r)))) (\<lambda>(kvs, r). Inr ((k, v) # kvs, r))
          else raise ValueError ''Expecting comma delimiter'' [])))"

definition scan_array :: "(pystr \<Rightarrow> (json \<times> pystr) res) \<Rightarrow> pystr \<Rightarrow> (json \<times> pystr) res" where
  "scan_array scan s =
     (if starts_with [93] (skip s) then Inr (JList [], tl (skip s))
      else rbind (scan_items scan (length s) (skip s)) (\<lambda>(vs, r). Inr (JList vs, r)))"

definition scan_object :: "(pystr \<Rightarrow> (json \<times> pystr) res) \<Rightarrow> pystr \<Rightarrow> (json \<times> pystr) res" where
  "scan_object scan s =
     (if starts_with [125] (skip s) then Inr (JDict [], tl (skip s))
      else rbind (scan_members scan (length s) (skip s)) (\<lambda>(kvs, r). Inr (JDict (dict_of kvs), r)))"

fun scan_value :: "nat \<Rightarrow> pystr \<Rightarrow> (json \<times> pystr) res" where
  "scan_value 0 s =
     (if starts_with [91] s \<or> starts_with [123] s then
        raise RecursionError ''maximum recursion depth exceeded while decoding a JSON object'' []
      else scan_scalar s)"
| "scan_value (Suc depth) s =
     (if starts_with [91] s then scan_array (scan_value depth) (tl s)
      else if starts_with [123] s then scan_object (scan_value depth) (tl s)
      else scan_scalar s)"

definition json_loads :: "nat \<Rightarrow> pystr \<Rightarrow> json res" where
  "json_loads depth s =
     (if starts_with [0xFEFF] s then raise ValueError ''Unexpected UTF-8 BOM (decode using utf-8-sig)'' []
      else
        rbind (scan_value depth (skip s)) (\<lambda>(v, r).
        if skip r = [] then Inr v else raise ValueError ''Extra data'' []))"

text \<open>\<open>json.load\<close> on a file that is opened as UTF-8.\<close>

function utf8_strict :: "nat list \<Rightarrow> pystr res" where
  "utf8_strict [] = Inr []"
| "utf8_strict (b # bs) =
     (case utf8_step (b # bs) of
        Some (c, n) \<Rightarrow> rbind (utf8_strict (drop n (b # bs))) (\<lambda>s. Inr (c # s))
      | None \<Rightarrow> raise ValueError ''utf-8 codec cannot decode'' [])"
  by pat_completeness auto
termination
  by (relation "measure length") (auto dest!: utf8_step_pos simp del: utf8_step.simps)

declare utf8_strict.simps(2) [simp del]

definition json_load :: "nat \<Rightarrow> bytes \<Rightarrow> json res" where
  "json_load depth content = rbind (utf8_strict (map unat content)) (json_loads depth)"

end
