(* ===== verification/Json_Laws.thy ===== *)
theory Json_Laws
  imports Json
begin

text \<open>
  The laws of \<^verbatim>\<open>json\<close>: the scanner consumes what it returns, the bounds on its rounds are never
  reached, it raises nothing but \<open>ValueError\<close> and \<open>RecursionError\<close>, and it reads back every value
  that the program prints, whatever the indentation.
\<close>

section \<open>The scanner consumes its text\<close>

definition consumes :: "(pystr \<Rightarrow> ('a \<times> pystr) res) \<Rightarrow> bool" where
  "consumes scan \<longleftrightarrow> (\<forall>s v r. scan s = Inr (v, r) \<longrightarrow> length r < length s)"

lemma consumesI: "(\<And>s v r. scan s = Inr (v, r) \<Longrightarrow> length r < length s) \<Longrightarrow> consumes scan"
  by (simp add: consumes_def)

lemma consumesD: "consumes scan \<Longrightarrow> scan s = Inr (v, r) \<Longrightarrow> length r < length s"
  by (simp add: consumes_def)

lemma starts_with_Cons [simp]:
  "starts_with [] s" "\<not> starts_with (c # p) []" "starts_with (c # p) (d # s) \<longleftrightarrow> c = d \<and> starts_with p s"
  by (auto simp: starts_with_def)

lemma starts_with_one: "starts_with [c] s \<longleftrightarrow> (\<exists>t. s = c # t)"
  by (cases s) auto

lemma starts_with_length: "starts_with p s \<Longrightarrow> length p \<le> length s"
  by (auto simp: starts_with_iff)

lemma length_skip: "length (skip s) \<le> length s"
  by (simp add: skip_def length_dropWhile_le)

lemma length_tl_skip: "length (tl (skip s)) \<le> length s"
  using length_skip [of s] by simp

lemma scan_string_length: "scan_string s = Inr (v, r) \<Longrightarrow> length r < length s"
proof (induction s arbitrary: v r rule: scan_string.induct)
  case (2 c s)
  show ?case
  proof (cases "c = 34")
    case False
    with "2.prems" obtain d t w where "read_char c s = Inr (d, t)" "scan_string t = Inr (w, r)"
      by (auto simp: scan_string.simps(2) rbind_Inr split: sum.splits)
    with "2.IH" [OF False] read_char_length [of c s d t] show ?thesis by fastforce
  qed (use "2.prems" in \<open>simp add: scan_string.simps(2)\<close>)
qed simp

lemma int_part_length: "int_part s = Some (ds, r) \<Longrightarrow> length r < length s"
  by (auto simp: int_part_def length_dropWhile_le less_Suc_eq_le split: list.splits if_splits)

lemma fraction_part_length: "fraction_part s = (f, r) \<Longrightarrow> length r \<le> length s"
  using length_dropWhile_le [of is_ascii_digit "tl s"] by (auto simp: fraction_part_def Let_def split: if_splits)

lemma exponent_part_length: "exponent_part s = (e, r) \<Longrightarrow> length r \<le> length s"
  using length_dropWhile_le [of is_ascii_digit "tl s"] length_dropWhile_le [of is_ascii_digit "tl (tl s)"]
  by (auto simp: exponent_part_def Let_def split: if_splits)

lemma scan_number_length: "scan_number s = Inr (v, r) \<Longrightarrow> length r < length s"
  using length_tl [of s]
  by (auto simp: scan_number_def Let_def split: if_splits option.splits prod.splits
      dest!: int_part_length fraction_part_length exponent_part_length)

lemma scan_scalar_length: "scan_scalar s = Inr (v, r) \<Longrightarrow> length r < length s"
  using scan_string_length [of "tl s" _ r] scan_number_length [of s v r]
  by (auto simp: scan_scalar_def rbind_Inr starts_with_one lit_def dest!: starts_with_length split: if_splits)

lemma scan_items_length:
  "consumes scan \<Longrightarrow> scan_items scan n s = Inr (vs, r) \<Longrightarrow> length r < length s"
proof (induction n arbitrary: s vs)
  case (Suc n)
  from Suc.prems(2) obtain v t where t: "scan s = Inr (v, t)" by (auto simp: rbind_Inr)
  have "length r \<le> length (tl (skip t)) \<or> length r < length (skip (tl (skip t)))"
    using Suc t by (auto simp: rbind_Inr split: if_splits)
  then show ?case
    using consumesD [OF Suc.prems(1) t] length_tl_skip [of t] length_skip [of "tl (skip t)"] by linarith
qed simp

lemma scan_members_length:
  "consumes scan \<Longrightarrow> scan_members scan n s = Inr (kvs, r) \<Longrightarrow> length r < length s"
proof (induction n arbitrary: s kvs)
  case (Suc n)
  from Suc.prems(2) obtain k t v u where t: "scan_string (tl s) = Inr (k, t)"
    and u: "scan (skip (tl (skip t))) = Inr (v, u)" by (auto simp: rbind_Inr split: if_splits)
  have "length r \<le> length (tl (skip u)) \<or> length r < length (skip (tl (skip u)))"
    using Suc t u by (auto simp: rbind_Inr split: if_splits)
  then show ?case
    using scan_string_length [OF t] consumesD [OF Suc.prems(1) u] length_tl_skip [of t] length_tl_skip [of u]
      length_skip [of "tl (skip t)"] length_skip [of "tl (skip u)"] length_tl [of s] by linarith
qed simp

lemma scan_array_length: "consumes scan \<Longrightarrow> scan_array scan s = Inr (v, r) \<Longrightarrow> length r \<le> length s"
  using length_tl_skip [of s] length_skip [of s] scan_items_length [of scan "length s" "skip s" _ r]
  by (fastforce simp: scan_array_def rbind_Inr split: if_splits)

lemma scan_object_length: "consumes scan \<Longrightarrow> scan_object scan s = Inr (v, r) \<Longrightarrow> length r \<le> length s"
  using length_tl_skip [of s] length_skip [of s] scan_members_length [of scan "length s" "skip s" _ r]
  by (fastforce simp: scan_object_def rbind_Inr split: if_splits)

lemma scan_value_consumes: "consumes (scan_value depth)"
proof (induction depth)
  case 0
  show ?case by (rule consumesI) (auto split: if_splits dest: scan_scalar_length)
next
  case (Suc depth)
  show ?case
  proof (rule consumesI)
    fix s v r assume "scan_value (Suc depth) s = Inr (v, r)"
    then show "length r < length s"
      using scan_array_length [OF Suc, of "tl s" v r] scan_object_length [OF Suc, of "tl s" v r]
        scan_scalar_length [of s v r]
      by (auto simp: starts_with_one split: if_splits)
  qed
qed

section \<open>The rounds are enough\<close>

definition expects :: "(pystr \<Rightarrow> (json \<times> pystr) res) \<Rightarrow> bool" where
  "expects scan \<longleftrightarrow> scan [] = raise ValueError ''Expecting value'' []"

lemma scan_value_expects: "expects (scan_value depth)"
  by (cases depth) (simp_all add: expects_def scan_scalar_def scan_number_def int_part_def lit_def)

lemma items_rounds:
  assumes "consumes scan" and "expects scan" and "length s \<le> n" and "length s \<le> m"
  shows "scan_items scan n s = scan_items scan m s"
  using assms(3,4)
proof (induction n arbitrary: m s)
  case 0
  with assms(2) show ?case by (cases m) (simp_all add: expects_def raise_def)
next
  case (Suc n)
  show ?case
  proof (cases m)
    case 0
    with Suc.prems assms(2) show ?thesis by (simp add: expects_def raise_def)
  next
    case (Suc k)
    have "scan_items scan n (skip (tl (skip r))) = scan_items scan k (skip (tl (skip r)))"
      if "scan s = Inr (v, r)" for v r
      using consumesD [OF assms(1) that] length_tl_skip [of r] length_skip [of "tl (skip r)"] Suc Suc.prems
      by (intro Suc.IH) simp_all
    with Suc show ?thesis by (auto simp: rbind_def split: sum.splits)
  qed
qed

lemma members_rounds:
  assumes "consumes scan" and "length s \<le> n" and "length s \<le> m"
  shows "scan_members scan n s = scan_members scan m s"
  using assms(2,3)
proof (induction n arbitrary: m s)
  case 0
  then show ?case by (cases m) simp_all
next
  case (Suc n)
  show ?case
  proof (cases m)
    case 0
    with Suc.prems show ?thesis by simp
  next
    case (Suc k)
    have "scan_members scan n (skip (tl (skip r))) = scan_members scan k (skip (tl (skip r)))"
      if "scan_string (tl s) = Inr (key, t)" "scan (skip (tl (skip t))) = Inr (v, r)" for key t v r
      using scan_string_length [OF that(1)] consumesD [OF assms(1) that(2)] length_tl_skip [of t]
        length_skip [of "tl (skip t)"] length_tl_skip [of r] length_skip [of "tl (skip r)"] length_tl [of s] Suc Suc.prems
      by (intro Suc.IH) linarith+
    with Suc show ?thesis by (auto simp: rbind_def split: sum.splits)
  qed
qed

section \<open>Errors\<close>

lemma read_char_raises: "only_raises {ValueError} (read_char c s)"
  by (auto simp: read_char_def read_escape_def split: list.splits option.splits)

lemma scan_string_raises: "only_raises {ValueError} (scan_string s)"
proof (induction s rule: scan_string.induct)
  case (2 c s)
  then show ?case
    using read_char_raises [of c s]
    by (auto simp: scan_string.simps(2) split: sum.splits intro!: only_raises_rbind)
qed simp

lemma scan_number_raises: "only_raises {ValueError} (scan_number s)"
  by (auto simp: scan_number_def Let_def split: option.splits prod.splits)

lemma scan_scalar_raises: "only_raises {ValueError} (scan_scalar s)"
  using scan_string_raises scan_number_raises
  by (auto simp: scan_scalar_def intro!: only_raises_rbind)

lemma scan_items_raises:
  "ValueError \<in> cs \<Longrightarrow> (\<And>s. only_raises cs (scan s)) \<Longrightarrow> only_raises cs (scan_items scan n s)"
  by (induction n arbitrary: s) (auto intro!: only_raises_rbind split: prod.splits)

lemma scan_members_raises:
  assumes "ValueError \<in> cs" and "\<And>s. only_raises cs (scan s)"
  shows "only_raises cs (scan_members scan n s)"
proof (induction n arbitrary: s)
  case (Suc n)
  have "only_raises cs (scan_string (tl s))" by (rule only_raises_mono [OF scan_string_raises]) (use assms(1) in simp)
  with Suc assms show ?case by (auto intro!: only_raises_rbind split: prod.splits)
qed (use assms in simp)

lemma scan_value_raises: "only_raises {ValueError, RecursionError} (scan_value depth s)"
proof (induction depth arbitrary: s)
  case 0
  show ?case using only_raises_mono [OF scan_scalar_raises] by auto
next
  case (Suc depth)
  have "only_raises {ValueError, RecursionError} (scan_scalar s)" for s
    using only_raises_mono [OF scan_scalar_raises] by auto
  with Suc show ?case
    by (auto simp: scan_array_def scan_object_def intro!: only_raises_rbind scan_items_raises scan_members_raises)
qed

lemma utf8_strict_raises: "only_raises {ValueError} (utf8_strict bs)"
  by (induction bs rule: utf8_strict.induct)
    (auto simp: utf8_strict.simps(2) split: option.splits intro!: only_raises_rbind simp del: utf8_step.simps)

lemma json_load_raises: "only_raises {ValueError, RecursionError} (json_load depth content)"
  using only_raises_mono [OF utf8_strict_raises] scan_value_raises
  by (auto simp: json_load_def json_loads_def intro!: only_raises_rbind)

section \<open>Reading what was printed\<close>

text \<open>A text that ends a value: the end, white space, or a delimiter.\<close>

definition delimited :: "pystr \<Rightarrow> bool" where
  "delimited s \<longleftrightarrow> s = [] \<or> hd s \<in> {10, 32, 44, 93, 125}"

lemma hex_value_digit: "d < 16 \<Longrightarrow> hex_value (hex_digit d) = Some d"
  by (auto simp: hex_value_def hex_digit_def)

lemma read_hex4_digits:
  "a < 16 \<Longrightarrow> b < 16 \<Longrightarrow> c < 16 \<Longrightarrow> d < 16 \<Longrightarrow>
   read_hex4 (hex_digit a # hex_digit b # hex_digit c # hex_digit d # t) =
     Some (a * 4096 + b * 256 + c * 16 + d, t)"
  by (simp add: hex_value_digit)

declare read_hex4.simps [simp del]

lemma hex4_value:
  assumes "u < 65536"
  shows "u div 4096 mod 16 * 4096 + u div 256 mod 16 * 256 + u div 16 mod 16 * 16 + u mod 16 = (u::nat)"
proof -
  define a b c where "a = u div 16" and "b = u div 256" and "c = u div 4096"
  have "c < 16" using assms by (simp add: c_def less_mult_imp_div_less)
  moreover have "u = 16 * a + u mod 16" "a = 16 * b + a mod 16" "b = 16 * c + b mod 16"
    using div_mult2_eq [of u 16 16] div_mult2_eq [of u 256 16] by (simp_all add: a_def b_def c_def)
  ultimately show ?thesis unfolding a_def [symmetric] b_def [symmetric] c_def [symmetric] by simp
qed

lemma read_hex4_hex4: "u < 65536 \<Longrightarrow> read_hex4 (hex4 u @ t) = Some (u, t)"
  unfolding hex4_def append.simps by (subst read_hex4_digits) (simp_all only: hex4_value mod_less_divisor zero_less_numeral)

lemma length_hex4 [simp]: "length (hex4 u) = 4"
  by (simp add: hex4_def)

lemma read_escape_unicode:
  "read_hex4 s = Some (u, t) \<Longrightarrow> read_escape (117 # s) =
    (if 0xD800 \<le> u \<and> u \<le> 0xDBFF then
       (case low_surrogate t of
          Some (l, r) \<Rightarrow> Inr (0x10000 + (u - 0xD800) * 1024 + (l - 0xDC00), r)
        | None \<Rightarrow> Inr (u, t))
     else Inr (u, t))"
  by (simp add: read_escape_def)

lemma read_escape_plain:
  assumes "u < 65536" and "\<not> is_surrogate u"
  shows "read_escape (117 # hex4 u @ t) = Inr (u, t)"
  using assms(2) read_escape_unicode [OF read_hex4_hex4 [OF assms(1), of t]] by (auto simp: is_surrogate_def)

lemma read_escape_pair:
  assumes "high < 1024" and "low < 1024"
  shows "read_escape (117 # hex4 (0xD800 + high) @ 92 # 117 # hex4 (0xDC00 + low) @ t) =
    Inr (0x10000 + high * 1024 + low, t)"
proof -
  have "0xDC00 + low < 65536" "0xD800 + high < 65536" using assms by simp_all
  note read = this [THEN read_hex4_hex4]
  have "low_surrogate (92 # 117 # hex4 (0xDC00 + low) @ t) = Some (0xDC00 + low, t)"
    using read(1) [of t] assms(2) by (simp add: low_surrogate_def)
  with read_escape_unicode [OF read(2) [of "92 # 117 # hex4 (0xDC00 + low) @ t"]] assms(1)
  show ?thesis by simp
qed

lemma scan_escape:
  assumes "read_escape t = Inr (c, r)"
  shows "scan_string (92 # t) = rbind (scan_string r) (\<lambda>(v, r). Inr (c # v, r))"
  using assms by (simp add: scan_string.simps(2) read_char_def)

lemma scan_plain_char:
  "c \<noteq> 34 \<Longrightarrow> c \<noteq> 92 \<Longrightarrow> 32 \<le> c \<Longrightarrow> scan_string (c # t) = rbind (scan_string t) (\<lambda>(v, r). Inr (c # v, r))"
  by (simp add: scan_string.simps(2) read_char_def)

lemma scan_escape_char:
  assumes "c < 0x110000" and "\<not> is_surrogate c"
  shows "scan_string (escape_char c @ t) = rbind (scan_string t) (\<lambda>(v, r). Inr (c # v, r))"
proof (cases "map_of letter_escapes c")
  case (Some l)
  then have "read_escape (l # t) = Inr (c, t)"
    by (auto simp: letter_escapes_def read_escape_def split: if_splits)
  with Some show ?thesis by (simp add: escape_char_def scan_escape)
next
  case None
  then have special: "c \<noteq> 34" "c \<noteq> 92" by (auto simp: letter_escapes_def)
  consider "32 \<le> c" "c \<le> 126" | "\<not> (32 \<le> c \<and> c \<le> 126)" "c < 0x10000" | "0x10000 \<le> c" by linarith
  then show ?thesis
  proof cases
    case 1
    with None special show ?thesis by (simp add: escape_char_def scan_plain_char)
  next
    case 2
    have "read_escape (117 # hex4 c @ t) = Inr (c, t)"
      using 2 assms(2) by (intro read_escape_plain) simp_all
    moreover have "escape_char c = [92, 117] @ hex4 c" using 2 None by (simp add: escape_char_def)
    ultimately show ?thesis by (simp add: scan_escape)
  next
    case 3
    define n where "n = c - 0x10000"
    have n: "n div 1024 < 1024" using assms(1) by (simp add: n_def less_mult_imp_div_less)
    have "0x10000 + n div 1024 * 1024 + n mod 1024 = c" using 3 by (simp add: n_def)
    with read_escape_pair [OF n, of "n mod 1024" t] have
      "read_escape (117 # hex4 (0xD800 + n div 1024) @ 92 # 117 # hex4 (0xDC00 + n mod 1024) @ t) = Inr (c, t)" by simp
    moreover have "escape_char c = [92, 117] @ hex4 (0xD800 + n div 1024) @ [92, 117] @ hex4 (0xDC00 + n mod 1024)"
      using 3 None by (simp add: escape_char_def n_def Let_def)
    ultimately show ?thesis by (simp add: scan_escape)
  qed
qed

lemma scan_string_text: "encodable s \<Longrightarrow> scan_string (concat (map escape_char s) @ 34 # rest) = Inr (s, rest)"
proof (induction s)
  case Nil
  show ?case by (simp add: scan_string.simps(2))
next
  case (Cons c s)
  then show ?case by (simp add: encodable_def scan_escape_char)
qed

lemma int_part_digits:
  assumes "delimited rest"
  shows "int_part (decimal_digits n @ rest) = Some (decimal_digits n, rest)"
proof -
  have stops: "\<not> (rest \<noteq> [] \<and> is_ascii_digit (hd rest))"
    using assms by (auto simp: delimited_def is_ascii_digit_def)
  have ascii: "\<forall>c \<in> set (decimal_digits n). is_ascii_digit c"
    using decimal_digits_ascii [of n] by (simp add: list_all_iff)
  have stop: "takeWhile is_ascii_digit rest = []" "dropWhile is_ascii_digit rest = rest"
    using stops by (cases rest; simp)+
  have zero: "decimal_digits n = [48]" if "hd (decimal_digits n) = 48"
    using that
  proof (induction n rule: decimal_digits.induct)
    case (1 n)
    show ?case
    proof (cases "n < 10")
      case True
      with "1.prems" show ?thesis by (simp add: decimal_digits.simps)
    next
      case False
      with "1.prems" have "hd (decimal_digits (n div 10)) = 48" by (simp add: decimal_digits.simps [of n])
      with "1.IH" False have "decimal_digits (n div 10) = [48]" by simp
      moreover have "digits_value [48] = 0" by (simp add: digits_value_def digit_value_ascii is_ascii_digit_def)
      ultimately have "n div 10 = 0" by (metis digits_value_decimal)
      with False show ?thesis by linarith
    qed
  qed
  obtain c t where ct: "decimal_digits n = c # t" by (cases "decimal_digits n") simp_all
  then show ?thesis
    using zero ascii stop by (auto simp: int_part_def)
qed

lemma scan_number_decimal:
  assumes "delimited rest" and "length (decimal_digits (nat \<bar>i\<bar>)) \<le> MAX_INT_DIGITS"
  shows "scan_number (decimal_text i @ rest) = Inr (JInt i, rest)"
proof -
  have parts: "fraction_part rest = (None, rest)" "exponent_part rest = (None, rest)"
    using assms(1) by (auto simp: fraction_part_def exponent_part_def delimited_def starts_with_one Let_def)
  have "is_ascii_digit (hd (decimal_digits (nat i)))"
    using decimal_digits_ascii [of "nat i"] by (cases "decimal_digits (nat i)") simp_all
  then have unsigned: "\<not> starts_with [45] (decimal_digits (nat i) @ rest)"
    by (auto simp: starts_with_def is_ascii_digit_def hd_append dest!: arg_cong [of _ _ hd])
  show ?thesis
    using int_part_digits [OF assms(1)] parts unsigned assms(2)
    by (cases "i < 0") (simp_all add: decimal_text_def scan_number_def Let_def lit_def)
qed


text \<open>The values that are read back: no finite floats, no lone surrogates, no repeated keys.\<close>

fun printable :: "json \<Rightarrow> bool" where
  "printable (JInt i) \<longleftrightarrow> length (decimal_digits (nat \<bar>i\<bar>)) \<le> MAX_INT_DIGITS"
| "printable (JFloat f) \<longleftrightarrow> (case f of FFinite _ \<Rightarrow> False | _ \<Rightarrow> True)"
| "printable (JText s) \<longleftrightarrow> encodable s"
| "printable (JList vs) \<longleftrightarrow> (\<forall>v \<in> set vs. printable v)"
| "printable (JDict kvs) \<longleftrightarrow> distinct (map fst kvs) \<and> (\<forall>(k, v) \<in> set kvs. encodable k \<and> printable v)"
| "printable _ \<longleftrightarrow> True"

fun nesting :: "json \<Rightarrow> nat" where
  "nesting (JList vs) = Suc (fold max (map nesting vs) 0)"
| "nesting (JDict kvs) = Suc (fold max (map (\<lambda>(k, v). nesting v) kvs) 0)"
| "nesting _ = 0"

lemma fold_max_le [simp]: "fold max ns (m::nat) \<le> n \<longleftrightarrow> m \<le> n \<and> (\<forall>k \<in> set ns. k \<le> n)"
  by (induction ns arbitrary: m) auto

definition solid :: "pystr \<Rightarrow> bool" where
  "solid s \<longleftrightarrow> s \<noteq> [] \<and> \<not> json_space (hd s) \<and> hd s \<noteq> 93"

lemma skip_solid: "solid s \<Longrightarrow> skip (s @ t) = s @ t"
  by (cases s) (simp_all add: solid_def skip_def)

lemma skip_Cons: "\<not> json_space c \<Longrightarrow> skip (c # s) = c # s"
  by (simp add: skip_def)

lemma new_line_space: "\<forall>c \<in> set (new_line indent level). json_space c \<and> c \<in> {10, 32}"
  by (auto simp: new_line_def json_space_def split: option.splits)

lemma skip_new_line: "skip (new_line indent level @ s) = skip s"
  using new_line_space [of indent level] by (simp add: skip_def dropWhile_append2)

lemma delimited_Cons [simp]: "delimited (c # s) \<longleftrightarrow> c \<in> {10, 32, 44, 93, 125}" "delimited []"
  by (simp_all add: delimited_def)

lemma delimited_new_line: "delimited s \<Longrightarrow> delimited (new_line indent level @ s)"
  using new_line_space [of indent level] by (cases "new_line indent level") (auto simp: delimited_def)

lemma separator_eq: "\<exists>gap. separator indent level = 44 # gap \<and> (\<forall>s. skip (gap @ s) = skip s)"
  using skip_new_line [of indent level]
  by (cases indent) (auto simp: separator_def skip_def json_space_def)

text \<open>The texts of the items, one after the other, with a scanner that reads back each of them.\<close>

lemma scan_items_text:
  assumes "\<And>v rest. v \<in> set vs \<Longrightarrow> delimited rest \<Longrightarrow> scan (t v @ rest) = Inr (v, rest)"
    and "\<And>v. v \<in> set vs \<Longrightarrow> solid (t v)"
    and "vs \<noteq> []" and "length vs \<le> n" and "skip tail = 93 # rest" and "delimited tail"
  shows "scan_items scan n (join (separator indent level) (map t vs) @ tail) = Inr (vs, rest)"
  using assms
proof (induction vs arbitrary: n)
  case (Cons v vs)
  then obtain m where n: "n = Suc m" by (cases n) simp_all
  show ?case
  proof (cases vs)
    case Nil
    with Cons.prems n show ?thesis by simp
  next
    case (Cons w ws)
    obtain gap where gap: "separator indent level = 44 # gap" "\<And>s. skip (gap @ s) = skip s"
      using separator_eq by blast
    let ?more = "join (separator indent level) (map t vs) @ tail"
    have "skip (gap @ ?more) = ?more"
      using skip_solid [OF Cons.prems(2), of w] local.Cons by (simp add: gap(2))
    moreover have "scan_items scan m ?more = Inr (vs, rest)"
      using Cons.prems n local.Cons by (intro Cons.IH) auto
    moreover have "join (separator indent level) (map t (v # vs)) @ tail = t v @ 44 # gap @ ?more"
      using local.Cons gap(1) by simp
    ultimately show ?thesis
      using Cons.prems(1) [of v "44 # gap @ ?more"] n
      by (simp add: skip_Cons json_space_def del: list.map join.simps)
  qed
qed simp

definition member_text :: "(json \<Rightarrow> pystr) \<Rightarrow> pystr \<times> json \<Rightarrow> pystr" where
  "member_text t kv = string_text (fst kv) @ [58, 32] @ t (snd kv)"

lemma scan_member:
  assumes "encodable k" and "solid (t v)" and "scan (t v @ rest) = Inr (v, rest)"
  shows "\<exists>s r. member_text t (k, v) @ rest = 34 # s \<and> scan_string s = Inr (k, 58 # r) \<and>
    scan (skip r) = Inr (v, rest)"
proof (intro exI conjI)
  show "scan_string (concat (map escape_char k) @ 34 # 58 # 32 # t v @ rest) = Inr (k, 58 # 32 # t v @ rest)"
    using scan_string_text [OF assms(1)] .
  show "scan (skip (32 # t v @ rest)) = Inr (v, rest)"
    using skip_solid [OF assms(2), of rest] assms(3) by (simp add: skip_def json_space_def)
qed (simp add: member_text_def string_text_def)

lemma scan_members_text:
  assumes "\<And>k v rest. (k, v) \<in> set kvs \<Longrightarrow> delimited rest \<Longrightarrow> scan (t v @ rest) = Inr (v, rest)"
    and "\<And>k v. (k, v) \<in> set kvs \<Longrightarrow> encodable k \<and> solid (t v)"
    and "kvs \<noteq> []" and "length kvs \<le> n" and "skip tail = 125 # rest" and "delimited tail"
  shows "scan_members scan n (join (separator indent level) (map (member_text t) kvs) @ tail) = Inr (kvs, rest)"
  using assms
proof (induction kvs arbitrary: n)
  case (Cons kv kvs)
  obtain k v where kv: "kv = (k, v)" by force
  from Cons.prems obtain m where n: "n = Suc m" by (cases n) simp_all
  have solid: "encodable k" "solid (t v)" using Cons.prems(2) kv by auto
  show ?case
  proof (cases kvs)
    case Nil
    have "scan (t v @ tail) = Inr (v, tail)" using Cons.prems(1) [of k v tail] Cons.prems(6) kv by simp
    from scan_member [of k t v scan tail, OF solid this] obtain s r where
      "member_text t kv @ tail = 34 # s" "scan_string s = Inr (k, 58 # r)" "scan (skip r) = Inr (v, tail)"
      unfolding kv by blast
    with Nil Cons.prems(5) n kv show ?thesis by (simp add: skip_Cons json_space_def)
  next
    case (Cons w ws)
    obtain gap where gap: "separator indent level = 44 # gap" "\<And>s. skip (gap @ s) = skip s"
      using separator_eq by blast
    let ?more = "join (separator indent level) (map (member_text t) kvs) @ tail"
    have "solid (member_text t w)" by (simp add: member_text_def string_text_def solid_def json_space_def)
    from skip_solid [OF this] have "skip (gap @ ?more) = ?more" using local.Cons by (simp add: gap(2))
    moreover have "scan_members scan m ?more = Inr (kvs, rest)"
    proof (rule Cons.IH)
      show "scan (t v @ rest) = Inr (v, rest)" if "(k, v) \<in> set kvs" "delimited rest" for k v rest
        using Cons.prems(1) [of k v rest] that by simp
      show "encodable k \<and> solid (t v)" if "(k, v) \<in> set kvs" for k v
        using Cons.prems(2) [of k v] that by simp
    qed (use Cons.prems n local.Cons in simp_all)
    moreover have "join (separator indent level) (map (member_text t) (kv # kvs)) @ tail =
        member_text t kv @ 44 # gap @ ?more"
      using local.Cons gap(1) by simp
    moreover have "scan (t v @ 44 # gap @ ?more) = Inr (v, 44 # gap @ ?more)"
      using Cons.prems(1) [of k v "44 # gap @ ?more"] kv by simp
    from scan_member [of k t v scan "44 # gap @ ?more", OF solid this] obtain s r where
      "member_text t kv @ 44 # gap @ ?more = 34 # s" "scan_string s = Inr (k, 58 # r)"
      "scan (skip r) = Inr (v, 44 # gap @ ?more)" unfolding kv by blast
    ultimately show ?thesis using n kv by (simp add: skip_Cons json_space_def del: list.map join.simps)
  qed
qed simp

text \<open>How the text of an integer begins.\<close>

lemma decimal_text_head:
  "\<exists>c s. decimal_text i = c # s \<and> (is_ascii_digit c \<or> c = 45 \<and> s \<noteq> [] \<and> is_ascii_digit (hd s))"
proof -
  have "\<exists>c s. decimal_digits n = c # s \<and> is_ascii_digit c" for n
    using decimal_digits_ascii [of n] by (cases "decimal_digits n") simp_all
  from this [of "nat i"] this [of "nat (- i)"] show ?thesis by (auto simp: decimal_text_def lit_def)
qed

lemma scan_scalar_number:
  assumes "is_ascii_digit c \<or> c = 45 \<and> s \<noteq> [] \<and> is_ascii_digit (hd s)"
  shows "scan_scalar (c # s) = scan_number (c # s)"
proof -
  have digit: "is_ascii_digit d \<Longrightarrow> d \<notin> {34, 45, 73, 78, 102, 110, 116}" for d by (auto simp: is_ascii_digit_def)
  show ?thesis
  proof (cases "c = 45")
    case True
    with assms digit [of "hd s"] show ?thesis
      by (cases s) (auto simp: scan_scalar_def lit_def is_ascii_digit_def)
  next
    case False
    with assms have "c \<notin> {34, 45, 73, 78, 102, 110, 116}" using digit by simp
    then show ?thesis by (simp add: scan_scalar_def lit_def)
  qed
qed

lemma scan_value_scalar: "s = c # t \<Longrightarrow> c \<noteq> 91 \<Longrightarrow> c \<noteq> 123 \<Longrightarrow> scan_value depth s = scan_scalar s"
  by (cases depth) simp_all

lemma json_text_solid: "printable v \<Longrightarrow> solid (json_text ft indent level v)"
proof (cases v)
  case (JInt i)
  obtain c s where "decimal_text i = c # s" "is_ascii_digit c \<or> c = 45" using decimal_text_head by blast
  with JInt show ?thesis by (auto simp: solid_def json_space_def is_ascii_digit_def)
qed (auto simp: solid_def json_space_def lit_def string_text_def enclosed_def split: json_float.splits)

lemma scan_scalar_text:
  assumes "printable v" and "delimited rest" and "\<And>vs. v \<noteq> JList vs" and "\<And>kvs. v \<noteq> JDict kvs"
  shows "scan_value depth (json_text ft indent level v @ rest) = Inr (v, rest)"
proof (cases v)
  case (JInt i)
  obtain c s where i: "decimal_text i = c # s" "is_ascii_digit c \<or> c = 45 \<and> s \<noteq> [] \<and> is_ascii_digit (hd s)"
    using decimal_text_head by blast
  then have "scan_value depth (c # s @ rest) = scan_number (c # s @ rest)"
    using scan_value_scalar [of "c # s @ rest" c] scan_scalar_number [of c "s @ rest"]
    by (auto simp: is_ascii_digit_def)
  with scan_number_decimal [OF assms(2), of i] JInt i(1) assms(1) show ?thesis by simp
next
  case (JText s)
  with assms(1) scan_string_text [of s rest] show ?thesis
    by (simp add: string_text_def scan_value_scalar scan_scalar_def)
qed (use assms in \<open>auto simp: scan_value_scalar scan_scalar_def lit_def split: json_float.splits\<close>)

lemma enclosed_parts:
  "parts \<noteq> [] \<Longrightarrow> enclosed left right indent level parts =
    left # new_line indent (Suc level) @ join (separator indent (Suc level)) parts @ new_line indent level @ [right]"
  by (simp add: enclosed_def)

lemma length_join: "(\<And>p. p \<in> set parts \<Longrightarrow> p \<noteq> []) \<Longrightarrow> length parts \<le> length (join sep parts)"
proof (induction parts)
  case (Cons p parts)
  then have "p \<noteq> []" and "length parts \<le> length (join sep parts)" by simp_all
  moreover have "length (join sep parts) \<le> length (concat (map (\<lambda>y. sep @ y) parts))" by (cases parts) simp_all
  ultimately show ?case by (cases p) simp_all
qed simp

lemma scan_array_text:
  assumes "\<And>v rest. v \<in> set vs \<Longrightarrow> delimited rest \<Longrightarrow> scan (t v @ rest) = Inr (v, rest)"
    and "\<And>v. v \<in> set vs \<Longrightarrow> solid (t v)"
  shows "scan_array scan (tl (enclosed 91 93 indent level (map t vs)) @ rest) = Inr (JList vs, rest)"
proof (cases "vs = []")
  case True
  then show ?thesis by (simp add: enclosed_def scan_array_def skip_Cons json_space_def)
next
  case False
  let ?body = "join (separator indent (Suc level)) (map t vs)" and ?tail = "new_line indent level @ 93 # rest"
  obtain v ws where vs: "vs = v # ws" using False by (cases vs) simp_all
  have ne: "t w \<noteq> []" if "w \<in> set vs" for w using assms(2) [OF that] by (simp add: solid_def)
  have body: "?body @ ?tail = t v @ drop (length (t v)) ?body @ ?tail" using vs by simp
  have skip: "skip (new_line indent (Suc level) @ ?body @ ?tail) = ?body @ ?tail"
    unfolding skip_new_line body by (rule skip_solid) (use assms(2) vs in simp)
  have "\<not> starts_with [93] (?body @ ?tail)"
    using assms(2) [of v] vs by (cases "t v") (simp_all add: solid_def)
  moreover have "scan_items scan (length (new_line indent (Suc level) @ ?body @ ?tail)) (?body @ ?tail) = Inr (vs, rest)"
  proof (rule scan_items_text [OF assms(1,2) False])
    have "length vs \<le> length ?body" using length_join [of "map t vs"] ne by fastforce
    then show "length vs \<le> length (new_line indent (Suc level) @ ?body @ ?tail)" by simp
    show "skip ?tail = 93 # rest" by (simp add: skip_new_line skip_Cons json_space_def)
    show "delimited ?tail" by (rule delimited_new_line) simp
  qed
  ultimately show ?thesis
    using False skip by (simp add: enclosed_parts scan_array_def)
qed

lemma scan_object_text:
  assumes "\<And>k v rest. (k, v) \<in> set kvs \<Longrightarrow> delimited rest \<Longrightarrow> scan (t v @ rest) = Inr (v, rest)"
    and "\<And>k v. (k, v) \<in> set kvs \<Longrightarrow> encodable k \<and> solid (t v)" and "distinct (map fst kvs)"
  shows "scan_object scan (tl (enclosed 123 125 indent level (map (member_text t) kvs)) @ rest) = Inr (JDict kvs, rest)"
proof (cases "kvs = []")
  case True
  then show ?thesis by (simp add: enclosed_def scan_object_def skip_Cons json_space_def dict_of_def)
next
  case False
  let ?body = "join (separator indent (Suc level)) (map (member_text t) kvs)"
    and ?tail = "new_line indent level @ 125 # rest"
  have quoted: "\<exists>u. member_text t kv = 34 # u" for kv by (simp add: member_text_def string_text_def)
  obtain u where body: "?body @ ?tail = 34 # u"
    using False quoted by (cases kvs) (auto, metis append_Cons)
  have skip: "skip (new_line indent (Suc level) @ ?body @ ?tail) = ?body @ ?tail"
    unfolding skip_new_line body by (simp add: skip_Cons json_space_def)
  have "scan_members scan (length (new_line indent (Suc level) @ ?body @ ?tail)) (?body @ ?tail) = Inr (kvs, rest)"
  proof (rule scan_members_text [OF assms(1,2) False])
    have "length kvs \<le> length ?body"
      using length_join [of "map (member_text t) kvs"] quoted by (metis length_map list.distinct(1) imageE list.set_map)
    then show "length kvs \<le> length (new_line indent (Suc level) @ ?body @ ?tail)" by simp
    show "skip ?tail = 125 # rest" by (simp add: skip_new_line skip_Cons json_space_def)
    show "delimited ?tail" by (rule delimited_new_line) simp
  qed
  then show ?thesis
    using False skip body dict_of_distinct [OF assms(3)] by (simp add: enclosed_parts scan_object_def)
qed

lemma json_text_dict:
  "json_text ft indent level (JDict kvs) =
     enclosed 123 125 indent level (map (member_text (json_text ft indent (Suc level))) kvs)"
  by (simp add: member_text_def [abs_def] split_def)

lemma scan_value_text:
  "printable v \<Longrightarrow> nesting v \<le> depth \<Longrightarrow> delimited rest \<Longrightarrow>
   scan_value depth (json_text ft indent level v @ rest) = Inr (v, rest)"
proof (induction v arbitrary: depth level rest)
  case (JList vs)
  then obtain d where d: "depth = Suc d" by (cases depth) simp_all
  let ?t = "json_text ft indent (Suc level)"
  have "scan_array (scan_value d) (tl (enclosed 91 93 indent level (map ?t vs)) @ rest) = Inr (JList vs, rest)"
  proof (rule scan_array_text)
    show "scan_value d (?t v @ r) = Inr (v, r)" if "v \<in> set vs" "delimited r" for v r
      using JList d that by simp
    show "solid (?t v)" if "v \<in> set vs" for v using JList.prems(1) that by (simp add: json_text_solid)
  qed
  with d show ?case by (simp add: enclosed_def split: if_splits)
next
  case (JDict kvs)
  then obtain d where d: "depth = Suc d" by (cases depth) simp_all
  let ?t = "json_text ft indent (Suc level)"
  have "scan_object (scan_value d) (tl (enclosed 123 125 indent level (map (member_text ?t) kvs)) @ rest) =
      Inr (JDict kvs, rest)"
  proof (rule scan_object_text)
    show "scan_value d (?t v @ r) = Inr (v, r)" if "(k, v) \<in> set kvs" "delimited r" for k v r
      using JDict.prems d that by (intro JDict.IH [OF that(1)]) auto
    show "encodable k \<and> solid (?t v)" if "(k, v) \<in> set kvs" for k v
      using JDict.prems(1) that by (auto simp: json_text_solid)
    show "distinct (map fst kvs)" using JDict.prems(1) by simp
  qed
  with d show ?case unfolding json_text_dict by (simp add: enclosed_def split: if_splits)
qed (auto simp del: json_text.simps printable.simps intro: scan_scalar_text)

section \<open>Documents\<close>

lemma ascii_join: "(\<And>p. p \<in> set parts \<Longrightarrow> list_all (\<lambda>c. c < 128) p) \<Longrightarrow> list_all (\<lambda>c. c < 128) sep \<Longrightarrow>
   list_all (\<lambda>c. c < 128) (join sep parts)"
  by (cases parts) (auto simp: list_all_iff)

lemma ascii_string_text: "list_all (\<lambda>c. c < 128) (string_text s)"
proof -
  have "hex_digit (x mod 16) < 128" for x
    using mod_less_divisor [of 16 x] by (simp add: hex_digit_def del: mod_less_divisor)
  then have hex: "\<forall>d \<in> set (hex4 u). d < 128" for u by (simp add: hex4_def)
  have "map_of letter_escapes c = Some l \<Longrightarrow> l < 128" for c l
    by (auto simp: letter_escapes_def split: if_splits)
  with hex have "\<forall>d \<in> set (escape_char c). d < 128" for c
    by (auto simp: escape_char_def Let_def split: option.splits)
  then show ?thesis by (auto simp: string_text_def list_all_iff)
qed

lemma ascii_enclosed:
  assumes "left < 128" "right < 128" "\<And>p. p \<in> set parts \<Longrightarrow> list_all (\<lambda>c. c < 128) p"
  shows "list_all (\<lambda>c. c < 128) (enclosed left right indent level parts)"
proof -
  have space: "list_all (\<lambda>c. c < 128) (new_line indent l)" for l
    using new_line_space [of indent l] by (auto simp: list_all_iff)
  then have "list_all (\<lambda>c. c < 128) (separator indent l)" for l
    using space [of l] by (cases indent) (simp_all add: separator_def)
  with assms space show ?thesis by (simp add: enclosed_def ascii_join)
qed

lemma ascii_decimal: "list_all (\<lambda>c. c < 128) (decimal_text i)"
proof -
  have "is_ascii_digit c \<Longrightarrow> c < 128" for c by (simp add: is_ascii_digit_def)
  then have "list_all (\<lambda>c. c < 128) (decimal_digits n)" for n
    using decimal_digits_ascii [of n] by (auto simp: list_all_iff)
  then show ?thesis by (simp add: decimal_text_def lit_def)
qed

lemma json_text_ascii: "printable v \<Longrightarrow> list_all (\<lambda>c. c < 128) (json_text ft indent level v)"
proof (induction v arbitrary: level)
  case (JFloat f)
  then show ?case by (cases f) (simp_all add: lit_def)
next
  case (JList vs)
  then show ?case by (auto intro!: ascii_enclosed)
next
  case (JDict kvs)
  then show ?case using ascii_string_text by (fastforce intro!: ascii_enclosed)
qed (simp_all add: ascii_decimal ascii_string_text, simp_all add: lit_def)

lemma utf8_strict_ascii: "list_all (\<lambda>c. c < 128) s \<Longrightarrow> utf8_strict s = Inr s"
  by (induction s) (simp_all add: utf8_strict.simps(2))

lemma json_loads_text:
  assumes "printable v" and "nesting v \<le> depth"
  shows "json_loads depth (json_text ft indent 0 v) = Inr v"
    and "json_loads depth (json_text ft indent 0 v @ [10]) = Inr v"
proof -
  let ?t = "json_text ft indent 0 v"
  have solid: "solid ?t" using assms(1) by (rule json_text_solid)
  have ascii: "list_all (\<lambda>c. c < 128) ?t" using assms(1) by (rule json_text_ascii)
  have no_bom: "\<not> starts_with [0xFEFF] (?t @ r)" for r
    using solid ascii by (cases ?t) (auto simp: solid_def)
  have "json_loads depth (?t @ r) = Inr v" if "delimited r" "skip r = []" for r
    using no_bom [of r] skip_solid [OF solid, of r] scan_value_text [OF assms that(1), of ft indent 0] that(2)
    by (simp add: json_loads_def)
  from this [of "[]"] this [of "[10]"] show "json_loads depth ?t = Inr v" "json_loads depth (?t @ [10]) = Inr v"
    by (simp_all add: skip_def json_space_def)
qed

lemma unat_ascii: "list_all (\<lambda>c. c < 128) s \<Longrightarrow> map unat (map word_of_nat s :: bytes) = s"
  by (induction s) (simp_all add: unat_of_nat)

lemma json_load_dump:
  assumes "printable v" and "nesting v \<le> depth"
  shows "json_load depth (json_dump ft indent v) = Inr v"
proof -
  note ascii = json_text_ascii [OF assms(1), of ft indent 0]
  from json_loads_text(1) [OF assms, of ft indent] show ?thesis
    by (simp add: json_load_def json_dump_def unat_ascii [OF ascii] utf8_strict_ascii [OF ascii] del: map_map)
qed

end
