(* ===== verification/Py_Format.thy ===== *)
theory Py_Format
  imports Json_Laws
begin

text \<open>
  Floating point numbers as text: \<^verbatim>\<open>float(text)\<close> and the formats \<^verbatim>\<open>f\<close>,
  \<^verbatim>\<open>g\<close> and \<^verbatim>\<open>,\<close> of Python, on numbers that are finite or one of infinity and NaN.
  A quotient is the binary64 number nearest to the exact one. The sign of a zero is not kept.
\<close>

section \<open>Reading\<close>

text \<open>Decimal digits of any script as ASCII digits, and underscores only between digits.\<close>

definition ascii_digits :: "pystr \<Rightarrow> pystr" where
  "ascii_digits s = map (\<lambda>c. case digit_value c of Some d \<Rightarrow> 48 + d | None \<Rightarrow> c) s"

fun underscores_ok :: "bool \<Rightarrow> pystr \<Rightarrow> bool" where
  "underscores_ok after_digit [] \<longleftrightarrow> True"
| "underscores_ok after_digit (c # s) \<longleftrightarrow>
     (c \<noteq> 95 \<or> (after_digit \<and> s \<noteq> [] \<and> is_ascii_digit (hd s))) \<and> underscores_ok (is_ascii_digit c) s"

definition lower :: "nat \<Rightarrow> nat" where
  "lower c = (if 65 \<le> c \<and> c \<le> 90 then c + 32 else c)"

definition unsigned_float :: "pystr \<Rightarrow> rat option" where
  "unsigned_float s =
     (let whole = takeWhile is_ascii_digit s; rest = dropWhile is_ascii_digit s;
          point = starts_with [46] rest;
          parts = (if point then takeWhile is_ascii_digit (tl rest) else []);
          rest = (if point then dropWhile is_ascii_digit (tl rest) else rest) in
      case exponent_part rest of
        (exponent, rest) \<Rightarrow>
          if whole @ parts = [] \<or> rest \<noteq> [] then None
          else Some (of_nat (digits_value (whole @ parts)) *
            pow10 ((case exponent of Some e \<Rightarrow> e | None \<Rightarrow> 0) - int (length parts))))"

definition float_of_text :: "pystr \<Rightarrow> json_float res" where
  "float_of_text text_value =
     (let s = ascii_digits (strip text_value); negative = starts_with [45] s;
          s = (if negative \<or> starts_with [43] s then tl s else s);
          name = map lower s; failed = raise ValueError ''could not convert string to float: {text!r}'' [AStr text_value] in
      if name = lit ''inf'' \<or> name = lit ''infinity'' then Inr (FInfinite negative)
      else if name = lit ''nan'' then Inr FNan
      else if \<not> underscores_ok False s then failed
      else
        (case unsigned_float (filter (\<lambda>c. c \<noteq> 95) s) of
           None \<Rightarrow> failed
         | Some q \<Rightarrow> Inr (round_binary64 (if negative then - q else q))))"

section \<open>Printing\<close>

text \<open>\<open>:,\<close> groups the digits by three from the right.\<close>

fun group_reversed :: "pystr \<Rightarrow> pystr" where
  "group_reversed (a # b # c # d # s) = a # b # c # 44 # group_reversed (d # s)"
| "group_reversed s = s"

definition grouped :: "pystr \<Rightarrow> pystr" where
  "grouped digits = rev (group_reversed (rev digits))"

definition grouped_text :: "int \<Rightarrow> pystr" where
  "grouped_text v = (if v < 0 then [45] else []) @ grouped (decimal_digits (nat \<bar>v\<bar>))"

text \<open>\<open>:.kf\<close> as the digits before and after the point; the fraction is rounded to even.\<close>

definition fixed_parts :: "nat \<Rightarrow> rat \<Rightarrow> pystr \<times> pystr" where
  "fixed_parts k q =
     (let digits = decimal_digits (nat (half_even (\<bar>q\<bar> * 10 ^ k)));
          padded = replicate (Suc k - length digits) 48 @ digits in
      (take (length padded - k) padded, drop (length padded - k) padded))"

definition fixed_text :: "bool \<Rightarrow> nat \<Rightarrow> json_float \<Rightarrow> pystr" where
  "fixed_text grouping k v =
     (case v of
        FFinite q \<Rightarrow>
          (case fixed_parts k q of
             (whole, parts) \<Rightarrow>
               (if q < 0 then [45] else []) @ (if grouping then grouped whole else whole) @
               (if k = 0 then [] else 46 # parts))
      | FInfinite negative \<Rightarrow> if negative then lit ''-inf'' else lit ''inf''
      | FNan \<Rightarrow> lit ''nan'')"

text \<open>
  \<open>:g\<close>: six significant digits without trailing zeros, with an exponent if that is below -4 or above 5.
\<close>

definition floor_log10 :: "rat \<Rightarrow> int" where
  "floor_log10 q =
     (case quotient_of q of (a, b) \<Rightarrow>
        let k = int (length (decimal_digits (nat a))) - int (length (decimal_digits (nat b))) in
        if pow10 k \<le> q then k else k - 1)"

definition strip_zeros :: "pystr \<Rightarrow> pystr" where
  "strip_zeros s = rev (dropWhile (\<lambda>c. c = 48) (rev s))"

definition with_point :: "pystr \<Rightarrow> pystr \<Rightarrow> pystr" where
  "with_point whole parts = whole @ (if strip_zeros parts = [] then [] else 46 # strip_zeros parts)"

definition general_text :: "json_float \<Rightarrow> pystr" where
  "general_text v =
     (case v of
        FFinite q \<Rightarrow>
          (if q < 0 then [45] else []) @
          (if q = 0 then [48]
           else
             let e = floor_log10 \<bar>q\<bar>; m = half_even (\<bar>q\<bar> / pow10 (e - 5));
                 e = (if m = 1000000 then e + 1 else e); m = (if m = 1000000 then 100000 else m);
                 digits = decimal_digits (nat m) in
             if - 4 \<le> e \<and> e < 6 then
               (if 0 \<le> e then with_point (take (nat e + 1) digits) (drop (nat e + 1) digits)
                else with_point [48] (replicate (nat (- e) - 1) 48 @ digits))
             else
               with_point (take 1 digits) (drop 1 digits) @ lit ''e'' @ (if e < 0 then [45] else [43]) @
               (if \<bar>e\<bar> < 10 then [48] else []) @ decimal_digits (nat \<bar>e\<bar>))
      | FInfinite negative \<Rightarrow> if negative then lit ''-inf'' else lit ''inf''
      | FNan \<Rightarrow> lit ''nan'')"

text \<open>The division of a float, or of an integer that is first converted to one, by a float.\<close>

definition float_quotient :: "json_float \<Rightarrow> rat \<Rightarrow> json_float" where
  "float_quotient v y =
     (case v of FFinite x \<Rightarrow> round_binary64 (x / y) | FInfinite negative \<Rightarrow> FInfinite (negative \<noteq> (y < 0)) | FNan \<Rightarrow> FNan)"

section \<open>Laws\<close>

lemma filter_group_reversed: "44 \<notin> set s \<Longrightarrow> filter (\<lambda>c. c \<noteq> 44) (group_reversed s) = s"
  by (induction s rule: group_reversed.induct) (auto simp: filter_id_conv)

lemma ungroup: "44 \<notin> set digits \<Longrightarrow> filter (\<lambda>c. c \<noteq> 44) (grouped digits) = digits"
  by (simp add: grouped_def filter_group_reversed flip: rev_filter)

lemma half_even_int [simp]: "half_even (of_int i) = i"
  by (simp add: half_even_def Let_def)

lemma half_even_bounds: "\<bar>of_int (half_even q) - q\<bar> \<le> 1 / 2"
  using of_int_floor_le [of q] floor_correct [of q]
  by (auto simp: half_even_def Let_def abs_if split: if_splits) (linarith+)?

lemma half_even_nonneg: "0 \<le> q \<Longrightarrow> 0 \<le> half_even q"
  by (auto simp: half_even_def Let_def)

text \<open>A number in fixed format reads as the number rounded to so many places.\<close>

lemma digits_value_append_zero: "digits_value (48 # s) = digits_value s"
  by (simp add: digits_value_def digit_value_ascii is_ascii_digit_def)

lemma digits_value_zeros: "digits_value (replicate n 48 @ s) = digits_value s"
  by (induction n) (simp_all add: digits_value_append_zero)

lemma fixed_parts_value:
  "digits_value (fst (fixed_parts k q) @ snd (fixed_parts k q)) = nat (half_even (\<bar>q\<bar> * 10 ^ k))"
  by (simp add: fixed_parts_def Let_def digits_value_zeros del: take_append drop_append)

lemma fixed_parts_length: "length (snd (fixed_parts k q)) = k" "fst (fixed_parts k q) \<noteq> []"
proof -
  define digits where "digits = decimal_digits (nat (half_even (\<bar>q\<bar> * 10 ^ k)))"
  define padded where "padded = replicate (Suc k - length digits) 48 @ digits"
  have long: "k < length padded" by (simp add: padded_def)
  have parts: "fixed_parts k q = (take (length padded - k) padded, drop (length padded - k) padded)"
    by (simp only: fixed_parts_def Let_def padded_def digits_def)
  from long show "length (snd (fixed_parts k q)) = k" by (simp only: parts snd_conv length_drop)
  from long show "fst (fixed_parts k q) \<noteq> []" by (auto simp: parts)
qed

end
