(* ===== verification/Option_Table.thy ===== *)
theory Option_Table
  imports Argparse Py_Format
begin

text \<open>
  The options of both command lines: the types of their values, the entries of their tables, the
  attributes of the result, and the text of an option with its value.
\<close>

section \<open>Values\<close>

datatype arg_value = VInt int | VFloat json_float | VText pystr | VFlag bool

definition text_value :: "pystr \<Rightarrow> arg_value res" where
  "text_value s = Inr (VText s)"

definition path_value :: "pystr \<Rightarrow> arg_value res" where
  "path_value s = Inr (VText (path_text s))"

definition int_value :: "(pystr \<Rightarrow> int res) \<Rightarrow> pystr \<Rightarrow> arg_value res" where
  "int_value f s = rbind (f s) (\<lambda>i. Inr (VInt i))"

definition float_value :: "pystr \<Rightarrow> arg_value res" where
  "float_value s = rbind (float_of_text s) (\<lambda>v. Inr (VFloat v))"

definition choice_value :: "pystr list \<Rightarrow> pystr \<Rightarrow> arg_value res" where
  "choice_value choices s = rbind (among choices s) (\<lambda>s. Inr (VText s))"

section \<open>Tables\<close>

definition option_spec :: "string list \<Rightarrow> string \<Rightarrow> 'v option_action \<Rightarrow> 'v option_spec" where
  "option_spec names dest action =
     \<lparr>op_names = map lit names, op_dest = lit dest, op_action = action, op_required = False, op_exclusive = False\<rparr>"

text \<open>The attributes of the namespace. Each has the type of its option, or is absent.\<close>

definition get_text :: "(pystr \<rightharpoonup> arg_value) \<Rightarrow> string \<Rightarrow> pystr option" where
  "get_text vals dest = (case vals (lit dest) of Some (VText s) \<Rightarrow> Some s | _ \<Rightarrow> None)"

definition get_int :: "(pystr \<rightharpoonup> arg_value) \<Rightarrow> string \<Rightarrow> int option" where
  "get_int vals dest = (case vals (lit dest) of Some (VInt i) \<Rightarrow> Some i | _ \<Rightarrow> None)"

section \<open>Options as text\<close>

definition optional :: "string \<Rightarrow> pystr option \<Rightarrow> pystr list" where
  "optional name x = map (\<lambda>s. assigned (lit name, s)) (case x of None \<Rightarrow> [] | Some s \<Rightarrow> [s])"

definition normal_path :: "pystr \<Rightarrow> bool" where
  "normal_path s \<longleftrightarrow> path_text s = s"

definition writable_int :: "int \<Rightarrow> bool" where
  "writable_int i \<longleftrightarrow> length (decimal_digits (nat \<bar>i\<bar>)) \<le> MAX_INT_DIGITS"

section \<open>Laws\<close>

lemma exclusive_dests_filter: "exclusive_dests options = set (map op_dest (filter op_exclusive options))"
  by (auto simp: exclusive_dests_def)

text \<open>An attribute that is absent unless its option was given.\<close>

lemma seen_attribute:
  assumes "d \<notin> seen \<Longrightarrow> vals d = defaults d" and "d \<in> seen \<Longrightarrow> \<exists>v. vals d = Some v \<and> set_by options d v"
    and "\<And>v. set_by options d v \<Longrightarrow> \<exists>x. v = f x" and "defaults d = None"
  shows "if d \<in> seen then \<exists>x. vals d = Some (f x) else vals d = None"
proof (cases "d \<in> seen")
  case True
  with assms(2) obtain v where "vals d = Some v" "set_by options d v" by blast
  with assms(3) True show ?thesis by auto
qed (use assms in simp)

lemma one_of_two: "seen \<inter> {a, b} = {d} \<Longrightarrow> a \<noteq> b \<Longrightarrow> (a \<in> seen) \<noteq> (b \<in> seen)"
proof -
  assume eq: "seen \<inter> {a, b} = {d}" and "a \<noteq> b"
  then have "a \<in> seen \<longleftrightarrow> a = d" "b \<in> seen \<longleftrightarrow> b = d" by (metis Int_iff insertI1 insertI2 singletonD)+
  moreover have "d = a \<or> d = b" using eq by (metis Int_iff insertE insertI1 singletonD)
  ultimately show ?thesis using \<open>a \<noteq> b\<close> by metis
qed

text \<open>What the parser makes of an option with its value.\<close>

lemma absorbs_named:
  assumes "names_ok options" and "stands_for abbrev options (lit name) o'" and "starts_with [45, 45] (lit name)"
    and "61 \<notin> set (lit name)"
    and "op_action o' = Store f" and "\<And>s. x = Some s \<Longrightarrow> f (g s) = Inr (v s)"
    and "\<And>s. x = Some s \<Longrightarrow> op_exclusive o' \<Longrightarrow> ap_seen st = {}"
  shows "absorbs abbrev options (optional name (map_option g x)) st (given o' v x st)"
  unfolding optional_def using absorbs_assigned [OF assms(1-7)]
  by (cases x) (simp_all add: absorbs_Nil given_def)

lemma absorbs_optional:
  assumes "names_ok options" and "find_option options (lit name) = Some o'" and "starts_with [45, 45] (lit name)"
    and "op_action o' = Store f" and "\<And>s. x = Some s \<Longrightarrow> f (g s) = Inr (v s)"
    and "\<And>s. x = Some s \<Longrightarrow> op_exclusive o' \<Longrightarrow> ap_seen st = {}"
  shows "absorbs abbrev options (optional name (map_option g x)) st (given o' v x st)"
proof (rule absorbs_named [OF assms(1) stands_for_itself [OF assms(2)] assms(3) _ assms(4,5,6)])
  show "61 \<notin> set (lit name)" using assms(1) find_option_in [OF assms(2)] by (auto simp: names_ok_def)
qed

lemma absorbs_text:
  assumes "names_ok options" and "find_option options (lit name) = Some o'" and "starts_with [45, 45] (lit name)"
    and "op_action o' = Store f" and "\<And>s. x = Some s \<Longrightarrow> f s = Inr (VText s)"
    and "\<And>s. x = Some s \<Longrightarrow> op_exclusive o' \<Longrightarrow> ap_seen st = {}"
  shows "absorbs abbrev options (optional name x) st (given o' VText x st)"
  using absorbs_optional [where g = "\<lambda>s. s" and v = VText, OF assms(1-4)] assms(5,6) by (simp add: option.map_ident)

end
