(* ===== verification/Target.thy ===== *)
theory Target
  imports Json_Laws
begin

text \<open>
  \<^verbatim>\<open>capture/collector/src/pydump/target.py\<close>: which process is captured, who owns it, and which
  CPython it runs. What the operating system and \<^verbatim>\<open>docker inspect\<close> answer is a value of type
  \<open>system\<close>. The regular expressions are written as
  searches; \<open>library_search\<close> and \<open>executable_search\<close> relate them to the languages that they denote.
\<close>

section \<open>The target and its surroundings\<close>

record target =
  tg_host_pid :: int
  tg_namespace_pid :: int
  tg_python_minor :: "int \<times> int"

text \<open>
  The lines of \<^verbatim>\<open>/proc/PID/status\<close> and \<^verbatim>\<open>/proc/PID/maps\<close>, the link \<^verbatim>\<open>/proc/PID/exe\<close>,
  the \<^verbatim>\<open>docker\<close> executable, the exit code, output and error output of
  \<^verbatim>\<open>docker inspect\<close>, and how deep the values in its output may nest.
\<close>

record system =
  sy_exists :: "int \<Rightarrow> bool"
  sy_status :: "int \<Rightarrow> pystr list res"
  sy_exe :: "int \<Rightarrow> pystr res"
  sy_maps :: "int \<Rightarrow> pystr list res"
  sy_docker :: "pystr option"
  sy_inspect :: "pystr \<Rightarrow> pystr \<Rightarrow> (int \<times> pystr \<times> pystr) res"
  sy_depth :: nat

definition last_word_int :: "pystr \<Rightarrow> int res" where
  "last_word_int line = int_of_text (last (split_words line))"

definition owner_line :: "pystr \<Rightarrow> int option \<times> int option \<Rightarrow> (int option \<times> int option) res" where
  "owner_line line owner =
     (if starts_with (lit ''Uid:'') line then
        rbind (last_word_int line) (\<lambda>uid. Inr (Some uid, snd owner))
      else if starts_with (lit ''Gid:'') line then
        rbind (last_word_int line) (\<lambda>gid. Inr (fst owner, Some gid))
      else Inr owner)"

definition fs_owner :: "system \<Rightarrow> target \<Rightarrow> (int \<times> int) res" where
  "fs_owner sy target =
     rbind (sy_status sy (tg_host_pid target)) (\<lambda>lines.
     rbind (res_fold owner_line lines (None, None)) (\<lambda>owner.
     case owner of
       (Some uid, Some gid) \<Rightarrow> Inr (uid, gid)
     | _ \<Rightarrow> raise PydumpError ''cannot determine filesystem owner for process {self.host_pid}''
              [AInt (tg_host_pid target)]))"

section \<open>The PIDs\<close>

definition running_pid :: "pystr \<Rightarrow> json \<Rightarrow> int res" where
  "running_pid container inspected =
     rbind (json_first inspected) (\<lambda>entry.
     rbind (json_key (lit ''State'') entry) (\<lambda>state.
     rbind (json_key (lit ''Status'') state) (\<lambda>status.
     if status \<noteq> JText (lit ''running'') then
       raise PydumpError ''Docker container {container!r} is not running'' [AStr container]
     else rbind (json_key (lit ''Pid'') state) json_int)))"

definition docker_pid :: "system \<Rightarrow> pystr \<Rightarrow> int res" where
  "docker_pid sy container =
     (case sy_docker sy of
        None \<Rightarrow> raise PydumpError ''docker executable was not found'' []
      | Some docker \<Rightarrow>
          rbind (sy_inspect sy docker container) (\<lambda>(returncode, stdout, stderr).
          if returncode \<noteq> 0 then
            raise PydumpError ''docker inspect {container!r} failed: {process.stderr.strip()}''
              [AStr container, AStr (strip stderr)]
          else
            catching [IndexError, KeyError, TypeError, ValueError]
              (rbind (json_loads (sy_depth sy) stdout) (running_pid container))
              (\<lambda>_. raise PydumpError ''docker inspect returned an unexpected result for {container!r}''
                 [AStr container])))"

definition pid_in_own_namespace :: "system \<Rightarrow> int \<Rightarrow> int res" where
  "pid_in_own_namespace sy pid =
     catching [PermissionError]
       (rbind (sy_status sy pid) (\<lambda>lines.
        case find (starts_with (lit ''NStgid:'')) lines of
          Some line \<Rightarrow> last_word_int line
        | None \<Rightarrow> raise PydumpError ''cannot determine PID namespace ID for process {pid}'' [AInt pid]))
       (\<lambda>_. raise PydumpError ''cannot read process {pid}; try running as the target user or root'' [AInt pid])"

section \<open>The version of CPython\<close>

text \<open>The first position at which a matcher succeeds.\<close>

fun search :: "(pystr \<Rightarrow> 'a option) \<Rightarrow> pystr \<Rightarrow> 'a option" where
  "search f [] = f []"
| "search f (c # s) = (case f (c # s) of Some x \<Rightarrow> Some x | None \<Rightarrow> search f s)"

text \<open>
  \<^verbatim>\<open>libpython(?P<version>3\.[0-9]+).*\.so(?:\.|$)\<close>; the result is the minor version. A dot
  matches no line feed, and \<^verbatim>\<open>$\<close> also matches before a last one.
\<close>

definition so_end :: "pystr \<Rightarrow> bool" where
  "so_end s \<longleftrightarrow> s = [] \<or> s = [10] \<or> hd s = 46"

fun so_follows :: "pystr \<Rightarrow> bool" where
  "so_follows [] \<longleftrightarrow> False"
| "so_follows (c # s) \<longleftrightarrow>
     (starts_with (lit ''.so'') (c # s) \<and> so_end (drop 3 (c # s))) \<or> (c \<noteq> 10 \<and> so_follows s)"

definition library_at :: "pystr \<Rightarrow> pystr option" where
  "library_at s =
     (if starts_with (lit ''libpython3.'') s then
        let digits = takeWhile is_ascii_digit (drop 11 s) in
        if digits \<noteq> [] \<and> so_follows (dropWhile is_ascii_digit (drop 11 s)) then Some digits else None
      else None)"

text \<open>\<^verbatim>\<open>python(?P<version>3\.[0-9]+)(?:$|[^0-9])\<close>\<close>

definition executable_at :: "pystr \<Rightarrow> pystr option" where
  "executable_at s =
     (if starts_with (lit ''python3.'') s then
        let digits = takeWhile is_ascii_digit (drop 8 s) in if digits \<noteq> [] then Some digits else None
      else None)"

definition candidate_minor :: "pystr \<Rightarrow> pystr option" where
  "candidate_minor candidate =
     (case search library_at candidate of
        Some digits \<Rightarrow> Some digits
      | None \<Rightarrow> search executable_at (path_name candidate))"

definition candidates :: "pystr \<Rightarrow> pystr list \<Rightarrow> pystr list" where
  "candidates exe lines =
     exe # map (\<lambda>line. strip (last (split_max 5 line))) (filter (contains (lit ''/'')) lines)"

definition version_text :: "int \<times> int \<Rightarrow> pystr" where
  "version_text version = decimal_text (fst version) @ lit ''.'' @ decimal_text (snd version)"

definition detect_python_minor :: "system \<Rightarrow> int \<Rightarrow> (int \<times> int) res" where
  "detect_python_minor sy pid =
     rbind (catching [PermissionError]
         (rbind (sy_exe sy pid) (\<lambda>exe. rbind (sy_maps sy pid) (\<lambda>lines. Inr (candidates exe lines))))
         (\<lambda>_. raise PydumpError ''cannot inspect process {pid}; try running as the target user or root'' [AInt pid]))
       (\<lambda>cs.
     rbind (rmap int_of_text (List.map_filter candidate_minor cs)) (\<lambda>minors.
     let versions = remdups (map (\<lambda>m. (3, m)) minors) in
     case versions of
       [version] \<Rightarrow>
         if version < (3, 10) then
           raise PydumpError ''CPython {version[0]}.{version[1]} is unsupported; pydump requires 3.10+''
             [AInt (fst version), AInt (snd version)]
         else Inr version
     | _ \<Rightarrow>
         let rendered = join (lit '', '') (map version_text (sort versions)) in
         raise PydumpError ''cannot uniquely detect target CPython minor version; found {rendered}''
           [AStr (if rendered = [] then lit ''none'' else rendered)]))"

section \<open>The whole target, and its agent\<close>

definition resolve_target :: "system \<Rightarrow> int option \<Rightarrow> pystr option \<Rightarrow> target res" where
  "resolve_target sy pid docker_container =
     rbind (case docker_container of
         Some container \<Rightarrow> rbind (docker_pid sy container) (\<lambda>p. Inr (Some p))
       | None \<Rightarrow> Inr pid) (\<lambda>host_pid.
     case host_pid of
       None \<Rightarrow> raise PydumpError ''invalid target PID {host_pid}'' []
     | Some p \<Rightarrow>
         if p \<le> 0 then raise PydumpError ''invalid target PID {host_pid}'' [AInt p]
         else if \<not> sy_exists sy p then raise PydumpError ''target process {host_pid} does not exist'' [AInt p]
         else
           rbind (pid_in_own_namespace sy p) (\<lambda>namespace_pid.
           rbind (detect_python_minor sy p) (\<lambda>minor.
           Inr \<lparr>tg_host_pid = p, tg_namespace_pid = namespace_pid, tg_python_minor = minor\<rparr>)))"

text \<open>\<open>is_file\<close> says whether the agent library exists, \<open>pointer_bytes\<close> is \<^verbatim>\<open>struct.calcsize("P")\<close>.\<close>

definition verify_agent :: "(pystr \<Rightarrow> bool) \<Rightarrow> int \<Rightarrow> pystr \<Rightarrow> target \<Rightarrow> unit res" where
  "verify_agent is_file pointer_bytes agent target =
     (let expected = version_text (tg_python_minor target) in
      if \<not> is_file agent then raise PydumpError ''agent library {agent} does not exist'' [AStr agent]
      else if \<not> contains (lit ''agent-'' @ expected @ lit ''-'') (path_name agent) then
        raise PydumpError ''agent {agent.name!r} does not identify target CPython {expected}; use an agent built for the target minor''
          [AStr (path_name agent), AStr expected]
      else if pointer_bytes \<noteq> 8 then
        raise PydumpError ''only 64-bit Collector processes are supported'' []
      else Inr ())"

section \<open>Searching\<close>

lemma search_None: "search f s = None \<longleftrightarrow> (\<forall>u v. s = u @ v \<longrightarrow> f v = None)"
proof (induction s)
  case (Cons c s)
  have "(\<forall>u v. c # s = u @ v \<longrightarrow> f v = None) \<longleftrightarrow> f (c # s) = None \<and> (\<forall>u v. s = u @ v \<longrightarrow> f v = None)"
    by (metis append_Cons append_Nil list.inject neq_Nil_conv)
  with Cons show ?case by (simp split: option.splits)
qed simp

lemma search_Some:
  "search f s = Some x \<Longrightarrow> \<exists>u v. s = u @ v \<and> f v = Some x \<and> (\<forall>u' v'. s = u' @ v' \<longrightarrow> f v' \<noteq> None \<longrightarrow> length u \<le> length u')"
proof (induction s)
  case (Cons c s)
  show ?case
  proof (cases "f (c # s)")
    case (Some y)
    with Cons.prems show ?thesis by (intro exI [of _ "[]"] exI [of _ "c # s"]) simp
  next
    case None
    with Cons.prems have "search f s = Some x" by simp
    then obtain u v where IH: "s = u @ v" "f v = Some x"
      "\<And>u' v'. s = u' @ v' \<Longrightarrow> f v' \<noteq> None \<Longrightarrow> length u \<le> length u'" using Cons.IH by blast
    have "length (c # u) \<le> length u'" if "c # s = u' @ v'" "f v' \<noteq> None" for u' v'
    proof (cases u')
      case Nil
      with that None show ?thesis by simp
    next
      case (Cons d u'')
      with that IH(3) show ?thesis by simp
    qed
    with IH(1,2) show ?thesis by (intro exI [of _ "c # u"] exI [of _ v]) simp
  qed
qed simp

lemma so_follows_iff:
  "so_follows s \<longleftrightarrow> (\<exists>w t. s = w @ lit ''.so'' @ t \<and> 10 \<notin> set w \<and> so_end t)"
proof (induction s)
  case Nil
  show ?case by (simp add: lit_def)
next
  case (Cons c s)
  have three: "drop 3 (lit ''.so'' @ t) = t" for t by (simp add: lit_def)
  have "starts_with (lit ''.so'') (c # s) \<and> so_end (drop 3 (c # s)) \<longleftrightarrow> (\<exists>t. c # s = lit ''.so'' @ t \<and> so_end t)"
    unfolding starts_with_iff using three by metis
  moreover have "(\<exists>w t. c # s = w @ lit ''.so'' @ t \<and> 10 \<notin> set w \<and> so_end t) \<longleftrightarrow>
      (\<exists>t. c # s = lit ''.so'' @ t \<and> so_end t) \<or>
      (c \<noteq> 10 \<and> (\<exists>w t. s = w @ lit ''.so'' @ t \<and> 10 \<notin> set w \<and> so_end t))" (is "?l \<longleftrightarrow> ?r")
  proof
    assume ?l
    then obtain w t where w: "c # s = w @ lit ''.so'' @ t" "10 \<notin> set w" "so_end t" by blast
    then show ?r by (cases w) auto
  next
    assume ?r
    then show ?l
    proof
      assume "\<exists>t. c # s = lit ''.so'' @ t \<and> so_end t"
      then obtain t where "c # s = lit ''.so'' @ t" "so_end t" by blast
      then show ?l by (intro exI [of _ "[]"] exI [of _ t]) simp
    next
      assume "c \<noteq> 10 \<and> (\<exists>w t. s = w @ lit ''.so'' @ t \<and> 10 \<notin> set w \<and> so_end t)"
      then obtain w t where "c \<noteq> 10" "s = w @ lit ''.so'' @ t" "10 \<notin> set w" "so_end t" by blast
      then show ?l by (intro exI [of _ "c # w"] exI [of _ t]) auto
    qed
  qed
  ultimately show ?case using Cons by simp
qed

text \<open>
  The strings that begin with a match of the expression for libraries, with the digits of the minor
  version.
\<close>

definition library_name :: "pystr \<Rightarrow> pystr \<Rightarrow> bool" where
  "library_name s digits \<longleftrightarrow> digits \<noteq> [] \<and> list_all is_ascii_digit digits \<and>
     (\<exists>w t. s = lit ''libpython3.'' @ digits @ w @ lit ''.so'' @ t \<and> 10 \<notin> set w \<and> so_end t)"

lemma library_at_sound:
  assumes "library_at s = Some digits"
  shows "library_name s digits"
proof -
  have eleven: "drop 11 (lit ''libpython3.'' @ t) = t" for t by (simp add: lit_def)
  from assms obtain r where s: "s = lit ''libpython3.'' @ r"
    by (auto simp: library_at_def starts_with_iff split: if_splits)
  with assms have d: "digits = takeWhile is_ascii_digit r" "digits \<noteq> []" "so_follows (dropWhile is_ascii_digit r)"
    by (auto simp: library_at_def eleven Let_def simp del: drop_append split: if_splits)
  from d(3) obtain w t where "dropWhile is_ascii_digit r = w @ lit ''.so'' @ t" "10 \<notin> set w" "so_end t"
    unfolding so_follows_iff by blast
  moreover have "r = digits @ dropWhile is_ascii_digit r" by (simp add: d(1))
  moreover have "list_all is_ascii_digit digits" unfolding d(1) list_all_iff by (auto dest: set_takeWhileD)
  ultimately show ?thesis unfolding library_name_def s using d(2) by metis
qed

lemma library_at_complete:
  assumes "library_name s digits"
  shows "\<exists>more. library_at s = Some (digits @ more)"
proof -
  have eleven: "drop 11 (lit ''libpython3.'' @ t) = t" for t by (simp add: lit_def)
  from assms obtain w t where d: "digits \<noteq> []" "list_all is_ascii_digit digits"
    and s: "s = lit ''libpython3.'' @ digits @ w @ lit ''.so'' @ t" "10 \<notin> set w" "so_end t"
    by (auto simp: library_name_def)
  let ?r = "w @ lit ''.so'' @ t"
  have front: "takeWhile is_ascii_digit (digits @ ?r) = digits @ takeWhile is_ascii_digit ?r"
    "dropWhile is_ascii_digit (digits @ ?r) = dropWhile is_ascii_digit ?r"
    using d(2) by (simp_all add: list_all_iff)
  have "so_follows (dropWhile is_ascii_digit ?r)"
  proof (cases "list_all is_ascii_digit w")
    case True
    then have "dropWhile is_ascii_digit ?r = lit ''.so'' @ t"
      by (simp add: list_all_iff lit_def is_ascii_digit_def dropWhile_append2)
    then show ?thesis unfolding so_follows_iff using s(3) by (intro exI [of _ "[]"] exI [of _ t]) simp
  next
    case False
    then obtain c where "c \<in> set w" "\<not> is_ascii_digit c" by (auto simp: list_all_iff)
    then have "dropWhile is_ascii_digit ?r = dropWhile is_ascii_digit w @ lit ''.so'' @ t" by (rule dropWhile_append1)
    moreover have "10 \<notin> set (dropWhile is_ascii_digit w)" using s(2) by (meson set_dropWhileD)
    ultimately show ?thesis unfolding so_follows_iff using s(3) by blast
  qed
  then have "library_at s = Some (digits @ takeWhile is_ascii_digit ?r)"
    using d(1) by (simp add: library_at_def s(1) eleven front Let_def del: drop_append)
  then show ?thesis by blast
qed

lemma detect_python_minor_Inr:
  "detect_python_minor sy pid = Inr version \<longleftrightarrow>
   (\<exists>exe lines minors. sy_exe sy pid = Inr exe \<and> sy_maps sy pid = Inr lines \<and>
      rmap int_of_text (List.map_filter candidate_minor (candidates exe lines)) = Inr minors \<and>
      set minors = {snd version} \<and> fst version = 3 \<and> 10 \<le> snd version)"
proof -
  have one: "remdups xs = [x] \<longleftrightarrow> set xs = {x}" for xs :: "(int \<times> int) list" and x
  proof
    assume "remdups xs = [x]"
    then show "set xs = {x}" by (metis empty_set list.simps(15) set_remdups)
  next
    assume "set xs = {x}"
    then have "set (remdups xs) = {x}" "length (remdups xs) = 1"
      by (simp_all add: length_remdups_card_conv)
    then show "remdups xs = [x]" by (cases "remdups xs") auto
  qed
  have versions: "set (map (\<lambda>m. (3, m)) minors) = {v} \<longleftrightarrow> fst v = 3 \<and> set minors = {snd v}"
    for minors :: "int list" and v :: "int \<times> int"
    by (cases v) auto
  have pick: "(case vs of [v] \<Rightarrow> if v < (3, 10) then raise c t (as v) else Inr v | _ \<Rightarrow> raise c' t' as') = Inr v \<longleftrightarrow>
      vs = [v] \<and> \<not> v < (3, 10)" for vs :: "(int \<times> int) list" and v c t as c' t' as'
    by (auto split: list.splits)
  have caught: "catching [PermissionError] r (\<lambda>_. raise c t as) = Inr x \<longleftrightarrow> r = Inr x" for r :: "'a res" and x c t as
    by (auto simp: catching_def split: sum.splits)
  show ?thesis
    unfolding detect_python_minor_def rbind_Inr caught Let_def pick one versions
    by (cases version) (auto simp: less_prod_def)
qed

section \<open>Properties\<close>

text \<open>
  C34: The search for a library's version is the regular expression: it finds nothing exactly when no
  part of the string matches, and otherwise the version of the leftmost match, with as many digits
  as there are.
\<close>

theorem library_search_exact:
  "case search library_at s of
     None \<Rightarrow> \<forall>u v digits. s = u @ v \<longrightarrow> \<not> library_name v digits
   | Some digits \<Rightarrow> \<exists>u v. s = u @ v \<and> library_name v digits \<and>
       (\<forall>u' v' digits'. s = u' @ v' \<and> library_name v' digits' \<longrightarrow>
          length u \<le> length u' \<and> (v' = v \<longrightarrow> length digits' \<le> length digits))"
proof (cases "search library_at s")
  case None
  then have "library_at v = None" if "s = u @ v" for u v using that by (simp add: search_None)
  with None library_at_complete show ?thesis by fastforce
next
  case (Some digits)
  from search_Some [OF this] obtain u v where uv: "s = u @ v" "library_at v = Some digits"
    "\<And>u' v'. s = u' @ v' \<Longrightarrow> library_at v' \<noteq> None \<Longrightarrow> length u \<le> length u'" by blast
  have "length u \<le> length u' \<and> (v' = v \<longrightarrow> length digits' \<le> length digits)"
    if "s = u' @ v'" "library_name v' digits'" for u' v' digits'
    using library_at_complete [OF that(2)] uv(2,3) that(1) by auto
  with uv(1) library_at_sound [OF uv(2)] have "\<exists>u v. s = u @ v \<and> library_name v digits \<and>
       (\<forall>u' v' digits'. s = u' @ v' \<and> library_name v' digits' \<longrightarrow>
          length u \<le> length u' \<and> (v' = v \<longrightarrow> length digits' \<le> length digits))" by blast
  with Some show ?thesis by simp
qed

text \<open>
  A target's version is found exactly when the link and the map of the process can be read, all
  versions that occur in the names of its files are the same, and this is 3.10 or later.
\<close>

theorem target_version_exact:
  "detect_python_minor sy pid = Inr version \<longleftrightarrow>
   (\<exists>exe lines minors. sy_exe sy pid = Inr exe \<and> sy_maps sy pid = Inr lines \<and>
      rmap int_of_text (List.map_filter candidate_minor (candidates exe lines)) = Inr minors \<and>
      set minors = {snd version} \<and> fst version = 3 \<and> 10 \<le> snd version)"
  by (rule detect_python_minor_Inr)

text \<open>
  A resolved target is a process that exists, with a positive PID, the PID of its own namespace
  from the first line that gives it, and CPython 3.10 or later.
\<close>

theorem resolved_target:
  assumes "resolve_target sy pid container = Inr target"
  shows "0 < tg_host_pid target \<and> sy_exists sy (tg_host_pid target) \<and>
    (case container of None \<Rightarrow> pid = Some (tg_host_pid target) | Some c \<Rightarrow> docker_pid sy c = Inr (tg_host_pid target)) \<and>
    (\<exists>lines line. sy_status sy (tg_host_pid target) = Inr lines \<and>
       find (starts_with (lit ''NStgid:'')) lines = Some line \<and> last_word_int line = Inr (tg_namespace_pid target)) \<and>
    fst (tg_python_minor target) = 3 \<and> 10 \<le> snd (tg_python_minor target)"
proof -
  from assms obtain p where p: "case container of None \<Rightarrow> pid = Some p | Some c \<Rightarrow> docker_pid sy c = Inr p"
    "0 < p" "sy_exists sy p" "tg_host_pid target = p" "pid_in_own_namespace sy p = Inr (tg_namespace_pid target)"
    "detect_python_minor sy p = Inr (tg_python_minor target)"
    by (auto simp: resolve_target_def rbind_Inr split: option.splits if_splits)
  from p(5) have "\<exists>lines line. sy_status sy p = Inr lines \<and> find (starts_with (lit ''NStgid:'')) lines = Some line \<and>
      last_word_int line = Inr (tg_namespace_pid target)"
    by (auto simp: pid_in_own_namespace_def catching_def rbind_Inr split: sum.splits if_splits option.splits)
  moreover from p(6) have "fst (tg_python_minor target) = 3 \<and> 10 \<le> snd (tg_python_minor target)"
    unfolding detect_python_minor_Inr by blast
  ultimately show ?thesis using p(1-3) unfolding p(4) by blast
qed

text \<open>
  What a running container may answer: a \<open>Pid\<close> that is not a number in the sense of
  \<^verbatim>\<open>int\<close> is reported as an unexpected result, but the \<open>Infinity\<close> that \<^verbatim>\<open>json\<close>
  accepts escapes as an \<open>OverflowError\<close>, which the handler does not name.
\<close>

theorem docker_pid_answers:
  assumes "sy_docker sy = Some docker" and "sy_inspect sy docker container = Inr (0, out, err)"
    and "json_loads (sy_depth sy) out = Inr (JList (JDict entry # others))" and "map_of entry (lit ''State'') = Some (JDict state)"
    and "map_of state (lit ''Status'') = Some (JText (lit ''running''))" and "map_of state (lit ''Pid'') = Some pid"
  shows "case json_int pid of
      Inr p \<Rightarrow> docker_pid sy container = Inr p
    | Inl e \<Rightarrow> if \<exists>negative. pid = JFloat (FInfinite negative)
        then exn_class_of e = OverflowError \<and> docker_pid sy container = Inl e
        else docker_pid sy container = Inl (Exn PydumpError
          ''docker inspect returned an unexpected result for {container!r}'' [AStr container])"
proof -
  have run: "docker_pid sy container = catching [IndexError, KeyError, TypeError, ValueError] (json_int pid)
      (\<lambda>_. Inl (Exn PydumpError ''docker inspect returned an unexpected result for {container!r}'' [AStr container]))"
    using assms by (simp add: docker_pid_def running_pid_def json_first_def json_key_def subscript_def raise_def)
  have parsed: "exn_class_of e = ValueError" if "int_of_text t = Inl e" for t e
    using that by (auto simp: int_of_text_def Let_def raise_def split: if_splits)
  show ?thesis
    unfolding run by (auto simp: json_int_def catching_def raise_def dest: parsed split: json.splits json_float.splits sum.splits)
qed

section \<open>Examples\<close>

definition demo_inspected :: "json \<Rightarrow> json" where
  "demo_inspected pid =
     JList [JDict [(lit ''State'', JDict [(lit ''Status'', JText (lit ''running'')), (lit ''Pid'', pid)])]]"

definition demo_system :: "json \<Rightarrow> system" where
  "demo_system pid =
     \<lparr>sy_exists = (\<lambda>p. p = 42),
      sy_status = (\<lambda>_. Inr [lit ''Name: a'', lit ''Uid: 5'', lit ''Gid: 6'', lit ''NStgid: 7'']),
      sy_exe = (\<lambda>_. Inr (lit ''/python3.12'')),
      sy_maps = (\<lambda>_. Inr [lit ''7 r 0 8 9 /libpython3.12.so'' @ [10]]),
      sy_docker = Some (lit ''docker''),
      sy_inspect = (\<lambda>_ _. Inr (0, json_text (\<lambda>_. []) None 0 (demo_inspected pid), [])), sy_depth = 3\<rparr>"

lemma demo_target:
  "resolve_target (demo_system (JInt 42)) (Some 42) None =
     Inr \<lparr>tg_host_pid = 42, tg_namespace_pid = 7, tg_python_minor = (3, 12)\<rparr>"
proof -
  let ?sy = "demo_system (JInt 42)"
  have number: "digit_value c = Some (c - 48)" if "48 \<le> c" "c \<le> 57" for c
    using that by (simp add: digit_value_ascii is_ascii_digit_def)
  have namespace: "last_word_int (lit ''NStgid: 7'') = Inr 7"
    by (simp add: last_word_int_def lit_def split_words.simps is_space_def int_of_text_def strip_def
        starts_with_def number digits_value_def MAX_INT_DIGITS_def)
  have "pid_in_own_namespace ?sy 42 = Inr 7"
    using namespace by (simp add: pid_in_own_namespace_def demo_system_def catching_def starts_with_def lit_def)
  moreover have "candidate_minor (lit ''/python3.12'') = Some (lit ''12'')"
    "candidate_minor (lit ''/libpython3.12.so'') = Some (lit ''12'')"
    by (simp_all add: candidate_minor_def lit_def library_at_def executable_at_def starts_with_def path_name_def
        is_ascii_digit_def so_end_def)
  moreover have "candidates (lit ''/python3.12'') [lit ''7 r 0 8 9 /libpython3.12.so'' @ [10]] =
      [lit ''/python3.12'', lit ''/libpython3.12.so'']"
  proof -
    have five: "(5 :: nat) = Suc (Suc (Suc (Suc (Suc 0))))" by simp
    show ?thesis
      unfolding candidates_def five by (simp add: lit_def starts_with_def strip_def is_space_def)
  qed
  moreover have "int_of_text (lit ''12'') = Inr 12"
    by (simp add: lit_def int_of_text_def strip_def is_space_def starts_with_def number digits_value_def MAX_INT_DIGITS_def)
  ultimately have "detect_python_minor ?sy 42 = Inr (3, 12)"
    unfolding detect_python_minor_Inr by (simp add: demo_system_def List.map_filter_def)
  with \<open>pid_in_own_namespace ?sy 42 = Inr 7\<close> show ?thesis
    by (simp add: resolve_target_def demo_system_def)
qed

lemma demo_owner: "fs_owner (demo_system (JInt 42)) target = Inr (5, 6)"
proof -
  have number: "digit_value c = Some (c - 48)" if "48 \<le> c" "c \<le> 57" for c
    using that by (simp add: digit_value_ascii is_ascii_digit_def)
  have "last_word_int (lit ''Uid: 5'') = Inr 5" "last_word_int (lit ''Gid: 6'') = Inr 6"
    by (simp_all add: last_word_int_def lit_def split_words.simps is_space_def int_of_text_def strip_def
        starts_with_def number digits_value_def MAX_INT_DIGITS_def)
  moreover have "\<not> starts_with (lit ''Uid:'') (lit ''Gid: 6'')" "starts_with (lit ''Gid:'') (lit ''Gid: 6'')"
    "starts_with (lit ''Uid:'') (lit ''Uid: 5'')"
    "\<not> starts_with (lit ''Uid:'') (lit ''Name: a'')" "\<not> starts_with (lit ''Gid:'') (lit ''Name: a'')"
    "\<not> starts_with (lit ''Uid:'') (lit ''NStgid: 7'')" "\<not> starts_with (lit ''Gid:'') (lit ''NStgid: 7'')"
    by (simp_all add: lit_def starts_with_def)
  ultimately show ?thesis by (simp add: fs_owner_def demo_system_def owner_line_def)
qed

theorem library_search_exact_witness:
  "\<exists>u v. lit ''/libpython3.12.so'' = u @ v \<and> library_name v (lit ''12'')"
proof -
  have "search library_at (lit ''/libpython3.12.so'') = Some (lit ''12'')"
    by (simp add: lit_def library_at_def starts_with_def is_ascii_digit_def so_end_def)
  with library_search_exact [of "lit ''/libpython3.12.so''"] show ?thesis by auto
qed

theorem resolved_target_witness:
  "\<exists>target. resolve_target (demo_system (JInt 42)) (Some 42) None = Inr target \<and> tg_namespace_pid target = 7 \<and>
    10 \<le> snd (tg_python_minor target)"
  using resolved_target [OF demo_target] demo_target by simp

theorem docker_pid_answers_witness:
  "docker_pid (demo_system (JInt 42)) (lit ''web'') = Inr 42 \<and>
   (\<exists>e. docker_pid (demo_system (JFloat (FInfinite False))) (lit ''web'') = Inl e \<and> exn_class_of e = OverflowError)"
proof -
  let ?state = "\<lambda>pid. [(lit ''Status'', JText (lit ''running'')), (lit ''Pid'', pid)]"
  let ?out = "\<lambda>pid. json_text (\<lambda>_. []) None 0 (demo_inspected pid)"
  have run: "case json_int pid of
      Inr p \<Rightarrow> docker_pid (demo_system pid) (lit ''web'') = Inr p
    | Inl e \<Rightarrow> if \<exists>negative. pid = JFloat (FInfinite negative)
        then exn_class_of e = OverflowError \<and> docker_pid (demo_system pid) (lit ''web'') = Inl e
        else docker_pid (demo_system pid) (lit ''web'') = Inl (Exn PydumpError
          ''docker inspect returned an unexpected result for {container!r}'' [AStr (lit ''web'')])"
    if pid: "printable pid" "nesting pid = 0" for pid
  proof -
    have "printable (demo_inspected pid)" "nesting (demo_inspected pid) \<le> 3"
      using pid by (simp_all add: demo_inspected_def lit_def encodable_def is_surrogate_def)
    from json_loads_text(1) [OF this] have "json_loads (sy_depth (demo_system pid)) (?out pid) =
        Inr (JList (JDict [(lit ''State'', JDict (?state pid))] # []))"
      by (simp add: demo_system_def demo_inspected_def)
    moreover have "sy_docker (demo_system pid) = Some (lit ''docker'')"
      "sy_inspect (demo_system pid) (lit ''docker'') (lit ''web'') = Inr (0, ?out pid, [])"
      by (simp_all add: demo_system_def)
    moreover have "map_of [(lit ''State'', JDict (?state pid))] (lit ''State'') = Some (JDict (?state pid))"
      "map_of (?state pid) (lit ''Status'') = Some (JText (lit ''running''))" "map_of (?state pid) (lit ''Pid'') = Some pid"
      by (simp_all add: lit_def)
    ultimately show ?thesis by (intro docker_pid_answers)
  qed
  have "printable (JInt 42)" by (simp add: decimal_digits.simps MAX_INT_DIGITS_def)
  moreover have "\<exists>negative. JFloat (FInfinite False) = JFloat (FInfinite negative)" by blast
  ultimately show ?thesis using run [of "JInt 42"] run [of "JFloat (FInfinite False)"]
    by (simp add: json_int_def raise_def del: json.inject)
qed

end
