(* ===== verification/Environment.thy ===== *)
theory Environment
  imports Target
begin

text \<open>
  \<^verbatim>\<open>capture/collector/src/pydump/loader/environment.py\<close>: the checks that a target must pass
  before a loader is chosen. What the operating system answers is a value of type \<open>host\<close>.
\<close>

record host =
  hs_platform :: pystr
  hs_machine :: pystr
  hs_release :: pystr
  hs_exe_header :: "int \<Rightarrow> bytes res"
  hs_maps_text :: "int \<Rightarrow> pystr res"

record target_environment =
  te_machine :: pystr
  te_libc :: pystr
  te_kernel_release :: pystr

definition ELF_MACHINE :: "int \<rightharpoonup> pystr" where
  "ELF_MACHINE = [62 \<mapsto> lit ''x86_64'', 183 \<mapsto> lit ''aarch64'']"

definition MACHINE_ALIASES :: "pystr \<rightharpoonup> pystr" where
  "MACHINE_ALIASES = [lit ''amd64'' \<mapsto> lit ''x86_64'', lit ''arm64'' \<mapsto> lit ''aarch64'']"

definition parse_machine :: "int \<Rightarrow> bytes \<Rightarrow> pystr res" where
  "parse_machine pid header =
     (if length header < 20 \<or> take 4 header \<noteq> [0x7F, 69, 76, 70] then
        raise PydumpError ''target process {pid} executable is not an ELF binary'' [AInt pid]
      else if header ! 4 \<noteq> 2 \<or> header ! 5 \<noteq> 1 then
        raise PydumpError ''target process {pid} must use a little-endian 64-bit ELF executable'' [AInt pid]
      else
        (case ELF_MACHINE (be_dec (rev (pyslice header 18 20))) of
           None \<Rightarrow> raise PydumpError ''target process {pid} uses an unsupported ELF architecture'' [AInt pid]
         | Some machine \<Rightarrow> Inr machine))"

definition target_machine :: "host \<Rightarrow> int \<Rightarrow> pystr res" where
  "target_machine hs pid =
     rbind (catching os_errors (hs_exe_header hs pid)
         (\<lambda>_. raise PydumpError ''cannot read executable for target process {pid}: {error}'' [AInt pid]))
       (parse_machine pid)"

definition classify_libc :: "pystr \<Rightarrow> pystr" where
  "classify_libc maps =
     (if contains (lit ''ld-musl-'') maps \<or> contains (lit ''libc.musl-'') maps then lit ''musl''
      else if contains (lit ''libc.so.6'') maps \<or> contains (lit ''ld-linux-'') maps then lit ''glibc''
      else lit ''unknown libc'')"

definition target_libc :: "host \<Rightarrow> int \<Rightarrow> pystr res" where
  "target_libc hs pid =
     rbind (catching os_errors (hs_maps_text hs pid)
         (\<lambda>_. raise PydumpError ''cannot inspect libc for target process {pid}: {error}'' [AInt pid]))
       (\<lambda>maps. Inr (classify_libc maps))"

definition host_machine :: "host \<Rightarrow> pystr" where
  "host_machine hs = (case MACHINE_ALIASES (hs_machine hs) of Some m \<Rightarrow> m | None \<Rightarrow> hs_machine hs)"

definition inspect_target_environment :: "host \<Rightarrow> target \<Rightarrow> target_environment res" where
  "inspect_target_environment hs target =
     (if hs_platform hs \<noteq> lit ''linux'' then
        raise PydumpError ''live capture loaders are supported only on Linux'' []
      else
        rbind (target_machine hs (tg_host_pid target)) (\<lambda>machine.
        if machine \<noteq> host_machine hs then
          raise PydumpError
            ''target process {host_pid} is {machine}, but the Collector is {host_machine}; loaders must run on the target architecture''
            [AInt (tg_host_pid target), AStr machine, AStr (host_machine hs)]
        else
          rbind (target_libc hs (tg_host_pid target)) (\<lambda>libc.
          if libc \<noteq> lit ''glibc'' then
            raise PydumpError
              ''target process {host_pid} uses {libc}; pydump loaders currently require glibc''
              [AInt (tg_host_pid target), AStr libc]
          else
            Inr \<lparr>te_machine = machine, te_libc = libc, te_kernel_release = hs_release hs\<rparr>)))"

section \<open>Laws\<close>

lemma catching_Inr [simp]: "catching cs r (\<lambda>_. raise c t as) = Inr x \<longleftrightarrow> r = Inr x"
  by (auto simp: catching_def split: sum.splits)

lemma ELF_MACHINE_Some:
  "ELF_MACHINE v = Some m \<longleftrightarrow> (v = 62 \<and> m = lit ''x86_64'') \<or> (v = 183 \<and> m = lit ''aarch64'')"
  by (auto simp: ELF_MACHINE_def)

lemma elf_machine_bytes:
  assumes "20 \<le> length header"
  shows "be_dec (rev (pyslice header 18 20)) = uint (header ! 18) + 256 * uint (header ! 19)"
proof -
  have "pyslice header 18 20 = [header ! 18, header ! 19]"
  proof (rule nth_equalityI)
    show "length (pyslice header 18 20) = length [header ! 18, header ! 19]" using assms by (simp add: length_pyslice)
    fix i assume "i < length (pyslice header 18 20)"
    then have "i = 0 \<or> i = 1" using assms by (auto simp: length_pyslice)
    then show "pyslice header 18 20 ! i = [header ! 18, header ! 19] ! i" using assms by (auto simp: pyslice_def)
  qed
  then show ?thesis by (simp add: be_dec_def)
qed

section \<open>Properties\<close>

text \<open>
  The machine of an executable is read from its ELF header exactly: a 64-bit little-endian file
  with the machine number 62 or 183, and nothing else is accepted.
\<close>

theorem parse_machine_exact:
  "parse_machine pid header = Inr machine \<longleftrightarrow>
   20 \<le> length header \<and> take 4 header = [0x7F, 69, 76, 70] \<and> header ! 4 = 2 \<and> header ! 5 = 1 \<and> header ! 19 = 0 \<and>
   ((header ! 18 = 62 \<and> machine = lit ''x86_64'') \<or> (header ! 18 = 183 \<and> machine = lit ''aarch64''))"
proof -
  have small: "uint a + 256 * uint b = v \<longleftrightarrow> a = word_of_int v \<and> b = 0" if "0 \<le> v" "v < 256" for a b :: byte and v
  proof
    assume sum: "uint a + 256 * uint b = v"
    have "0 \<le> uint a" "0 \<le> uint b" using uint_byte_bounds by blast+
    with sum that have "uint b = 0" by linarith
    with sum show "a = word_of_int v \<and> b = 0" by (auto simp: uint_0_iff)
  next
    assume "a = word_of_int v \<and> b = 0"
    with that show "uint a + 256 * uint b = v" by (simp add: unsigned_of_int take_bit_int_eq_self)
  qed
  have "ELF_MACHINE (be_dec (rev (pyslice header 18 20))) = Some machine \<longleftrightarrow> header ! 19 = 0 \<and>
      ((header ! 18 = 62 \<and> machine = lit ''x86_64'') \<or> (header ! 18 = 183 \<and> machine = lit ''aarch64''))"
    if "20 \<le> length header"
    unfolding ELF_MACHINE_Some elf_machine_bytes [OF that]
    using small [of 62 "header ! 18" "header ! 19"] small [of 183 "header ! 18" "header ! 19"] by simp blast
  then show ?thesis by (auto simp: parse_machine_def not_less split: option.splits)
qed

text \<open>
  A loader is chosen only for a target that runs on the Collector's architecture, as the ELF
  header of its executable says, with glibc and without musl in its map, on Linux.
\<close>

theorem environment_supported:
  assumes "inspect_target_environment hs target = Inr environment"
  shows "hs_platform hs = lit ''linux'' \<and>
    (\<exists>header maps. hs_exe_header hs (tg_host_pid target) = Inr header \<and>
       parse_machine (tg_host_pid target) header = Inr (te_machine environment) \<and>
       hs_maps_text hs (tg_host_pid target) = Inr maps \<and>
       (contains (lit ''libc.so.6'') maps \<or> contains (lit ''ld-linux-'') maps) \<and>
       \<not> contains (lit ''ld-musl-'') maps \<and> \<not> contains (lit ''libc.musl-'') maps) \<and>
    te_machine environment = host_machine hs \<and> te_libc environment = lit ''glibc''"
proof -
  have names: "lit ''musl'' \<noteq> lit ''glibc''" "lit ''unknown libc'' \<noteq> lit ''glibc''" by (simp_all add: lit_def)
  from assms show ?thesis
    using names
    by (auto simp: inspect_target_environment_def target_machine_def target_libc_def classify_libc_def rbind_Inr
        split: if_splits)
qed

section \<open>Examples\<close>

definition demo_elf :: bytes where
  "demo_elf = [0x7F, 69, 76, 70, 2, 1, 1, 0, 0, 0, 0, 0, 0, 0, 0, 0, 3, 0, 62, 0]"

definition demo_host :: host where
  "demo_host = \<lparr>hs_platform = lit ''linux'', hs_machine = lit ''amd64'', hs_release = lit ''6.1'',
     hs_exe_header = (\<lambda>_. Inr demo_elf), hs_maps_text = (\<lambda>_. Inr (lit ''/lib/libc.so.6''))\<rparr>"

lemma demo_environment:
  "inspect_target_environment demo_host target =
     Inr \<lparr>te_machine = lit ''x86_64'', te_libc = lit ''glibc'', te_kernel_release = lit ''6.1''\<rparr>"
proof -
  have "parse_machine pid demo_elf = Inr (lit ''x86_64'')" for pid
    by (simp add: parse_machine_def demo_elf_def ELF_MACHINE_def elf_machine_bytes)
  moreover have "classify_libc (lit ''/lib/libc.so.6'') = lit ''glibc''"
    by (simp add: classify_libc_def lit_def starts_with_def)
  moreover have "lit ''amd64'' \<noteq> lit ''arm64''" by (simp add: lit_def)
  ultimately show ?thesis
    by (simp add: inspect_target_environment_def target_machine_def target_libc_def demo_host_def host_machine_def
        MACHINE_ALIASES_def catching_def)
qed

theorem environment_supported_witness:
  "\<exists>environment. inspect_target_environment demo_host
      \<lparr>tg_host_pid = 42, tg_namespace_pid = 7, tg_python_minor = (3, 12)\<rparr> = Inr environment \<and>
    te_machine environment = host_machine demo_host"
  using environment_supported [OF demo_environment] demo_environment by blast

end
