(* ===== verification/Loader.thy ===== *)
theory Loader
  imports Environment
begin

text \<open>
  The agent loaders: \<^verbatim>\<open>loader/model.py\<close>, \<^verbatim>\<open>loader/gdb.py\<close> and \<^verbatim>\<open>loader/ptrace.py\<close> under
  \<^verbatim>\<open>capture/collector/src/pydump/\<close>. A process that is run yields its exit code and its output, or
  an exception; which it yields is a parameter (\<open>run\<close>). Paths are strings in normal form. The
  timeout of a request carries its text in the format \<open>g\<close>.
\<close>

section \<open>Interfaces\<close>

datatype loader_kind = AUTO | GDB | PTRACE

definition kind_value :: "loader_kind \<Rightarrow> pystr" where
  "kind_value kind = (case kind of AUTO \<Rightarrow> lit ''auto'' | GDB \<Rightarrow> lit ''gdb'' | PTRACE \<Rightarrow> lit ''ptrace'')"

record load_request =
  lq_target :: target
  lq_agent_path :: pystr
  lq_socket_path :: pystr
  lq_nonce :: bytes
  lq_timeout :: rat
  lq_timeout_text :: pystr

record loader_probe =
  lp_kind :: loader_kind
  lp_available :: bool
  lp_detail :: pystr

type_synonym completed = "int \<times> pystr"

text \<open>What the probes ask of the file system and of the environment.\<close>

record file_system =
  fl_getenv :: "pystr \<Rightarrow> pystr option"
  fl_which :: "pystr \<Rightarrow> pystr option"
  fl_exists :: "pystr \<Rightarrow> bool"
  fl_is_file :: "pystr \<Rightarrow> bool"
  fl_executable :: "pystr \<Rightarrow> bool"
  fl_resolve :: "pystr \<Rightarrow> pystr"

definition AGENT_STARTED_MARKER :: pystr where
  "AGENT_STARTED_MARKER = lit ''PYDUMP_AGENT_STARTED=0''"

definition confirms :: "pystr \<Rightarrow> bool" where
  "confirms output \<longleftrightarrow> AGENT_STARTED_MARKER \<in> set (map strip (splitlines output))"

text \<open>\<open>shlex.join\<close>\<close>

definition shell_safe :: "nat \<Rightarrow> bool" where
  "shell_safe c \<longleftrightarrow> is_ascii_digit c \<or> (65 \<le> c \<and> c \<le> 90) \<or> (97 \<le> c \<and> c \<le> 122) \<or>
     c \<in> set (lit ''_@%+=:,./-'')"

definition shell_quote :: "pystr \<Rightarrow> pystr" where
  "shell_quote s =
     (if s = [] then [39, 39]
      else if list_all shell_safe s then s
      else [39] @ replace_char 39 [39, 34, 39, 34, 39] s @ [39])"

definition shell_join :: "pystr list \<Rightarrow> pystr" where
  "shell_join command = join (lit '' '') (map shell_quote command)"

section \<open>GDB\<close>

definition FIRST_ARGUMENT_REGISTER :: "pystr \<rightharpoonup> pystr" where
  "FIRST_ARGUMENT_REGISTER = [lit ''x86_64'' \<mapsto> lit ''$rdi'', lit ''aarch64'' \<mapsto> lit ''$x0'']"

record gdb_loader =
  gl_executable :: pystr
  gl_machine :: pystr

definition gdb_string :: "pystr \<Rightarrow> pystr" where
  "gdb_string s = replace_char 34 [92, 34] (replace_char 92 [92, 92] s)"

definition gdb_failure_detail :: "pystr \<Rightarrow> pystr \<Rightarrow> pystr" where
  "gdb_failure_detail output fallback =
     (case find (\<lambda>line. contains (lit ''extended state status'') line \<or> contains (lit ''gdb.error:'') line \<or>
          (contains (lit ''PYDUMP_'') line \<and> contains (lit ''FAILED'') line)) (splitlines output) of
        Some line \<Rightarrow> strip line
      | None \<Rightarrow> fallback)"

definition gdb_environment :: "(pystr \<times> pystr) list \<Rightarrow> (pystr \<times> pystr) list" where
  "gdb_environment environment =
     filter (\<lambda>(k, _). k \<noteq> lit ''PYTHONIOENCODING'' \<and> k \<noteq> lit ''PYTHONPATH'') environment"

definition gdb_lines :: "pystr \<Rightarrow> load_request \<Rightarrow> pystr list" where
  \<open>gdb_lines argument_register request =
     [lit ''set debuginfod enabled off'',
      lit ''set unwindonsignal on'',
      lit ''set scheduler-locking off'',
      lit ''set architecture auto'',
      lit ''tbreak PyCallable_Check if '' @ argument_register @ lit '' == 0'',
      lit ''set $pydump_pending=(int)Py_AddPendingCall((int (*)(void *))PyCallable_Check, (void *)0)'',
      lit ''if $pydump_pending != 0'',
      lit ''  printf "PYDUMP_PENDING_CALL_FAILED: %d'' @ [92] @ lit ''n", $pydump_pending'',
      lit ''  quit 80'',
      lit ''end'',
      lit ''continue'',
      lit ''set $pydump_agent=(void*)dlopen("'' @ gdb_string (lq_agent_path request) @ lit ''", 2)'',
      lit ''if $pydump_agent == 0'',
      lit ''  printf "PYDUMP_DLOPEN_FAILED: %s'' @ [92] @ lit ''n", (char*)dlerror()'',
      lit ''  quit 81'',
      lit ''end'',
      lit ''set $pydump_start=(void*)dlsym($pydump_agent, "pydump_start")'',
      lit ''if $pydump_start == 0'',
      lit ''  printf "PYDUMP_DLSYM_FAILED: %s'' @ [92] @ lit ''n", (char*)dlerror()'',
      lit ''  quit 82'',
      lit ''end'',
      lit ''set $pydump_rc=(int)((int (*)(char*, char*))$pydump_start)("'' @
        gdb_string (lq_socket_path request) @ lit ''", "'' @ nonce_hex (lq_nonce request) @ lit ''")'',
      lit ''printf "PYDUMP_AGENT_STARTED=%d'' @ [92] @ lit ''n", $pydump_rc'',
      lit ''if $pydump_rc != 0'',
      lit ''  printf "PYDUMP_START_FAILED: %d'' @ [92] @ lit ''n", $pydump_rc'',
      lit ''  quit 83'',
      lit ''end'',
      lit ''detach'',
      lit ''quit'']\<close>

definition gdb_command_prefix :: "gdb_loader \<Rightarrow> load_request \<Rightarrow> pystr list" where
  "gdb_command_prefix loader request =
     (let pid = decimal_text (tg_host_pid (lq_target request)) in
      [gl_executable loader, lit ''--batch'', lit ''--nx'', lit ''--nw'', lit ''--readnow'', lit ''-iex'',
       lit ''set sysroot /proc/'' @ pid @ lit ''/root'', lit ''-p'', pid])"

text \<open>
  \<open>run prefix script environment timeout\<close> is what GDB yields when it runs with the command prefix
  on a command file with this content.
\<close>

definition gdb_start ::
  "(pystr list \<Rightarrow> pystr \<Rightarrow> (pystr \<times> pystr) list \<Rightarrow> rat \<Rightarrow> completed res) \<Rightarrow> (pystr \<times> pystr) list \<Rightarrow>
   gdb_loader \<Rightarrow> load_request \<Rightarrow> unit res" where
  "gdb_start run environment loader request =
     rbind (subscript FIRST_ARGUMENT_REGISTER (gl_machine loader)) (\<lambda>argument_register.
     let script = join [10] (gdb_lines argument_register request);
         prefix = gdb_command_prefix loader request;
         pid = tg_host_pid (lq_target request) in
     rbind (catching [TimeoutExpired]
         (run prefix (script @ [10]) (gdb_environment environment) (lq_timeout request))
         (\<lambda>_. raise PydumpError ''GDB loader for PID {host_pid} timed out after {timeout:g}s''
           [AInt pid, AStr (lq_timeout_text request)])) (\<lambda>(returncode, stdout).
     let output = strip stdout in
     if returncode \<noteq> 0 then
       raise PydumpError ''GDB loader failed for PID {host_pid} with code {returncode}: {detail}, command, output''
         [AInt pid, AInt returncode, AStr (gdb_failure_detail output (lit ''GDB returned no diagnostic'')),
          AStr (shell_join (prefix @ [lit ''-x'', lit ''<temporary-command-file>''])), AStr output]
     else if \<not> confirms output then
       raise PydumpError ''GDB loader did not confirm Agent start for PID {host_pid}: {detail}, output''
         [AInt pid, AStr (gdb_failure_detail output (lit ''GDB returned no Agent start marker'')), AStr output]
     else Inr ()))"

section \<open>The probe of GDB\<close>

definition PROBE_OK_MARKER :: pystr where
  "PROBE_OK_MARKER = lit ''PYDUMP_GDB_INFERIOR_CALL_OK''"

definition PROBE_TIMEOUT_SECONDS :: int where
  "PROBE_TIMEOUT_SECONDS = 10"

definition probe_lines :: "pystr list" where
  \<open>probe_lines =
     [lit ''set scheduler-locking off'',
      lit ''set $pydump_probe=(int)Py_AddPendingCall((int (*)(void *))PyCallable_Check, (void *)0)'',
      lit ''printf "'' @ PROBE_OK_MARKER @ lit ''=%d'' @ [92] @ lit ''n", $pydump_probe'',
      lit ''detach'',
      lit ''quit'']\<close>

text \<open>The last line of the error output of the helper process.\<close>

definition helper_failure :: "pystr \<Rightarrow> pystr" where
  "helper_failure stderr =
     (let detail = splitlines (strip stderr) in
      if detail \<noteq> [] then last detail else lit ''disposable Python helper did not become ready'')"

text \<open>
  The helper process: whether it can be started, the line that it prints in time, if any, its error
  output, and whether a wait of three seconds ends when these calls have been made. \<open>if_run\<close> is
  what GDB yields on a script with the helper's PID, and \<open>if_python\<close> is \<^verbatim>\<open>sys.executable\<close>.
\<close>

datatype helper_call = Popen "pystr list" | Terminate | Kill | Wait | Communicate

record inferior =
  if_python :: pystr
  if_spawn :: "unit res"
  if_ready :: "pystr option"
  if_stderr :: pystr
  if_stops :: "helper_call list \<Rightarrow> bool"
  if_run :: "pystr \<Rightarrow> pystr \<Rightarrow> completed res"

text \<open>The program that the helper runs.\<close>

definition PROBE_SOURCE :: pystr where
  \<open>PROBE_SOURCE =
     join [10]
       [[],
        lit ''import ctypes'',
        lit ''import time'',
        [],
        lit ''libc = ctypes.CDLL(None, use_errno=True)'',
        lit ''libc.prctl.argtypes = [ctypes.c_int, ctypes.c_ulong, ctypes.c_ulong, ctypes.c_ulong, ctypes.c_ulong]'',
        lit ''if libc.prctl(0x59616D61, ctypes.c_ulong(-1).value, 0, 0, 0) != 0:'',
        lit ''    raise OSError(ctypes.get_errno(), "PR_SET_PTRACER_ANY failed")'',
        lit ''print("PYDUMP_GDB_PROBE_READY", flush=True)'',
        lit ''time.sleep(30)'',
        []]\<close>

definition helper_command :: "inferior \<Rightarrow> pystr list" where
  "helper_command helper = [if_python helper, lit ''-I'', lit ''-c'', PROBE_SOURCE]"

definition helper_op :: "helper_call \<Rightarrow> (helper_call list, unit) py" where
  "helper_op c = mmodify (\<lambda>calls. calls @ [c])"

definition await_helper :: "inferior \<Rightarrow> helper_call \<Rightarrow> (helper_call list, unit) py" where
  "await_helper helper c =
     (\<lambda>calls. (if if_stops helper calls then Inr () else raise TimeoutExpired ''timed out after 3 seconds'' [], calls @ [c]))"

text \<open>Terminating the helper, and killing it when it does not end.\<close>

definition stop_helper :: "inferior \<Rightarrow> helper_call \<Rightarrow> (helper_call list, unit) py" where
  "stop_helper helper c =
     mseq (helper_op Terminate) (\<lambda>calls.
       case await_helper helper c calls of
         (Inr u, calls) \<Rightarrow> (Inr u, calls)
       | (Inl _, calls) \<Rightarrow> mseq (helper_op Kill) (await_helper helper c) calls)"

text \<open>The \<^verbatim>\<open>try\<close> block; the result is a failure, or \<open>None\<close>.\<close>

definition probe_inferior :: "inferior \<Rightarrow> pystr \<Rightarrow> (helper_call list, pystr option) py" where
  "probe_inferior helper executable =
     (if (case if_ready helper of Some line \<Rightarrow> strip line \<noteq> lit ''PYDUMP_GDB_PROBE_READY'' | None \<Rightarrow> True) then
        mseq (stop_helper helper Communicate) (mret (Some (helper_failure (if_stderr helper))))
      else
        mlift
          (case if_run helper executable (join [10] probe_lines @ [10]) of
             Inl e \<Rightarrow>
               if exn_class_of e = TimeoutExpired
               then Inr (Some (lit ''timed out after '' @ decimal_text PROBE_TIMEOUT_SECONDS @ lit ''s''))
               else Inl e
           | Inr (returncode, stdout) \<Rightarrow>
               if returncode \<noteq> 0 then
                 Inr (Some (gdb_failure_detail stdout (lit ''exited with code '' @ decimal_text returncode)))
               else if PROBE_OK_MARKER @ lit ''=0'' \<notin> set (map strip (splitlines stdout)) then
                 Inr (Some (lit ''GDB returned no successful inferior-call marker''))
               else Inr None))"

definition probe_disposable_inferior :: "inferior \<Rightarrow> pystr \<Rightarrow> (helper_call list, pystr option) py" where
  "probe_disposable_inferior helper executable =
     (\<lambda>calls. case if_spawn helper of
        Inl e \<Rightarrow> (Inl e, calls)
      | Inr _ \<Rightarrow>
          (case probe_inferior helper executable (calls @ [Popen (helper_command helper)]) of
             (r, calls) \<Rightarrow>
               (case stop_helper helper Wait calls of
                  (Inl e, calls) \<Rightarrow> (Inl e, calls)
                | (Inr _, calls) \<Rightarrow> (r, calls))))"

definition unavailable :: "loader_kind \<Rightarrow> pystr \<Rightarrow> loader_probe" where
  "unavailable kind detail = \<lparr>lp_kind = kind, lp_available = False, lp_detail = detail\<rparr>"

definition available :: "loader_kind \<Rightarrow> pystr \<Rightarrow> loader_probe" where
  "available kind detail = \<lparr>lp_kind = kind, lp_available = True, lp_detail = detail\<rparr>"

text \<open>An option given on the command line, else a variable of the environment.\<close>

definition configured :: "file_system \<Rightarrow> pystr \<Rightarrow> pystr option \<Rightarrow> pystr option" where
  "configured fl variable executable =
     (case executable of
        Some e \<Rightarrow> Some e
      | None \<Rightarrow> (case fl_getenv fl variable of Some v \<Rightarrow> if v = [] then None else Some v | None \<Rightarrow> None))"

text \<open>\<open>version\<close> is the exit code of \<^verbatim>\<open>gdb --version\<close>, \<open>describe\<close> the text of an exception.\<close>

definition probe_gdb_loader ::
  "file_system \<Rightarrow> (pystr list \<Rightarrow> int res) \<Rightarrow> (exn \<Rightarrow> pystr) \<Rightarrow> inferior \<Rightarrow> pystr option \<Rightarrow> pystr \<Rightarrow>
   (loader_probe \<times> gdb_loader option) res" where
  "probe_gdb_loader fl version describe helper executable machine =
     (if FIRST_ARGUMENT_REGISTER machine = None then
        Inr (unavailable GDB (lit ''unsupported architecture '' @ machine), None)
      else
        let candidate = (case configured fl (lit ''PYDUMP_GDB'') executable of
              Some c \<Rightarrow> Some c | None \<Rightarrow> fl_which fl (lit ''gdb'')) in
        case candidate of
          None \<Rightarrow> Inr (unavailable GDB (lit ''gdb executable was not found''), None)
        | Some c \<Rightarrow>
            if \<not> fl_is_file fl c \<or> \<not> fl_executable fl c then
              Inr (unavailable GDB (c @ lit '' is not executable''), None)
            else
              let resolved = fl_resolve fl c in
              case version [resolved, lit ''--batch'', lit ''--nx'', lit ''--version''] of
                Inl e \<Rightarrow>
                  if exn_class_of e \<in> set (TimeoutExpired # os_errors)
                  then Inr (unavailable GDB (lit ''gdb probe failed: '' @ describe e), None) else Inl e
              | Inr returncode \<Rightarrow>
                  if returncode \<noteq> 0 then
                    Inr (unavailable GDB (lit ''gdb probe exited with code '' @ decimal_text returncode), None)
                  else
                    rbind (fst (probe_disposable_inferior helper resolved [])) (\<lambda>inferior_error.
                    case inferior_error of
                      Some message \<Rightarrow>
                        Inr (unavailable GDB (lit ''gdb disposable inferior call failed: '' @ message), None)
                    | None \<Rightarrow>
                        Inr (available GDB resolved, Some \<lparr>gl_executable = resolved, gl_machine = machine\<rparr>)))"

section \<open>The ptrace helper\<close>

definition BUNDLED_NAMES :: "pystr \<rightharpoonup> pystr" where
  "BUNDLED_NAMES = [lit ''x86_64'' \<mapsto> lit ''pydump-loader-linux-x86_64'',
     lit ''aarch64'' \<mapsto> lit ''pydump-loader-linux-aarch64'']"

record pydump_loader =
  pl_executable :: pystr

definition ptrace_command :: "pydump_loader \<Rightarrow> load_request \<Rightarrow> pystr list" where
  "ptrace_command loader request =
     [pl_executable loader, lit ''--pid'', decimal_text (tg_host_pid (lq_target request)), lit ''--agent'',
      lq_agent_path request, lit ''--socket'', lq_socket_path request, lit ''--nonce'',
      nonce_hex (lq_nonce request), lit ''--timeout'', lq_timeout_text request @ lit ''s'']"

definition ptrace_start ::
  "(pystr list \<Rightarrow> rat \<Rightarrow> completed res) \<Rightarrow> pydump_loader \<Rightarrow> load_request \<Rightarrow> unit res" where
  "ptrace_start run loader request =
     (let pid = tg_host_pid (lq_target request) in
      rbind (catching [TimeoutExpired] (run (ptrace_command loader request) (lq_timeout request + 2))
          (\<lambda>_. raise PydumpError ''pydump-loader for PID {host_pid} timed out after {timeout:g}s''
            [AInt pid, AStr (lq_timeout_text request)])) (\<lambda>(returncode, stdout).
      let output = strip stdout in
      if returncode \<noteq> 0 then
        raise PydumpError ''pydump-loader failed for PID {host_pid} with code {returncode}: {detail}''
          [AInt pid, AInt returncode,
           AStr (if output \<noteq> [] then output else lit ''pydump-loader returned no diagnostic'')]
      else if \<not> confirms output then
        raise PydumpError ''pydump-loader did not confirm Agent start for PID {host_pid}: {output}''
          [AInt pid, AStr output]
      else Inr ()))"

text \<open>\<open>bin_dir\<close> is the directory \<^verbatim>\<open>bin\<close> of the package, with its final slash.\<close>

definition probe_pydump_loader ::
  "file_system \<Rightarrow> pystr \<Rightarrow> pystr \<Rightarrow> pystr option \<Rightarrow> loader_probe \<times> pydump_loader option" where
  "probe_pydump_loader fl bin_dir machine executable =
     (let checked = (\<lambda>candidate.
        case candidate of
          None \<Rightarrow> (unavailable PTRACE (lit ''no bundled pydump-loader''), None)
        | Some c \<Rightarrow>
            if \<not> fl_is_file fl c then (unavailable PTRACE (c @ lit '' does not exist''), None)
            else if \<not> fl_executable fl c then (unavailable PTRACE (c @ lit '' is not executable''), None)
            else (available PTRACE (fl_resolve fl c), Some \<lparr>pl_executable = fl_resolve fl c\<rparr>)) in
      case configured fl (lit ''PYDUMP_LOADER'') executable of
        Some c \<Rightarrow> checked (Some c)
      | None \<Rightarrow>
          (case BUNDLED_NAMES machine of
             None \<Rightarrow> (unavailable PTRACE (lit ''unsupported architecture '' @ machine), None)
           | Some name \<Rightarrow>
               checked (if fl_exists fl (bin_dir @ name) then Some (bin_dir @ name) else None)))"

section \<open>The helper is stopped\<close>

text \<open>The helper gone for good: waited for with success, with nothing started after.\<close>

definition reaped :: "inferior \<Rightarrow> helper_call list \<Rightarrow> bool" where
  "reaped helper calls \<longleftrightarrow> (\<exists>before. calls = before @ [Wait] \<and> if_stops helper before \<and> Terminate \<in> set before)"

lemma stop_helper_run:
  assumes "\<And>before. Kill \<in> set before \<Longrightarrow> if_stops helper before"
  shows "\<exists>before. stop_helper helper c calls = (Inr (), calls @ Terminate # before @ [c]) \<and>
    if_stops helper (calls @ Terminate # before)"
proof (cases "if_stops helper (calls @ [Terminate])")
  case True
  then show ?thesis
    by (intro exI [of _ "[]"]) (simp add: stop_helper_def mseq_run helper_op_def atomic_run await_helper_def)
next
  case False
  then show ?thesis
    by (intro exI [of _ "[c, Kill]"])
      (simp add: stop_helper_def mseq_run helper_op_def atomic_run await_helper_def raise_def assms)
qed

text \<open>
  The probe of a process that ends when it is killed, at least: whatever GDB yields, the helper is
  gone afterwards, and the result is that of the block.
\<close>

lemma helper_stopped:
  assumes "if_spawn helper = Inr ()" and "\<And>before. Kill \<in> set before \<Longrightarrow> if_stops helper before"
  shows "\<exists>r calls. probe_disposable_inferior helper executable [] = (r, calls) \<and> reaped helper calls \<and>
    r = fst (probe_inferior helper executable [Popen (helper_command helper)])"
proof -
  obtain r calls where body: "probe_inferior helper executable [Popen (helper_command helper)] = (r, calls)" by force
  from stop_helper_run [OF assms(2), where c = Wait and calls = calls] obtain before where
    stop: "stop_helper helper Wait calls = (Inr (), calls @ Terminate # before @ [Wait])"
      "if_stops helper (calls @ Terminate # before)" by blast
  then have "reaped helper (calls @ Terminate # before @ [Wait])"
    unfolding reaped_def by (intro exI [of _ "calls @ Terminate # before"]) simp
  with stop body assms(1) show ?thesis by (simp add: probe_disposable_inferior_def)
qed

end
