(* ===== verification/Selection.thy ===== *)
theory Selection
  imports Loader
begin

text \<open>
  What the two loaders have in common, as the protocol \<^verbatim>\<open>AgentLoader\<close> of
  \<^verbatim>\<open>loader/model.py\<close> asks for it; the choice between them (\<^verbatim>\<open>loader/selection.py\<close>); and
  the installation of the agent (\<^verbatim>\<open>loader/install.py\<close>).
\<close>

section \<open>The contract of a loader\<close>

text \<open>
  \<open>run\<close> is what the process of the loader yields: its exit code and output, or an exception.
  \<open>start\<close> returns only if the process has confirmed that the agent runs.
\<close>

locale agent_loader =
  fixes run :: "'l \<Rightarrow> load_request \<Rightarrow> completed res" and start :: "'l \<Rightarrow> load_request \<Rightarrow> unit res"
  assumes completed: "run l r = Inr (code, out) \<Longrightarrow> start l r = Inr () \<longleftrightarrow> code = 0 \<and> confirms (strip out)"
    and reported: "run l r = Inr (code, out) \<Longrightarrow> start l r = Inl e \<Longrightarrow> exn_class_of e = PydumpError"
    and raised: "run l r = Inl e \<Longrightarrow> \<exists>e'. start l r = Inl e' \<and>
      (if exn_class_of e = TimeoutExpired then exn_class_of e' = PydumpError else e' = e)"
begin

lemma started: "start l r = Inr () \<longleftrightarrow> (\<exists>out. run l r = Inr (0, out) \<and> confirms (strip out))"
proof (cases "run l r")
  case (Inl e)
  with raised [OF this] show ?thesis by auto
next
  case (Inr c)
  then show ?thesis using completed [of l r "fst c" "snd c"] by (cases c) auto
qed

lemma failed:
  assumes "start l r = Inl e"
  shows "exn_class_of e = PydumpError \<or> (run l r = Inl e \<and> exn_class_of e \<noteq> TimeoutExpired)"
proof (cases "run l r")
  case (Inl e')
  with raised [OF this] assms show ?thesis by (auto split: if_splits)
next
  case (Inr c)
  then show ?thesis using reported [of l r "fst c" "snd c" e] assms by simp
qed

end

definition gdb_run ::
  "(pystr list \<Rightarrow> pystr \<Rightarrow> (pystr \<times> pystr) list \<Rightarrow> rat \<Rightarrow> completed res) \<Rightarrow> (pystr \<times> pystr) list \<Rightarrow>
   gdb_loader \<Rightarrow> load_request \<Rightarrow> completed res" where
  "gdb_run run environment loader request =
     rbind (subscript FIRST_ARGUMENT_REGISTER (gl_machine loader)) (\<lambda>argument_register.
     run (gdb_command_prefix loader request) (join [10] (gdb_lines argument_register request) @ [10])
       (gdb_environment environment) (lq_timeout request))"

definition ptrace_run ::
  "(pystr list \<Rightarrow> rat \<Rightarrow> completed res) \<Rightarrow> pydump_loader \<Rightarrow> load_request \<Rightarrow> completed res" where
  "ptrace_run run loader request = run (ptrace_command loader request) (lq_timeout request + 2)"

interpretation gdb: agent_loader "gdb_run run environment" "gdb_start run environment"
proof (unfold_locales, goal_cases)
  case (1 l r code out)
  then show ?case
    by (auto simp: gdb_run_def gdb_start_def rbind_Inr Let_def catching_def)
next
  case (2 l r code out e)
  then obtain register where "FIRST_ARGUMENT_REGISTER (gl_machine l) = Some register"
    by (auto simp: gdb_run_def rbind_Inr)
  with 2 show ?case
    by (auto simp: gdb_run_def gdb_start_def subscript_def Let_def catching_def raise_def split: if_splits)
next
  case (3 l r e)
  show ?case
  proof (cases "FIRST_ARGUMENT_REGISTER (gl_machine l)")
    case None
    with 3 show ?thesis by (auto simp: gdb_run_def gdb_start_def subscript_def raise_def)
  next
    case (Some register)
    with 3 show ?thesis by (auto simp: gdb_run_def gdb_start_def subscript_def Let_def catching_def raise_def)
  qed
qed

interpretation ptrace: agent_loader "ptrace_run run" "ptrace_start run"
proof (unfold_locales, goal_cases)
  case (1 l r code out)
  then show ?case by (simp add: ptrace_run_def ptrace_start_def Let_def catching_def)
next
  case (2 l r code out e)
  then show ?case
    by (auto simp: ptrace_run_def ptrace_start_def Let_def catching_def raise_def split: if_splits)
next
  case (3 l r e)
  then show ?case by (auto simp: ptrace_run_def ptrace_start_def Let_def catching_def raise_def)
qed

section \<open>The choice\<close>

datatype any_loader = Gdb gdb_loader | Ptrace pydump_loader

definition loader_kind_of :: "any_loader \<Rightarrow> loader_kind" where
  "loader_kind_of loader = (case loader of Gdb _ \<Rightarrow> GDB | Ptrace _ \<Rightarrow> PTRACE)"

definition probe_text :: "loader_probe \<Rightarrow> pystr" where
  "probe_text probe = kind_value (lp_kind probe) @ lit '': '' @ lp_detail probe"

definition usable :: "loader_probe \<times> 'l option \<Rightarrow> 'l option" where
  "usable probed = (if lp_available (fst probed) then snd probed else None)"

definition select_loader ::
  "host \<Rightarrow> (pystr \<Rightarrow> (loader_probe \<times> gdb_loader option) res) \<Rightarrow> (pystr \<Rightarrow> loader_probe \<times> pydump_loader option) \<Rightarrow>
   target \<Rightarrow> loader_kind \<Rightarrow> any_loader res" where
  "select_loader hs probe_gdb probe_ptrace target kind =
     rbind (inspect_target_environment hs target) (\<lambda>environment.
     rbind (if kind \<in> {AUTO, GDB}
            then rbind (probe_gdb (te_machine environment)) (\<lambda>probed. Inr ([fst probed], usable probed))
            else Inr ([], None)) (\<lambda>(probes, gdb_loader).
     case gdb_loader of
       Some loader \<Rightarrow> Inr (Gdb loader)
     | None \<Rightarrow>
         let probed = probe_ptrace (te_machine environment);
             ptrace = (if kind \<in> {AUTO, PTRACE} then usable probed else None);
             probes = (if kind \<in> {AUTO, PTRACE} then probes @ [fst probed] else probes) in
         case ptrace of
           Some loader \<Rightarrow> Inr (Ptrace loader)
         | None \<Rightarrow>
             raise PydumpError ''no usable {kind} loader for PID {host_pid} ({machine}, {libc}, kernel {release}): {detail}''
               [AStr (kind_value kind), AInt (tg_host_pid target), AStr (te_machine environment),
                AStr (te_libc environment), AStr (te_kernel_release environment),
                AStr (join (lit ''; '') (map probe_text probes))]))"

section \<open>Installing the agent\<close>

text \<open>The files have a content and a mode. \<open>sha256\<close> is the hexadecimal digest.\<close>

type_synonym installed = "pystr \<rightharpoonup> bytes \<times> int"

definition agent_target_path :: "(bytes \<Rightarrow> pystr) \<Rightarrow> bytes \<Rightarrow> pystr" where
  "agent_target_path sha256 content = lit ''/tmp/pydump-agent-'' @ take 16 (sha256 content) @ lit ''.so''"

definition target_root :: "target \<Rightarrow> pystr" where
  "target_root target = lit ''/proc/'' @ decimal_text (tg_host_pid target) @ lit ''/root''"

text \<open>\<open>with_suffix\<close> of a path whose last component has a dot.\<close>

definition with_suffix :: "pystr \<Rightarrow> pystr \<Rightarrow> pystr" where
  "with_suffix suffix path = rev (tl (dropWhile (\<lambda>c. c \<noteq> 46) (rev path))) @ suffix"

definition install_agent ::
  "(bytes \<Rightarrow> pystr) \<Rightarrow> target \<Rightarrow> pystr \<Rightarrow> (installed, pystr \<times> pystr) py" where
  "install_agent sha256 target source = (\<lambda>files.
     case files source of
       None \<Rightarrow> mraise FileNotFoundError ''no such file: {source}'' [AStr source] files
     | Some (content, mode) \<Rightarrow>
         let target_path = agent_target_path sha256 content;
             host_path = target_root target @ lit ''/'' @ dropWhile (\<lambda>c. c = 47) target_path;
             temporary = with_suffix (lit ''.partial'') host_path in
         if files host_path = None
         then (Inr (host_path, target_path), files(temporary := None, host_path \<mapsto> (content, 493)))
         else (Inr (host_path, target_path), files))"

section \<open>Laws\<close>

lemma probe_gdb_loader_usable:
  "probe_gdb_loader fl version describe helper executable machine = Inr (probe, loader) \<Longrightarrow>
   lp_kind probe = GDB \<and> (lp_available probe \<longleftrightarrow> loader \<noteq> None)"
  by (auto simp: probe_gdb_loader_def unavailable_def available_def Let_def rbind_Inr
      split: if_splits option.splits sum.splits)

lemma probe_pydump_loader_usable:
  "lp_kind (fst (probe_pydump_loader fl bin_dir machine executable)) = PTRACE \<and>
   (lp_available (fst (probe_pydump_loader fl bin_dir machine executable)) \<longleftrightarrow>
    snd (probe_pydump_loader fl bin_dir machine executable) \<noteq> None)"
  by (auto simp: probe_pydump_loader_def unavailable_def available_def Let_def split: option.splits)

text \<open>
  What GDB documents of the string literals of its language, as of C: \<open>read\<close> is given the text after
  the opening quote and yields the string with what follows it. The next quote ends the literal, a
  backslash before a quote or a backslash stands for that character, and other characters
  than these and the line feed stand for themselves.
\<close>

definition reads_literals :: "(pystr \<Rightarrow> (pystr \<times> pystr) option) \<Rightarrow> bool" where
  "reads_literals read \<longleftrightarrow>
     (\<forall>s. read (34 # s) = Some ([], s)) \<and>
     (\<forall>c s. c \<notin> {10, 34, 92} \<longrightarrow> read (c # s) = map_option (\<lambda>(v, rest). (c # v, rest)) (read s)) \<and>
     (\<forall>c s. c \<in> {34, 92} \<longrightarrow> read (92 # c # s) = map_option (\<lambda>(v, rest). (c # v, rest)) (read s))"

lemma gdb_string_Cons:
  "gdb_string (c # s) = (if c = 92 then [92, 92] else if c = 34 then [92, 34] else [c]) @ gdb_string s"
  by (simp add: gdb_string_def replace_char_def)

lemma read_gdb_string:
  assumes "reads_literals read"
  shows "10 \<notin> set s \<Longrightarrow> read (gdb_string s @ 34 # rest) = Some (s, rest)"
proof (induction s)
  case Nil
  show ?case using assms by (simp add: gdb_string_def replace_char_def reads_literals_def)
next
  case (Cons c s)
  with assms show ?case by (simp add: gdb_string_Cons reads_literals_def)
qed

lemma gdb_string_chars: "set (gdb_string s) \<subseteq> set s \<union> {92}"
  by (induction s) (auto simp: gdb_string_Cons, simp add: gdb_string_def replace_char_def)

lemma gdb_string_plain: "34 \<notin> set s \<Longrightarrow> 92 \<notin> set s \<Longrightarrow> gdb_string s = s"
  by (induction s) (auto simp: gdb_string_Cons, simp add: gdb_string_def replace_char_def)

lemma nonce_hex_chars: "c \<in> set (nonce_hex nonce) \<Longrightarrow> c \<notin> {10, 34, 92}"
  by (auto simp: nonce_hex_def hex_digit_def split: if_splits)

section \<open>Properties\<close>

text \<open>
  C33: A loader reports success exactly when its process ended with code 0 and one line of its output
  is the marker that the agent has started; it never takes a missing marker, a failure or a
  timeout for success.
\<close>

theorem start_confirmed:
  "(gdb_start run environment gdb_loader request = Inr () \<longleftrightarrow>
    (\<exists>register out. FIRST_ARGUMENT_REGISTER (gl_machine gdb_loader) = Some register \<and>
       run (gdb_command_prefix gdb_loader request) (join [10] (gdb_lines register request) @ [10])
         (gdb_environment environment) (lq_timeout request) = Inr (0, out) \<and>
       AGENT_STARTED_MARKER \<in> set (map strip (splitlines (strip out))))) \<and>
   (ptrace_start run' pydump_loader request = Inr () \<longleftrightarrow>
    (\<exists>out. run' (ptrace_command pydump_loader request) (lq_timeout request + 2) = Inr (0, out) \<and>
       AGENT_STARTED_MARKER \<in> set (map strip (splitlines (strip out)))))"
  unfolding gdb.started ptrace.started confirms_def
  by (auto simp: gdb_run_def ptrace_run_def rbind_Inr)

text \<open>
  The error of a loader is a \<open>PydumpError\<close>, for a timeout too, unless running the process
  itself raised another exception.
\<close>

theorem start_errors:
  assumes "ptrace_start run loader request = Inl e"
  shows "exn_class_of e = PydumpError \<or>
    (run (ptrace_command loader request) (lq_timeout request + 2) = Inl e \<and> exn_class_of e \<noteq> TimeoutExpired)"
  using ptrace.failed [OF assms] by (simp add: ptrace_run_def)

text \<open>
  C31: The GDB script carries the request unchanged: when the paths have no line feed, every line of
  the script is one line, and a debugger that reads string literals as GDB documents it takes from the
  \<^verbatim>\<open>dlopen\<close> line the path of the agent, and from the line that starts the agent the path of
  the socket and then the nonce, each up to the end of its literal.
\<close>

theorem gdb_script_exact:
  assumes "reads_literals read" and "10 \<notin> set (lq_agent_path request)" and "10 \<notin> set (lq_socket_path request)"
    and "FIRST_ARGUMENT_REGISTER machine = Some register"
  shows "(\<forall>line \<in> set (gdb_lines register request). 10 \<notin> set line) \<and>
    (\<exists>front back. gdb_lines register request ! 11 = front @ 34 # back \<and> 34 \<notin> set front \<and>
       read back = Some (lq_agent_path request, lit '', 2)'')) \<and>
    (\<exists>front back rest more. gdb_lines register request ! 21 = front @ 34 # back \<and> 34 \<notin> set front \<and>
       read back = Some (lq_socket_path request, rest) \<and> rest = lit '', '' @ 34 # more \<and>
       read more = Some (nonce_hex (lq_nonce request), lit '')''))"
proof (intro conjI)
  have "10 \<notin> set (gdb_string (lq_agent_path request))" "10 \<notin> set (gdb_string (lq_socket_path request))"
    using assms(2,3) gdb_string_chars by fastforce+
  moreover have "10 \<notin> set register"
    using assms(4) by (auto simp: FIRST_ARGUMENT_REGISTER_def lit_def split: if_splits)
  moreover have "10 \<notin> set (nonce_hex (lq_nonce request))" using nonce_hex_chars by blast
  ultimately show "\<forall>line \<in> set (gdb_lines register request). 10 \<notin> set line"
    by (simp add: gdb_lines_def) (simp add: lit_def)
  have "gdb_lines register request ! 11 = lit ''set $pydump_agent=(void*)dlopen('' @ 34 #
      gdb_string (lq_agent_path request) @ 34 # lit '', 2)''"
    by (simp add: gdb_lines_def lit_def)
  moreover have "34 \<notin> set (lit ''set $pydump_agent=(void*)dlopen('')" by (simp add: lit_def)
  ultimately show "\<exists>front back. gdb_lines register request ! 11 = front @ 34 # back \<and> 34 \<notin> set front \<and>
       read back = Some (lq_agent_path request, lit '', 2)'')"
    using read_gdb_string [OF assms(1,2)] by blast
  have "gdb_lines register request ! 21 = lit ''set $pydump_rc=(int)((int (*)(char*, char*))$pydump_start)('' @ 34 #
      gdb_string (lq_socket_path request) @ 34 # lit '', '' @ 34 # nonce_hex (lq_nonce request) @ 34 # lit '')''"
    by (simp add: gdb_lines_def lit_def)
  moreover have "34 \<notin> set (lit ''set $pydump_rc=(int)((int (*)(char*, char*))$pydump_start)('')" by (simp add: lit_def)
  moreover have "gdb_string (nonce_hex (lq_nonce request)) = nonce_hex (lq_nonce request)"
    by (rule gdb_string_plain) (auto dest: nonce_hex_chars)
  then have "read (nonce_hex (lq_nonce request) @ 34 # lit '')'') = Some (nonce_hex (lq_nonce request), lit '')'')"
    using read_gdb_string [OF assms(1), of "nonce_hex (lq_nonce request)"] nonce_hex_chars by fastforce
  ultimately show "\<exists>front back rest more. gdb_lines register request ! 21 = front @ 34 # back \<and> 34 \<notin> set front \<and>
       read back = Some (lq_socket_path request, rest) \<and> rest = lit '', '' @ 34 # more \<and>
       read more = Some (nonce_hex (lq_nonce request), lit '')'')"
    using read_gdb_string [OF assms(1,3)] by blast
qed


text \<open>
  Installing the agent twice is installing it once: the second time finds the file of the first
  and changes nothing. The file has the content of the source and the mode 0755 unless a file of
  that name was there before; the temporary file is gone, and no other file is touched.
\<close>

theorem install_idempotent:
  assumes "install_agent sha256 target source files = (Inr (host_path, target_path), files')"
    and "source \<noteq> with_suffix (lit ''.partial'') host_path"
  shows "install_agent sha256 target source files' = (Inr (host_path, target_path), files') \<and>
    (\<exists>content mode. files source = Some (content, mode) \<and> target_path = agent_target_path sha256 content \<and>
       (case files host_path of
          None \<Rightarrow> files' = files(with_suffix (lit ''.partial'') host_path := None, host_path \<mapsto> (content, 493))
        | Some present \<Rightarrow> files' = files))"
proof -
  from assms(1) obtain content mode where source: "files source = Some (content, mode)"
    by (auto simp: install_agent_def atomic_run split: option.splits)
  let ?host = "target_root target @ lit ''/'' @ dropWhile (\<lambda>c. c = 47) (agent_target_path sha256 content)"
  have run: "install_agent sha256 target source fs = (Inr (?host, agent_target_path sha256 content),
      if fs ?host = None then fs(with_suffix (lit ''.partial'') ?host := None, ?host \<mapsto> (content, 493)) else fs)"
    if "fs source = Some (content, m)" for fs m
    using that by (simp add: install_agent_def Let_def)
  from run [where fs = files, OF source] assms(1) have paths: "host_path = ?host" "target_path = agent_target_path sha256 content"
    and files': "files' = (if files ?host = None
      then files(with_suffix (lit ''.partial'') ?host := None, ?host \<mapsto> (content, 493)) else files)" by simp_all
  have "\<exists>m. files' source = Some (content, m)"
    using source assms(2) by (auto simp: files' paths)
  then obtain m where "files' source = Some (content, m)" by blast
  from run [where fs = files', OF this] have "install_agent sha256 target source files' = (Inr (host_path, target_path), files')"
    unfolding paths by (auto simp: files')
  with source paths(2) show ?thesis
    by (auto simp: files' paths(1) split: option.splits)
qed

section \<open>Examples\<close>

definition demo_request :: load_request where
  "demo_request = \<lparr>lq_target = \<lparr>tg_host_pid = 42, tg_namespace_pid = 7, tg_python_minor = (3, 12)\<rparr>,
     lq_agent_path = lit ''/tmp/a.so'', lq_socket_path = lit ''/tmp/s'', lq_nonce = [1, 2], lq_timeout = 30,
     lq_timeout_text = lit ''30''\<rparr>"

definition demo_tools :: file_system where
  "demo_tools = \<lparr>fl_getenv = (\<lambda>_. None), fl_which = (\<lambda>_. None), fl_exists = (\<lambda>_. True), fl_is_file = (\<lambda>_. True),
     fl_executable = (\<lambda>_. True), fl_resolve = id\<rparr>"

theorem start_errors_witness:
  "\<exists>e. ptrace_start (\<lambda>_ _. Inl (Exn TimeoutExpired [] [])) \<lparr>pl_executable = lit ''loader''\<rparr> demo_request = Inl e \<and>
    exn_class_of e = PydumpError"
proof -
  obtain e where e: "ptrace_start (\<lambda>_ _. Inl (Exn TimeoutExpired [] [])) \<lparr>pl_executable = lit ''loader''\<rparr> demo_request = Inl e"
    by (simp add: ptrace_start_def catching_def raise_def Let_def)
  from start_errors [OF this] show ?thesis using e by auto
qed

text \<open>A reader of literals that takes every escaped character for itself.\<close>

fun demo_literal :: "pystr \<Rightarrow> (pystr \<times> pystr) option" where
  "demo_literal [] = None"
| "demo_literal (c # s) =
     (if c = 34 then Some ([], s)
      else if c = 92 then
        (case s of [] \<Rightarrow> None | d # t \<Rightarrow> map_option (\<lambda>(v, rest). (d # v, rest)) (demo_literal t))
      else map_option (\<lambda>(v, rest). (c # v, rest)) (demo_literal s))"

theorem gdb_script_exact_witness:
  "\<exists>front back. gdb_lines (lit ''$rdi'') demo_request ! 11 = front @ 34 # back \<and>
    demo_literal back = Some (lit ''/tmp/a.so'', lit '', 2)'')"
proof -
  have "reads_literals demo_literal" by (simp add: reads_literals_def)
  moreover have "10 \<notin> set (lq_agent_path demo_request)" "10 \<notin> set (lq_socket_path demo_request)"
    "FIRST_ARGUMENT_REGISTER (lit ''x86_64'') = Some (lit ''$rdi'')" "lq_agent_path demo_request = lit ''/tmp/a.so''"
    by (simp_all add: demo_request_def FIRST_ARGUMENT_REGISTER_def lit_def)
  ultimately show ?thesis using gdb_script_exact by metis
qed


theorem install_idempotent_witness:
  "\<exists>host_path target_path files'. install_agent (\<lambda>_. lit ''0123456789abcdef0'') (lq_target demo_request) (lit ''agent.so'')
      [lit ''agent.so'' \<mapsto> ([1], 420)] = (Inr (host_path, target_path), files') \<and>
    install_agent (\<lambda>_. lit ''0123456789abcdef0'') (lq_target demo_request) (lit ''agent.so'') files' =
      (Inr (host_path, target_path), files')"
proof -
  obtain host_path target_path files' where run: "install_agent (\<lambda>_. lit ''0123456789abcdef0'') (lq_target demo_request)
      (lit ''agent.so'') [lit ''agent.so'' \<mapsto> ([1], 420)] = (Inr (host_path, target_path), files')"
    by (cases "install_agent (\<lambda>_. lit ''0123456789abcdef0'') (lq_target demo_request) (lit ''agent.so'')
        [lit ''agent.so'' \<mapsto> ([1], 420)]") (auto simp: install_agent_def Let_def split: if_splits)
  have "host_path = target_root (lq_target demo_request) @ lit ''/'' @
      dropWhile (\<lambda>c. c = 47) (agent_target_path (\<lambda>_. lit ''0123456789abcdef0'') [1])"
    using run by (simp add: install_agent_def Let_def split: if_splits)
  then have "lit ''agent.so'' \<noteq> with_suffix (lit ''.partial'') host_path"
    by (simp add: with_suffix_def agent_target_path_def target_root_def lit_def)
  from install_idempotent [OF run this] run show ?thesis by blast
qed

end
