(* ===== verification/Arguments.thy ===== *)
theory Arguments
  imports Option_Table Selection
begin

text \<open>
  The arguments of the Collector: \<^verbatim>\<open>parser\<close> and \<^verbatim>\<open>_str_repr_length\<close> of
  \<^verbatim>\<open>capture/collector/src/pydump/cli.py\<close>. Two reserved flags are accepted and have no effect.
\<close>

section \<open>The options\<close>

definition str_repr_length :: "pystr \<Rightarrow> int res" where
  "str_repr_length value =
     rbind (int_of_text value) (\<lambda>parsed.
     if parsed < - 1 then
       raise ArgumentTypeError ''string preview length must be -1 or non-negative'' []
     else Inr parsed)"

definition COLLECTOR_OPTIONS :: "arg_value option_spec list" where
  "COLLECTOR_OPTIONS =
     [option_spec [''-h'', ''--help''] ''help'' Show,
      option_spec [''--version''] ''version'' Show,
      (option_spec [''--pid'', ''-p''] ''pid'' (Store (int_value int_of_text)))\<lparr>op_exclusive := True\<rparr>,
      (option_spec [''--docker-container''] ''docker_container'' (Store text_value))\<lparr>op_exclusive := True\<rparr>,
      (option_spec [''--file'', ''-f''] ''file'' (Store path_value))\<lparr>op_required := True\<rparr>,
      option_spec [''--str-repr-len''] ''str_repr_len'' (Store (int_value str_repr_length)),
      option_spec [''--no-attribute''] ''no_attribute'' (Flag (VFlag True)),
      option_spec [''--ignore-compatibility-checks''] ''ignore_compatibility_checks'' (Flag (VFlag True)),
      option_spec [''--force-shadow''] ''force_shadow'' (Flag (VFlag True)),
      option_spec [''--agent''] ''agent'' (Store path_value),
      option_spec [''--loader''] ''loader'' (Store (choice_value (map kind_value [AUTO, GDB, PTRACE]))),
      option_spec [''--gdb''] ''gdb'' (Store path_value),
      option_spec [''--pydump-loader''] ''pydump_loader'' (Store path_value),
      option_spec [''--timeout''] ''timeout'' (Store float_value)]"

definition COLLECTOR_DEFAULTS :: "pystr \<rightharpoonup> arg_value" where
  "COLLECTOR_DEFAULTS =
     [lit ''str_repr_len'' \<mapsto> VInt 1000, lit ''no_attribute'' \<mapsto> VFlag False, lit ''loader'' \<mapsto> VText (lit ''auto''),
      lit ''timeout'' \<mapsto> VFloat (FFinite 30)]"

section \<open>The arguments\<close>

record cli_arguments =
  ca_pid :: "int option"
  ca_docker_container :: "pystr option"
  ca_file :: pystr
  ca_str_repr_len :: int
  ca_no_attribute :: bool
  ca_agent :: "pystr option"
  ca_loader :: loader_kind
  ca_gdb :: "pystr option"
  ca_pydump_loader :: "pystr option"
  ca_timeout :: json_float

definition kind_of_text :: "pystr \<Rightarrow> loader_kind" where
  "kind_of_text s = (if s = kind_value GDB then GDB else if s = kind_value PTRACE then PTRACE else AUTO)"

definition arguments_of :: "(pystr \<rightharpoonup> arg_value) \<Rightarrow> cli_arguments" where
  "arguments_of vals =
     \<lparr>ca_pid = get_int vals ''pid'', ca_docker_container = get_text vals ''docker_container'',
      ca_file = the (get_text vals ''file''), ca_str_repr_len = the (get_int vals ''str_repr_len''),
      ca_no_attribute = (vals (lit ''no_attribute'') = Some (VFlag True)), ca_agent = get_text vals ''agent'',
      ca_loader = kind_of_text (the (get_text vals ''loader'')), ca_gdb = get_text vals ''gdb'',
      ca_pydump_loader = get_text vals ''pydump_loader'',
      ca_timeout = (case vals (lit ''timeout'') of Some (VFloat t) \<Rightarrow> t | _ \<Rightarrow> FNan)\<rparr>"

definition parse_arguments :: "pystr list \<Rightarrow> cli_arguments parse" where
  "parse_arguments argv =
     parse_bind (parse_all False COLLECTOR_OPTIONS COLLECTOR_DEFAULTS argv) (\<lambda>vals. Parsed (arguments_of vals))"

section \<open>Laws\<close>

lemma collector_table: "table_ok COLLECTOR_OPTIONS"
  by (simp add: table_ok_def COLLECTOR_OPTIONS_def option_spec_def)

lemma collector_group: "exclusive_dests COLLECTOR_OPTIONS = {lit ''pid'', lit ''docker_container''}"
  by (simp add: exclusive_dests_filter COLLECTOR_OPTIONS_def option_spec_def)

lemma collector_required: "\<exists>o' \<in> set COLLECTOR_OPTIONS. op_required o' \<and> op_dest o' = lit ''file''"
  by (simp add: COLLECTOR_OPTIONS_def option_spec_def)

text \<open>What the option of a name can set.\<close>

lemma collector_set_by:
  "set_by COLLECTOR_OPTIONS (lit ''pid'') v \<Longrightarrow> \<exists>i. v = VInt i"
  "set_by COLLECTOR_OPTIONS (lit ''docker_container'') v \<Longrightarrow> \<exists>s. v = VText s"
  "set_by COLLECTOR_OPTIONS (lit ''file'') v \<Longrightarrow> \<exists>s. v = VText (path_text s)"
  "set_by COLLECTOR_OPTIONS (lit ''str_repr_len'') v \<Longrightarrow> \<exists>i. v = VInt i \<and> - 1 \<le> i"
  by (auto simp: set_by_def COLLECTOR_OPTIONS_def option_spec_def int_value_def text_value_def path_value_def
      str_repr_length_def rbind_Inr raise_def split: if_splits)

lemma collector_defaults:
  "COLLECTOR_DEFAULTS (lit ''pid'') = None" "COLLECTOR_DEFAULTS (lit ''docker_container'') = None"
  "COLLECTOR_DEFAULTS (lit ''str_repr_len'') = Some (VInt 1000)"
  by (simp_all add: COLLECTOR_DEFAULTS_def)

text \<open>What is accepted.\<close>

lemma accepted_arguments:
  assumes "parse_arguments argv = Parsed arguments"
  shows "(ca_pid arguments = None) \<noteq> (ca_docker_container arguments = None) \<and>
    - 1 \<le> ca_str_repr_len arguments \<and> (\<exists>s. ca_file arguments = path_text s)"
proof -
  from assms obtain st where st: "parse_known False COLLECTOR_OPTIONS COLLECTOR_DEFAULTS argv = Parsed st"
    "arguments = arguments_of (ap_values st)" by (auto simp: parse_arguments_def parse_bind_Parsed parse_all_known)
  let ?seen = "ap_seen st" and ?vals = "ap_values st"
  note known = parse_known_ok [OF st(1) collector_table]
  have absent: "\<And>dest. dest \<notin> ?seen \<Longrightarrow> ?vals dest = COLLECTOR_DEFAULTS dest" using known(1) by blast
  have set: "\<And>dest. dest \<in> ?seen \<Longrightarrow> \<exists>v. ?vals dest = Some v \<and> set_by COLLECTOR_OPTIONS dest v" using known(2) by blast
  have file_seen: "lit ''file'' \<in> ?seen"
  proof -
    from collector_required obtain o' where "o' \<in> set COLLECTOR_OPTIONS" "op_required o'" "op_dest o' = lit ''file''" by blast
    with known(3) show ?thesis by fastforce
  qed
  have pid: "if lit ''pid'' \<in> ?seen then \<exists>i. ?vals (lit ''pid'') = Some (VInt i) else ?vals (lit ''pid'') = None"
    by (rule seen_attribute [where defaults = COLLECTOR_DEFAULTS], erule absent, erule set, erule collector_set_by(1),
        rule collector_defaults)
  have container: "if lit ''docker_container'' \<in> ?seen
      then \<exists>s. ?vals (lit ''docker_container'') = Some (VText s) else ?vals (lit ''docker_container'') = None"
    by (rule seen_attribute [where defaults = COLLECTOR_DEFAULTS], erule absent, erule set, erule collector_set_by(2),
        rule collector_defaults)
  have "\<exists>s. ?vals (lit ''file'') = Some (VText (path_text s))"
    using set [OF file_seen] collector_set_by(3) by (elim exE conjE) blast
  then have file_set: "\<exists>s. ca_file arguments = path_text s" by (auto simp: st(2) arguments_of_def get_text_def)
  have "\<exists>i. ?vals (lit ''str_repr_len'') = Some (VInt i) \<and> - 1 \<le> i"
  proof (cases "lit ''str_repr_len'' \<in> ?seen")
    case True
    show ?thesis using set [OF True] collector_set_by(4) by (elim exE conjE) blast
  qed (simp add: absent collector_defaults)
  then have length: "- 1 \<le> ca_str_repr_len arguments" by (auto simp: st(2) arguments_of_def get_int_def)
  from known(4) obtain d where d: "?seen \<inter> {lit ''pid'', lit ''docker_container''} = {d}" by (auto simp: collector_group)
  have "lit ''pid'' \<noteq> lit ''docker_container''" by simp
  then have "(lit ''pid'' \<in> ?seen) \<noteq> (lit ''docker_container'' \<in> ?seen)" by (rule one_of_two [OF d])
  moreover have "ca_pid arguments = None \<longleftrightarrow> lit ''pid'' \<notin> ?seen"
    using pid by (auto simp: st(2) arguments_of_def get_int_def)
  moreover have "ca_docker_container arguments = None \<longleftrightarrow> lit ''docker_container'' \<notin> ?seen"
    using container by (auto simp: st(2) arguments_of_def get_text_def)
  ultimately have "(ca_pid arguments = None) \<noteq> (ca_docker_container arguments = None)" by simp
  then show ?thesis using length file_set by (intro conjI)
qed

section \<open>Writing the arguments\<close>

text \<open>A command line of these arguments, without \<^verbatim>\<open>--timeout\<close>.\<close>

definition render_arguments :: "cli_arguments \<Rightarrow> pystr list" where
  "render_arguments a =
     optional ''--pid'' (map_option decimal_text (ca_pid a)) @ optional ''--docker-container'' (ca_docker_container a) @
     optional ''--file'' (Some (ca_file a)) @ optional ''--str-repr-len'' (Some (decimal_text (ca_str_repr_len a))) @
     (if ca_no_attribute a then [lit ''--no-attribute''] else []) @ optional ''--agent'' (ca_agent a) @
     optional ''--loader'' (Some (kind_value (ca_loader a))) @ optional ''--gdb'' (ca_gdb a) @
     optional ''--pydump-loader'' (ca_pydump_loader a)"

definition collector_option :: "string \<Rightarrow> arg_value option_spec" where
  "collector_option name = the (find_option COLLECTOR_OPTIONS (lit name))"

lemma find_collector_option:
  "find_option COLLECTOR_OPTIONS (lit name) \<noteq> None \<Longrightarrow>
    find_option COLLECTOR_OPTIONS (lit name) = Some (collector_option name)"
  by (auto simp: collector_option_def)

lemma collector_names: "names_ok COLLECTOR_OPTIONS"
  by (simp add: names_ok_def COLLECTOR_OPTIONS_def option_spec_def) (simp add: lit_def)

lemma collector_options:
  "collector_option ''--pid'' = (option_spec [''--pid'', ''-p''] ''pid'' (Store (int_value int_of_text)))\<lparr>op_exclusive := True\<rparr>"
  "collector_option ''--docker-container'' =
    (option_spec [''--docker-container''] ''docker_container'' (Store text_value))\<lparr>op_exclusive := True\<rparr>"
  "collector_option ''--file'' = (option_spec [''--file'', ''-f''] ''file'' (Store path_value))\<lparr>op_required := True\<rparr>"
  "collector_option ''--str-repr-len'' = option_spec [''--str-repr-len''] ''str_repr_len'' (Store (int_value str_repr_length))"
  "collector_option ''--no-attribute'' = option_spec [''--no-attribute''] ''no_attribute'' (Flag (VFlag True))"
  "collector_option ''--agent'' = option_spec [''--agent''] ''agent'' (Store path_value)"
  "collector_option ''--loader'' = option_spec [''--loader''] ''loader'' (Store (choice_value (map kind_value [AUTO, GDB, PTRACE])))"
  "collector_option ''--gdb'' = option_spec [''--gdb''] ''gdb'' (Store path_value)"
  "collector_option ''--pydump-loader'' = option_spec [''--pydump-loader''] ''pydump_loader'' (Store path_value)"
  by (simp_all add: collector_option_def find_option_def COLLECTOR_OPTIONS_def option_spec_def)

lemma collector_known:
  "name \<in> set [''--pid'', ''--docker-container'', ''--file'', ''--str-repr-len'', ''--no-attribute'', ''--agent'', ''--loader'',
    ''--gdb'', ''--pydump-loader''] \<Longrightarrow> find_option COLLECTOR_OPTIONS (lit name) = Some (collector_option name)"
  by (rule find_collector_option) (auto simp: find_option_def COLLECTOR_OPTIONS_def option_spec_def)

lemma absorbs_path:
  assumes "name \<in> set [''--file'', ''--agent'', ''--gdb'', ''--pydump-loader'']" and "pred_option normal_path x"
  shows "absorbs False COLLECTOR_OPTIONS (optional name x) st (given (collector_option name) VText x st)"
  using assms by (intro absorbs_text [where f = path_value] collector_known collector_names)
    (auto simp: collector_options option_spec_def path_value_def normal_path_def lit_def starts_with_def)

lemma absorbs_pid:
  assumes "pred_option writable_int x" and "ap_seen st = {}"
  shows "absorbs False COLLECTOR_OPTIONS (optional ''--pid'' (map_option decimal_text x)) st
    (given (collector_option ''--pid'') VInt x st)"
  using assms by (intro absorbs_optional [where f = "int_value int_of_text"] collector_known collector_names)
    (auto simp: collector_options option_spec_def int_value_def writable_int_def int_of_decimal lit_def starts_with_def)

lemma absorbs_container:
  assumes "x \<noteq> None \<Longrightarrow> ap_seen st = {}"
  shows "absorbs False COLLECTOR_OPTIONS (optional ''--docker-container'' x) st
    (given (collector_option ''--docker-container'') VText x st)"
  using assms by (intro absorbs_text [where f = text_value] collector_known collector_names)
    (auto simp: collector_options option_spec_def text_value_def lit_def starts_with_def)

lemma absorbs_length:
  assumes "writable_int n" and "- 1 \<le> n"
  shows "absorbs False COLLECTOR_OPTIONS (optional ''--str-repr-len'' (Some (decimal_text n))) st
    (given (collector_option ''--str-repr-len'') VInt (Some n) st)"
  using assms absorbs_optional [where f = "int_value str_repr_length" and x = "Some n" and g = decimal_text and v = VInt,
      OF collector_names collector_known [of "''--str-repr-len''"]]
  by (simp add: collector_options option_spec_def int_value_def str_repr_length_def writable_int_def int_of_decimal)
    (simp add: lit_def starts_with_def)

lemma absorbs_loader:
  "absorbs False COLLECTOR_OPTIONS (optional ''--loader'' (Some (kind_value kind))) st
    (given (collector_option ''--loader'') (\<lambda>k. VText (kind_value k)) (Some kind) st)"
  using absorbs_optional [where f = "choice_value (map kind_value [AUTO, GDB, PTRACE])" and x = "Some kind" and
      g = kind_value and v = "\<lambda>k. VText (kind_value k)", OF collector_names collector_known [of "''--loader''"]]
  by (cases kind) (simp_all add: collector_options option_spec_def choice_value_def among_def,
      simp_all add: lit_def starts_with_def)

lemma absorbs_no_attribute:
  "absorbs False COLLECTOR_OPTIONS (if given_flag then [lit ''--no-attribute''] else []) st
    (given (collector_option ''--no-attribute'') (\<lambda>_. VFlag True) (if given_flag then Some () else None) st)"
  using absorbs_flag [OF collector_known [of "''--no-attribute''"]]
  by (cases given_flag) (simp_all add: absorbs_Nil given_def collector_options option_spec_def,
      simp add: lit_def starts_with_def)

text \<open>What the parser makes of the command line.\<close>

definition rendered_state :: "cli_arguments \<Rightarrow> arg_value parse_state" where
  "rendered_state a =
     given (collector_option ''--pydump-loader'') VText (ca_pydump_loader a)
     (given (collector_option ''--gdb'') VText (ca_gdb a)
     (given (collector_option ''--loader'') (\<lambda>k. VText (kind_value k)) (Some (ca_loader a))
     (given (collector_option ''--agent'') VText (ca_agent a)
     (given (collector_option ''--no-attribute'') (\<lambda>_. VFlag True) (if ca_no_attribute a then Some () else None)
     (given (collector_option ''--str-repr-len'') VInt (Some (ca_str_repr_len a))
     (given (collector_option ''--file'') VText (Some (ca_file a))
     (given (collector_option ''--docker-container'') VText (ca_docker_container a)
     (given (collector_option ''--pid'') VInt (ca_pid a)
       \<lparr>ap_values = COLLECTOR_DEFAULTS, ap_seen = {}, ap_extras = []\<rparr>))))))))"

definition writable :: "cli_arguments \<Rightarrow> bool" where
  "writable a \<longleftrightarrow> (ca_pid a = None) \<noteq> (ca_docker_container a = None) \<and> pred_option writable_int (ca_pid a) \<and>
     normal_path (ca_file a) \<and> writable_int (ca_str_repr_len a) \<and> - 1 \<le> ca_str_repr_len a \<and>
     pred_option normal_path (ca_agent a) \<and> pred_option normal_path (ca_gdb a) \<and>
     pred_option normal_path (ca_pydump_loader a) \<and> ca_timeout a = FFinite 30"

lemma rendered_absorbed:
  assumes "writable a"
  shows "absorbs False COLLECTOR_OPTIONS (render_arguments a) \<lparr>ap_values = COLLECTOR_DEFAULTS, ap_seen = {}, ap_extras = []\<rparr>
    (rendered_state a)"
proof -
  let ?start = "\<lparr>ap_values = COLLECTOR_DEFAULTS, ap_seen = {}, ap_extras = []\<rparr>"
  have fields: "pred_option writable_int (ca_pid a)" "pred_option normal_path (Some (ca_file a))"
    "writable_int (ca_str_repr_len a)" "- 1 \<le> ca_str_repr_len a" "pred_option normal_path (ca_agent a)"
    "pred_option normal_path (ca_gdb a)" "pred_option normal_path (ca_pydump_loader a)" "ap_seen ?start = {}"
    "ca_docker_container a \<noteq> None \<Longrightarrow> ap_seen (given (collector_option ''--pid'') VInt (ca_pid a) ?start) = {}"
    using assms by (auto simp: writable_def)
  show ?thesis
    unfolding render_arguments_def rendered_state_def
    by (rule absorbs_append absorbs_pid absorbs_container absorbs_path absorbs_length absorbs_no_attribute
        absorbs_loader fields | simp)+
qed

lemma kind_of_value [simp]: "kind_of_text (kind_value kind) = kind"
  by (cases kind) (simp_all add: kind_of_text_def kind_value_def)

lemma rendered_attributes:
  assumes "writable a"
  shows "arguments_of (ap_values (rendered_state a)) = a"
  using assms unfolding writable_def
  by (cases a) (auto simp: arguments_of_def rendered_state_def get_int_def get_text_def collector_options
      option_spec_def COLLECTOR_DEFAULTS_def)

lemma parse_rendered:
  assumes "writable a"
  shows "parse_arguments (render_arguments a) = Parsed a"
proof -
  have "parse_known False COLLECTOR_OPTIONS COLLECTOR_DEFAULTS (render_arguments a) = Parsed (rendered_state a)"
  proof (rule parse_absorbed [OF rendered_absorbed [OF assms]])
    fix o' assume "o' \<in> set COLLECTOR_OPTIONS" "op_required o'"
    then have "op_dest o' = lit ''file''" by (auto simp: COLLECTOR_OPTIONS_def option_spec_def)
    then show "op_dest o' \<in> ap_seen (rendered_state a)" by (simp add: rendered_state_def collector_options option_spec_def)
  next
    show "exclusive_dests COLLECTOR_OPTIONS = {} \<or> ap_seen (rendered_state a) \<inter> exclusive_dests COLLECTOR_OPTIONS \<noteq> {}"
      using assms by (auto simp: writable_def collector_group rendered_state_def collector_options option_spec_def)
  qed
  moreover have "ap_extras (rendered_state a) = []" by (simp add: rendered_state_def)
  ultimately have "parse_all False COLLECTOR_OPTIONS COLLECTOR_DEFAULTS (render_arguments a) = Parsed (ap_values (rendered_state a))"
    by (simp add: parse_all_known)
  with rendered_attributes [OF assms] show ?thesis by (simp add: parse_arguments_def)
qed

section \<open>Properties\<close>

text \<open>
  C36: The Collector's command line is read as it was written: with every option in its long form, for
  any target, paths in normal form and a length of at most 4,300 digits, it gives back these
  arguments. And whatever is accepted names exactly one target, by its PID or by its container, and
  a file, with previews of a length of at least -1.
\<close>

theorem collector_arguments:
  "(writable a \<longrightarrow> parse_arguments (render_arguments a) = Parsed a) \<and>
   (parse_arguments argv = Parsed arguments \<longrightarrow>
     (ca_pid arguments = None) \<noteq> (ca_docker_container arguments = None) \<and>
     - 1 \<le> ca_str_repr_len arguments \<and> (\<exists>s. ca_file arguments = path_text s))"
  using parse_rendered accepted_arguments by (intro conjI impI) auto

section \<open>Examples\<close>

definition demo_arguments :: cli_arguments where
  "demo_arguments = \<lparr>ca_pid = Some 42, ca_docker_container = None, ca_file = lit ''out'', ca_str_repr_len = 40,
     ca_no_attribute = False, ca_agent = None, ca_loader = AUTO, ca_gdb = None, ca_pydump_loader = None,
     ca_timeout = FFinite 30\<rparr>"

lemma demo_writable: "writable demo_arguments"
proof -
  have "normal_path (lit ''out'')"
    by (simp add: normal_path_def path_text_def path_root_def path_parts_def lit_def starts_with_def join_def)
  moreover have "writable_int 42" "writable_int 40"
    by (simp_all add: writable_int_def MAX_INT_DIGITS_def decimal_digits.simps)
  ultimately show ?thesis by (simp add: writable_def demo_arguments_def)
qed

lemma demo_parsed: "parse_arguments (render_arguments demo_arguments) = Parsed demo_arguments"
  by (rule parse_rendered [OF demo_writable])

theorem collector_arguments_witness:
  "parse_arguments (render_arguments demo_arguments) = Parsed demo_arguments \<and> - 1 \<le> ca_str_repr_len demo_arguments"
  using collector_arguments [of demo_arguments "render_arguments demo_arguments" demo_arguments] demo_writable by simp

end
