(* ===== verification/Launch.thy ===== *)
theory Launch
  imports Delivery Arguments
begin

text \<open>
  The first half of \<^verbatim>\<open>run\<close> in \<^verbatim>\<open>capture/collector/src/pydump/cli.py\<close>: the target, the
  agent and the loader are chosen, a private directory with a listening socket is made in the
  target's file system, and the loader's thread is started. What the system answers is the record
  \<open>surroundings\<close>; the system calls with an effect that matters are logged in the order they are made.
\<close>

section \<open>The surroundings\<close>

datatype os_call =
    Chown pystr "int \<times> int"
  | Chmod pystr int
  | Bind pystr
  | Listen
  | Start_thread load_request
  | Close_connection
  | Close_listener
  | Remove_directory pystr

text \<open>
  A round of the wait: the clock, whether a connection arrives before the round's timeout, and whether
  the loader's thread has ended by then.
\<close>

record poll =
  po_now :: rat
  po_accepted :: bool
  po_ended :: bool

text \<open>
  The clock when the capture starts and ends, and what the Collector has measured; \<open>me_progress i\<close> is
  the time that has passed at the progress report number \<open>i\<close>.
\<close>

record measured =
  me_connected :: rat
  me_saved :: rat
  me_hello_wait :: rat
  me_setup :: rat
  me_roots :: rat
  me_objects :: rat
  me_pause :: rat
  me_finalize :: rat
  me_ru_maxrss :: int
  me_progress :: "nat \<Rightarrow> rat"

text \<open>
  \<open>su_call\<close> yields the error of a call. \<open>su_mkdtemp\<close> is the directory that \<^verbatim>\<open>TemporaryDirectory\<close>
  creates, \<open>su_started\<close> the clock before the wait, \<open>su_joined\<close> whether the loader's thread ends
  before the last timeout.
\<close>

record surroundings =
  su_system :: system
  su_host :: host
  su_files :: file_system
  su_agents_dir :: pystr
  su_bin_dir :: pystr
  su_gdb_version :: "pystr list \<Rightarrow> int res"
  su_describe :: "exn \<Rightarrow> pystr"
  su_helper :: inferior
  su_run_gdb :: "pystr list \<Rightarrow> pystr \<Rightarrow> (pystr \<times> pystr) list \<Rightarrow> rat \<Rightarrow> completed res"
  su_run_ptrace :: "pystr list \<Rightarrow> rat \<Rightarrow> completed res"
  su_environ :: "(pystr \<times> pystr) list"
  su_sha256 :: "bytes \<Rightarrow> pystr"
  su_nonce :: bytes
  su_mkdtemp :: "pystr \<Rightarrow> pystr res"
  su_call :: "os_call \<Rightarrow> unit res"
  su_started :: rat
  su_polls :: "nat \<Rightarrow> poll"
  su_sock :: sock
  su_order :: set_order
  su_date :: pystr
  su_joined :: bool
  su_measured :: measured

record world =
  wo_files :: files
  wo_installed :: installed
  wo_calls :: "os_call list"
  wo_lines :: "pystr list"

section \<open>Steps\<close>

text \<open>A step may not return; it returns a value or an exception, and the world.\<close>

type_synonym 'a step = "world \<Rightarrow> ('a res \<times> world) option"

definition step_return :: "'a res \<Rightarrow> 'a step" where
  "step_return r = (\<lambda>w. Some (r, w))"

definition step_bind :: "'a step \<Rightarrow> ('a \<Rightarrow> 'b step) \<Rightarrow> 'b step" where
  "step_bind m f =
     (\<lambda>w. case m w of None \<Rightarrow> None | Some (Inl e, w') \<Rightarrow> Some (Inl e, w') | Some (Inr x, w') \<Rightarrow> f x w')"

definition print_line :: "pystr \<Rightarrow> unit step" where
  "print_line line = (\<lambda>w. Some (Inr (), w\<lparr>wo_lines := wo_lines w @ [line]\<rparr>))"

definition os_call :: "surroundings \<Rightarrow> os_call \<Rightarrow> unit step" where
  "os_call su c = (\<lambda>w. Some (su_call su c, w\<lparr>wo_calls := wo_calls w @ [c]\<rparr>))"

text \<open>The end of a \<open>with\<close> block, on a return and on an exception.\<close>

definition leaving :: "surroundings \<Rightarrow> os_call \<Rightarrow> 'a step \<Rightarrow> 'a step" where
  "leaving su c block =
     (\<lambda>w. case block w of
        None \<Rightarrow> None
      | Some (r, w') \<Rightarrow> Some (rbind (su_call su c) (\<lambda>_. r), w'\<lparr>wo_calls := wo_calls w' @ [c]\<rparr>))"

section \<open>The target, the agent and the loader\<close>

definition agent_name :: "int \<times> int \<Rightarrow> pystr \<Rightarrow> pystr" where
  "agent_name version machine =
     lit ''pydump-agent-'' @ version_text version @ lit ''-'' @ machine @ lit ''.so''"

text \<open>\<open>agents_dir\<close> is the directory \<^verbatim>\<open>agents\<close> of the package, with its final slash.\<close>

definition bundled_agent :: "(pystr \<Rightarrow> bool) \<Rightarrow> pystr \<Rightarrow> pystr \<Rightarrow> int \<times> int \<Rightarrow> pystr res" where
  "bundled_agent exists agents_dir machine version =
     (let candidate = agents_dir @ agent_name version machine in
      if \<not> exists candidate then
        raise PydumpError ''no bundled agent {name}; pass --agent with a matching build''
          [AStr (agent_name version machine)]
      else Inr candidate)"

definition choose_loader :: "surroundings \<Rightarrow> cli_arguments \<Rightarrow> target \<Rightarrow> any_loader res" where
  "choose_loader su arguments target =
     select_loader (su_host su)
       (probe_gdb_loader (su_files su) (su_gdb_version su) (su_describe su) (su_helper su) (ca_gdb arguments))
       (\<lambda>machine. probe_pydump_loader (su_files su) (su_bin_dir su) machine (ca_pydump_loader arguments))
       target (ca_loader arguments)"

definition prepare :: "surroundings \<Rightarrow> cli_arguments \<Rightarrow> (target \<times> pystr \<times> any_loader) res" where
  "prepare su arguments =
     rbind (resolve_target (su_system su) (ca_pid arguments) (ca_docker_container arguments)) (\<lambda>target.
     rbind (case ca_agent arguments of
         Some agent \<Rightarrow> Inr agent
       | None \<Rightarrow> bundled_agent (fl_exists (su_files su)) (su_agents_dir su) (hs_machine (su_host su))
           (tg_python_minor target)) (\<lambda>agent.
     rbind (verify_agent (fl_is_file (su_files su)) 8 agent target) (\<lambda>_.
     rbind (choose_loader su arguments target) (\<lambda>loader.
     Inr (target, agent, loader)))))"

definition install_step :: "surroundings \<Rightarrow> target \<Rightarrow> pystr \<Rightarrow> pystr step" where
  "install_step su target agent =
     (\<lambda>w. case install_agent (su_sha256 su) target agent (wo_installed w) of
        (r, agents) \<Rightarrow> Some (rbind r (\<lambda>(_, target_path). Inr target_path), w\<lparr>wo_installed := agents\<rparr>))"

definition loader_executable :: "any_loader \<Rightarrow> pystr" where
  "loader_executable loader = (case loader of Gdb l \<Rightarrow> gl_executable l | Ptrace l \<Rightarrow> pl_executable l)"

definition loader_line :: "any_loader \<Rightarrow> pystr" where
  "loader_line loader =
     lit ''Loader: '' @ kind_value (loader_kind_of loader) @ lit '' ('' @ loader_executable loader @ lit '')''"

section \<open>The socket and the loader's thread\<close>

text \<open>\<^verbatim>\<open>settimeout\<close>: at most \<open>2\<^sup>3\<^sup>1 - 1\<close> milliseconds.\<close>

definition socket_timeout :: "json_float \<Rightarrow> rat res" where
  "socket_timeout timeout =
     (case timeout of
        FNan \<Rightarrow> raise ValueError ''Invalid value NaN (not a number)'' []
      | FInfinite _ \<Rightarrow> raise OverflowError ''timestamp too large to convert to C PyTime_t'' []
      | FFinite q \<Rightarrow>
          if 2 ^ 63 \<le> \<bar>q\<bar> * 1000000000 then raise OverflowError ''timestamp too large to convert to C PyTime_t'' []
          else if q < 0 then raise ValueError ''Timeout value out of range'' []
          else if 2147483647 < q * 1000 then raise OverflowError ''timeout doesn't fit into C timeval'' []
          else Inr q)"

definition SOCKET_NAME :: pystr where "SOCKET_NAME = lit ''collector.sock''"

definition socket_host_path :: "pystr \<Rightarrow> pystr" where
  "socket_host_path host_temp = host_temp @ 47 # SOCKET_NAME"

definition socket_target_path :: "pystr \<Rightarrow> pystr" where
  "socket_target_path host_temp = lit ''/tmp/'' @ path_name host_temp @ 47 # SOCKET_NAME"

definition make_request :: "surroundings \<Rightarrow> cli_arguments \<Rightarrow> target \<Rightarrow> pystr \<Rightarrow> pystr \<Rightarrow> rat \<Rightarrow> load_request" where
  "make_request su arguments target agent_path host_temp timeout =
     \<lparr>lq_target = target, lq_agent_path = agent_path, lq_socket_path = socket_target_path host_temp,
      lq_nonce = su_nonce su, lq_timeout = timeout, lq_timeout_text = general_text (ca_timeout arguments)\<rparr>"

text \<open>\<^verbatim>\<open>load_agent\<close>: the error that the thread leaves behind, if any.\<close>

definition start_loader :: "surroundings \<Rightarrow> any_loader \<Rightarrow> load_request \<Rightarrow> unit res" where
  "start_loader su loader request =
     (case loader of
        Gdb l \<Rightarrow> gdb_start (su_run_gdb su) (su_environ su) l request
      | Ptrace l \<Rightarrow> ptrace_start (su_run_ptrace su) l request)"

definition loader_error :: "surroundings \<Rightarrow> any_loader \<Rightarrow> load_request \<Rightarrow> exn option" where
  "loader_error su loader request = (case start_loader su loader request of Inl e \<Rightarrow> Some e | Inr _ \<Rightarrow> None)"

text \<open>
  The temporary directory and the socket live while \<open>serve\<close> runs; \<open>serve\<close> gets the request, and it
  is what follows the start of the thread.
\<close>

definition with_listener ::
  "surroundings \<Rightarrow> cli_arguments \<Rightarrow> target \<Rightarrow> pystr \<Rightarrow> int \<times> int \<Rightarrow> pystr \<Rightarrow> (load_request \<Rightarrow> 'a step) \<Rightarrow> 'a step" where
  "with_listener su arguments target agent_path owner host_temp serve =
     leaving su Close_listener (
       step_bind (os_call su (Bind (socket_host_path host_temp))) (\<lambda>_.
       step_bind (os_call su (Chown (socket_host_path host_temp) owner)) (\<lambda>_.
       step_bind (os_call su Listen) (\<lambda>_.
       step_bind (step_return (socket_timeout (ca_timeout arguments))) (\<lambda>timeout.
       let request = make_request su arguments target agent_path host_temp timeout in
       step_bind (os_call su (Start_thread request)) (\<lambda>_.
       serve request))))))"

definition with_directory ::
  "surroundings \<Rightarrow> cli_arguments \<Rightarrow> target \<Rightarrow> pystr \<Rightarrow> (load_request \<Rightarrow> 'a step) \<Rightarrow> 'a step" where
  "with_directory su arguments target agent_path serve =
     step_bind (step_return (su_mkdtemp su (target_root target @ lit ''/tmp''))) (\<lambda>host_temp.
     leaving su (Remove_directory host_temp) (
       step_bind (step_return (fs_owner (su_system su) target)) (\<lambda>owner.
       step_bind (os_call su (Chown host_temp owner)) (\<lambda>_.
       step_bind (os_call su (Chmod host_temp 448)) (\<lambda>_.
       with_listener su arguments target agent_path owner host_temp serve)))))"

section \<open>Laws\<close>

text \<open>What holds after a step, if it returns; \<open>stops\<close> says that it does.\<close>

definition after :: "'a step \<Rightarrow> world \<Rightarrow> ('a res \<Rightarrow> world \<Rightarrow> bool) \<Rightarrow> bool" where
  "after m w Q \<longleftrightarrow> (\<forall>r w'. m w = Some (r, w') \<longrightarrow> Q r w')"

definition stops :: "'a step \<Rightarrow> world \<Rightarrow> bool" where
  "stops m w \<longleftrightarrow> m w \<noteq> None"

lemma after_mono: "after m w Q \<Longrightarrow> (\<And>r w'. Q r w' \<Longrightarrow> Q' r w') \<Longrightarrow> after m w Q'"
  by (simp add: after_def)

lemma after_return [simp]: "after (step_return r) w Q \<longleftrightarrow> Q r w"
  by (simp add: after_def step_return_def)

lemma after_bind [simp]:
  "after (step_bind m f) w Q \<longleftrightarrow> after m w (\<lambda>r w'. case r of Inl e \<Rightarrow> Q (Inl e) w' | Inr x \<Rightarrow> after (f x) w' Q)"
  by (auto simp: after_def step_bind_def split: option.splits sum.splits prod.splits)

lemma after_effects [simp]:
  "after (print_line line) w Q \<longleftrightarrow> Q (Inr ()) (w\<lparr>wo_lines := wo_lines w @ [line]\<rparr>)"
  "after (os_call su c) w Q \<longleftrightarrow> Q (su_call su c) (w\<lparr>wo_calls := wo_calls w @ [c]\<rparr>)"
  by (simp_all add: after_def print_line_def os_call_def)

lemma after_leaving [simp]:
  "after (leaving su c block) w Q \<longleftrightarrow>
    after block w (\<lambda>r w'. Q (rbind (su_call su c) (\<lambda>_. r)) (w'\<lparr>wo_calls := wo_calls w' @ [c]\<rparr>))"
  by (auto simp: after_def leaving_def split: option.splits)

lemma stops_simps [simp]:
  "stops (step_return r) w" "stops (print_line line) w" "stops (os_call su c) w"
  "stops (leaving su c block) w \<longleftrightarrow> stops block w"
  "stops (step_bind m f) w \<longleftrightarrow> stops m w \<and> after m w (\<lambda>r w'. case r of Inl e \<Rightarrow> True | Inr x \<Rightarrow> stops (f x) w')"
  by (auto simp: stops_def after_def step_return_def step_bind_def print_line_def os_call_def leaving_def
      split: option.splits sum.splits prod.splits)

text \<open>The rules for a first step that is a system call or a pure result.\<close>

definition logged :: "os_call \<Rightarrow> world \<Rightarrow> world" where
  "logged c w = w\<lparr>wo_calls := wo_calls w @ [c]\<rparr>"

lemma logged_simps [simp]: "wo_files (logged c w) = wo_files w" "wo_calls (logged c w) = wo_calls w @ [c]"
  by (simp_all add: logged_def)

lemma after_call_bind:
  assumes "\<And>e. su_call su c = Inl e \<Longrightarrow> Q (Inl e) (logged c w)" and "after (f ()) (logged c w) Q"
  shows "after (step_bind (os_call su c) f) w Q"
  using assms by (simp add: logged_def split: sum.split)

lemma after_return_bind:
  assumes "\<And>e. r = Inl e \<Longrightarrow> Q (Inl e) w" and "\<And>x. r = Inr x \<Longrightarrow> after (f x) w Q"
  shows "after (step_bind (step_return r) f) w Q"
  using assms by (simp split: sum.split)

lemma after_leavingI:
  assumes "after block w Q" and "\<And>r w'. Q r w' \<Longrightarrow> Q (rbind (su_call su c) (\<lambda>_. r)) (logged c w')"
  shows "after (leaving su c block) w Q"
  using assms(1) by (simp, rule after_mono) (use assms(2) in \<open>simp add: logged_def\<close>)

text \<open>What is kept by the set-up, whatever is run inside.\<close>

definition same_files :: "world \<Rightarrow> world \<Rightarrow> bool" where
  "same_files w w' \<longleftrightarrow> wo_files w' = wo_files w"

lemma with_directory_stops:
  assumes "\<And>request w'. same_files w w' \<Longrightarrow> socket_timeout (ca_timeout arguments) = Inr (lq_timeout request) \<Longrightarrow>
    stops (serve request) w'"
  shows "stops (with_directory su arguments target agent_path serve) w"
  using assms by (auto simp: with_directory_def with_listener_def same_files_def Let_def make_request_def split: sum.splits)

lemma with_directory_after:
  assumes "\<And>request w'. same_files w w' \<Longrightarrow> socket_timeout (ca_timeout arguments) = Inr (lq_timeout request) \<Longrightarrow>
      after (serve request) w' Q"
    and "\<And>e w'. same_files w w' \<Longrightarrow> Q (Inl e) w'"
    and "\<And>c r w'. Q r w' \<Longrightarrow> Q (rbind (su_call su c) (\<lambda>_. r)) (logged c w')"
  shows "after (with_directory su arguments target agent_path serve) w Q"
  unfolding with_directory_def with_listener_def Let_def
  by (rule after_return_bind after_call_bind after_leavingI assms(1,2) | erule assms(3) | simp add: same_files_def make_request_def)+

definition asks_for :: "surroundings \<Rightarrow> cli_arguments \<Rightarrow> target \<Rightarrow> pystr \<Rightarrow> pystr \<Rightarrow> load_request \<Rightarrow> bool" where
  "asks_for su arguments target agent_path host_temp request \<longleftrightarrow>
     (\<exists>timeout. request = make_request su arguments target agent_path host_temp timeout)"

text \<open>Where an error of the set-up, or of what is run inside, comes from.\<close>

lemma with_directory_error:
  assumes "\<And>host_temp request w'. same_files w w' \<Longrightarrow> asks_for su arguments target agent_path host_temp request \<Longrightarrow>
      su_mkdtemp su (target_root target @ lit ''/tmp'') = Inr host_temp \<Longrightarrow>
      after (serve request) w' (\<lambda>r _. \<forall>e. r = Inl e \<longrightarrow> P e)"
    and "\<And>e. su_mkdtemp su (target_root target @ lit ''/tmp'') = Inl e \<or> fs_owner (su_system su) target = Inl e \<or>
      socket_timeout (ca_timeout arguments) = Inl e \<or> (\<exists>c. su_call su c = Inl e) \<Longrightarrow> P e"
  shows "after (with_directory su arguments target agent_path serve) w (\<lambda>r _. \<forall>e. r = Inl e \<longrightarrow> P e)"
proof -
  let ?Q = "\<lambda>r (_ :: world). \<forall>e. r = Inl e \<longrightarrow> P e"
  have late: "?Q (rbind (su_call su c) (\<lambda>_. r)) w'" if "?Q r w" for c r w w'
    using that assms(2) by (cases "su_call su c") auto
  show ?thesis
    unfolding with_directory_def with_listener_def Let_def
    by (rule after_return_bind after_call_bind after_leavingI | erule late | rule assms(1) | assumption
        | simp add: asks_for_def same_files_def | blast intro: assms(2))+
qed

text \<open>
  The calls that are logged, when what is run inside logs nothing but the end of the connection: the
  loader's thread is not started, or it is started at the end of these calls.
\<close>

definition listener_calls :: "pystr \<Rightarrow> int \<times> int \<Rightarrow> os_call list" where
  "listener_calls host_temp owner =
     [Bind (socket_host_path host_temp), Chown (socket_host_path host_temp) owner, Listen]"

definition directory_calls :: "pystr \<Rightarrow> int \<times> int \<Rightarrow> os_call list" where
  "directory_calls host_temp owner = [Chown host_temp owner, Chmod host_temp 448]"

definition loads_nothing :: "os_call list \<Rightarrow> bool" where
  "loads_nothing calls \<longleftrightarrow> (\<forall>request. Start_thread request \<notin> set calls)"

definition loads_last :: "(load_request \<Rightarrow> bool) \<Rightarrow> os_call list \<Rightarrow> os_call list \<Rightarrow> bool" where
  "loads_last good setup calls \<longleftrightarrow> loads_nothing calls \<or>
     (\<exists>request served. good request \<and> served \<in> {[], [Close_connection]} \<and> calls = setup @ Start_thread request # served)"

lemma loads_nothing_simps [simp]:
  "loads_nothing []" "loads_nothing (c # cs) \<longleftrightarrow> loads_nothing cs \<and> (\<forall>request. c \<noteq> Start_thread request)"
  "loads_nothing (cs @ ds) \<longleftrightarrow> loads_nothing cs \<and> loads_nothing ds"
  by (auto simp: loads_nothing_def)

definition closes :: "(load_request \<Rightarrow> 'a step) \<Rightarrow> bool" where
  "closes serve \<longleftrightarrow>
     (\<forall>request w. after (serve request) w (\<lambda>r w'. wo_calls w' \<in> {wo_calls w, wo_calls w @ [Close_connection]}))"

lemma with_listener_calls:
  assumes "closes serve"
  shows "after (with_listener su arguments target agent_path owner host_temp serve) w (\<lambda>r w'.
    \<exists>calls. wo_calls w' = wo_calls w @ calls @ [Close_listener] \<and>
      loads_last (asks_for su arguments target agent_path host_temp) (listener_calls host_temp owner) calls)"
proof -
  let ?Q = "\<lambda>r w'. \<exists>calls. wo_calls w' = wo_calls w @ calls \<and>
      loads_last (asks_for su arguments target agent_path host_temp) (listener_calls host_temp owner) calls"
  have served: "after (serve request) w' ?Q"
    if "wo_calls w' = wo_calls w @ listener_calls host_temp owner @ [Start_thread request]"
      "asks_for su arguments target agent_path host_temp request" for request w'
  proof -
    from assms have "after (serve request) w' (\<lambda>r w2. wo_calls w2 \<in> {wo_calls w', wo_calls w' @ [Close_connection]})"
      by (simp add: closes_def)
    then show ?thesis by (rule after_mono) (use that in \<open>auto simp: loads_last_def\<close>)
  qed
  have closing: "after (leaving su Close_listener block) w (\<lambda>r w'. \<exists>calls.
      wo_calls w' = wo_calls w @ calls @ [Close_listener] \<and>
      loads_last (asks_for su arguments target agent_path host_temp) (listener_calls host_temp owner) calls)"
    if "after block w ?Q" for block
    by simp (rule after_mono [OF that], force)
  show ?thesis
    unfolding with_listener_def Let_def
    apply (rule closing)
    apply (rule after_call_bind, simp add: loads_last_def)+
    apply (rule after_return_bind, simp add: loads_last_def)
    apply (rule after_call_bind, force simp: loads_last_def listener_calls_def asks_for_def)
    apply (rule served, simp add: listener_calls_def, force simp: asks_for_def)
    done
qed

text \<open>The calls of a run: its clean-up comes last, and the loader's thread starts when all is ready.\<close>

definition tidy :: "surroundings \<Rightarrow> cli_arguments \<Rightarrow> target \<Rightarrow> pystr \<Rightarrow> os_call list \<Rightarrow> bool" where
  "tidy su arguments target agent_path calls \<longleftrightarrow> calls = [] \<or>
     (\<exists>host_temp front. su_mkdtemp su (target_root target @ lit ''/tmp'') = Inr host_temp \<and>
        calls = front @ [Remove_directory host_temp] \<and>
        (loads_nothing front \<or>
         (\<exists>owner request served. fs_owner (su_system su) target = Inr owner \<and>
            asks_for su arguments target agent_path host_temp request \<and> served \<in> {[], [Close_connection]} \<and>
            front = directory_calls host_temp owner @ listener_calls host_temp owner @ Start_thread request # served @
              [Close_listener])))"

lemma with_directory_calls:
  assumes "closes serve" and "wo_calls w = []"
  shows "after (with_directory su arguments target agent_path serve) w
    (\<lambda>r w'. tidy su arguments target agent_path (wo_calls w'))"
proof -
  let ?Q = "\<lambda>host_temp r w'. tidy su arguments target agent_path (wo_calls w' @ [Remove_directory host_temp])"
  have listened: "after (with_listener su arguments target agent_path owner host_temp serve) w' (?Q host_temp)"
    if "wo_calls w' = directory_calls host_temp owner" and "fs_owner (su_system su) target = Inr owner"
      and "su_mkdtemp su (target_root target @ lit ''/tmp'') = Inr host_temp" for w' owner host_temp
    by (rule after_mono [OF with_listener_calls [OF assms(1)]])
      (use that in \<open>force simp: tidy_def loads_last_def directory_calls_def\<close>)
  have removing: "after (leaving su (Remove_directory host_temp) block) w (\<lambda>r w'. tidy su arguments target agent_path (wo_calls w'))"
    if "after block w (?Q host_temp)" for block host_temp
    by simp (rule that)
  show ?thesis
    unfolding with_directory_def
    apply (rule after_return_bind, simp add: tidy_def assms(2))
    apply (rule removing)
    apply (rule after_return_bind, simp add: tidy_def assms(2))
    apply (rule after_call_bind, simp add: tidy_def assms(2))+
    apply (rule listened, simp_all add: directory_calls_def assms(2))
    done
qed

end
