(* ===== verification/Profile.thy ===== *)
theory Profile
  imports Launch
begin

text \<open>
  What \<^verbatim>\<open>run\<close> prints after a capture: the saved file and, by \<^verbatim>\<open>_print_stats\<close> of
  \<^verbatim>\<open>capture/collector/src/pydump/cli.py\<close>, the profile. The measured times are parameters.
\<close>

definition seconds :: "json_float \<Rightarrow> pystr" where
  "seconds v = fixed_text False 2 v @ lit ''s''"

definition per :: "int \<Rightarrow> rat \<Rightarrow> json_float" where
  "per n elapsed = (if elapsed = 0 then FFinite 0 else float_quotient (round_binary64 (of_int n)) elapsed)"

definition mebibytes :: "int \<Rightarrow> json_float" where
  "mebibytes n = round_binary64 (of_int n / 2 ^ 20)"

definition object_rate :: "capture_stats \<Rightarrow> measured \<Rightarrow> json_float" where
  "object_rate stats me = per (object_count stats) (me_objects me)"

definition wire_rate :: "capture_stats \<Rightarrow> measured \<Rightarrow> json_float" where
  "wire_rate stats me = float_quotient (per (wire_received_bytes stats) (me_pause me)) (2 ^ 20)"

text \<open>\<^verbatim>\<open>_max_rss_bytes\<close>: the system counts in bytes or in units of 1024 bytes.\<close>

definition max_rss_bytes :: "pystr \<Rightarrow> int \<Rightarrow> int" where
  "max_rss_bytes platform peak = (if platform = lit ''darwin'' then peak else peak * 1024)"

definition stats_lines :: "pystr \<Rightarrow> capture_stats \<Rightarrow> measured \<Rightarrow> json_float \<Rightarrow> pystr list" where
  "stats_lines platform stats me attach_seconds =
     [lit ''Capture profile: attach='' @ seconds attach_seconds @ lit '', hello-wait='' @ seconds (FFinite (me_hello_wait me)) @
        lit '', setup='' @ seconds (FFinite (me_setup me)) @ lit '', roots='' @ seconds (FFinite (me_roots me)) @
        lit '', objects='' @ seconds (FFinite (me_objects me)) @ lit '', target-pause'' @ [8776] @ seconds (FFinite (me_pause me)) @
        lit '', finalize='' @ seconds (FFinite (me_finalize me)),
      lit ''Capture throughput: '' @ fixed_text True 0 (object_rate stats me) @ lit '' objects/s, '' @
        fixed_text False 1 (wire_rate stats me) @ lit '' MiB/s wire, '' @
        grouped_text (referent_count stats) @ lit '' referents, '' @
        grouped_text (wire_received_frames stats) @ lit '' received frames, '' @
        grouped_text (wire_sent_frames stats) @ lit '' sent frames, '' @ grouped_text (bulk_records stats) @
        lit '' bulk records'',
      lit ''Collector peaks: pending='' @ grouped_text (pending_peak stats) @ lit '', scheduled='' @
        grouped_text (scheduled_peak stats) @ lit '', max-rss='' @ 
        fixed_text False 1 (mebibytes (max_rss_bytes platform (me_ru_maxrss me))) @
        lit '' MiB, artifact='' @ fixed_text False 1 (mebibytes (artifact_size stats)) @ lit '' MiB'']"

definition saved_line :: "path \<Rightarrow> int \<Rightarrow> json_float \<Rightarrow> pystr" where
  "saved_line path count elapsed =
     lit ''Heap file saved: '' @ path_line path @ lit '' ('' @ decimal_text count @ lit '' objects, '' @ seconds elapsed @ lit '')''"

definition final_lines :: "surroundings \<Rightarrow> path \<Rightarrow> int \<Rightarrow> capture_stats \<Rightarrow> pystr list" where
  "final_lines su path count stats =
     (let me = su_measured su in
      [[], saved_line path count (round_binary64 (me_saved me - me_connected me))] @
      stats_lines (hs_platform (su_host su)) stats me (round_binary64 (me_connected me - su_started su)))"

text \<open>The callback \<^verbatim>\<open>progress\<close>; the text ends with a carriage return in place of a line end.\<close>

definition progress_text :: "int \<Rightarrow> int \<Rightarrow> json_float \<Rightarrow> pystr" where
  "progress_text done remain elapsed =
     fixed_text False 2 elapsed @ lit '' seconds passed, '' @ decimal_text done @ lit '' objects done, '' @
     decimal_text remain @ lit '' remain (more may be added)'' @ [13]"

definition progress_lines :: "surroundings \<Rightarrow> (int \<times> int) list \<Rightarrow> pystr list" where
  "progress_lines su reports =
     map2 (\<lambda>i (done, remain). progress_text done remain (FFinite (me_progress (su_measured su) i)))
       [0..<length reports] reports"

section \<open>Laws\<close>

lemma grouped_text_digits: "filter (\<lambda>c. c \<noteq> 44) (grouped_text v) = decimal_text v"
proof -
  have "44 \<notin> set (decimal_digits (nat \<bar>v\<bar>))"
    using decimal_digits_ascii [of "nat \<bar>v\<bar>"] by (auto simp: list_all_iff is_ascii_digit_def)
  then show ?thesis by (simp add: grouped_text_def ungroup decimal_text_def lit_def)
qed

end
