(* ===== verification/Waiting.thy ===== *)
theory Waiting
  imports Profile
begin

text \<open>
  The wait for the agent's connection in \<^verbatim>\<open>run\<close> of \<^verbatim>\<open>capture/collector/src/pydump/cli.py\<close>,
  and which bundled agent suits a target.
\<close>

section \<open>Waiting for the agent\<close>

definition LOADER_POLL_SECONDS :: rat where
  "LOADER_POLL_SECONDS = 1 / 10"

definition poll_timeout :: "rat \<Rightarrow> poll \<Rightarrow> rat" where
  "poll_timeout deadline p = min LOADER_POLL_SECONDS (deadline - po_now p)"

text \<open>\<open>failure\<close> is the error with which the loader's thread ends, if any.\<close>

partial_function (option) accept_loop ::
  "int \<Rightarrow> pystr \<Rightarrow> rat \<Rightarrow> (nat \<Rightarrow> poll) \<Rightarrow> exn option \<Rightarrow> nat \<Rightarrow> unit res option" where
  "accept_loop host_pid timeout_text deadline polls failure i =
     (if deadline - po_now (polls i) \<le> 0 then
        Some (case failure of
          Some e \<Rightarrow> Inl e
        | None \<Rightarrow> raise PydumpError ''agent for PID {host_pid} did not connect within {timeout:g}s''
            [AInt host_pid, AStr timeout_text])
      else if po_accepted (polls i) then Some (Inr ())
      else
        (case (if po_ended (polls i) then failure else None) of
           Some e \<Rightarrow> Some (Inl e)
         | None \<Rightarrow> accept_loop host_pid timeout_text deadline polls failure (Suc i)))"

section \<open>Laws\<close>

text \<open>The clock moves on by at least the timeout of a round that ends without a connection.\<close>

definition steady :: "rat \<Rightarrow> (nat \<Rightarrow> poll) \<Rightarrow> bool" where
  "steady deadline polls \<longleftrightarrow>
     (\<forall>i. \<not> po_accepted (polls i) \<longrightarrow> po_now (polls i) + poll_timeout deadline (polls i) \<le> po_now (polls (Suc i)))"

text \<open>A round that ends the wait neither way.\<close>

definition idle :: "rat \<Rightarrow> exn option \<Rightarrow> poll \<Rightarrow> bool" where
  "idle deadline failure p \<longleftrightarrow> po_now p < deadline \<and> \<not> po_accepted p \<and> (failure = None \<or> \<not> po_ended p)"

text \<open>The rounds before the \<open>n\<close>-th have timed out without an error, in time.\<close>

definition waited :: "rat \<Rightarrow> (nat \<Rightarrow> poll) \<Rightarrow> exn option \<Rightarrow> nat \<Rightarrow> bool" where
  "waited deadline polls failure n \<longleftrightarrow>
     (\<forall>i < n. idle deadline failure (polls i))"

lemma accept_loop_waited:
  "(\<forall>i. k \<le> i \<and> i < k + n \<longrightarrow> idle deadline failure (polls i)) \<Longrightarrow>
   accept_loop host_pid timeout_text deadline polls failure k = accept_loop host_pid timeout_text deadline polls failure (k + n)"
proof (induction n arbitrary: k)
  case (Suc n)
  have "accept_loop host_pid timeout_text deadline polls failure k = accept_loop host_pid timeout_text deadline polls failure (Suc k)"
  proof -
    from Suc.prems have "idle deadline failure (polls k)" by simp
    then show ?thesis by (subst accept_loop.simps) (auto simp: idle_def split: option.split)
  qed
  also have "\<dots> = accept_loop host_pid timeout_text deadline polls failure (Suc k + n)"
    by (rule Suc.IH) (use Suc.prems in auto)
  finally show ?case by simp
qed simp

text \<open>Some round ends the wait.\<close>

lemma wait_ends:
  assumes "steady deadline polls"
  shows "\<exists>n. waited deadline polls failure n \<and>
    (deadline \<le> po_now (polls n) \<or> po_accepted (polls n) \<or> po_ended (polls n) \<and> failure \<noteq> None)"
proof (rule ccontr)
  assume "\<not> ?thesis"
  then have more: "waited deadline polls failure n \<Longrightarrow> idle deadline failure (polls n)"
    for n by (auto simp: idle_def not_le)
  have all: "waited deadline polls failure n" for n
  proof (induction n)
    case 0
    show ?case by (simp add: waited_def)
  next
    case (Suc n)
    with more [OF Suc] show ?case by (auto simp: waited_def less_Suc_eq)
  qed
  have step: "po_now (polls n) + LOADER_POLL_SECONDS \<le> po_now (polls (Suc n))" for n
  proof -
    from more [OF all] have late: "po_now (polls (Suc n)) < deadline" "\<not> po_accepted (polls n)" by (simp_all add: idle_def)
    with assms have "po_now (polls n) + poll_timeout deadline (polls n) \<le> po_now (polls (Suc n))"
      by (simp add: steady_def)
    with late(1) show ?thesis by (simp add: poll_timeout_def min_def split: if_splits)
  qed
  have far: "po_now (polls 0) + of_nat n * LOADER_POLL_SECONDS \<le> po_now (polls n)" for n
  proof (induction n)
    case (Suc n)
    with step [of n] show ?case by (simp add: algebra_simps)
  qed simp
  obtain n :: nat where "(deadline - po_now (polls 0)) / LOADER_POLL_SECONDS < of_nat n"
    using reals_Archimedean2 by (rule exE)
  then have "deadline < po_now (polls 0) + of_nat n * LOADER_POLL_SECONDS"
    by (simp add: LOADER_POLL_SECONDS_def field_simps)
  with far [of n] more [OF all, of n] show False by (simp add: idle_def)
qed

lemma accept_loop_ends:
  assumes "steady deadline polls"
  shows "\<exists>n. waited deadline polls failure n \<and> accept_loop host_pid timeout_text deadline polls failure 0 =
    Some (if deadline \<le> po_now (polls n) then
            (case failure of
               Some e \<Rightarrow> Inl e
             | None \<Rightarrow> Inl (Exn PydumpError ''agent for PID {host_pid} did not connect within {timeout:g}s''
                 [AInt host_pid, AStr timeout_text]))
          else if po_accepted (polls n) then Inr () else Inl (the failure))"
proof -
  obtain n where n: "waited deadline polls failure n"
    "deadline \<le> po_now (polls n) \<or> po_accepted (polls n) \<or> po_ended (polls n) \<and> failure \<noteq> None"
    using wait_ends [OF assms] by blast
  have "accept_loop host_pid timeout_text deadline polls failure 0 = accept_loop host_pid timeout_text deadline polls failure (0 + n)"
    by (rule accept_loop_waited) (use n(1) in \<open>auto simp: waited_def\<close>)
  with n show ?thesis
    by (intro exI [of _ n]) (auto simp: accept_loop.simps [of host_pid timeout_text deadline polls failure n] raise_def
        split: option.splits)
qed

lemma accept_loop_error:
  assumes "accept_loop host_pid timeout_text deadline polls failure i = Some (Inl e)"
  shows "failure = Some e \<or>
    e = Exn PydumpError ''agent for PID {host_pid} did not connect within {timeout:g}s'' [AInt host_pid, AStr timeout_text]"
proof -
  let ?P = "\<lambda>host_pid timeout_text (deadline :: rat) (polls :: nat \<Rightarrow> poll) failure (i :: nat) (r :: unit res). \<forall>e. r = Inl e \<longrightarrow> failure = Some e \<or>
    e = Exn PydumpError ''agent for PID {host_pid} did not connect within {timeout:g}s'' [AInt host_pid, AStr timeout_text]"
  have "?P host_pid timeout_text deadline polls failure i (Inl e)"
    by (rule accept_loop.raw_induct [of ?P, OF _ assms]) (fastforce simp: raise_def split: if_splits option.splits)
  then show ?thesis by simp
qed

text \<open>The one \<open>g\<close> in the name of a bundled agent fixes where the name can be recognised.\<close>

lemma split_once:
  assumes "u @ c # v = u' @ c # v'" and "c \<notin> set u'" and "c \<notin> set v'"
  shows "u = u' \<and> v = v'"
  using assms
proof (induction u arbitrary: u')
  case Nil
  then show ?case by (cases u') auto
next
  case (Cons d u)
  then show ?case by (cases u') auto
qed

lemma digits_prefix:
  assumes "list_all is_ascii_digit d" and "list_all is_ascii_digit d'" and "d @ 45 # v = d' @ 45 # v'"
  shows "d = d'"
  using assms
proof (induction d arbitrary: d')
  case Nil
  then show ?case by (cases d') (auto simp: is_ascii_digit_def)
next
  case (Cons c d)
  then show ?case by (cases d') (auto simp: is_ascii_digit_def)
qed

lemma agent_name_recognised:
  assumes "103 \<notin> set machine" and "0 \<le> m" and "0 \<le> k"
  shows "contains (lit ''agent-'' @ version_text (3, k) @ lit ''-'') (agent_name (3, m) machine) \<longleftrightarrow> m = k"
proof -
  let ?dm = "decimal_digits (nat m)" and ?dk = "decimal_digits (nat k)"
  have version: "version_text (3, v) = [51, 46] @ decimal_digits (nat v)" if "0 \<le> v" for v
    using that by (simp add: version_text_def decimal_text_def lit_def decimal_digits.simps)
  have name: "agent_name (3, m) machine = lit ''pydump-a'' @ 103 # lit ''ent-3.'' @ ?dm @ 45 # machine @ lit ''.so''"
    using assms(2) by (simp add: agent_name_def version lit_def)
  have part: "lit ''agent-'' @ version_text (3, k) @ lit ''-'' = [97] @ 103 # lit ''ent-3.'' @ ?dk @ [45]"
    using assms(3) by (simp add: version lit_def)
  have no_g: "103 \<notin> set (decimal_digits n)" for n
    using decimal_digits_ascii [of n] by (auto simp: list_all_iff is_ascii_digit_def)
  show ?thesis
  proof
    assume "contains (lit ''agent-'' @ version_text (3, k) @ lit ''-'') (agent_name (3, m) machine)"
    then obtain u v where "lit ''pydump-a'' @ 103 # lit ''ent-3.'' @ ?dm @ 45 # machine @ lit ''.so'' =
        u @ ([97] @ 103 # lit ''ent-3.'' @ ?dk @ [45]) @ v"
      unfolding contains_iff name part by blast
    then have "(u @ [97]) @ 103 # (lit ''ent-3.'' @ ?dk @ 45 # v) =
        lit ''pydump-a'' @ 103 # (lit ''ent-3.'' @ ?dm @ 45 # machine @ lit ''.so'')" by simp
    moreover have "103 \<notin> set (lit ''pydump-a'')" "103 \<notin> set (lit ''ent-3.'' @ ?dm @ 45 # machine @ lit ''.so'')"
      using assms(1) no_g by (simp_all add: lit_def)
    ultimately have "lit ''ent-3.'' @ ?dk @ 45 # v = lit ''ent-3.'' @ ?dm @ 45 # machine @ lit ''.so''"
      using split_once by metis
    then have "?dk @ 45 # v = ?dm @ 45 # machine @ lit ''.so''" by simp
    then have "?dk = ?dm" by (rule digits_prefix [OF decimal_digits_ascii decimal_digits_ascii])
    with assms(2,3) show "m = k" by simp
  next
    assume "m = k"
    then have "agent_name (3, m) machine = lit ''pydump-'' @ (lit ''agent-'' @ version_text (3, k) @ lit ''-'') @ (machine @ lit ''.so'')"
      by (simp add: agent_name_def lit_def)
    then show "contains (lit ''agent-'' @ version_text (3, k) @ lit ''-'') (agent_name (3, m) machine)"
      unfolding contains_iff by blast
  qed
qed

section \<open>Properties\<close>

text \<open>
  C38: The wait for the agent ends, on a clock that moves on: with the connection if one arrives
  before the deadline and before the loader fails; with the loader's error if that comes first;
  and at the deadline with the loader's error or the report that no agent has connected.
\<close>

theorem accept_loop_returns:
  assumes "steady deadline polls"
  shows "\<exists>n. waited deadline polls failure n \<and> accept_loop host_pid timeout_text deadline polls failure 0 =
    Some (if deadline \<le> po_now (polls n) then
            (case failure of
               Some e \<Rightarrow> Inl e
             | None \<Rightarrow> Inl (Exn PydumpError ''agent for PID {host_pid} did not connect within {timeout:g}s''
                 [AInt host_pid, AStr timeout_text]))
          else if po_accepted (polls n) then Inr () else Inl (the failure))"
  by (rule accept_loop_ends [OF assms])

text \<open>
  An agent in the package is accepted for the target's version and for no other: the name of
  the bundled agent of version 3.m passes the check for version 3.k exactly when m is k, for every
  machine name without the letter g, such as the two supported ones.
\<close>

theorem bundled_agent_verified:
  assumes "103 \<notin> set machine" and "47 \<notin> set machine" and "0 \<le> m" and "tg_python_minor target = (3, k)" and "0 \<le> k"
    and "bundled_agent exists (dir @ lit ''/'') machine (3, m) = Inr agent"
  shows "verify_agent (\<lambda>_. True) 8 agent target = Inr () \<longleftrightarrow> m = k"
proof -
  let ?name = "agent_name (3, m) machine"
  have "47 \<notin> set (decimal_digits n)" for n
    using decimal_digits_ascii [of n] by (auto simp: list_all_iff is_ascii_digit_def)
  then have "47 \<notin> set (version_text (3, m))"
    using assms(3) by (simp add: version_text_def decimal_text_def lit_def)
  then have "47 \<notin> set ?name" using assms(2) by (simp add: agent_name_def lit_def)
  moreover have "?name \<noteq> []" "?name \<noteq> lit ''.''" by (simp_all add: agent_name_def lit_def)
  moreover have "agent = dir @ 47 # ?name"
    using assms(6) by (simp add: bundled_agent_def Let_def lit_def split: if_splits)
  ultimately have "path_name agent = ?name" by (simp add: path_name_plain)
  with agent_name_recognised [OF assms(1,3,5)] show ?thesis
    by (simp add: verify_agent_def Let_def assms(4) raise_def)
qed

section \<open>Examples\<close>

text \<open>A connection in the second round, with a clock that ticks every tenth of a second.\<close>

definition demo_polls :: "nat \<Rightarrow> poll" where
  "demo_polls i = \<lparr>po_now = of_nat i / 10, po_accepted = (1 \<le> i), po_ended = False\<rparr>"

lemma demo_steady: "steady 30 demo_polls"
  by (auto simp: steady_def demo_polls_def poll_timeout_def LOADER_POLL_SECONDS_def)

theorem accept_loop_returns_witness:
  "accept_loop 42 [] 30 demo_polls None 0 = Some (Inr ())"
proof -
  from accept_loop_returns [OF demo_steady, of None 42 "[]"] obtain n where
    n: "waited 30 demo_polls None n" and run: "accept_loop 42 [] 30 demo_polls None 0 =
      Some (if 30 \<le> po_now (demo_polls n) then
              (case (None :: exn option) of
                 Some e \<Rightarrow> Inl e
               | None \<Rightarrow> Inl (Exn PydumpError ''agent for PID {host_pid} did not connect within {timeout:g}s''
                   [AInt 42, AStr []]))
            else if po_accepted (demo_polls n) then Inr () else Inl (the None))" by blast
  have "n \<le> 1"
  proof (rule ccontr)
    assume "\<not> n \<le> 1"
    with n have "\<not> po_accepted (demo_polls 1)" by (simp add: waited_def idle_def)
    then show False by (simp add: demo_polls_def)
  qed
  then consider "n = 0" | "n = 1" by linarith
  then show ?thesis
  proof cases
    case 1
    have "accept_loop 42 [] 30 demo_polls None 0 = accept_loop 42 [] 30 demo_polls None 1"
      by (subst accept_loop.simps) (simp add: demo_polls_def)
    also have "\<dots> = Some (Inr ())" by (subst accept_loop.simps) (simp add: demo_polls_def)
    finally show ?thesis .
  next
    case 2
    with run show ?thesis by (simp add: demo_polls_def)
  qed
qed

theorem bundled_agent_verified_witness:
  "\<exists>agent. bundled_agent (\<lambda>_. True) (lit ''agents'' @ lit ''/'') (lit ''x86_64'') (3, 12) = Inr agent \<and>
    verify_agent (\<lambda>_. True) 8 agent (lq_target demo_request) = Inr ()"
proof -
  have target: "tg_python_minor (lq_target demo_request) = (3, 12)" by (simp add: demo_request_def)
  have machine: "103 \<notin> set (lit ''x86_64'')" "47 \<notin> set (lit ''x86_64'')" by (simp_all add: lit_def)
  obtain agent where agent: "bundled_agent (\<lambda>_. True) (lit ''agents'' @ lit ''/'') (lit ''x86_64'') (3, 12) = Inr agent"
    by (simp add: bundled_agent_def Let_def)
  from bundled_agent_verified [OF machine _ target _ agent] agent show ?thesis by simp
qed

end
