(* ===== verification/Raised.thy ===== *)
theory Raised
  imports Delivery
begin

text \<open>
  The classes of the exceptions that leave the capture: a calculus over the operations of
  Protocol, Heap_Writer and Collector, up to the method \<open>capture\<close>. What \<^verbatim>\<open>main\<close> in
  \<^verbatim>\<open>cli.py\<close> makes of them is in Command.
\<close>

section \<open>Calculus\<close>

definition throws :: "exn_class set \<Rightarrow> ('s, 'a) py \<Rightarrow> bool" where
  "throws cs m \<longleftrightarrow> (\<forall>s. only_raises cs (fst (m s)))"

named_theorems throws_rules

lemma throwsD: "throws cs m \<Longrightarrow> m s = (Inl e, s') \<Longrightarrow> exn_class_of e \<in> cs"
  unfolding throws_def by (metis fst_conv only_raises_simps(2))

lemma throws_simps [simp]:
  "throws cs (mret x)" "throws cs (mraise c t as) \<longleftrightarrow> c \<in> cs" "throws cs (mlift r) \<longleftrightarrow> only_raises cs r"
  "throws cs (mget f)" "throws cs (mmodify g)" "throws cs (on_file h)" "throws cs (sendall wire)"
  by (simp_all add: throws_def atomic_run on_file_def sendall_def)

lemma throws_run: "throws cs m \<Longrightarrow> only_raises cs (fst (m s))"
  by (simp add: throws_def)

lemma throws_bind [throws_rules]:
  assumes "throws cs m" and "\<And>x. throws cs (f x)"
  shows "throws cs (mbind m f)"
proof -
  have "only_raises cs (fst (mbind m f s))" for s
    using throws_run [OF assms(1), of s] throws_run [OF assms(2)] by (auto simp: mbind_def split: prod.split sum.split)
  then show ?thesis by (simp add: throws_def)
qed

lemma throws_seq [throws_rules]: "throws cs m \<Longrightarrow> throws cs k \<Longrightarrow> throws cs (mseq m k)"
  by (simp add: mseq_def throws_bind)

lemma throws_mfor [throws_rules]: "(\<And>x. x \<in> set xs \<Longrightarrow> throws cs (f x)) \<Longrightarrow> throws cs (mfor f xs)"
  by (induction xs) (simp_all add: throws_seq)

lemma throws_on [throws_rules]:
  "throws cs m \<Longrightarrow> throws cs (on_sock m)" "throws cs c \<Longrightarrow> throws cs (on_channel c)" "throws cs w \<Longrightarrow> throws cs (on_writer w)"
  by (simp_all add: throws_def on_sock_def on_channel_def on_writer_def split: prod.splits) (metis fst_conv)+

lemma throws_if [throws_rules]: "(b \<Longrightarrow> throws cs m) \<Longrightarrow> (\<not> b \<Longrightarrow> throws cs k) \<Longrightarrow> throws cs (if b then m else k)"
  by simp

lemma throws_Let [throws_rules]: "(\<And>y. throws cs (f y)) \<Longrightarrow> throws cs (Let x f)"
  by simp

lemma throws_option [throws_rules]:
  "throws cs m \<Longrightarrow> (\<And>y. throws cs (f y)) \<Longrightarrow> throws cs (case x of None \<Rightarrow> m | Some y \<Rightarrow> f y)"
  by (cases x) simp_all

lemma throws_list [throws_rules]:
  "throws cs m \<Longrightarrow> (\<And>y ys. throws cs (f y ys)) \<Longrightarrow> throws cs (case xs of [] \<Rightarrow> m | y # ys \<Rightarrow> f y ys)"
  by (cases xs) simp_all

lemma throws_prod [throws_rules]: "(\<And>y z. throws cs (f y z)) \<Longrightarrow> throws cs (case p of (y, z) \<Rightarrow> f y z)"
  by (cases p) simp

lemma throws_kind [throws_rules]:
  "throws cs a \<Longrightarrow> throws cs b \<Longrightarrow> throws cs c \<Longrightarrow> throws cs d \<Longrightarrow> throws cs e \<Longrightarrow>
   throws cs (case k of KIND_NONE \<Rightarrow> a | KIND_DICT \<Rightarrow> b | KIND_LIST \<Rightarrow> c | KIND_SET \<Rightarrow> d | KIND_TUPLE \<Rightarrow> e)"
  by (cases k) simp_all

section \<open>The session\<close>

text \<open>The errors of the program, the timeout of the connection, and a number that does not fit its field.\<close>

definition session_errors :: "exn_class set" where
  "session_errors = {PydumpError, ProtocolError, TimeoutError, StructError}"

lemma session_errors_simps [simp]:
  "PydumpError \<in> session_errors" "ProtocolError \<in> session_errors" "TimeoutError \<in> session_errors" "StructError \<in> session_errors"
  by (simp_all add: session_errors_def)

lemma pack_raises [simp]:
  "only_raises session_errors (pack_uint n v)" "only_raises session_errors (pack_sint n v)"
  by (simp_all add: pack_uint_def pack_sint_def)

lemma pack_fields_raises [simp]: "only_raises session_errors (pack_fields vs)"
  by (induction vs) (auto intro!: only_raises_rbind)

lemma decode_records_raises [simp]: "only_raises session_errors (decode_records payload offset records)"
proof (induction payload offset records rule: decode_records.induct)
  case (1 payload offset records)
  then show ?case by (subst decode_records.simps) (auto simp: Let_def split: option.splits)
qed

lemma codec_raises [simp]:
  "only_raises session_errors (decode_bulk_batch payload)" "only_raises session_errors (decode_hello payload)"
  "only_raises session_errors (encode_options opts)" "only_raises session_errors (encode_addresses as)"
  "only_raises session_errors (decode_addresses payload)" "only_raises session_errors (decode_dict_entries payload)"
  "only_raises session_errors (decode_object_begin payload)" "only_raises session_errors (check_hello cfg h)"
  by (auto simp: decode_bulk_batch_def decode_hello_def encode_options_def encode_addresses_def decode_addresses_def
      decode_dict_entries_def decode_object_begin_def check_hello_def Let_def intro!: only_raises_rbind)

lemma receive_loop_throws [simp]: "throws session_errors (receive_loop want chunks)"
proof -
  have "only_raises session_errors (fst (receive_loop want chunks s))" for s
  proof (induction want chunks s rule: receive_loop.induct)
    case (1 want chunks s)
    have "recv_into n s = (Inl e, s') \<Longrightarrow> exn_class_of e = TimeoutError" for n e s'
      by (auto simp: recv_into_def Let_def split: if_splits)
    with 1 show ?case
      by (subst receive_loop.simps) (auto simp: atomic_run split: prod.splits sum.splits list.splits)
  qed
  then show ?thesis by (simp add: throws_def)
qed

lemma receive_wire_frame_throws [simp]: "throws session_errors receive_wire_frame"
  unfolding receive_wire_frame_def receive_exact_def by (intro throws_rules | simp)+

lemma receive_throws [simp]: "throws session_errors receive"
proof -
  let ?expand = "\<lambda>frame. if fkind frame \<noteq> BULK_BATCH then mret frame
    else mbind (mlift (decode_bulk_batch (fpayload frame))) (\<lambda>records. case records of
        [] \<Rightarrow> mraise ProtocolError ''BULK_BATCH must contain at least one record'' []
      | first # rest \<Rightarrow> mseq (mmodify (\<lambda>s. s\<lparr>fs_stats := (fs_stats s)\<lparr>
          received_records := received_records (fs_stats s) + int (length records)\<rparr>, fs_pending := rest\<rparr>)) (mret first))"
  have "throws session_errors (mbind receive_wire_frame ?expand)"
    by (intro throws_rules | simp)+
  then have "only_raises session_errors (fst (receive s))" for s
    by (simp add: receive_def throws_def split: list.split)
  then show ?thesis by (simp add: throws_def)
qed

lemma send_throws [simp]: "throws session_errors (send kind payload)"
  unfolding send_def by (intro throws_rules | simp del: pack_fields.simps)+

lemma expect_throws [simp]: "throws session_errors (expect kind)"
  unfolding expect_def by (intro throws_rules | simp)+

lemma unexpected_throws [simp]: "throws session_errors (raise_unexpected frame stage)"
  by (simp add: raise_unexpected_def)

section \<open>The writer\<close>

lemma write_fields_throw [simp]:
  "throws session_errors (write_u32 v)" "throws session_errors (write_u64 v)"
  "throws session_errors (write_long_string t)" "throws session_errors (write_short_string t)"
  unfolding write_u32_def write_u64_def write_long_string_def write_short_string_def
  by (intro throws_rules | simp)+

lemma subscripts_raise [simp]:
  "m k \<noteq> None \<Longrightarrow> only_raises cs (subscript m k)"
  "(\<forall>k \<in> set ks. m k \<noteq> None) \<Longrightarrow> only_raises cs (rmap (subscript m) ks)"
proof -
  show one: "m k \<noteq> None \<Longrightarrow> only_raises cs (subscript m k)" for k by (auto simp: subscript_def)
  show "(\<forall>k \<in> set ks. m k \<noteq> None) \<Longrightarrow> only_raises cs (rmap (subscript m) ks)"
    by (induction ks) (auto intro!: only_raises_rbind one)
qed

lemma write_header_throws [simp]: "throws session_errors (write_header known created now)"
proof -
  have names: "throws session_errors (mfor (\<lambda>name. mseq (write_long_string name)
      (mbind (mlift (subscript (map_of known) name)) write_u64)) WELL_KNOWN_TYPE_NAMES)"
    if "filter (\<lambda>n. map_of known n = None) WELL_KNOWN_TYPE_NAMES = []"
  proof (rule throws_mfor)
    fix name assume "name \<in> set WELL_KNOWN_TYPE_NAMES"
    with that have "map_of known name \<noteq> None" by (simp only: filter_empty_conv) blast
    then have "only_raises cs (subscript (map_of known) name)" for cs by (rule subscripts_raise(1))
    then show "throws session_errors (mseq (write_long_string name)
        (mbind (mlift (subscript (map_of known) name)) write_u64))"
      by (intro throws_rules) simp_all
  qed
  show ?thesis
    unfolding write_header_def Let_def
    by (intro throws_if throws_seq throws_bind names | simp only: not_not throws_simps write_fields_throw session_errors_simps)+
qed

lemma write_artifact_throws [simp]:
  "throws session_errors (write_threads threads)" "throws session_errors begin_objects"
  "throws session_errors (finish types)" "throws session_errors (write_content obj)"
  unfolding write_threads_def begin_objects_def finish_def write_content_def
  by (intro throws_rules | simp)+

definition names_containers :: "(pystr, address) pydict \<Rightarrow> bool" where
  "names_containers known \<longleftrightarrow> (\<forall>k \<in> set container_type_names. map_of known k \<noteq> None)"

lemma write_object_throws: "names_containers known \<Longrightarrow> throws session_errors (write_object obj known)"
  unfolding write_object_def Let_def names_containers_def by (intro throws_rules | simp)+

section \<open>The Collector\<close>

lemma open_session_throws [simp]: "throws session_errors (open_session cfg now)"
  unfolding open_session_def by (intro throws_rules | simp)+

lemma root_loop_throws [simp]: "throws session_errors root_loop"
proof -
  have "only_raises session_errors (fst (root_loop s))" for s
  proof (induction s rule: root_loop.induct)
    case (1 s)
    have "only_raises session_errors (fst (raise_unexpected frame stage s'))" for frame stage and s' :: session
      by (rule throws_run) simp
    moreover have "only_raises session_errors (decode_addresses payload)" for payload by simp
    ultimately show ?case
      using 1 throwsD [OF throws_on(2) [OF receive_throws], of s]
      by (subst root_loop.simps) (auto simp: only_raises_def split: prod.splits sum.splits)
  qed
  then show ?thesis by (simp add: throws_def)
qed

lemma object_loop_throws [simp]: "throws session_errors (object_loop cfg a obj)"
proof -
  have "only_raises session_errors (fst (object_loop cfg a obj s))" for s
  proof (induction cfg a obj s rule: object_loop.induct)
    case (1 cfg a obj s)
    have unexpected: "only_raises session_errors (fst (raise_unexpected frame stage s'))" for frame stage and s' :: session
      by (rule throws_run) simp
    have decoded: "decode_addresses payload = Inl e \<Longrightarrow> exn_class_of e \<in> session_errors"
      "decode_dict_entries payload = Inl e \<Longrightarrow> exn_class_of e \<in> session_errors" for payload e
      using codec_raises(5,6) by (metis only_raises_simps(2))+
    show ?case
    proof (cases "on_channel receive s")
      case (Pair r s')
      show ?thesis
      proof (cases r)
        case (Inl e)
        with throwsD [OF throws_on(2) [OF receive_throws]] Pair show ?thesis by (subst object_loop.simps) simp
      next
        case (Inr frame)
        note step = 1 [OF Pair [symmetric] Inr]
        show ?thesis
          using Pair Inr step unexpected decoded
          by (subst object_loop.simps) (cases "fkind frame"; simp split: sum.split)
      qed
    qed
  qed
  then show ?thesis by (simp add: throws_def)
qed

lemma receive_object_throws [simp]: "throws session_errors (receive_object cfg a)"
  unfolding receive_object_def by (intro throws_rules | simp)+

lemma capture_object_throws: "names_containers known \<Longrightarrow> throws session_errors (capture_object it cfg known a)"
  unfolding capture_object_def by (intro throws_rules write_object_throws | simp)+

lemma capture_batch_throws: "names_containers known \<Longrightarrow> throws session_errors (capture_batch it cfg known)"
proof -
  assume known: "names_containers known"
  have "only_raises session_errors (fst (capture_batch it cfg known s))" for s
  proof (cases "take_batch cfg s")
    case (Pair batch s')
    have "throws session_errors (mbind (mlift (encode_addresses batch)) (\<lambda>payload.
        mseq (on_channel (send REQUEST_OBJECTS payload)) (
        mseq (mfor (capture_object it cfg known) batch) (
        mbind (expect BATCH_DONE) (\<lambda>_. report_progress cfg)))))"
      unfolding report_progress_def by (intro throws_rules capture_object_throws known | simp)+
    from throws_run [OF this, of s'] show ?thesis by (simp add: capture_batch_def Pair)
  qed
  then show ?thesis by (simp add: throws_def)
qed

lemma object_phase_throws:
  assumes "object_phase it cfg known s = Some (r, s')" and "names_containers known"
  shows "only_raises session_errors r"
proof -
  let ?P = "\<lambda>it cfg known s q. names_containers known \<longrightarrow> only_raises session_errors (fst q)"
  have "?P it cfg known s (r, s')"
  proof (rule object_phase.raw_induct [of ?P, OF _ assms(1)])
    fix phase it cfg known s q
    assume IH: "\<And>it cfg known s q. phase it cfg known s = Some q \<Longrightarrow> ?P it cfg known s q"
      and step: "(if ss_pending s = [] then Some (Inr (), s) else
        case capture_batch it cfg known s of
          (Inl e, s') \<Rightarrow> Some (Inl e, s') | (Inr _, s') \<Rightarrow> phase it cfg known s') = Some q"
    show "?P it cfg known s q"
      using step throws_run [OF capture_batch_throws, of known it cfg s] IH
      by (auto split: if_splits prod.splits sum.splits intro: throws_run capture_batch_throws)
  qed
  with assms(2) show ?thesis by simp
qed

lemma close_session_throws [simp]: "throws session_errors close_session"
  unfolding close_session_def by (intro throws_rules | simp)+

lemma known_containers: "length known = length WELL_KNOWN_TYPE_NAMES \<Longrightarrow> names_containers (known_types known)"
proof -
  assume len: "length known = length WELL_KNOWN_TYPE_NAMES"
  have "known_types known = zip WELL_KNOWN_TYPE_NAMES known"
    by (rule dict_of_distinct) (simp add: len distinct_names)
  moreover have "set container_type_names \<subseteq> set WELL_KNOWN_TYPE_NAMES"
    by (auto simp: container_type_names_def WELL_KNOWN_TYPE_NAMES_def)
  ultimately show ?thesis using len by (auto simp: names_containers_def map_of_zip_is_None)
qed

lemma enumerate_roots_throws [simp]: "throws session_errors (enumerate_roots known)"
  unfolding enumerate_roots_def by (intro throws_rules | simp)+

lemma capture_session_raises:
  assumes "capture_session it cfg now s = Some (r, s')"
  shows "only_raises session_errors r"
proof -
  let ?front = "mbind (open_session cfg now) (\<lambda>addresses. mseq (enumerate_roots addresses) (mret addresses))"
  have "throws session_errors ?front" by (intro throws_rules | simp)+
  from throws_run [OF this, of s] have front: "?front s = (Inl e, t) \<Longrightarrow> exn_class_of e \<in> session_errors" for e t by simp
  have "names_containers (known_types known)" if "?front s = (Inr known, t)" for known t
    using that by (auto simp: mbind_Inr mseq_Inr atomic_run intro!: known_containers dest: open_session_Inr)
  then show ?thesis
    using assms front throws_run [OF close_session_throws] object_phase_throws
    unfolding capture_session_def
    by (auto split: prod.splits sum.splits option.splits) (metis fst_conv only_raises_simps(2))+
qed

text \<open>What a capture raises: one of these, or that the partial file exists already.\<close>

lemma capture_raises:
  assumes "capture it cfg now sk fs output = Some d" and "dl_result d = Inl e"
  shows "exn_class_of e \<in> session_errors \<or> exn_class_of e = FileExistsError"
proof -
  have "validate_artifact content = Inl e \<Longrightarrow> exn_class_of e \<in> session_errors" for content e
    by (auto simp: validate_artifact_def raise_def Let_def split: if_splits)
  then show ?thesis
    using assms capture_session_raises [of it cfg now "session_init cfg sk"]
    by (auto simp: capture_def Let_def split: option.splits if_splits prod.splits sum.splits)
qed

end
