(* ===== verification/Command.thy ===== *)
theory Command
  imports Waiting Raised
begin

text \<open>
  \<^verbatim>\<open>capture/collector/src/pydump/cli.py\<close>: the capture over the accepted connection, and the
  program from its command line to the outcome.
\<close>

section \<open>The capture\<close>

definition accept_step :: "surroundings \<Rightarrow> load_request \<Rightarrow> exn option \<Rightarrow> unit step" where
  "accept_step su request failure =
     (\<lambda>w. map_option (\<lambda>r. (r, w))
        (accept_loop (tg_host_pid (lq_target request)) (lq_timeout_text request) (su_started su + lq_timeout request)
          (su_polls su) failure 0))"

definition capture_step :: "surroundings \<Rightarrow> cli_arguments \<Rightarrow> (path \<times> int \<times> capture_stats) step" where
  "capture_step su arguments =
     (\<lambda>w. case collector_init (su_nonce su) (ca_str_repr_len arguments) (\<not> ca_no_attribute arguments) 256 True of
        Inl e \<Rightarrow> Some (Inl e, w)
      | Inr cfg \<Rightarrow>
          map_option (\<lambda>d. (rbind (dl_result d) (\<lambda>(path, count). Inr (path, count, dl_stats d)), 
              w\<lparr>wo_files := dl_files d, wo_lines := wo_lines w @ progress_lines su (dl_progress d)\<rparr>))
            (capture (su_order su) cfg (su_date su) (su_sock su) (wo_files w) (path_pair (ca_file arguments))))"

definition report_step :: "surroundings \<Rightarrow> exn option \<Rightarrow> path \<times> int \<times> capture_stats \<Rightarrow> path step" where
  "report_step su failure taken =
     (case taken of (path, count, stats) \<Rightarrow>
        (case (if su_joined su then failure else None) of
           Some e \<Rightarrow> step_return (Inl e)
         | None \<Rightarrow> (\<lambda>w. Some (Inr path, w\<lparr>wo_lines := wo_lines w @ final_lines su path count stats\<rparr>))))"

definition serve :: "surroundings \<Rightarrow> cli_arguments \<Rightarrow> any_loader \<Rightarrow> load_request \<Rightarrow> path step" where
  "serve su arguments loader request =
     (let failure = loader_error su loader request in
      step_bind (accept_step su request failure) (\<lambda>_.
      step_bind (leaving su Close_connection (capture_step su arguments))
        (report_step su failure)))"

definition run_cli :: "surroundings \<Rightarrow> cli_arguments \<Rightarrow> path step" where
  "run_cli su arguments =
     step_bind (step_return (prepare su arguments)) (\<lambda>(target, agent, loader).
     step_bind (install_step su target agent) (\<lambda>agent_path.
     step_bind (print_line (loader_line loader)) (\<lambda>_.
     with_directory su arguments target agent_path (serve su arguments loader))))"

text \<open>What \<^verbatim>\<open>main\<close> makes of the result.\<close>

datatype outcome = Finished | Exit int | Uncaught exn

definition main_outcome :: "'a res \<Rightarrow> outcome" where
  "main_outcome r =
     (case r of
        Inr _ \<Rightarrow> Finished
      | Inl e \<Rightarrow>
          if exn_class_of e = KeyboardInterrupt then Exit 130
          else if exn_class_of e \<in> {PydumpError, ProtocolError} then Exit 1
          else Uncaught e)"

text \<open>The program. Exit code 2 is that of \<^verbatim>\<open>argparse\<close>.\<close>

definition collector_main :: "surroundings \<Rightarrow> pystr list \<Rightarrow> world \<Rightarrow> (outcome \<times> world) option" where
  "collector_main su argv w =
     (case parse_arguments argv of
        Shown \<Rightarrow> Some (Exit 0, w)
      | Usage _ \<Rightarrow> Some (Exit 2, w)
      | Parsed arguments \<Rightarrow> map_option (\<lambda>(r, w'). (main_outcome r, w')) (run_cli su arguments w))"

section \<open>Laws\<close>

text \<open>
  How a run may leave the files: a new valid heap file, on success or with an error that comes late;
  or what was there, but for the partial file.
\<close>

definition new_heap_file :: "files \<Rightarrow> path \<Rightarrow> path \<Rightarrow> files \<Rightarrow> bool" where
  "new_heap_file fs output path fs' \<longleftrightarrow>
     available_output_path fs output = Some path \<and> fs path = None \<and> (\<exists>content. fs' = fs(path \<mapsto> content) \<and> validate_artifact content = Inr ())"

text \<open>The error of the loader's thread, or of a system call such as those of the clean-up.\<close>

definition late_error :: "surroundings \<Rightarrow> exn \<Rightarrow> bool" where
  "late_error su e \<longleftrightarrow> (\<exists>loader request. start_loader su loader request = Inl e) \<or> (\<exists>c. su_call su c = Inl e)"

definition orderly :: "surroundings \<Rightarrow> files \<Rightarrow> path \<Rightarrow> path res \<Rightarrow> files \<Rightarrow> bool" where
  "orderly su fs output r fs' \<longleftrightarrow>
     (case r of
        Inr path \<Rightarrow> new_heap_file fs output path fs'
      | Inl e \<Rightarrow> fs' = fs \<or>
          (\<exists>final. available_output_path fs output = Some final \<and> fs' = fs(partial_path final (su_nonce su) := None)) \<or>
          (late_error su e \<and> (\<exists>path. new_heap_file fs output path fs')))"

lemma orderly_late: "orderly su fs output r fs' \<Longrightarrow> orderly su fs output (rbind (su_call su c) (\<lambda>_. r)) fs'"
  by (cases "su_call su c"; cases r) (auto simp: orderly_def late_error_def)

lemma orderly_unchanged: "orderly su fs output (Inl e) fs"
  by (simp add: orderly_def)

lemma capture_step_orderly:
  assumes "iterates (su_order su)" and "finite (dom (wo_files w))"
  shows "stops (capture_step su arguments) w \<and> after (capture_step su arguments) w (\<lambda>r w'.
    orderly su (wo_files w) (path_pair (ca_file arguments)) (rbind r (\<lambda>taken. Inr (fst taken))) (wo_files w'))"
proof (cases "collector_init (su_nonce su) (ca_str_repr_len arguments) (\<not> ca_no_attribute arguments) 256 True")
  case (Inl e)
  then show ?thesis by (simp add: stops_def after_def capture_step_def orderly_unchanged)
next
  case (Inr cfg)
  then have fields: "cl_nonce cfg = su_nonce su" "0 < cl_batch_size cfg"
    by (auto simp: collector_init_def split: if_splits)
  obtain d where run: "capture (su_order su) cfg (su_date su) (su_sock su) (wo_files w) (path_pair (ca_file arguments)) = Some d"
    using capture_total [OF assms(1) fields(2) assms(2)] by blast
  have "orderly su (wo_files w) (path_pair (ca_file arguments)) (rbind (dl_result d) (\<lambda>p. Inr (fst p))) (dl_files d)"
  proof (cases "dl_result d")
    case (Inl e)
    from capture_failed [OF assms(1) fields(2) run Inl] show ?thesis
      using Inl fields(1) by (auto simp: orderly_def)
  next
    case (Inr p)
    obtain path n where p: "p = (path, n)" by (cases p)
    from capture_delivered [OF assms(1) fields(2) run Inr [unfolded p]]
      capture_succeeded [OF assms(1) fields(2) run Inr [unfolded p]] show ?thesis
      using Inr p by (auto simp: orderly_def new_heap_file_def)
  qed
  then show ?thesis
    using Inr run by (cases "dl_result d") (auto simp: stops_def after_def capture_step_def)
qed

lemma known_step: "m w = Some (r, w') \<Longrightarrow> after m w Q \<longleftrightarrow> Q r w'" "m w = Some (r, w') \<Longrightarrow> stops m w"
  by (simp_all add: after_def stops_def)

lemma report_step_orderly:
  assumes "new_heap_file fs output (fst taken) (wo_files w)"
  shows "stops (report_step su (loader_error su loader request) taken) w \<and>
    after (report_step su (loader_error su loader request) taken) w (\<lambda>r w'. orderly su fs output r (wo_files w'))"
proof -
  obtain path count stats where taken: "taken = (path, count, stats)" by (cases taken)
  show ?thesis
  proof (cases "if su_joined su then loader_error su loader request else None")
    case None
    with assms show ?thesis by (simp add: report_step_def taken stops_def after_def orderly_def)
  next
    case (Some e)
    then have "late_error su e" by (auto simp: late_error_def loader_error_def split: if_splits sum.splits)
    moreover have "\<exists>path. new_heap_file fs output path (wo_files w)" using assms by blast
    ultimately show ?thesis using Some by (simp add: report_step_def taken orderly_def)
  qed
qed

lemma captured_orderly:
  assumes "orderly su fs output (rbind r (\<lambda>taken. Inr (fst taken))) (wo_files w)"
  shows "case rbind (su_call su c) (\<lambda>_. r) of
      Inl e \<Rightarrow> orderly su fs output (Inl e) (wo_files w)
    | Inr taken \<Rightarrow> new_heap_file fs output (fst taken) (wo_files w)"
proof (cases "su_call su c")
  case (Inl e)
  with assms show ?thesis by (cases r) (auto simp: orderly_def late_error_def)
next
  case (Inr u)
  with assms show ?thesis by (cases r) (auto simp: orderly_def)
qed

lemma serve_orderly:
  assumes "iterates (su_order su)" and "finite (dom (wo_files w))"
    and "steady (su_started su + lq_timeout request) (su_polls su)"
  shows "stops (serve su arguments loader request) w \<and> after (serve su arguments loader request) w (\<lambda>r w'.
    orderly su (wo_files w) (path_pair (ca_file arguments)) r (wo_files w'))"
proof -
  let ?failure = "loader_error su loader request" and ?output = "path_pair (ca_file arguments)"
  obtain a where "accept_loop (tg_host_pid (lq_target request)) (lq_timeout_text request)
      (su_started su + lq_timeout request) (su_polls su) ?failure 0 = Some a"
    using accept_loop_ends [OF assms(3)] by blast
  then have accept: "accept_step su request ?failure w = Some (a, w)" by (simp add: accept_step_def)
  note taken = capture_step_orderly [OF assms(1,2), of arguments]
  then have "stops (leaving su Close_connection (capture_step su arguments)) w" by simp
  moreover have captured: "after (leaving su Close_connection (capture_step su arguments)) w (\<lambda>r w'. case r of
        Inl e \<Rightarrow> orderly su (wo_files w) ?output (Inl e) (wo_files w')
      | Inr taken \<Rightarrow> new_heap_file (wo_files w) ?output (fst taken) (wo_files w'))"
    unfolding after_leaving
  proof (rule after_mono [OF taken [THEN conjunct2]], goal_cases)
    case (1 r w')
    from captured_orderly [OF 1, of Close_connection] show ?case by (auto split: sum.splits)
  qed
  moreover from captured have "after (leaving su Close_connection (capture_step su arguments)) w (\<lambda>r w'. case r of
        Inl e \<Rightarrow> orderly su (wo_files w) ?output (Inl e) (wo_files w')
      | Inr taken \<Rightarrow> stops (report_step su ?failure taken) w' \<and>
          after (report_step su ?failure taken) w' (\<lambda>r w'. orderly su (wo_files w) ?output r (wo_files w')))"
    by (rule after_mono) (auto split: sum.splits intro: report_step_orderly [THEN conjunct1] report_step_orderly [THEN conjunct2])
  ultimately show ?thesis
    unfolding serve_def Let_def
    by (cases a) (auto simp: known_step [where m = "accept_step su request ?failure" and w = w, OF accept] orderly_unchanged elim!: after_mono split: sum.splits)
qed

lemma serve_closes: "closes (serve su arguments loader)"
proof -
  have "after (accept_step su request failure) w (\<lambda>r w'. w' = w)" for request failure w
    by (auto simp: after_def accept_step_def)
  moreover have "after (capture_step su arguments) w (\<lambda>r w'. wo_calls w' = wo_calls w)" for w
    by (auto simp: after_def capture_step_def split: sum.splits)
  moreover have "after (report_step su failure taken) w (\<lambda>r w'. wo_calls w' = wo_calls w)" for failure taken w
    by (cases taken; cases "if su_joined su then failure else None") (auto simp: report_step_def after_def step_return_def)
  ultimately show ?thesis
    unfolding closes_def serve_def Let_def by (fastforce elim!: after_mono split: sum.splits)
qed

lemma run_cli_orderly:
  assumes "iterates (su_order su)" and "finite (dom (wo_files w))"
    and "\<And>timeout. socket_timeout (ca_timeout arguments) = Inr timeout \<Longrightarrow> steady (su_started su + timeout) (su_polls su)"
  shows "stops (run_cli su arguments) w \<and> after (run_cli su arguments) w (\<lambda>r w'.
    orderly su (wo_files w) (path_pair (ca_file arguments)) r (wo_files w'))"
proof -
  let ?Q = "\<lambda>r w'. orderly su (wo_files w) (path_pair (ca_file arguments)) r (wo_files w')"
  have served: "stops (serve su arguments loader request) w' \<and> after (serve su arguments loader request) w' ?Q"
    if "wo_files w' = wo_files w" and "socket_timeout (ca_timeout arguments) = Inr (lq_timeout request)" for loader request w'
    using serve_orderly [of su w' request arguments loader] assms that by simp
  have inside: "stops (with_directory su arguments target agent_path (serve su arguments loader)) w' \<and>
      after (with_directory su arguments target agent_path (serve su arguments loader)) w' ?Q"
    if "wo_files w' = wo_files w" for target agent_path loader w'
    using that served
    by (intro conjI with_directory_stops with_directory_after)
      (auto simp: same_files_def orderly_unchanged intro: orderly_late)
  have installed: "after (install_step su target agent) w (\<lambda>r w'. wo_files w' = wo_files w)" for target agent
    by (auto simp: after_def install_step_def split: prod.splits)
  have "stops (install_step su target agent) w" for target agent
    by (auto simp: stops_def install_step_def split: prod.splits)
  then show ?thesis
    by (auto simp: run_cli_def orderly_unchanged inside split: sum.splits intro!: after_mono [OF installed])
qed

text \<open>
  Where an exception that leaves the command comes from: the choice of target, agent and loader; the copy
  of the agent; the temporary directory; the owner of the target's files; the timeout that the user asked
  for; a system call; the loader; the wait, when no agent connects; the nonce; or the capture, and then
  it is one of the program's own errors, the timeout of the connection, a number that does not fit its
  field, or a partial file that exists.
\<close>

definition raised_by :: "surroundings \<Rightarrow> cli_arguments \<Rightarrow> world \<Rightarrow> exn \<Rightarrow> bool" where
  "raised_by su arguments w e \<longleftrightarrow>
     prepare su arguments = Inl e \<or> socket_timeout (ca_timeout arguments) = Inl e \<or> (\<exists>c. su_call su c = Inl e) \<or>
     (\<exists>target agent loader. prepare su arguments = Inr (target, agent, loader) \<and>
        (fst (install_agent (su_sha256 su) target agent (wo_installed w)) = Inl e \<or>
         su_mkdtemp su (target_root target @ lit ''/tmp'') = Inl e \<or> fs_owner (su_system su) target = Inl e \<or>
         (\<exists>agent_path host_temp request. asks_for su arguments target agent_path host_temp request \<and>
            start_loader su loader request = Inl e) \<or>
         e = Exn PydumpError ''agent for PID {host_pid} did not connect within {timeout:g}s''
           [AInt (tg_host_pid target), AStr (general_text (ca_timeout arguments))])) \<or>
     collector_init (su_nonce su) (ca_str_repr_len arguments) (\<not> ca_no_attribute arguments) 256 True = Inl e \<or>
     (\<exists>cfg d. collector_init (su_nonce su) (ca_str_repr_len arguments) (\<not> ca_no_attribute arguments) 256 True = Inr cfg \<and>
        capture (su_order su) cfg (su_date su) (su_sock su) (wo_files w) (path_pair (ca_file arguments)) = Some d \<and>
        dl_result d = Inl e \<and>
        exn_class_of e \<in> {PydumpError, ProtocolError, TimeoutError, StructError, FileExistsError})"

lemma serve_error:
  assumes "prepare su arguments = Inr (target, agent, loader)"
    and "asks_for su arguments target agent_path host_temp request" and "wo_files w1 = wo_files w"
  shows "after (serve su arguments loader request) w1 (\<lambda>r _. \<forall>e. r = Inl e \<longrightarrow> raised_by su arguments w e)"
proof -
  let ?failure = "loader_error su loader request" and ?P = "raised_by su arguments w"
  have failure: "?failure = Some e \<Longrightarrow> ?P e" for e
    using assms(1,2) by (auto simp: raised_by_def loader_error_def split: sum.splits)
  have request: "lq_target request = target" "lq_timeout_text request = general_text (ca_timeout arguments)"
    using assms(2) by (auto simp: asks_for_def make_request_def)
  have timeout: "?P (Exn PydumpError ''agent for PID {host_pid} did not connect within {timeout:g}s''
      [AInt (tg_host_pid target), AStr (general_text (ca_timeout arguments))])"
    using assms(1) by (simp add: raised_by_def)
  have accept: "after (accept_step su request ?failure) w1 (\<lambda>r w'. w' = w1 \<and> (\<forall>e. r = Inl e \<longrightarrow> ?P e))"
    using accept_loop_error [of _ _ _ _ ?failure] timeout failure
    by (fastforce simp: after_def accept_step_def request)
  have call: "su_call su c = Inl e \<Longrightarrow> ?P e" for c e by (auto simp: raised_by_def)
  have taken: "after (capture_step su arguments) w1 (\<lambda>r _. \<forall>e. r = Inl e \<longrightarrow> ?P e)"
  proof (cases "collector_init (su_nonce su) (ca_str_repr_len arguments) (\<not> ca_no_attribute arguments) 256 True")
    case (Inl e)
    then show ?thesis by (simp add: after_def capture_step_def raised_by_def)
  next
    case (Inr cfg)
    have taken: "?P e" if "capture (su_order su) cfg (su_date su) (su_sock su) (wo_files w) (path_pair (ca_file arguments)) = Some d"
      "rbind (dl_result d) (\<lambda>(path, count). Inr (path, count, dl_stats d)) = Inl e" for d e
    proof -
      from that(2) have "dl_result d = Inl e" by (cases "dl_result d") auto
      with capture_raises [OF that(1)] that(1) Inr show ?thesis by (auto simp: raised_by_def session_errors_def)
    qed
    show ?thesis using Inr assms(3) by (auto simp: after_def capture_step_def intro: taken)
  qed
  have reported: "after (report_step su ?failure taken) w' (\<lambda>r _. \<forall>e. r = Inl e \<longrightarrow> ?P e)" for taken w'
    using failure by (cases taken; cases "if su_joined su then ?failure else None")
      (auto simp: report_step_def after_def step_return_def split: if_splits)
  have left: "after (leaving su Close_connection (capture_step su arguments)) w1 (\<lambda>r _. \<forall>e. r = Inl e \<longrightarrow> ?P e)"
    unfolding after_leaving by (rule after_mono [OF taken]) (use call in \<open>auto simp: rbind_def split: sum.splits\<close>)
  show ?thesis
    unfolding serve_def Let_def after_bind
    by (rule after_mono [OF accept]) (auto simp del: after_leaving split: sum.split intro!: after_mono [OF left] reported)
qed

lemma run_cli_error: "after (run_cli su arguments) w (\<lambda>r _. \<forall>e. r = Inl e \<longrightarrow> raised_by su arguments w e)"
proof (cases "prepare su arguments")
  case (Inl e)
  then show ?thesis by (simp add: run_cli_def raised_by_def)
next
  case (Inr p)
  obtain target agent loader where prepared: "prepare su arguments = Inr (target, agent, loader)" using Inr by (cases p) simp
  let ?P = "\<lambda>r _. \<forall>e. r = Inl e \<longrightarrow> raised_by su arguments w e"
  have installed: "after (install_step su target agent) w (\<lambda>r w'. wo_files w' = wo_files w \<and>
      (\<forall>e. r = Inl e \<longrightarrow> raised_by su arguments w e))"
    using prepared by (auto simp: after_def install_step_def raised_by_def rbind_def split: prod.splits sum.splits)
  have inside: "after (with_directory su arguments target agent_path (serve su arguments loader)) w' ?P"
    if "wo_files w' = wo_files w" for agent_path w'
  proof (rule with_directory_error)
    fix host_temp request w1
    assume "same_files w' w1" and "asks_for su arguments target agent_path host_temp request"
    then show "after (serve su arguments loader request) w1 ?P"
      using that by (intro serve_error [OF prepared]) (auto simp: same_files_def)
  next
    fix e
    assume "su_mkdtemp su (target_root target @ lit ''/tmp'') = Inl e \<or> fs_owner (su_system su) target = Inl e \<or>
      socket_timeout (ca_timeout arguments) = Inl e \<or> (\<exists>c. su_call su c = Inl e)"
    then show "raised_by su arguments w e" using prepared by (auto simp: raised_by_def)
  qed
  show ?thesis
    by (simp add: run_cli_def prepared) (rule after_mono [OF installed], auto simp: inside split: sum.splits)
qed

lemma run_cli_calls:
  assumes "wo_calls w = []"
  shows "after (run_cli su arguments) w (\<lambda>r w'. \<exists>target agent_path. tidy su arguments target agent_path (wo_calls w'))"
proof -
  let ?Q = "\<lambda>r w'. \<exists>target agent_path. tidy su arguments target agent_path (wo_calls w')"
  have inside: "after (with_directory su arguments target agent_path (serve su arguments loader)) w' ?Q"
    if "wo_calls w' = []" for target agent_path loader w'
    by (rule after_mono [OF with_directory_calls [OF serve_closes that]]) blast
  have installed: "after (install_step su target agent) w (\<lambda>r w'. wo_calls w' = [])" for target agent
    using assms by (auto simp: after_def install_step_def split: prod.splits)
  have "tidy su arguments target agent_path []" for target agent_path by (simp add: tidy_def)
  then show ?thesis
    using assms by (auto simp: run_cli_def inside split: sum.splits intro!: after_mono [OF installed])
qed

text \<open>\<^verbatim>\<open>mkdtemp\<close> creates an entry of the directory it is given.\<close>

definition creates_inside :: "(pystr \<Rightarrow> pystr res) \<Rightarrow> bool" where
  "creates_inside mkdtemp \<longleftrightarrow> (\<forall>dir path. mkdtemp dir = Inr path \<longrightarrow>
     (\<exists>name. path = dir @ 47 # name \<and> 47 \<notin> set name \<and> name \<noteq> [] \<and> name \<noteq> lit ''.''))"

lemma socket_paths_agree:
  assumes "creates_inside mkdtemp" and "mkdtemp (target_root target @ lit ''/tmp'') = Inr host_temp"
  shows "socket_host_path host_temp = target_root target @ socket_target_path host_temp"
proof -
  obtain name where name: "host_temp = (target_root target @ lit ''/tmp'') @ 47 # name" "47 \<notin> set name" "name \<noteq> []" "name \<noteq> lit ''.''"
    using assms unfolding creates_inside_def by blast
  then have "path_name host_temp = name" by (simp only:) (rule path_name_plain)
  with name(1) show ?thesis by (simp add: socket_host_path_def socket_target_path_def) (simp add: lit_def)
qed

text \<open>A run in which nothing goes wrong.\<close>

definition smooth :: "surroundings \<Rightarrow> cli_arguments \<Rightarrow> world \<Rightarrow> target \<Rightarrow> any_loader \<Rightarrow> load_request \<Rightarrow> bool" where
  "smooth su arguments w target loader request \<longleftrightarrow>
     (\<exists>agent host_path agent_path agents host_temp owner timeout.
        prepare su arguments = Inr (target, agent, loader) \<and>
        install_agent (su_sha256 su) target agent (wo_installed w) = (Inr (host_path, agent_path), agents) \<and>
        su_mkdtemp su (target_root target @ lit ''/tmp'') = Inr host_temp \<and>
        fs_owner (su_system su) target = Inr owner \<and> (\<forall>c. su_call su c = Inr ()) \<and>
        socket_timeout (ca_timeout arguments) = Inr timeout \<and>
        request = make_request su arguments target agent_path host_temp timeout \<and>
        start_loader su loader request = Inr ())"

definition connects :: "surroundings \<Rightarrow> load_request \<Rightarrow> bool" where
  "connects su request \<longleftrightarrow>
     (\<exists>n. waited (su_started su + lq_timeout request) (su_polls su) None n \<and>
        po_now (su_polls su n) < su_started su + lq_timeout request \<and> po_accepted (su_polls su n))"

lemma connects_accepts:
  assumes "connects su request"
  shows "accept_step su request None w = Some (Inr (), w)"
proof -
  from assms obtain n where n: "waited (su_started su + lq_timeout request) (su_polls su) None n"
    "po_now (su_polls su n) < su_started su + lq_timeout request" "po_accepted (su_polls su n)"
    by (auto simp: connects_def)
  let ?loop = "accept_loop (tg_host_pid (lq_target request)) (lq_timeout_text request) (su_started su + lq_timeout request)
    (su_polls su) None"
  have "?loop 0 = ?loop (0 + n)" by (rule accept_loop_waited) (use n(1) in \<open>simp add: waited_def\<close>)
  also have "\<dots> = Some (Inr ())" using n(2,3) by (subst accept_loop.simps) simp
  finally show ?thesis by (simp add: accept_step_def)
qed

lemma smooth_serves:
  assumes "smooth su arguments w target loader request" and "connects su request"
    and "capture_step su arguments w1 = Some (Inr (path, count, stats), w1\<lparr>wo_files := fs', wo_lines := wo_lines w1 @ ls\<rparr>)"
  shows "\<exists>w'. serve su arguments loader request w1 = Some (Inr path, w') \<and> wo_files w' = fs' \<and>
    wo_lines w' = wo_lines w1 @ ls @ final_lines su path count stats \<and> wo_calls w' = wo_calls w1 @ [Close_connection]"
proof -
  have none: "loader_error su loader request = None" "su_call su c = Inr ()" for c
    using assms(1) by (auto simp: smooth_def loader_error_def)
  show ?thesis
    by (simp add: serve_def none step_bind_def connects_accepts [OF assms(2)] leaving_def assms(3) report_step_def)
qed

text \<open>Such a run comes to \<^const>\<open>serve\<close>, and then cleans up.\<close>

lemma smooth_set_up:
  assumes "smooth su arguments w target loader request"
  shows "\<exists>w1 host_temp. wo_files w1 = wo_files w \<and> wo_lines w1 = wo_lines w @ [loader_line loader] \<and>
    Start_thread request \<in> set (wo_calls w1) \<and>
    (\<forall>r w2. serve su arguments loader request w1 = Some (r, w2) \<longrightarrow>
      run_cli su arguments w = Some (r, w2\<lparr>wo_calls := wo_calls w2 @ [Close_listener, Remove_directory host_temp]\<rparr>))"
proof -
  from assms obtain agent host_path agent_path agents host_temp owner timeout where
    steps: "prepare su arguments = Inr (target, agent, loader)"
      "install_agent (su_sha256 su) target agent (wo_installed w) = (Inr (host_path, agent_path), agents)"
      "su_mkdtemp su (target_root target @ lit ''/tmp'') = Inr host_temp" "fs_owner (su_system su) target = Inr owner"
      "\<And>c. su_call su c = Inr ()" "socket_timeout (ca_timeout arguments) = Inr timeout"
      "request = make_request su arguments target agent_path host_temp timeout"
    unfolding smooth_def by blast
  define w1 where "w1 = w\<lparr>wo_installed := agents, wo_lines := wo_lines w @ [loader_line loader],
    wo_calls := wo_calls w @ directory_calls host_temp owner @ listener_calls host_temp owner @ [Start_thread request]\<rparr>"
  have "run_cli su arguments w = Some (r, w2\<lparr>wo_calls := wo_calls w2 @ [Close_listener, Remove_directory host_temp]\<rparr>)"
    if "serve su arguments loader request w1 = Some (r, w2)" for r w2
    using that
    by (cases r) (simp_all add: run_cli_def step_bind_def step_return_def steps install_step_def print_line_def
        with_directory_def with_listener_def leaving_def os_call_def w1_def directory_calls_def listener_calls_def Let_def)
  then show ?thesis by (intro exI [of _ w1] exI [of _ host_temp]) (simp add: w1_def)
qed

lemma smooth_run:
  assumes "smooth su arguments w target loader request" and "connects su request"
    and captured: "\<And>w1. wo_files w1 = wo_files w \<Longrightarrow>
      capture_step su arguments w1 = Some (Inr (path, count, stats), w1\<lparr>wo_files := fs', wo_lines := wo_lines w1 @ ls\<rparr>)"
  shows "\<exists>w'. run_cli su arguments w = Some (Inr path, w') \<and> wo_files w' = fs' \<and>
    wo_lines w' = wo_lines w @ loader_line loader # ls @ final_lines su path count stats \<and>
    Start_thread request \<in> set (wo_calls w')"
proof -
  from smooth_set_up [OF assms(1)] obtain w1 host_temp where
    w1: "wo_files w1 = wo_files w" "wo_lines w1 = wo_lines w @ [loader_line loader]" "Start_thread request \<in> set (wo_calls w1)" and
    run: "\<And>r w2. serve su arguments loader request w1 = Some (r, w2) \<Longrightarrow>
      run_cli su arguments w = Some (r, w2\<lparr>wo_calls := wo_calls w2 @ [Close_listener, Remove_directory host_temp]\<rparr>)" by blast
  from smooth_serves [OF assms(1,2) captured [OF w1(1)]] obtain w2 where
    "serve su arguments loader request w1 = Some (Inr path, w2)" "wo_files w2 = fs'"
      "wo_lines w2 = wo_lines w1 @ ls @ final_lines su path count stats" "wo_calls w2 = wo_calls w1 @ [Close_connection]" by blast
  with run [OF this(1)] w1 show ?thesis by simp
qed

text \<open>The same when the capture fails.\<close>

lemma smooth_fails:
  assumes smooth: "smooth su arguments w target loader request" and "connects su request"
    and captured: "\<And>w1. wo_files w1 = wo_files w \<Longrightarrow>
      capture_step su arguments w1 = Some (Inl e, w1\<lparr>wo_files := fs', wo_lines := wo_lines w1 @ ls\<rparr>)"
  shows "\<exists>w'. run_cli su arguments w = Some (Inl e, w') \<and> wo_files w' = fs' \<and>
    wo_lines w' = wo_lines w @ loader_line loader # ls \<and> Start_thread request \<in> set (wo_calls w')"
proof -
  from smooth_set_up [OF assms(1)] obtain w1 host_temp where
    w1: "wo_files w1 = wo_files w" "wo_lines w1 = wo_lines w @ [loader_line loader]" "Start_thread request \<in> set (wo_calls w1)" and
    run: "\<And>r w2. serve su arguments loader request w1 = Some (r, w2) \<Longrightarrow>
      run_cli su arguments w = Some (r, w2\<lparr>wo_calls := wo_calls w2 @ [Close_listener, Remove_directory host_temp]\<rparr>)" by blast
  have none: "loader_error su loader request = None" "su_call su c = Inr ()" for c
    using smooth by (auto simp: smooth_def loader_error_def)
  from captured [OF w1(1)] have "serve su arguments loader request w1 =
      Some (Inl e, w1\<lparr>wo_files := fs', wo_lines := wo_lines w1 @ ls, wo_calls := wo_calls w1 @ [Close_connection]\<rparr>)"
    by (simp add: serve_def none step_bind_def connects_accepts [OF assms(2)] leaving_def)
  from run [OF this] w1 show ?thesis by simp
qed

text \<open>The agent is captured by the whole program.\<close>

lemma program_captures:
  assumes "parse_arguments argv = Parsed arguments" and "smooth su arguments w target loader request"
    and "connects su request"
    and "collector_init (su_nonce su) (ca_str_repr_len arguments) (\<not> ca_no_attribute arguments) 256 True = Inr cfg"
    and "iterates (su_order su)" and "honest cfg greeting answer known roots facts"
    and "capture_fits cfg facts (heap_reach facts (heap_start known roots))"
    and "su_sock su = agent_socket greeting answer short"
    and "available_output_path (wo_files w) (path_pair (ca_file arguments)) = Some final"
    and "wo_files w (partial_path final (su_nonce su)) = None"
  shows "\<exists>w' objs stats reports. collector_main su argv w = Some (Finished, w') \<and> distinct (map co_address objs) \<and>
    map facts (map co_address objs) = objs \<and> co_address ` set objs = heap_reach facts (heap_start known roots) \<and>
    (\<forall>obj \<in> set objs. object_valid obj) \<and>
    artifact_ok (known_types known) [] objs (type_table known objs) \<and>
    wo_files w' = (wo_files w)(final \<mapsto>
      artifact_bytes (known_types known) (su_date su) (0 \<le> cl_str_repr_len cfg) [] objs (type_table known objs)) \<and>
    wo_lines w' = wo_lines w @ loader_line loader # progress_lines su reports @ final_lines su final (int (length objs)) stats"
proof -
  have nonce: "cl_nonce cfg = su_nonce su" using assms(4) by (auto simp: collector_init_def split: if_splits)
  with assms(10) have "wo_files w (partial_path final (cl_nonce cfg)) = None" by simp
  from agent_capture [OF assms(5-7,9) this, of "su_date su" short] obtain d objs where
    run: "capture (su_order su) cfg (su_date su) (su_sock su) (wo_files w) (path_pair (ca_file arguments)) = Some d"
      "dl_result d = Inr (final, int (length objs))" and
    objs: "distinct (map co_address objs)" "map facts (map co_address objs) = objs"
      "co_address ` set objs = heap_reach facts (heap_start known roots)" "\<forall>obj \<in> set objs. object_valid obj"
      "artifact_ok (known_types known) [] objs (type_table known objs)"
      "dl_files d = (wo_files w)(final \<mapsto>
        artifact_bytes (known_types known) (su_date su) (0 \<le> cl_str_repr_len cfg) [] objs (type_table known objs))"
    unfolding assms(8) by blast
  have "capture_step su arguments w1 = Some (Inr (final, int (length objs), dl_stats d),
      w1\<lparr>wo_files := dl_files d, wo_lines := wo_lines w1 @ progress_lines su (dl_progress d)\<rparr>)"
    if "wo_files w1 = wo_files w" for w1
    using run that by (simp add: capture_step_def assms(4))
  from smooth_run [OF assms(2,3) this] obtain w' where "run_cli su arguments w = Some (Inr final, w')"
    "wo_files w' = dl_files d" "wo_lines w' = wo_lines w @ loader_line loader # progress_lines su (dl_progress d) @
      final_lines su final (int (length objs)) (dl_stats d)"
    by blast
  then have "collector_main su argv w = Some (Finished, w')" using assms(1) by (simp add: collector_main_def main_outcome_def)
  with \<open>wo_files w' = dl_files d\<close> objs \<open>wo_lines w' = _\<close> show ?thesis
    by (intro exI [of _ w'] exI [of _ objs] exI [of _ "dl_stats d"] exI [of _ "dl_progress d"]) simp
qed

section \<open>Properties\<close>

text \<open>
  Whatever happens, the command leaves the files in order: it returns with the path of a new,
  valid heap file, under the first free name; or it raises and the files are as before, but for the partial file; or it raises
  an error of the loader or of the clean-up after the heap file has been delivered, and that file stays.
\<close>

theorem run_cli_outcome:
  assumes "iterates (su_order su)" and "finite (dom (wo_files w))"
    and "\<And>timeout. socket_timeout (ca_timeout arguments) = Inr timeout \<Longrightarrow> steady (su_started su + timeout) (su_polls su)"
  shows "\<exists>r w'. run_cli su arguments w = Some (r, w') \<and>
    (case r of
       Inr path \<Rightarrow> available_output_path (wo_files w) (path_pair (ca_file arguments)) = Some path \<and> wo_files w path = None \<and>
         (\<exists>content. wo_files w' = (wo_files w)(path \<mapsto> content) \<and> validate_artifact content = Inr ())
     | Inl e \<Rightarrow> wo_files w' = wo_files w \<or>
         (\<exists>final. available_output_path (wo_files w) (path_pair (ca_file arguments)) = Some final \<and>
            wo_files w' = (wo_files w)(partial_path final (su_nonce su) := None)) \<or>
         (late_error su e \<and> (\<exists>path. available_output_path (wo_files w) (path_pair (ca_file arguments)) = Some path \<and>
            wo_files w path = None \<and> (\<exists>content.
            wo_files w' = (wo_files w)(path \<mapsto> content) \<and> validate_artifact content = Inr ()))))"
  using run_cli_orderly [OF assms] unfolding orderly_def new_heap_file_def stops_def after_def by fast


text \<open>
  C3: The loader is started only when everything is ready for the agent, and nothing is left behind. If
  the thread is started, the calls before it were exactly these: the temporary directory given to the
  owner of the target and closed to others, the socket bound in it, given to the owner, and listening;
  the request names the same socket as the target sees it, and carries the nonce that the Collector
  checks. After that come only the ends of the connection, of the socket and of the directory; and
  whenever a call was made, the removal of the directory is the last.
\<close>

theorem private_socket:
  assumes "run_cli su arguments w = Some (r, w')" and "wo_calls w = []" and "creates_inside (su_mkdtemp su)"
  shows "wo_calls w' = [] \<or>
    (\<exists>target host_temp front. su_mkdtemp su (target_root target @ lit ''/tmp'') = Inr host_temp \<and>
       wo_calls w' = front @ [Remove_directory host_temp] \<and>
       ((\<forall>request. Start_thread request \<notin> set front) \<or>
        (\<exists>owner request served. fs_owner (su_system su) target = Inr owner \<and> lq_target request = target \<and>
           lq_nonce request = su_nonce su \<and> served \<in> {[], [Close_connection]} \<and>
           front =
             [Chown host_temp owner, Chmod host_temp 448,
              Bind (target_root target @ lq_socket_path request),
              Chown (target_root target @ lq_socket_path request) owner, Listen, Start_thread request] @
             served @ [Close_listener])))"
proof -
  from run_cli_calls [OF assms(2), of su arguments] assms(1) obtain target agent_path where
    "tidy su arguments target agent_path (wo_calls w')" by (auto simp: after_def)
  then consider "wo_calls w' = []" | host_temp front where
    "su_mkdtemp su (target_root target @ lit ''/tmp'') = Inr host_temp" "wo_calls w' = front @ [Remove_directory host_temp]"
    "loads_nothing front \<or>
         (\<exists>owner request served. fs_owner (su_system su) target = Inr owner \<and>
            asks_for su arguments target agent_path host_temp request \<and> served \<in> {[], [Close_connection]} \<and>
            front = directory_calls host_temp owner @ listener_calls host_temp owner @ Start_thread request # served @
              [Close_listener])"
    unfolding tidy_def by blast
  then show ?thesis
  proof cases
    case 2
    show ?thesis
    proof (cases "loads_nothing front")
      case True
      with 2(1,2) show ?thesis unfolding loads_nothing_def by blast
    next
      case False
      with 2(3) obtain owner request served where front: "fs_owner (su_system su) target = Inr owner"
        "asks_for su arguments target agent_path host_temp request" "served \<in> {[], [Close_connection]}"
        "front = directory_calls host_temp owner @ listener_calls host_temp owner @ Start_thread request # served @ [Close_listener]"
        by blast
      have "lq_target request = target" "lq_nonce request = su_nonce su"
        "socket_host_path host_temp = target_root target @ lq_socket_path request"
        using front(2) socket_paths_agree [OF assms(3) 2(1)] by (auto simp: asks_for_def make_request_def)
      with front(4) have "front = [Chown host_temp owner, Chmod host_temp 448, Bind (target_root target @ lq_socket_path request),
          Chown (target_root target @ lq_socket_path request) owner, Listen, Start_thread request] @ served @ [Close_listener]"
        by (simp add: directory_calls_def listener_calls_def)
      with 2(1,2) front(1,3) \<open>lq_target request = target\<close> \<open>lq_nonce request = su_nonce su\<close> show ?thesis by metis
    qed
  qed simp
qed

lemma silent_capture:
  assumes "available_output_path fs output = Some final" and "fs (partial_path final (cl_nonce cfg)) = None"
    and "sk_peer sk = (\<lambda>_. ([], False))"
  shows "\<exists>d. capture it cfg now sk fs output = Some d \<and> dl_result d = Inl timed_out \<and> dl_files d = fs \<and> dl_progress d = []"
proof -
  let ?s = "session_init cfg sk"
  have none: "avail (fs_sock (framed_socket_init sk)) = []" "\<not> peer_closed (fs_sock (framed_socket_init sk))"
    using assms(3) by (simp_all add: avail_def peer_closed_def framed_socket_init_def)
  have "receive_loop 12 [] sk = (Inl timed_out, sk)"
    using none by (simp add: receive_loop.simps [of 12 "[]"] recv_into_def framed_socket_init_def timed_out_def)
  then have "\<exists>c. receive (framed_socket_init sk) = (Inl timed_out, c)"
    by (simp add: receive_def framed_socket_init_def mbind_run receive_wire_frame_def receive_exact_def on_sock_def)
  then obtain t where t: "expect HELLO ?s = (Inl timed_out, t)" "ss_progress t = []"
    by (auto simp: expect_def mbind_run on_channel_def session_init_def)
  then have "capture_session it cfg now ?s = Some (Inl timed_out, t)"
    by (simp add: capture_session_def open_session_def mbind_run)
  moreover have "fs(partial_path final (cl_nonce cfg) := None) = fs" using assms(2) by auto
  ultimately show ?thesis using assms(1,2) t(2) by (simp add: capture_def Let_def)
qed

text \<open>
  C40: An agent that connects and then stays silent is not reported as a failed capture. The target, its
  loader and the set-up are in order and the agent has connected, but it sends nothing: then the program,
  from its command line on, ends with the \<^verbatim>\<open>TimeoutError\<close> of the connection left uncaught instead of
  exit code 1, because that is not a \<open>PydumpError\<close> and no handler on the way to \<^verbatim>\<open>main\<close> makes it one. It
  leaves the files as they were and has printed nothing but the loader.
\<close>

theorem silent_agent_uncaught:
  assumes "parse_arguments argv = Parsed arguments" and "smooth su arguments w target loader request"
    and "connects su request"
    and "collector_init (su_nonce su) (ca_str_repr_len arguments) (\<not> ca_no_attribute arguments) 256 True = Inr cfg"
    and "available_output_path (wo_files w) (path_pair (ca_file arguments)) = Some final"
    and "wo_files w (partial_path final (su_nonce su)) = None"
    and "sk_peer (su_sock su) = (\<lambda>_. ([], False))"
  shows "\<exists>w' e. collector_main su argv w = Some (Uncaught e, w') \<and> exn_class_of e = TimeoutError \<and>
    wo_files w' = wo_files w \<and> wo_lines w' = wo_lines w @ [loader_line loader] \<and> Start_thread request \<in> set (wo_calls w')"
proof -
  have "cl_nonce cfg = su_nonce su" using assms(4) by (auto simp: collector_init_def split: if_splits)
  with assms(6) have "wo_files w (partial_path final (cl_nonce cfg)) = None" by simp
  from silent_capture [OF assms(5) this assms(7), of "su_order su" "su_date su"] obtain d where
    d: "capture (su_order su) cfg (su_date su) (su_sock su) (wo_files w) (path_pair (ca_file arguments)) = Some d"
      "dl_result d = Inl timed_out" "dl_files d = wo_files w" "dl_progress d = []" by blast
  have "capture_step su arguments w1 = Some (Inl timed_out, w1\<lparr>wo_files := wo_files w, wo_lines := wo_lines w1 @ []\<rparr>)"
    if "wo_files w1 = wo_files w" for w1
    using d that by (simp add: capture_step_def assms(4) progress_lines_def)
  from smooth_fails [OF assms(2,3) this] show ?thesis
    by (auto simp: collector_main_def assms(1) main_outcome_def timed_out_def)
qed

section \<open>Examples\<close>

definition silent_sock :: sock where
  "silent_sock = \<lparr>sk_sent = [], sk_peer = (\<lambda>_. ([], False)), sk_taken = 0, sk_reads = 0, sk_short = (\<lambda>_. 0)\<rparr>"

text \<open>
  A target with PID 42 on a machine without GDB, whose bundled agent and loader work; the agent connects
  and keeps to the protocol.
\<close>

definition demo_surroundings :: surroundings where
  "demo_surroundings =
     \<lparr>su_system = demo_system (JInt 42), su_host = demo_host, su_files = demo_tools,
      su_agents_dir = lit ''agents'' @ lit ''/'', su_bin_dir = lit ''bin/'', su_gdb_version = (\<lambda>_. Inr 0), su_describe = (\<lambda>_. []),
      su_helper = \<lparr>if_python = [], if_spawn = Inr (), if_ready = None, if_stderr = [], if_stops = (\<lambda>_. True),
        if_run = (\<lambda>_ _. Inr (0, []))\<rparr>,
      su_run_gdb = (\<lambda>_ _ _ _. Inr (1, [])), su_run_ptrace = (\<lambda>_ _. Inr (0, AGENT_STARTED_MARKER)), su_environ = [],
      su_sha256 = (\<lambda>_. lit ''0123456789abcdef0''), su_nonce = cl_nonce demo_cfg,
      su_mkdtemp = (\<lambda>dir. Inr (dir @ 47 # lit ''pydump-a'')), su_call = (\<lambda>_. Inr ()), su_started = 0, su_polls = demo_polls,
      su_sock = demo_sock, su_order = sorted_list_of_set, su_date = lit ''now'', su_joined = True,
      su_measured = \<lparr>me_connected = 1, me_saved = 2, me_hello_wait = 0, me_setup = 0, me_roots = 0, me_objects = 0,
        me_pause = 0, me_finalize = 0, me_ru_maxrss = 0, me_progress = (\<lambda>_. 1)\<rparr>\<rparr>"

abbreviation demo_cli_cfg :: collector where
  "demo_cli_cfg \<equiv> demo_cfg\<lparr>cl_batch_size := 256, cl_progress := True\<rparr>"

lemma demo_cli_honest: "honest demo_cli_cfg demo_greeting demo_answer demo_types [[100]] demo_facts"
proof -
  have "check_hello demo_cli_cfg h = check_hello demo_cfg h" for h by (simp add: check_hello_def)
  then have "greets demo_cli_cfg demo_greeting \<longleftrightarrow> greets demo_cfg demo_greeting" by (simp add: greets_def)
  moreover have "describes demo_cli_cfg a fs obj \<longleftrightarrow> describes demo_cfg a fs obj" for a fs obj
    by (simp add: describes_def with_text_def default_text_def)
  then have "serves demo_cli_cfg demo_answer demo_facts addresses \<longleftrightarrow> serves demo_cfg demo_answer demo_facts addresses" for addresses
    by (simp add: serves_def)
  ultimately show ?thesis using demo_honest by (simp add: honest_def)
qed

lemma demo_cli_fits: "capture_fits demo_cli_cfg demo_facts (heap_reach demo_facts demo_start)"
  using demo_fits by (simp add: capture_fits_def MAX_PAYLOAD_def)

lemma demo_cli_init:
  "collector_init (su_nonce demo_surroundings) (ca_str_repr_len demo_arguments) (\<not> ca_no_attribute demo_arguments) 256 True =
    Inr demo_cli_cfg"
  by (simp add: collector_init_def demo_surroundings_def demo_arguments_def demo_cfg_def NONCE_SIZE_def)

definition demo_target_record :: target where
  "demo_target_record = \<lparr>tg_host_pid = 42, tg_namespace_pid = 7, tg_python_minor = (3, 12)\<rparr>"

lemma demo_loader:
  "choose_loader demo_surroundings demo_arguments target =
    Inr (Ptrace \<lparr>pl_executable = lit ''bin/'' @ lit ''pydump-loader-linux-x86_64''\<rparr>)"
proof -
  have "probe_gdb_loader demo_tools version describe helper None (lit ''x86_64'') =
      Inr (unavailable GDB (lit ''gdb executable was not found''), None)" for version describe helper
    by (simp add: probe_gdb_loader_def demo_tools_def configured_def FIRST_ARGUMENT_REGISTER_def)
  moreover have "probe_pydump_loader demo_tools (lit ''bin/'') (lit ''x86_64'') None =
      (available PTRACE (lit ''bin/'' @ lit ''pydump-loader-linux-x86_64''),
       Some \<lparr>pl_executable = lit ''bin/'' @ lit ''pydump-loader-linux-x86_64''\<rparr>)"
    by (simp add: probe_pydump_loader_def demo_tools_def configured_def BUNDLED_NAMES_def Let_def)
  ultimately show ?thesis
    by (simp add: choose_loader_def demo_surroundings_def demo_arguments_def select_loader_def demo_environment usable_def
        unavailable_def available_def Let_def)
qed

lemma demo_prepared:
  "prepare demo_surroundings demo_arguments = Inr (demo_target_record,
    lit ''agents'' @ lit ''/'' @ agent_name (3, 12) (lit ''amd64''),
    Ptrace \<lparr>pl_executable = lit ''bin/'' @ lit ''pydump-loader-linux-x86_64''\<rparr>)"
proof -
  have "103 \<notin> set (lit ''amd64'')" "47 \<notin> set (agent_name (3, 12) (lit ''amd64''))" "agent_name (3, 12) (lit ''amd64'') \<noteq> []"
    "agent_name (3, 12) (lit ''amd64'') \<noteq> lit ''.''"
    by (simp_all add: agent_name_def version_text_def decimal_text_def decimal_digits.simps, simp_all add: lit_def)
  then have "path_name (lit ''agents'' @ 47 # agent_name (3, 12) (lit ''amd64'')) = agent_name (3, 12) (lit ''amd64'')"
    by (intro path_name_plain)
  moreover have "lit ''agents'' @ lit ''/'' @ s = lit ''agents'' @ 47 # s" for s by (simp add: lit_def)
  ultimately have "verify_agent (\<lambda>_. True) 8 (lit ''agents'' @ lit ''/'' @ agent_name (3, 12) (lit ''amd64'')) demo_target_record = Inr ()"
    using agent_name_recognised [of "lit ''amd64''" 12 12] \<open>103 \<notin> set (lit ''amd64'')\<close>
    by (simp add: verify_agent_def demo_target_record_def)
  moreover have "ca_pid demo_arguments = Some 42" "ca_docker_container demo_arguments = None" "ca_agent demo_arguments = None"
    by (simp_all add: demo_arguments_def)
  moreover have "su_system demo_surroundings = demo_system (JInt 42)" "hs_machine (su_host demo_surroundings) = lit ''amd64''"
    "fl_exists (su_files demo_surroundings) = (\<lambda>_. True)" "fl_is_file (su_files demo_surroundings) = (\<lambda>_. True)"
    "su_agents_dir demo_surroundings = lit ''agents'' @ lit ''/''"
    by (simp_all add: demo_surroundings_def demo_host_def demo_tools_def)
  moreover have "tg_python_minor demo_target_record = (3, 12)" by (simp add: demo_target_record_def)
  ultimately show ?thesis
    by (simp add: prepare_def demo_target demo_loader bundled_agent_def flip: demo_target_record_def)
qed

definition demo_world :: world where
  "demo_world = \<lparr>wo_files = Map.empty,
     wo_installed = [lit ''agents'' @ lit ''/'' @ agent_name (3, 12) (lit ''amd64'') \<mapsto> ([1], 420)], wo_calls = [], wo_lines = []\<rparr>"

text \<open>Nothing goes wrong in this run.\<close>

lemma demo_started: "start_loader demo_surroundings (Ptrace loader) request = Inr ()"
proof -
  have "confirms (strip AGENT_STARTED_MARKER)"
    unfolding confirms_def by (subst splitlines.simps)
      (simp add: AGENT_STARTED_MARKER_def lit_def strip_def is_space_def is_line_break_def)
  then show ?thesis by (simp add: start_loader_def ptrace_start_def demo_surroundings_def catching_def)
qed

lemma installs_known:
  "files source = Some (content, mode) \<Longrightarrow>
    \<exists>host_path target_path files'. install_agent sha256 target source files = (Inr (host_path, target_path), files')"
  by (auto simp: install_agent_def Let_def)

lemma demo_smooth:
  "\<exists>request loader. smooth demo_surroundings demo_arguments demo_world demo_target_record loader request \<and> lq_timeout request = 30"
proof -
  obtain host_path agent_path agents where installed: "install_agent (su_sha256 demo_surroundings) demo_target_record
      (lit ''agents'' @ lit ''/'' @ agent_name (3, 12) (lit ''amd64'')) (wo_installed demo_world) =
      (Inr (host_path, agent_path), agents)"
    using installs_known [of "wo_installed demo_world"] by (fastforce simp: demo_world_def)
  have "su_mkdtemp demo_surroundings dir = Inr (dir @ 47 # lit ''pydump-a'')" "su_call demo_surroundings c = Inr ()" for dir c
    by (simp_all add: demo_surroundings_def)
  moreover have "fs_owner (su_system demo_surroundings) demo_target_record = Inr (5, 6)"
    using demo_owner by (simp add: demo_surroundings_def)
  moreover have "socket_timeout (ca_timeout demo_arguments) = Inr 30" by (simp add: socket_timeout_def demo_arguments_def)
  ultimately show ?thesis
    unfolding smooth_def using demo_prepared installed demo_started
    by (intro exI [of _ "make_request demo_surroundings demo_arguments demo_target_record agent_path
        ((target_root demo_target_record @ lit ''/tmp'') @ 47 # lit ''pydump-a'') 30"] exI conjI)
      (assumption | simp add: make_request_def | blast)+
qed

lemma demo_runs_steadily:
  "socket_timeout (ca_timeout demo_arguments) = Inr timeout \<Longrightarrow>
    steady (su_started demo_surroundings + timeout) (su_polls demo_surroundings)"
  using demo_steady by (simp add: demo_arguments_def socket_timeout_def demo_surroundings_def)

lemma demo_order: "iterates (su_order demo_surroundings)" "finite (dom (wo_files demo_world))"
  by (simp_all add: demo_surroundings_def iterates_sorted demo_world_def)

lemma demo_connects: "lq_timeout request = 30 \<Longrightarrow> connects demo_surroundings request"
  unfolding connects_def by (intro exI [of _ 1]) (simp add: demo_surroundings_def waited_def idle_def demo_polls_def)

definition demo_file :: path where "demo_file = ([], lit ''out'')"

lemma demo_free:
  "available_output_path (wo_files demo_world) (path_pair (ca_file demo_arguments)) = Some demo_file"
  "wo_files demo_world path = None"
  by (simp_all add: available_output_path_def demo_world_def demo_arguments_def path_pair_def path_parts_def path_root_def
      demo_file_def, simp_all add: path_root_def lit_def starts_with_def)

theorem run_cli_outcome_witness:
  "\<exists>r w'. run_cli demo_surroundings demo_arguments demo_world = Some (r, w')"
  using run_cli_outcome [OF demo_order demo_runs_steadily] by blast


text \<open>The same, with an agent that stays silent.\<close>

theorem silent_agent_uncaught_witness:
  "\<exists>w' e. collector_main (demo_surroundings\<lparr>su_sock := silent_sock\<rparr>) (render_arguments demo_arguments) demo_world =
      Some (Uncaught e, w') \<and> exn_class_of e = TimeoutError \<and> wo_files w' = Map.empty"
proof -
  let ?su = "demo_surroundings\<lparr>su_sock := silent_sock\<rparr>"
  obtain request loader where smooth: "smooth demo_surroundings demo_arguments demo_world demo_target_record loader request"
    and "lq_timeout request = 30" using demo_smooth by blast
  note connects = demo_connects [OF this(2)]
  have "prepare ?su = prepare demo_surroundings" "make_request ?su = make_request demo_surroundings"
    "start_loader ?su = start_loader demo_surroundings"
    by (simp_all add: prepare_def choose_loader_def make_request_def start_loader_def fun_eq_iff cong: option.case_cong any_loader.case_cong)
  with smooth have silent: "smooth ?su demo_arguments demo_world demo_target_record loader request"
    by (simp add: smooth_def)
  have "connects ?su request" using connects by (simp add: connects_def)
  moreover have "collector_init (su_nonce ?su) (ca_str_repr_len demo_arguments) (\<not> ca_no_attribute demo_arguments) 256 True =
      Inr demo_cli_cfg" using demo_cli_init by simp
  moreover have "sk_peer (su_sock ?su) = (\<lambda>_. ([], False))" by (simp add: silent_sock_def)
  ultimately show ?thesis
    using silent_agent_uncaught [OF demo_parsed silent _ _ demo_free(1) demo_free(2)] by (fastforce simp: demo_world_def)
qed

lemma demo_cli_run:
  "\<exists>w' request. run_cli demo_surroundings demo_arguments demo_world = Some (Inr demo_file, w') \<and>
    Start_thread request \<in> set (wo_calls w')"
proof -
  obtain request loader where smooth: "smooth demo_surroundings demo_arguments demo_world demo_target_record loader request"
    and "lq_timeout request = 30" using demo_smooth by blast
  note connects = demo_connects [OF this(2)]
  have sock: "su_sock demo_surroundings = demo_sock" "iterates (su_order demo_surroundings)"
    by (simp_all add: demo_surroundings_def iterates_sorted)
  from agent_capture [OF sock(2) demo_cli_honest demo_cli_fits demo_free, of "su_date demo_surroundings" "\<lambda>_. 2"] obtain d n where
    d: "capture (su_order demo_surroundings) demo_cli_cfg (su_date demo_surroundings) demo_sock (wo_files demo_world)
      (path_pair (ca_file demo_arguments)) = Some d" "dl_result d = Inr (demo_file, n)" by blast
  have "capture_step demo_surroundings demo_arguments w1 = Some (Inr (demo_file, n, dl_stats d),
      w1\<lparr>wo_files := dl_files d, wo_lines := wo_lines w1 @ progress_lines demo_surroundings (dl_progress d)\<rparr>)"
    if "wo_files w1 = wo_files demo_world" for w1
    using d that by (simp add: capture_step_def demo_cli_init sock(1))
  from smooth_run [OF smooth connects this] show ?thesis by blast
qed

theorem private_socket_witness:
  "\<exists>w' host_temp front request. run_cli demo_surroundings demo_arguments demo_world = Some (Inr demo_file, w') \<and>
    wo_calls w' = front @ [Remove_directory host_temp] \<and> Start_thread request \<in> set front"
proof -
  from demo_cli_run obtain w' request where run: "run_cli demo_surroundings demo_arguments demo_world = Some (Inr demo_file, w')"
    "Start_thread request \<in> set (wo_calls w')" by blast
  have "creates_inside (su_mkdtemp demo_surroundings)"
    by (simp add: creates_inside_def demo_surroundings_def) (simp add: lit_def)
  then obtain host_temp front where "wo_calls w' = front @ [Remove_directory host_temp]"
    using private_socket [OF run(1)] run(2) by (fastforce simp: demo_world_def)
  with run show ?thesis by auto
qed

end
