(* ===== verification/Retained.thy ===== *)
theory Retained
  imports Analyzer_Model
begin

text \<open>
  \<^verbatim>\<open>analyzer/python/src/pydump_analyzer/retained.py\<close>: how many bytes of the heap go away with an
  object or with a thread. \<open>inbound_references\<close> is the index of who refers to whom;
  \<open>find_strict_subtrees\<close> finds objects that own everything below them; \<open>retained_heap\<close> deletes
  an object (or the locals of a thread), decrements the inbound counts of what it referred to,
  and goes on with what nobody refers to any more.

  The order in which Python iterates over a set is the parameter \<open>it\<close> of the definitions. A
  subscript of a dictionary that lacks the key is a \<^verbatim>\<open>KeyError\<close>. The loop of
  \<open>find_strict_subtrees\<close> is a \<open>partial_function\<close>, whose value \<open>None\<close> stands for not
  returning; that it returns is a theorem.
\<close>

section \<open>Inbound references\<close>

definition add_inbound :: "address \<Rightarrow> address \<Rightarrow> (address \<rightharpoonup> address set) \<Rightarrow> (address \<rightharpoonup> address set)" where
  "add_inbound a referent m =
     m(referent \<mapsto> insert a (case m referent of None \<Rightarrow> {} | Some s \<Rightarrow> s))"

definition add_object :: "set_order \<Rightarrow> address \<times> heap_object \<Rightarrow> (address \<rightharpoonup> address set) \<Rightarrow> (address \<rightharpoonup> address set)" where
  "add_object it entry m =
     (let a = fst entry; m = (if m a = None then m(a \<mapsto> {}) else m) in
      fold (add_inbound a) (it (ho_referents (snd entry))) m)"

definition inbound_references :: "set_order \<Rightarrow> heap \<Rightarrow> (address \<rightharpoonup> address set)" where
  "inbound_references it h = fold (add_object it) (h_objects h) Map.empty"

section \<open>Strict subtrees\<close>

text \<open>The state of the calculator: its set of subtree roots and the sizes found so far.\<close>

record subtrees =
  st_roots :: "address set"
  st_retained :: "address \<rightharpoonup> int"

definition leaf_step ::
  "(address \<rightharpoonup> address set) \<Rightarrow> address \<times> heap_object \<Rightarrow> subtrees \<times> address set \<Rightarrow> (subtrees \<times> address set) res" where
  "leaf_step inbound entry state =
     (let address = fst entry; obj = snd entry; st = fst state; front = snd state in
      if ho_referents obj \<noteq> {} then Inr state
      else rbind (subscript inbound address) (\<lambda>refs.
        if \<not> card refs < 2 then Inr state
        else Inr (\<lparr>st_roots = insert address (st_roots st),
                   st_retained = (st_retained st)(address \<mapsto> ho_size obj)\<rparr>, front \<union> refs)))"

definition front_step ::
  "set_order \<Rightarrow> heap \<Rightarrow> (address \<rightharpoonup> address set) \<Rightarrow> address \<Rightarrow> subtrees \<times> address set \<Rightarrow> (subtrees \<times> address set) res" where
  "front_step it h inbound address state =
     (let st = fst state; next_front = snd state in
      rbind (subscript (map_of (h_objects h)) address) (\<lambda>obj.
      rbind (subscript inbound address) (\<lambda>refs.
      if card refs > 1 then Inr state
      else if ho_referents obj - st_roots st \<noteq> {} then Inr (st, insert address next_front)
      else rbind (rmap (subscript (st_retained st)) (it (ho_referents obj))) (\<lambda>sizes.
        Inr (\<lparr>st_roots = insert address (st_roots st),
              st_retained = (st_retained st)(address \<mapsto> ho_size obj + sum_list sizes)\<rparr>,
             next_front \<union> refs)))))"

partial_function (option) subtree_loop ::
  "set_order \<Rightarrow> heap \<Rightarrow> (address \<rightharpoonup> address set) \<Rightarrow> subtrees \<Rightarrow> address set \<Rightarrow> subtrees res option" where
  "subtree_loop it h inbound st front =
     (case res_fold (front_step it h inbound) (it front) (st, {}) of
        Inl e \<Rightarrow> Some (Inl e)
      | Inr (st', next_front) \<Rightarrow>
          if next_front = front then Some (Inr st')
          else subtree_loop it h inbound st' next_front)"

definition find_strict_subtrees ::
  "set_order \<Rightarrow> heap \<Rightarrow> (address \<rightharpoonup> address set) \<Rightarrow> subtrees \<Rightarrow> subtrees res option" where
  "find_strict_subtrees it h inbound st =
     (case res_fold (leaf_step inbound) (h_objects h) (st, {}) of
        Inl e \<Rightarrow> Some (Inl e)
      | Inr (st, front) \<Rightarrow> subtree_loop it h inbound st front)"

section \<open>Deleting what nobody refers to\<close>

text \<open>
  The variables of \<open>_delete_unreferenced\<close>: the list \<open>front\<close> and the dictionary \<open>inbound_view\<close>,
  both mutated in place, the set \<open>deleted\<close>, and the two results.
\<close>

record deletion =
  d_front :: "address list"
  d_view :: "address \<rightharpoonup> int"
  d_deleted :: "address set"
  d_retained :: int
  d_happened :: bool

definition decrement_one ::
  "(address \<rightharpoonup> address set) \<Rightarrow> address \<Rightarrow> (address \<rightharpoonup> int) \<Rightarrow> (address \<rightharpoonup> int) res" where
  "decrement_one inbound address view =
     (case view address of
        Some n \<Rightarrow> Inr (view(address \<mapsto> n - 1))
      | None \<Rightarrow> rbind (subscript inbound address) (\<lambda>refs. Inr (view(address \<mapsto> int (card refs) - 1))))"

definition decrement_inbound ::
  "set_order \<Rightarrow> (address \<rightharpoonup> address set) \<Rightarrow> address set \<Rightarrow> (address \<rightharpoonup> int) \<Rightarrow> (address \<rightharpoonup> int) res" where
  "decrement_inbound it inbound addresses = res_fold (decrement_one inbound) (it addresses)"

definition pop_at :: "nat \<Rightarrow> 'a list \<Rightarrow> 'a list" where
  "pop_at i xs = take i xs @ drop (Suc i) xs"

text \<open>\<open>delete_from n\<close> is the loop for the indices \<open>n - 1\<close> down to \<open>0\<close>.\<close>

fun delete_from ::
  "set_order \<Rightarrow> heap \<Rightarrow> (address \<rightharpoonup> address set) \<Rightarrow> subtrees \<Rightarrow> bool \<Rightarrow> nat \<Rightarrow> deletion \<Rightarrow> deletion res" where
  "delete_from it h inbound st use_subtrees 0 d = Inr d"
| "delete_from it h inbound st use_subtrees (Suc index) d =
     (if length (d_front d) \<le> index then raise IndexError ''list index out of range'' []
      else
        let current = d_front d ! index in
        rbind (subscript (d_view d) current) (\<lambda>count.
        if count > 0 then Inr d
        else if current \<in> d_deleted d then delete_from it h inbound st use_subtrees index d
        else
          let d = d\<lparr>d_front := pop_at index (d_front d), d_deleted := insert current (d_deleted d),
                    d_happened := True\<rparr> in
          if use_subtrees \<and> current \<in> st_roots st then
            rbind (subscript (st_retained st) current) (\<lambda>size.
            delete_from it h inbound st use_subtrees index (d\<lparr>d_retained := d_retained d + size\<rparr>))
          else
            case map_of (h_objects h) current of
              None \<Rightarrow> delete_from it h inbound st use_subtrees index d
            | Some obj \<Rightarrow>
                let new_front = ho_referents obj - d_deleted d in
                rbind (decrement_inbound it inbound new_front (d_view d)) (\<lambda>view.
                delete_from it h inbound st use_subtrees index
                  (d\<lparr>d_retained := d_retained d + ho_size obj, d_view := view,
                     d_front := d_front d @ it new_front\<rparr>))))"

definition delete_unreferenced ::
  "set_order \<Rightarrow> heap \<Rightarrow> (address \<rightharpoonup> address set) \<Rightarrow> subtrees \<Rightarrow> bool \<Rightarrow> deletion \<Rightarrow> deletion res" where
  "delete_unreferenced it h inbound st use_subtrees d =
     delete_from it h inbound st use_subtrees (length (d_front d)) (d\<lparr>d_retained := 0, d_happened := False\<rparr>)"

text \<open>
  \<open>front.sort(key=inbound_view.__getitem__, reverse=True)\<close> is stable, and raises if a key is
  missing.
\<close>

definition sort_front :: "(address \<rightharpoonup> int) \<Rightarrow> address list \<Rightarrow> address list res" where
  "sort_front view front =
     rbind (rmap (subscript view) front) (\<lambda>_. Inr (sort_key (\<lambda>a. - the (view a)) front))"

text \<open>The result of a loop that may not return, or raise.\<close>

definition obind :: "'a res option \<Rightarrow> ('a \<Rightarrow> 'b res option) \<Rightarrow> 'b res option" where
  "obind m f = (case m of None \<Rightarrow> None | Some (Inl e) \<Rightarrow> Some (Inl e) | Some (Inr x) \<Rightarrow> f x)"

partial_function (option) retained_loop ::
  "set_order \<Rightarrow> heap \<Rightarrow> (address \<rightharpoonup> address set) \<Rightarrow> subtrees \<Rightarrow> bool \<Rightarrow> int \<Rightarrow> deletion \<Rightarrow> int res option" where
  "retained_loop it h inbound st use_subtrees retained d =
     (case sort_front (d_view d) (d_front d) of
        Inl e \<Rightarrow> Some (Inl e)
      | Inr front \<Rightarrow>
          (case delete_unreferenced it h inbound st use_subtrees (d\<lparr>d_front := front\<rparr>) of
             Inl e \<Rightarrow> Some (Inl e)
           | Inr d' \<Rightarrow>
               if \<not> d_happened d' then Some (Inr retained)
               else retained_loop it h inbound st use_subtrees (retained + d_retained d') d'))"

definition retained_heap ::
  "set_order \<Rightarrow> heap \<Rightarrow> (address \<rightharpoonup> address set) \<Rightarrow> subtrees \<Rightarrow> (address \<rightharpoonup> int) \<Rightarrow> address list \<Rightarrow> bool \<Rightarrow>
   int res option" where
  "retained_heap it h inbound st view front use_subtrees =
     retained_loop it h inbound st use_subtrees 0
       \<lparr>d_front = front, d_view = view, d_deleted = {}, d_retained = 0, d_happened = False\<rparr>"

definition retained_heap_for_object ::
  "set_order \<Rightarrow> heap \<Rightarrow> (address \<rightharpoonup> address set) \<Rightarrow> subtrees \<Rightarrow> address \<Rightarrow> int res option" where
  "retained_heap_for_object it h inbound st address =
     retained_heap it h inbound st [address \<mapsto> 0] [address] True"

section \<open>The calculator\<close>

definition other_holders :: "heap \<Rightarrow> heap_thread \<Rightarrow> address \<Rightarrow> int" where
  "other_holders h removed address =
     int (length (filter (\<lambda>thread. thread \<noteq> removed \<and> address \<in> thread_locals thread) (h_threads h)))"

definition thread_view ::
  "set_order \<Rightarrow> heap \<Rightarrow> (address \<rightharpoonup> address set) \<Rightarrow> heap_thread \<Rightarrow> (address \<rightharpoonup> int) res" where
  "thread_view it h inbound removed =
     res_fold (\<lambda>address view. rbind (subscript inbound address) (\<lambda>refs.
       Inr (view(address \<mapsto> int (card refs) + other_holders h removed address))))
       (it (thread_locals removed)) Map.empty"

record calculator =
  c_subtrees :: subtrees
  c_threads :: "pystr \<rightharpoonup> int"
  c_calculated :: bool

definition calculator_init :: calculator where
  "calculator_init = \<lparr>c_subtrees = \<lparr>st_roots = {}, st_retained = Map.empty\<rparr>, c_threads = Map.empty,
     c_calculated = False\<rparr>"

record retained_result =
  rh_objects :: "address \<rightharpoonup> int"
  rh_threads :: "pystr \<rightharpoonup> int"

primrec calculate_objects ::
  "set_order \<Rightarrow> heap \<Rightarrow> (address \<rightharpoonup> address set) \<Rightarrow> address list \<Rightarrow> subtrees \<Rightarrow> subtrees res option" where
  "calculate_objects it h inbound [] st = Some (Inr st)"
| "calculate_objects it h inbound (a # as) st =
     obind (retained_heap_for_object it h inbound st a) (\<lambda>size.
     calculate_objects it h inbound as (st\<lparr>st_retained := (st_retained st)(a \<mapsto> size)\<rparr>))"

primrec calculate_threads ::
  "set_order \<Rightarrow> heap \<Rightarrow> (address \<rightharpoonup> address set) \<Rightarrow> subtrees \<Rightarrow> heap_thread list \<Rightarrow> (pystr \<rightharpoonup> int) \<Rightarrow>
   (pystr \<rightharpoonup> int) res option" where
  "calculate_threads it h inbound st [] result = Some (Inr result)"
| "calculate_threads it h inbound st (thread # threads) result =
     obind (Some (thread_view it h inbound thread)) (\<lambda>view.
     obind (retained_heap it h inbound st view (it (thread_locals thread)) False) (\<lambda>size.
     calculate_threads it h inbound st threads (result(ht_name thread \<mapsto> size))))"

definition calculate ::
  "set_order \<Rightarrow> heap \<Rightarrow> (address \<rightharpoonup> address set) \<Rightarrow> calculator \<Rightarrow> (retained_result \<times> calculator) res option" where
  "calculate it h inbound c =
     (if c_calculated c then Some (raise ValueError ''retained heap is already calculated'' [])
      else
        obind (find_strict_subtrees it h inbound (c_subtrees c)) (\<lambda>st.
        obind (calculate_objects it h inbound (map fst (h_objects h)) st) (\<lambda>st.
        obind (calculate_threads it h inbound st (h_threads h) (c_threads c)) (\<lambda>threads.
        Some (Inr (\<lparr>rh_objects = st_retained st, rh_threads = threads\<rparr>,
                   \<lparr>c_subtrees = st, c_threads = threads, c_calculated = True\<rparr>))))))"

definition get_for_object :: "retained_result \<Rightarrow> address \<Rightarrow> int option" where
  "get_for_object r address = rh_objects r address"

definition get_for_thread :: "retained_result \<Rightarrow> pystr \<Rightarrow> int res" where
  "get_for_thread r name = subscript (rh_threads r) name"

text \<open>The retained size or \<open>0\<close>: Python's \<open>or\<close> maps a stored \<open>0\<close> to the same \<open>0\<close>.\<close>

definition objects_sorted_by_retained_heap :: "heap \<Rightarrow> retained_result \<Rightarrow> (address \<times> int) list" where
  "objects_sorted_by_retained_heap h r =
     sort_key (\<lambda>item. - snd item)
       (map (\<lambda>a. (a, case get_for_object r a of Some n \<Rightarrow> n | None \<Rightarrow> 0)) (map fst (h_objects h)))"

definition total_heap_size :: "heap \<Rightarrow> int" where
  "total_heap_size h = sum_list (map (\<lambda>entry. ho_size (snd entry)) (h_objects h))"

end
