(* ===== verification/Retained_Graph.thy ===== *)
theory Retained_Graph
  imports Retained
begin

text \<open>
  The heap as a graph, and what \<open>Retained\<close> computes on it. \<open>freed\<close> is the reference-counting
  closure: the least set of objects that contains the deleted ones and every object that is
  referred to from it, by nothing outside it, and by no other thread. \<open>strict\<close> are the objects
  whose descendants all have one referrer; below them the graph is a forest, so that their sizes
  add up. The locale \<open>reference_index\<close> is what the calculator needs of the index of inbound
  references, interpreted on \<open>inbound_references\<close>.
\<close>

section \<open>The graph\<close>

definition referents_of :: "heap \<Rightarrow> address \<Rightarrow> address set" where
  "referents_of h a = (case map_of (h_objects h) a of None \<Rightarrow> {} | Some obj \<Rightarrow> ho_referents obj)"

definition size_of :: "heap \<Rightarrow> address \<Rightarrow> int" where
  "size_of h a = (case map_of (h_objects h) a of None \<Rightarrow> 0 | Some obj \<Rightarrow> ho_size obj)"

definition inbound_set :: "heap \<Rightarrow> address \<Rightarrow> address set" where
  "inbound_set h x = {a. x \<in> referents_of h a}"

definition graph_ok :: "heap \<Rightarrow> bool" where
  "graph_ok h \<longleftrightarrow> dict_ok (h_objects h) \<and> (\<forall>(a, obj) \<in> set (h_objects h). finite (ho_referents obj))"

definition node :: "heap \<Rightarrow> address \<Rightarrow> bool" where
  "node h x \<longleftrightarrow> map_of (h_objects h) x \<noteq> None \<or> inbound_set h x \<noteq> {}"

definition indexed :: "heap \<Rightarrow> (address \<rightharpoonup> address set) \<Rightarrow> bool" where
  "indexed h inbound \<longleftrightarrow> (\<forall>x. inbound x = (if node h x then Some (inbound_set h x) else None))"

lemma finite_objects: "finite {a. map_of (h_objects h) a \<noteq> None}"
  using finite_dom_map_of [of "h_objects h"] by (simp add: dom_def)

lemma referents_object: "x \<in> referents_of h a \<Longrightarrow> map_of (h_objects h) a \<noteq> None"
  by (auto simp: referents_of_def split: option.splits)

lemma finite_inbound_set: "finite (inbound_set h x)"
  by (rule finite_subset [OF _ finite_objects [of h]]) (auto simp: inbound_set_def dest: referents_object)

lemma finite_referents_of: "graph_ok h \<Longrightarrow> finite (referents_of h a)"
  by (auto simp: graph_ok_def referents_of_def split: option.splits dest!: map_of_SomeD)

lemma in_inbound_set [simp]: "a \<in> inbound_set h x \<longleftrightarrow> x \<in> referents_of h a"
  by (simp add: inbound_set_def)

subsection \<open>The index of inbound references\<close>

lemma fold_add_inbound:
  "fold (add_inbound a) xs m x =
     (if x \<in> set xs then Some (insert a (case m x of None \<Rightarrow> {} | Some s \<Rightarrow> s)) else m x)"
  by (induction xs arbitrary: m) (auto simp: add_inbound_def)

definition holders :: "(address \<times> heap_object) list \<Rightarrow> address \<Rightarrow> address set" where
  "holders es x = fst ` {e \<in> set es. x \<in> ho_referents (snd e)}"

lemma holders_simps [simp]:
  "holders [] x = {}"
  "holders (e # es) x = (if x \<in> ho_referents (snd e) then insert (fst e) (holders es x) else holders es x)"
  by (auto simp: holders_def)

definition known_so_far :: "(address \<rightharpoonup> address set) \<Rightarrow> address \<Rightarrow> address set" where
  "known_so_far m x = (case m x of None \<Rightarrow> {} | Some s \<Rightarrow> s)"

lemma add_object_run:
  assumes "set (it (ho_referents (snd e))) = ho_referents (snd e)"
  shows "add_object it e m x = (if x = fst e \<or> x \<in> ho_referents (snd e)
    then Some (known_so_far m x \<union> (if x \<in> ho_referents (snd e) then {fst e} else {})) else m x)"
  using assms by (auto simp: add_object_def Let_def fold_add_inbound known_so_far_def split: option.splits)

lemma fold_add_object:
  assumes "\<forall>e \<in> set es. set (it (ho_referents (snd e))) = ho_referents (snd e)"
  shows "fold (add_object it) es m x =
    (if x \<in> fst ` set es \<or> holders es x \<noteq> {} then Some (known_so_far m x \<union> holders es x) else m x)"
  using assms
proof (induction es arbitrary: m)
  case (Cons e es)
  then have "set (it (ho_referents (snd e))) = ho_referents (snd e)" by simp
  note add = add_object_run [where it = it and e = e and m = m and x = x, OF this]
  have "known_so_far (add_object it e m) x =
      (if x = fst e \<or> x \<in> ho_referents (snd e)
       then known_so_far m x \<union> (if x \<in> ho_referents (snd e) then {fst e} else {}) else known_so_far m x)"
    unfolding known_so_far_def [of "add_object it e m"] add by (simp add: known_so_far_def)
  moreover have "fold (add_object it) es (add_object it e m) x =
      (if x \<in> fst ` set es \<or> holders es x \<noteq> {} then Some (known_so_far (add_object it e m) x \<union> holders es x)
       else add_object it e m x)"
    using Cons by simp
  ultimately show ?case using add
    by (cases "x \<in> ho_referents (snd e)"; cases "x = fst e"; cases "holders es x = {}"; cases "x \<in> fst ` set es")
      simp_all
qed simp

lemma inbound_references_indexed:
  assumes "iterates it" and "graph_ok h"
  shows "indexed h (inbound_references it h)"
proof -
  have it: "\<forall>e \<in> set (h_objects h). set (it (ho_referents (snd e))) = ho_referents (snd e)"
    using assms(2) by (auto simp: graph_ok_def intro!: iteratesD(1) [OF assms(1)])
  have entry: "map_of (h_objects h) a = Some obj \<longleftrightarrow> (a, obj) \<in> set (h_objects h)" for a obj
    using assms(2) by (simp add: graph_ok_def dict_ok_def)
  have holders: "holders (h_objects h) x = inbound_set h x" for x
  proof (intro set_eqI iffI)
    fix a
    assume "a \<in> holders (h_objects h) x"
    then show "a \<in> inbound_set h x" by (auto simp: holders_def referents_of_def entry [symmetric])
  next
    fix a
    assume "a \<in> inbound_set h x"
    then obtain obj where "map_of (h_objects h) a = Some obj" "x \<in> ho_referents obj"
      by (auto simp: referents_of_def split: option.splits)
    then have "(a, obj) \<in> {e \<in> set (h_objects h). x \<in> ho_referents (snd e)}" by (simp add: entry)
    from imageI [OF this, of fst] show "a \<in> holders (h_objects h) x" by (simp add: holders_def)
  qed
  have "node h x \<longleftrightarrow> x \<in> fst ` set (h_objects h) \<or> holders (h_objects h) x \<noteq> {}" for x
    by (auto simp: node_def holders map_of_eq_None_iff)
  then show ?thesis
    unfolding indexed_def inbound_references_def fold_add_object [OF it]
    by (simp add: known_so_far_def holders)
qed

text \<open>
  The interface between the index and the calculator: for every heap the index answers for the
  objects and their referents, and only for them.
\<close>

locale reference_index =
  fixes index :: "heap \<Rightarrow> address \<rightharpoonup> address set"
  assumes indexes: "graph_ok h \<Longrightarrow> indexed h (index h)"
begin

lemma lookup: "graph_ok h \<Longrightarrow> node h x \<Longrightarrow> subscript (index h) x = Inr (inbound_set h x)"
  using indexes [of h] by (simp add: indexed_def)

lemma missing: "graph_ok h \<Longrightarrow> \<not> node h x \<Longrightarrow> subscript (index h) x = raise KeyError ''missing key'' []"
  using indexes [of h] by (simp add: indexed_def subscript_def)

end

lemma inbound_references_index: "iterates it \<Longrightarrow> reference_index (inbound_references it)"
  by unfold_locales (rule inbound_references_indexed)

interpretation ascending: reference_index "inbound_references sorted_list_of_set"
  by (rule inbound_references_index [OF iterates_sorted])

section \<open>Strict subtrees\<close>

inductive_set strict :: "heap \<Rightarrow> address set" for h where
  "map_of (h_objects h) a \<noteq> None \<Longrightarrow> card (inbound_set h a) < 2 \<Longrightarrow>
   \<forall>y \<in> referents_of h a. y \<in> strict h \<Longrightarrow> a \<in> strict h"

definition edges :: "heap \<Rightarrow> (address \<times> address) set" where
  "edges h = {(a, x). x \<in> referents_of h a}"

definition below :: "heap \<Rightarrow> address \<Rightarrow> address set" where
  "below h a = (edges h)\<^sup>* `` {a}"

lemma below_refl [simp]: "a \<in> below h a"
  by (simp add: below_def)

lemma below_step: "x \<in> below h a \<Longrightarrow> y \<in> referents_of h x \<Longrightarrow> y \<in> below h a"
  by (auto simp: below_def edges_def intro: rtrancl.rtrancl_into_rtrancl)

lemma below_trans: "x \<in> below h a \<Longrightarrow> y \<in> below h x \<Longrightarrow> y \<in> below h a"
  by (auto simp: below_def)

lemma below_cases: "x \<in> below h a \<Longrightarrow> x = a \<or> (\<exists>p \<in> below h a. x \<in> referents_of h p)"
  by (auto simp: below_def edges_def elim: rtranclE)

lemma below_unfold: "below h a = insert a (\<Union>y \<in> referents_of h a. below h y)"
proof -
  have "x = a \<or> (\<exists>y \<in> referents_of h a. x \<in> below h y)" if "x \<in> below h a" for x
    using that by (auto simp: below_def edges_def elim: converse_rtranclE)
  moreover have "x \<in> below h a" if "y \<in> referents_of h a" "x \<in> below h y" for x y
    using below_trans [OF below_step [OF below_refl that(1)] that(2)] .
  ultimately show ?thesis by auto
qed

lemma below_induct [consumes 1, case_names self step]:
  assumes "x \<in> below h a" and "P a"
    and "\<And>p y. p \<in> below h a \<Longrightarrow> P p \<Longrightarrow> y \<in> referents_of h p \<Longrightarrow> P y"
  shows "P x"
proof -
  from assms(1) have "(a, x) \<in> (edges h)\<^sup>*" by (simp add: below_def)
  then show ?thesis
    by (induction rule: rtrancl_induct) (use assms(2,3) in \<open>auto simp: below_def edges_def\<close>)
qed

lemma strict_object: "a \<in> strict h \<Longrightarrow> map_of (h_objects h) a \<noteq> None"
  by (erule strict.cases) simp

lemma strict_referents: "a \<in> strict h \<Longrightarrow> y \<in> referents_of h a \<Longrightarrow> y \<in> strict h"
  by (erule strict.cases) simp

lemma finite_strict: "finite (strict h)"
  by (rule finite_subset [OF _ finite_objects [of h]]) (auto dest: strict_object)

lemma strict_parent: "x \<in> strict h \<Longrightarrow> x \<in> referents_of h p \<Longrightarrow> x \<in> referents_of h q \<Longrightarrow> p = q"
proof (erule strict.cases)
  fix a
  assume "x = a" "card (inbound_set h a) < 2" "x \<in> referents_of h p" "x \<in> referents_of h q"
  then show "p = q"
    using card_le_Suc0_iff_eq [OF finite_inbound_set, of h x] by (simp add: less_2_cases_iff le_Suc_eq)
qed

lemma strict_below: "x \<in> below h a \<Longrightarrow> a \<in> strict h \<Longrightarrow> x \<in> strict h"
  by (induction rule: below_induct) (auto intro: strict_referents)

lemma finite_below: "a \<in> strict h \<Longrightarrow> finite (below h a)"
  by (rule finite_subset [OF _ finite_strict [of h]]) (auto intro: strict_below)

lemma strict_acyclic: "a \<in> strict h \<Longrightarrow> y \<in> referents_of h a \<Longrightarrow> a \<notin> below h y"
proof (induction arbitrary: y rule: strict.induct)
  case (1 a)
  show ?case
  proof
    assume a: "a \<in> below h y"
    with 1 have "a = y \<or> (\<exists>z \<in> referents_of h y. a \<in> below h z)" using below_unfold [of h y] by auto
    moreover have "y \<notin> below h z" if "z \<in> referents_of h y" for z
      using 1 that by blast
    ultimately show False
      using "1.prems" below_step by (metis below_refl)
  qed
qed

text \<open>Going up from a common descendant, the one referrer of each object decides the way.\<close>

lemma below_disjoint:
  assumes r: "r \<in> strict h" and y: "y \<in> referents_of h r" "z \<in> referents_of h r" "y \<noteq> z"
  shows "below h y \<inter> below h z = {}"
proof -
  have yz: "y \<in> strict h" "z \<in> strict h" using r y by (auto intro: strict_referents)
  have "x \<notin> below h z" if "x \<in> below h y" for x
    using that
  proof (induction rule: below_induct)
    case self
    show ?case
    proof
      assume "y \<in> below h z"
      with \<open>y \<noteq> z\<close> below_cases obtain p where "p \<in> below h z" "y \<in> referents_of h p" by blast
      with strict_parent [OF yz(1)] y(1) have "r \<in> below h z" by blast
      with strict_acyclic [OF r y(2)] show False by blast
    qed
  next
    case (step p x)
    have x: "x \<in> strict h" using step strict_below [OF _ yz(1)] strict_referents by blast
    show ?case
    proof
      assume "x \<in> below h z"
      with below_cases consider "x = z" | q where "q \<in> below h z" "x \<in> referents_of h q" by blast
      then show False
      proof cases
        case 1
        with strict_parent [OF x] step y(2) have "r \<in> below h y" by blast
        with strict_acyclic [OF r y(1)] show False by blast
      next
        case 2
        with strict_parent [OF x] step show False by blast
      qed
    qed
  qed
  then show ?thesis by blast
qed

definition weight :: "heap \<Rightarrow> address \<Rightarrow> int" where
  "weight h a = sum (size_of h) (below h a)"

lemma weight_unfold:
  assumes "graph_ok h" and "a \<in> strict h"
  shows "weight h a = size_of h a + (\<Sum>y \<in> referents_of h a. weight h y)"
proof -
  have fin: "finite (below h y)" if "y \<in> referents_of h a" for y
    using finite_below strict_referents [OF assms(2) that] by blast
  have "sum (size_of h) (\<Union>y \<in> referents_of h a. below h y) = (\<Sum>y \<in> referents_of h a. weight h y)"
    unfolding weight_def
    by (rule sum.UNION_disjoint) (use finite_referents_of [OF assms(1)] fin below_disjoint [OF assms(2)] in auto)
  moreover have "a \<notin> (\<Union>y \<in> referents_of h a. below h y)" using strict_acyclic [OF assms(2)] by blast
  ultimately show ?thesis
    unfolding weight_def [of h a] below_unfold [of h a]
    using fin finite_referents_of [OF assms(1)] by (simp add: weight_def)
qed

end
