(* ===== verification/Retained_Deletion.thy ===== *)
theory Retained_Deletion
  imports Retained_Graph
begin

text \<open>
  The deletion loop computes the reference-counting closure: \<open>retained_heap\<close> returns, never
  raises, and its result is the sum of the sizes of \<open>freed\<close>, with and without the shortcut for
  strict subtrees. The invariant \<open>deletion_inv\<close> ties the mutable view of inbound counts to the
  counts in the graph without the deleted objects; the sort before each pass is what makes a pass
  without a deletion mean that nothing is left to delete.
\<close>

section \<open>The closure\<close>

text \<open>
  \<open>F\<close> is deleted outright; \<open>S\<close> are the locals of the removed thread, which go away when nothing
  refers to them and no other thread holds them; \<open>ext\<close> counts those other holders.
\<close>

inductive_set freed :: "heap \<Rightarrow> address set \<Rightarrow> address set \<Rightarrow> (address \<Rightarrow> int) \<Rightarrow> address set"
  for h F S ext where
  forced: "x \<in> F \<Longrightarrow> x \<in> freed h F S ext"
| held: "x \<in> S \<Longrightarrow> ext x = 0 \<Longrightarrow> \<forall>p \<in> inbound_set h x. p \<in> freed h F S ext \<Longrightarrow> x \<in> freed h F S ext"
| referred: "d \<in> freed h F S ext \<Longrightarrow> x \<in> referents_of h d \<Longrightarrow> ext x = 0 \<Longrightarrow>
    \<forall>p \<in> inbound_set h x. p \<in> freed h F S ext \<Longrightarrow> x \<in> freed h F S ext"

definition roots_ok :: "heap \<Rightarrow> address set \<Rightarrow> (address \<rightharpoonup> int) \<Rightarrow> bool" where
  "roots_ok h R retained \<longleftrightarrow>
     (\<forall>r \<in> R. r \<in> strict h \<and> referents_of h r \<subseteq> R \<and> retained r = Some (weight h r))"

text \<open>What has really gone when \<open>deleted\<close> is deleted and subtrees \<open>R\<close> go with their roots.\<close>

definition gone :: "heap \<Rightarrow> address set \<Rightarrow> address set \<Rightarrow> address set" where
  "gone h R deleted = deleted \<union> (\<Union>r \<in> deleted \<inter> R. below h r)"

definition pending :: "heap \<Rightarrow> address set \<Rightarrow> (address \<Rightarrow> int) \<Rightarrow> address set \<Rightarrow> address \<Rightarrow> int option" where
  "pending h S ext E x =
     (if x \<in> S \<or> (\<exists>d \<in> E. x \<in> referents_of h d) then Some (int (card (inbound_set h x - E)) + ext x) else None)"

definition setting_ok :: "heap \<Rightarrow> address set \<Rightarrow> (address \<rightharpoonup> int) \<Rightarrow> address set \<Rightarrow> address set \<Rightarrow> (address \<Rightarrow> int) \<Rightarrow> bool" where
  "setting_ok h R retained F S ext \<longleftrightarrow>
     graph_ok h \<and> roots_ok h R retained \<and> finite S \<and> (R \<noteq> {} \<longrightarrow> S = {}) \<and> (\<forall>x. 0 \<le> ext x) \<and>
     (\<forall>x. x \<notin> S \<longrightarrow> ext x = 0) \<and> (\<forall>a \<in> F. \<forall>b \<in> F. a = b)"

definition view_inv ::
  "heap \<Rightarrow> address set \<Rightarrow> address set \<Rightarrow> address set \<Rightarrow> (address \<Rightarrow> int) \<Rightarrow>
   address list \<Rightarrow> (address \<rightharpoonup> int) \<Rightarrow> address set \<Rightarrow> bool" where
  "view_inv h R F S ext front view deleted \<longleftrightarrow>
     (\<forall>x. x \<notin> gone h R deleted \<longrightarrow> x \<in> F \<longrightarrow> (\<exists>n \<le> 0. view x = Some n)) \<and>
     (\<forall>x. x \<notin> gone h R deleted \<longrightarrow> x \<notin> F \<longrightarrow> view x = pending h S ext (gone h R deleted) x) \<and>
     (\<forall>x \<in> set front. view x \<noteq> None) \<and>
     (\<forall>x. x \<notin> gone h R deleted \<longrightarrow> view x \<noteq> None \<longrightarrow> x \<in> set front)"

definition front_inv ::
  "heap \<Rightarrow> address set \<Rightarrow> address set \<Rightarrow> address set \<Rightarrow> (address \<Rightarrow> int) \<Rightarrow> address list \<Rightarrow> address set \<Rightarrow> bool" where
  "front_inv h R F S ext front deleted \<longleftrightarrow>
     finite deleted \<and> gone h R deleted \<subseteq> freed h F S ext \<and>
     (\<forall>x \<in> set front. x \<in> deleted \<or>
        x \<notin> gone h R deleted \<and> (R = {} \<or> x \<in> F \<or> (\<exists>d \<in> deleted - R. x \<in> referents_of h d))) \<and>
     (\<forall>y \<in> deleted - F. inbound_set h y \<subseteq> gone h R deleted) \<and>
     (F \<subseteq> deleted \<or> set front \<subseteq> F) \<and> (F \<inter> R \<noteq> {} \<longrightarrow> set front \<subseteq> F)"

lemma front_invD:
  assumes "front_inv h R F S ext front deleted"
  shows "finite deleted" "gone h R deleted \<subseteq> freed h F S ext"
    "x \<in> set front \<Longrightarrow> x \<notin> deleted \<Longrightarrow>
       x \<notin> gone h R deleted \<and> (R = {} \<or> x \<in> F \<or> (\<exists>d \<in> deleted - R. x \<in> referents_of h d))"
    "y \<in> deleted \<Longrightarrow> y \<notin> F \<Longrightarrow> inbound_set h y \<subseteq> gone h R deleted"
    "F \<subseteq> deleted \<or> set front \<subseteq> F" "F \<inter> R \<noteq> {} \<Longrightarrow> set front \<subseteq> F"
  using assms unfolding front_inv_def by blast+

lemma front_invI:
  assumes "finite deleted" "gone h R deleted \<subseteq> freed h F S ext"
    "\<And>x. x \<in> set front \<Longrightarrow> x \<notin> deleted \<Longrightarrow>
       x \<notin> gone h R deleted \<and> (R = {} \<or> x \<in> F \<or> (\<exists>d \<in> deleted - R. x \<in> referents_of h d))"
    "\<And>y. y \<in> deleted \<Longrightarrow> y \<notin> F \<Longrightarrow> inbound_set h y \<subseteq> gone h R deleted"
    "F \<subseteq> deleted \<or> set front \<subseteq> F" "F \<inter> R \<noteq> {} \<Longrightarrow> set front \<subseteq> F"
  shows "front_inv h R F S ext front deleted"
  using assms unfolding front_inv_def by blast

lemma setting_okD:
  assumes "setting_ok h R retained F S ext"
  shows "graph_ok h" "roots_ok h R retained" "finite S" "R \<noteq> {} \<Longrightarrow> S = {}" "0 \<le> ext x" "x \<notin> S \<Longrightarrow> ext x = 0"
    "a \<in> F \<Longrightarrow> b \<in> F \<Longrightarrow> a = b"
  using assms unfolding setting_ok_def by blast+

lemma below_in_gone: "r \<in> deleted \<Longrightarrow> r \<in> R \<Longrightarrow> x \<in> below h r \<Longrightarrow> x \<in> gone h R deleted"
  by (auto simp: gone_def)

lemma deleted_gone: "x \<in> deleted \<Longrightarrow> x \<in> gone h R deleted"
  by (simp add: gone_def)

lemma gone_cases:
  "x \<in> gone h R deleted \<Longrightarrow> x \<in> deleted \<or> (\<exists>r \<in> deleted \<inter> R. x \<in> below h r)"
  by (auto simp: gone_def)

lemma gone_insert:
  "gone h R (insert c deleted) = (if c \<in> R then gone h R deleted \<union> below h c else insert c (gone h R deleted))"
  by (auto simp: gone_def)

lemma finite_gone: "roots_ok h R retained \<Longrightarrow> finite deleted \<Longrightarrow> finite (gone h R deleted)"
  by (auto simp: gone_def roots_ok_def intro: finite_below)

lemma roots_below: "roots_ok h R retained \<Longrightarrow> r \<in> R \<Longrightarrow> x \<in> below h r \<Longrightarrow> x \<in> R"
  by (rotate_tac 2, induction rule: below_induct) (auto simp: roots_ok_def)

lemma root_parent:
  "roots_ok h R retained \<Longrightarrow> x \<in> R \<Longrightarrow> x \<in> referents_of h p \<Longrightarrow> x \<in> referents_of h q \<Longrightarrow> p = q"
  by (rule strict_parent) (auto simp: roots_ok_def)

text \<open>What can be deleted now is in the closure.\<close>

lemma deletable_freed:
  assumes view: "view_inv h R F S ext front view deleted" and front: "front_inv h R F S ext front deleted"
    and set: "setting_ok h R retained F S ext"
    and c: "c \<in> set front" "c \<notin> deleted" "view c = Some n" "n \<le> 0"
  shows "c \<in> freed h F S ext" and "c \<notin> F \<Longrightarrow> inbound_set h c \<subseteq> gone h R deleted" and "c \<notin> gone h R deleted"
proof -
  let ?E = "gone h R deleted"
  show c_out: "c \<notin> ?E" using front c by (auto simp: front_inv_def)
  show inbound: "inbound_set h c \<subseteq> ?E" if "c \<notin> F"
  proof -
    from view c_out that c(3) have "pending h S ext ?E c = Some n" by (simp add: view_inv_def)
    moreover have "0 \<le> ext c" using set by (simp add: setting_ok_def)
    ultimately have "card (inbound_set h c - ?E) = 0" using c(4) by (auto simp: pending_def split: if_splits)
    then show ?thesis using finite_inbound_set [of h c] by simp
  qed
  show "c \<in> freed h F S ext"
  proof (cases "c \<in> F")
    case True
    then show ?thesis by (rule freed.forced)
  next
    case False
    from view c_out False c(3) have pend: "pending h S ext ?E c = Some n" by (simp add: view_inv_def)
    moreover have "0 \<le> ext c" using set by (simp add: setting_ok_def)
    ultimately have "ext c = 0" using c(4) by (auto simp: pending_def split: if_splits)
    have "?E \<subseteq> freed h F S ext" using front by (simp add: front_inv_def)
    with inbound [OF False] have all: "\<forall>p \<in> inbound_set h c. p \<in> freed h F S ext" by blast
    from pend consider "c \<in> S" | d where "d \<in> ?E" "c \<in> referents_of h d"
      by (auto simp: pending_def split: if_splits)
    then show ?thesis
    proof cases
      case 1
      then show ?thesis using \<open>ext c = 0\<close> all by (rule freed.held)
    next
      case 2
      with \<open>?E \<subseteq> _\<close> have "d \<in> freed h F S ext" by blast
      then show ?thesis using 2(2) \<open>ext c = 0\<close> all by (rule freed.referred)
    qed
  qed
qed

lemma freed_below:
  assumes "roots_ok h R retained" and "c \<in> R" and "c \<in> freed h F S ext" and "\<forall>x \<in> below h c. ext x = 0"
    and "x \<in> below h c"
  shows "x \<in> freed h F S ext"
  using assms(5)
proof (induction rule: below_induct)
  case self
  show ?case by (rule assms(3))
next
  case (step p x)
  have "x \<in> R" using roots_below [OF assms(1,2)] below_step [OF step(1,2)] by blast
  from root_parent [OF assms(1) this step(2)] step(3)
  have "\<forall>q \<in> inbound_set h x. q \<in> freed h F S ext" by auto
  moreover have "ext x = 0" using assms(4) below_step [OF step(1,2)] by blast
  ultimately show ?case using freed.referred [OF step(3,2)] by blast
qed

text \<open>The subtree of a root that can be deleted now is disjoint from what has gone.\<close>

lemma subtree_disjoint:
  assumes front: "front_inv h R F S ext front deleted" and set: "setting_ok h R retained F S ext"
    and c: "c \<in> set front" "c \<notin> deleted" "c \<in> R"
  shows "below h c \<inter> gone h R deleted = {}"
proof -
  let ?E = "gone h R deleted"
  have roots: "roots_ok h R retained" using set by (simp add: setting_ok_def)
  have c_out: "c \<notin> ?E" using front c by (auto simp: front_inv_def)
  have "x \<notin> ?E" if "x \<in> below h c" for x
    using that
  proof (induction rule: below_induct)
    case self
    show ?case by (rule c_out)
  next
    case (step p x)
    have x: "x \<in> R" using roots_below [OF roots c(3)] below_step [OF step(1,2)] by blast
    show ?case
    proof
      assume "x \<in> ?E"
      then consider "x \<in> deleted" | r where "r \<in> deleted" "r \<in> R" "x \<in> below h r" "x \<noteq> r"
        by (auto dest: gone_cases)
      then show False
      proof cases
        case 1
        show False
        proof (cases "x \<in> F")
          case True
          with x have "set front \<subseteq> F" using front_invD(6) [OF front] by blast
          with c(1) True have "c = x" using setting_okD(7) [OF set] by blast
          with 1 c(2) show False by simp
        next
          case False
          with 1 have "inbound_set h x \<subseteq> ?E" by (rule front_invD(4) [OF front])
          with step show False by auto
        qed
      next
        case 2
        with below_cases obtain q where "q \<in> below h r" "x \<in> referents_of h q" by blast
        with root_parent [OF roots x step(2)] have "p \<in> below h r" by simp
        with 2 step(3) show False by (auto simp: gone_def)
      qed
    qed
  qed
  then show ?thesis by blast
qed

lemma set_pop_at: "i < length xs \<Longrightarrow> set xs = insert (xs ! i) (set (pop_at i xs))"
  using id_take_nth_drop [of i xs] unfolding pop_at_def by (metis Un_insert_right list.simps(15) set_append)

section \<open>One deletion\<close>

text \<open>A root goes with its subtree; nothing outside the subtree is touched.\<close>

lemma delete_root:
  assumes view: "view_inv h R F S ext front view deleted" and front: "front_inv h R F S ext front deleted"
    and set: "setting_ok h R retained F S ext"
    and c: "c \<in> set front" "c \<notin> deleted" "view c = Some n" "n \<le> 0" "c \<in> R"
    and front': "set front = insert c (set front')"
  shows "view_inv h R F S ext front' view (insert c deleted)"
    and "front_inv h R F S ext front' (insert c deleted)"
    and "sum (size_of h) (gone h R (insert c deleted)) = sum (size_of h) (gone h R deleted) + weight h c"
proof -
  let ?E = "gone h R deleted" and ?E' = "gone h R (insert c deleted)"
  have roots: "roots_ok h R retained" using set by (simp add: setting_ok_def)
  have E': "?E' = ?E \<union> below h c" using c(5) by (simp add: gone_insert)
  have S: "S = {}" using set c(5) by (auto simp: setting_ok_def)
  have disjoint: "below h c \<inter> ?E = {}" by (rule subtree_disjoint [OF front set c(1,2,5)])
  have inner: "\<not> x \<in> referents_of h p" if "p \<in> below h c" "x \<notin> ?E'" for p x
    using that E' below_step by blast
  have pend: "pending h S ext ?E' x = pending h S ext ?E x" if "x \<notin> ?E'" for x
  proof -
    have "inbound_set h x - ?E' = inbound_set h x - ?E" using inner that E' by auto
    moreover have "(\<exists>d \<in> ?E'. x \<in> referents_of h d) \<longleftrightarrow> (\<exists>d \<in> ?E. x \<in> referents_of h d)"
      using inner that E' by auto
    ultimately show ?thesis by (simp add: pending_def)
  qed
  show "view_inv h R F S ext front' view (insert c deleted)"
    using view front' E' pend unfolding view_inv_def by auto
  show "sum (size_of h) ?E' = sum (size_of h) ?E + weight h c"
  proof -
    have "finite deleted" using front by (simp add: front_inv_def)
    then have "finite ?E" by (rule finite_gone [OF roots])
    moreover have "finite (below h c)" using roots c(5) by (auto simp: roots_ok_def intro: finite_below)
    ultimately show ?thesis using disjoint by (simp add: E' weight_def sum.union_disjoint Int_commute)
  qed
  note del = deletable_freed [OF view front set c(1-4)]
  have ext: "\<forall>x \<in> below h c. ext x = 0" using set S by (simp add: setting_ok_def)
  have sub: "?E' \<subseteq> freed h F S ext"
    using freed_below [OF roots c(5) del(1) ext] front_invD(2) [OF front] unfolding E' by blast
  have fr: "x \<in> insert c deleted \<or> x \<notin> ?E' \<and> (R = {} \<or> x \<in> F \<or> (\<exists>d \<in> insert c deleted - R. x \<in> referents_of h d))"
    if x: "x \<in> set front'" for x
  proof (cases "x \<in> insert c deleted")
    case False
    with x front' have x': "x \<notin> ?E" "x \<in> F \<or> (\<exists>d \<in> deleted - R. x \<in> referents_of h d)"
      using c(5) front_invD(3) [OF front, of x] by blast+
    have "x \<notin> below h c"
    proof
      assume "x \<in> below h c"
      with False below_cases obtain p where p: "p \<in> below h c" "x \<in> referents_of h p" by blast
      have "x \<in> R" using roots_below [OF roots c(5) \<open>x \<in> below h c\<close>] .
      from x'(2) show False
      proof
        assume "x \<in> F"
        with \<open>x \<in> R\<close> have "set front \<subseteq> F" using front_invD(6) [OF front] by blast
        with c(1) \<open>x \<in> F\<close> have "c = x" using setting_okD(7) [OF set] by blast
        with False show False by simp
      next
        assume "\<exists>d \<in> deleted - R. x \<in> referents_of h d"
        with root_parent [OF roots \<open>x \<in> R\<close> p(2)] have "p \<notin> R" by auto
        with roots_below [OF roots c(5) p(1)] show False by blast
      qed
    qed
    with x' E' show ?thesis by auto
  qed simp
  have "F \<subseteq> insert c deleted \<or> set front' \<subseteq> F" "F \<inter> R \<noteq> {} \<Longrightarrow> set front' \<subseteq> F"
    using front_invD(5,6) [OF front] front' by blast+
  moreover have "inbound_set h y \<subseteq> ?E'" if "y \<in> insert c deleted" "y \<notin> F" for y
    using that del(2) front_invD(4) [OF front, of y] by (auto simp: E')
  ultimately show "front_inv h R F S ext front' (insert c deleted)"
    using front_invD(1) [OF front] sub fr by (intro front_invI) (blast | simp)+
qed

text \<open>Any other object is expanded: what it refers to loses one referrer.\<close>

definition decremented :: "heap \<Rightarrow> address set \<Rightarrow> (address \<rightharpoonup> int) \<Rightarrow> address \<rightharpoonup> int" where
  "decremented h addresses view x =
     (if x \<in> addresses
      then Some ((case view x of Some n \<Rightarrow> n | None \<Rightarrow> int (card (inbound_set h x))) - 1) else view x)"

lemma pending_decremented:
  assumes view: "view_inv h R F S ext front view deleted" and set: "setting_ok h R retained F S ext"
    and c: "c \<notin> E" "E = gone h R deleted" and x: "x \<notin> insert c E" "x \<notin> F" "x \<in> referents_of h c"
  shows "Some ((case view x of Some n \<Rightarrow> n | None \<Rightarrow> int (card (inbound_set h x))) - 1) =
    pending h S ext (insert c E) x"
proof -
  have fin: "finite (inbound_set h x)" by (rule finite_inbound_set)
  have v: "view x = pending h S ext E x" using view x(1,2) c(2) by (simp add: view_inv_def)
  have "inbound_set h x - insert c E = (inbound_set h x - E) - {c}" by blast
  moreover have "c \<in> inbound_set h x - E" using c(1) x(3) by simp
  ultimately have "Suc (card (inbound_set h x - insert c E)) = card (inbound_set h x - E)"
    using fin by (simp only: card_Suc_Diff1 finite_Diff)
  then have card: "int (card (inbound_set h x - insert c E)) = int (card (inbound_set h x - E)) - 1" by simp
  have right: "pending h S ext (insert c E) x = Some (int (card (inbound_set h x - insert c E)) + ext x)"
    using x(3) by (simp add: pending_def)
  show ?thesis
  proof (cases "x \<in> S \<or> (\<exists>d \<in> E. x \<in> referents_of h d)")
    case True
    then show ?thesis unfolding right card v by (simp add: pending_def)
  next
    case False
    then have "inbound_set h x - E = inbound_set h x" "ext x = 0" "view x = None"
      using setting_okD(6) [OF set] v by (auto simp: pending_def)
    then show ?thesis unfolding right card by simp
  qed
qed

text \<open>What \<open>c\<close> refers to is not gone: below a strict subtree only its own members refer to it.\<close>

lemma referents_stay:
  assumes "roots_ok h R retained" and "c \<notin> R" and "x \<in> referents_of h c" and "x \<notin> deleted"
  shows "x \<notin> gone h R deleted"
proof
  assume "x \<in> gone h R deleted"
  with assms(4) obtain r where r: "r \<in> deleted" "r \<in> R" "x \<in> below h r" "x \<noteq> r"
    by (blast dest: gone_cases)
  with below_cases obtain q where q: "q \<in> below h r" "x \<in> referents_of h q" by blast
  have "x \<in> R" by (rule roots_below [OF assms(1) r(2,3)])
  with root_parent [OF assms(1) this q(2)] assms(3) have "q = c" by auto
  with roots_below [OF assms(1) r(2) q(1)] assms(2) show False by simp
qed

lemma delete_node_view:
  assumes view: "view_inv h R F S ext front view deleted" and front: "front_inv h R F S ext front deleted"
    and set: "setting_ok h R retained F S ext"
    and c: "c \<in> set front" "c \<notin> deleted" "view c = Some n" "n \<le> 0" "c \<notin> R"
    and rest: "set front = insert c (set rest)"
    and new: "new = referents_of h c - insert c deleted" and front': "set front' = set rest \<union> new"
  shows "view_inv h R F S ext front' (decremented h new view) (insert c deleted)"
proof -
  let ?E = "gone h R deleted" and ?E' = "gone h R (insert c deleted)" and ?view = "decremented h new view"
  have E': "?E' = insert c ?E" using c(5) by (simp add: gone_insert)
  note del = deletable_freed [OF view front set c(1-4)]
  have new_iff: "x \<in> new \<longleftrightarrow> x \<in> referents_of h c" if "x \<notin> ?E'" for x
    using that deleted_gone [of x deleted h R] by (auto simp: new E')
  have "?view x = pending h S ext ?E' x" if x: "x \<notin> ?E'" "x \<notin> F" for x
  proof (cases "x \<in> referents_of h c")
    case True
    have "?view x = Some ((case view x of Some n \<Rightarrow> n | None \<Rightarrow> int (card (inbound_set h x))) - 1)"
      using True new_iff [OF x(1)] by (simp add: decremented_def)
    with pending_decremented [OF view set del(3) refl _ x(2) True] x(1) show ?thesis unfolding E' by simp
  next
    case False
    then have "inbound_set h x - ?E' = inbound_set h x - ?E" unfolding E' by auto
    with False have "pending h S ext ?E' x = pending h S ext ?E x" by (simp add: pending_def E')
    moreover have "view x = pending h S ext ?E x" using view x by (simp add: view_inv_def E')
    ultimately show ?thesis using False new_iff [OF x(1)] by (simp add: decremented_def)
  qed
  moreover have "\<exists>n \<le> 0. ?view x = Some n" if x: "x \<notin> ?E'" "x \<in> F" for x
  proof -
    have "x \<notin> ?E" using x(1) by (simp add: E')
    then obtain n where "n \<le> 0" "view x = Some n" using view x(2) unfolding view_inv_def by blast
    then show ?thesis by (cases "x \<in> new") (auto simp: decremented_def)
  qed
  moreover have "?view x \<noteq> None" if "x \<in> set front'" for x
    using that view rest by (auto simp: front' decremented_def view_inv_def)
  moreover have "x \<in> set front'" if "x \<notin> ?E'" "?view x \<noteq> None" for x
  proof (cases "x \<in> new")
    case False
    with that have "view x \<noteq> None" by (simp add: decremented_def)
    with that view have "x \<in> set front" by (simp add: view_inv_def E')
    with that rest show ?thesis by (auto simp: front' E')
  qed (simp add: front')
  ultimately show ?thesis unfolding view_inv_def by blast
qed

lemma delete_node_front:
  assumes view: "view_inv h R F S ext front view deleted" and front: "front_inv h R F S ext front deleted"
    and set: "setting_ok h R retained F S ext"
    and c: "c \<in> set front" "c \<notin> deleted" "view c = Some n" "n \<le> 0" "c \<notin> R"
    and rest: "set front = insert c (set rest)"
    and new: "new = referents_of h c - insert c deleted" and front': "set front' = set rest \<union> new"
  shows "front_inv h R F S ext front' (insert c deleted)"
proof (rule front_invI)
  let ?E = "gone h R deleted" and ?E' = "gone h R (insert c deleted)"
  have E': "?E' = insert c ?E" using c(5) by (simp add: gone_insert)
  note del = deletable_freed [OF view front set c(1-4)]
  show "finite (insert c deleted)" using front_invD(1) [OF front] by simp
  show "?E' \<subseteq> freed h F S ext" using front_invD(2) [OF front] del(1) by (simp add: E')
  show "x \<notin> ?E' \<and> (R = {} \<or> x \<in> F \<or> (\<exists>d \<in> insert c deleted - R. x \<in> referents_of h d))"
    if x: "x \<in> set front'" "x \<notin> insert c deleted" for x
  proof (cases "x \<in> new")
    case True
    with x c(5) referents_stay [OF setting_okD(2) [OF set] c(5), of x deleted] show ?thesis
      by (auto simp: E' new)
  next
    case False
    with x front' rest have "x \<in> set front" by auto
    with front_invD(3) [OF front this] x(2) show ?thesis by (auto simp: E')
  qed
  show "inbound_set h y \<subseteq> ?E'" if "y \<in> insert c deleted" "y \<notin> F" for y
    using that del(2) front_invD(4) [OF front, of y] by (auto simp: E')
  show "F \<subseteq> insert c deleted \<or> set front' \<subseteq> F"
    using front_invD(5) [OF front] c(1) setting_okD(7) [OF set, of _ c] by blast
  assume *: "F \<inter> R \<noteq> {}"
  with front_invD(6) [OF front] c(1) have "c \<in> F" by blast
  with * c(5) setting_okD(7) [OF set, of c] have False by blast
  then show "set front' \<subseteq> F" ..
qed

lemma delete_node:
  assumes view: "view_inv h R F S ext front view deleted" and front: "front_inv h R F S ext front deleted"
    and set: "setting_ok h R retained F S ext"
    and c: "c \<in> set front" "c \<notin> deleted" "view c = Some n" "n \<le> 0" "c \<notin> R"
    and rest: "set front = insert c (set rest)"
    and new: "new = referents_of h c - insert c deleted" and front': "set front' = set rest \<union> new"
  shows "view_inv h R F S ext front' (decremented h new view) (insert c deleted)"
    and "front_inv h R F S ext front' (insert c deleted)"
    and "sum (size_of h) (gone h R (insert c deleted)) = sum (size_of h) (gone h R deleted) + size_of h c"
  using delete_node_view [OF assms] delete_node_front [OF assms]
    finite_gone [OF setting_okD(2) [OF set] front_invD(1) [OF front]] deletable_freed(3) [OF view front set c(1-4)] c(5)
  by (simp_all add: gone_insert)

section \<open>One pass\<close>

lemma decremented_insert:
  "x \<notin> X \<Longrightarrow> decremented h X (decremented h {x} view) = decremented h (insert x X) view"
  by (auto simp: decremented_def fun_eq_iff)

lemma decrement_one_run:
  assumes "indexed h inbound" and "node h x"
  shows "decrement_one inbound x view = Inr (decremented h {x} view)"
  using assms by (auto simp: decrement_one_def decremented_def indexed_def subscript_def fun_eq_iff split: option.splits)

lemma decrement_inbound_run:
  assumes "indexed h inbound" and "iterates it" and "finite X" and "\<forall>x \<in> X. node h x"
  shows "decrement_inbound it inbound X view = Inr (decremented h X view)"
proof -
  have "res_fold (decrement_one inbound) xs view = Inr (decremented h (set xs) view)"
    if "distinct xs" "\<forall>x \<in> set xs. node h x" for xs
    using that
  proof (induction xs arbitrary: view)
    case Nil
    show ?case by (simp add: decremented_def)
  next
    case (Cons x xs)
    then show ?case by (simp add: decrement_one_run [OF assms(1)] decremented_insert)
  qed
  from this [of "it X"] iteratesD [OF assms(2,3)] assms(4) show ?thesis
    by (simp add: decrement_inbound_def)
qed

definition deletion_inv ::
  "heap \<Rightarrow> address set \<Rightarrow> address set \<Rightarrow> address set \<Rightarrow> (address \<Rightarrow> int) \<Rightarrow> deletion \<Rightarrow> bool" where
  "deletion_inv h R F S ext d \<longleftrightarrow>
     view_inv h R F S ext (d_front d) (d_view d) (d_deleted d) \<and> front_inv h R F S ext (d_front d) (d_deleted d)"

definition size_gone :: "heap \<Rightarrow> address set \<Rightarrow> deletion \<Rightarrow> int" where
  "size_gone h R d = sum (size_of h) (gone h R (d_deleted d))"

text \<open>Where a pass over the last \<open>n\<close> entries stops that deletes nothing.\<close>

definition stuck :: "nat \<Rightarrow> deletion \<Rightarrow> bool" where
  "stuck n d \<longleftrightarrow>
     (\<exists>k \<le> n. (\<forall>j. k \<le> j \<and> j < n \<longrightarrow> d_front d ! j \<in> d_deleted d) \<and>
       (0 < k \<longrightarrow> (\<exists>m > 0. d_view d (d_front d ! (k - 1)) = Some m)))"

definition passed :: "heap \<Rightarrow> address set \<Rightarrow> address set \<Rightarrow> address set \<Rightarrow> (address \<Rightarrow> int) \<Rightarrow> nat \<Rightarrow> deletion \<Rightarrow> deletion \<Rightarrow> bool" where
  "passed h R F S ext n d d' \<longleftrightarrow>
     deletion_inv h R F S ext d' \<and> d_retained d' - d_retained d = size_gone h R d' - size_gone h R d \<and>
     d_deleted d \<subseteq> d_deleted d' \<and>
     (if d_happened d' then d_happened d \<or> d_deleted d \<noteq> d_deleted d' else d' = d \<and> stuck n d)"

lemma stuck_step: "stuck n d \<Longrightarrow> d_front d ! n \<in> d_deleted d \<Longrightarrow> stuck (Suc n) d"
  unfolding stuck_def by (metis le_SucI less_SucE)

lemma passed_continue:
  assumes "passed h R F S ext n d1 d'" and "d_happened d1" and "c \<in> d_deleted d1" "c \<notin> d_deleted d"
    and "d_deleted d \<subseteq> d_deleted d1"
    and "d_retained d1 - d_retained d = size_gone h R d1 - size_gone h R d"
  shows "passed h R F S ext m d d'"
  using assms unfolding passed_def by (auto split: if_splits)

text \<open>The step of the loop that expands an object, and what the front is after it.\<close>

definition expanded :: "set_order \<Rightarrow> heap \<Rightarrow> nat \<Rightarrow> deletion \<Rightarrow> deletion" where
  "expanded it h i d =
     (let c = d_front d ! i; new = referents_of h c - insert c (d_deleted d) in
      d\<lparr>d_front := pop_at i (d_front d) @ (if map_of (h_objects h) c = None then [] else it new),
        d_deleted := insert c (d_deleted d), d_happened := True, d_view := decremented h new (d_view d),
        d_retained := d_retained d + size_of h c\<rparr>)"

lemma delete_from_node:
  assumes index: "indexed h inbound" and it: "iterates it" and graph: "graph_ok h"
    and i: "i < length (d_front d)" and m: "d_view d (d_front d ! i) = Some m" "m \<le> 0"
    and c: "d_front d ! i \<notin> d_deleted d" "\<not> (use \<and> d_front d ! i \<in> st_roots st)"
    and new: "new = referents_of h (d_front d ! i) - insert (d_front d ! i) (d_deleted d)"
  shows "delete_from it h inbound st use (Suc i) d = delete_from it h inbound st use i (expanded it h i d)"
    and "set (d_front (expanded it h i d)) = set (pop_at i (d_front d)) \<union> new"
proof -
  let ?c = "d_front d ! i"
  have fin: "finite new" using finite_referents_of [OF graph] by (simp add: new)
  have nodes: "\<forall>x \<in> new. node h x" by (auto simp: new node_def inbound_set_def)
  have none: "new = {}" "decremented h new (d_view d) = d_view d" "size_of h ?c = 0"
    if "map_of (h_objects h) ?c = None"
    using that by (simp_all add: new referents_of_def decremented_def fun_eq_iff size_of_def)
  have some: "ho_referents obj - insert ?c (d_deleted d) = new" "size_of h ?c = ho_size obj"
    if "map_of (h_objects h) ?c = Some obj" for obj
    using that by (simp_all add: new referents_of_def size_of_def)
  show "set (d_front (expanded it h i d)) = set (pop_at i (d_front d)) \<union> new"
    using none(1) iteratesD(1) [OF it fin] by (auto simp: expanded_def Let_def new [symmetric])
  show "delete_from it h inbound st use (Suc i) d = delete_from it h inbound st use i (expanded it h i d)"
  proof (cases "map_of (h_objects h) ?c")
    case None
    then show ?thesis using i m c none by (auto simp: expanded_def Let_def new [symmetric] subscript_def)
  next
    case (Some obj)
    have "expanded it h i d = d\<lparr>d_front := pop_at i (d_front d) @ it new, d_deleted := insert ?c (d_deleted d),
        d_happened := True, d_view := decremented h new (d_view d), d_retained := d_retained d + ho_size obj\<rparr>"
      using some(2) [OF Some] Some by (simp add: expanded_def Let_def new [symmetric])
    also have "\<dots> = d\<lparr>d_deleted := insert ?c (d_deleted d), d_happened := True,
        d_retained := d_retained d + ho_size obj, d_view := decremented h new (d_view d),
        d_front := pop_at i (d_front d) @ it new\<rparr>"
      by (cases d) simp
    finally show ?thesis using Some i m c some(1) [OF Some] decrement_inbound_run [OF index it fin nodes]
      by (auto simp: subscript_def Let_def)
  qed
qed

lemma delete_from_passes:
  assumes index: "indexed h inbound" and it: "iterates it" and set: "setting_ok h R (st_retained st) F S ext"
    and R: "R = (if use then st_roots st else {})"
  shows "n \<le> length (d_front d) \<Longrightarrow> deletion_inv h R F S ext d \<Longrightarrow>
    \<exists>d'. delete_from it h inbound st use n d = Inr d' \<and> passed h R F S ext n d d'"
proof (induction n arbitrary: d)
  case 0
  then show ?case by (auto simp: passed_def stuck_def)
next
  case (Suc i)
  let ?c = "d_front d ! i"
  have i: "i < length (d_front d)" using Suc.prems(1) by simp
  then have c: "?c \<in> set (d_front d)" by simp
  have view: "view_inv h R F S ext (d_front d) (d_view d) (d_deleted d)"
    and front: "front_inv h R F S ext (d_front d) (d_deleted d)"
    using Suc.prems(2) by (simp_all add: deletion_inv_def)
  from view c obtain m where m: "d_view d ?c = Some m" by (auto simp: view_inv_def)
  have pop: "set (d_front d) = insert ?c (set (pop_at i (d_front d)))" by (rule set_pop_at [OF i])
  have len: "i \<le> length (pop_at i (d_front d))" using i by (simp add: pop_at_def)
  consider "0 < m" | "m \<le> 0" "?c \<in> d_deleted d" | "m \<le> 0" "?c \<notin> d_deleted d" "?c \<in> R"
    | "m \<le> 0" "?c \<notin> d_deleted d" "?c \<notin> R" by linarith
  then show ?case
  proof cases
    case 1
    with i m have "delete_from it h inbound st use (Suc i) d = Inr d" by (simp add: subscript_def)
    moreover have "stuck (Suc i) d" unfolding stuck_def using 1 m by (intro exI [of _ "Suc i"]) auto
    ultimately show ?thesis using Suc.prems(2) by (auto simp: passed_def)
  next
    case 2
    with i m have "delete_from it h inbound st use (Suc i) d = delete_from it h inbound st use i d"
      by (simp add: subscript_def)
    with Suc.IH [OF _ Suc.prems(2)] i obtain d' where
      "delete_from it h inbound st use (Suc i) d = Inr d'" "passed h R F S ext i d d'" by auto
    moreover have "passed h R F S ext (Suc i) d d'"
      using calculation(2) stuck_step [OF _ 2(2)] by (auto simp: passed_def split: if_splits)
    ultimately show ?thesis by blast
  next
    case 3
    let ?d = "d\<lparr>d_front := pop_at i (d_front d), d_deleted := insert ?c (d_deleted d), d_happened := True,
      d_retained := d_retained d + weight h ?c\<rparr>"
    have "st_retained st ?c = Some (weight h ?c)"
      using setting_okD(2) [OF set] 3(3) by (simp add: roots_ok_def)
    with 3 i m R have run: "delete_from it h inbound st use (Suc i) d = delete_from it h inbound st use i ?d"
      by (simp add: subscript_def Let_def split: if_splits)
    note del = delete_root [OF view front set c 3(2) m 3(1,3) pop]
    have "deletion_inv h R F S ext ?d" using del(1,2) by (simp add: deletion_inv_def)
    with Suc.IH [of ?d] len obtain d' where d': "delete_from it h inbound st use i ?d = Inr d'"
      "passed h R F S ext i ?d d'" by auto
    have "passed h R F S ext (Suc i) d d'"
      by (rule passed_continue [OF d'(2), of ?c]) (use 3 del(3) in \<open>auto simp: size_gone_def\<close>)
    with run d' show ?thesis by auto
  next
    case 4
    define new where "new = referents_of h ?c - insert ?c (d_deleted d)"
    let ?d = "expanded it h i d"
    have plain: "\<not> (use \<and> ?c \<in> st_roots st)" using 4(3) R by auto
    note run = delete_from_node [OF index it setting_okD(1) [OF set] i m 4(1,2) plain new_def]
    have d: "d_deleted ?d = insert ?c (d_deleted d)" "d_happened ?d" "d_view ?d = decremented h new (d_view d)"
      "d_retained ?d = d_retained d + size_of h ?c"
      by (simp_all add: expanded_def Let_def new_def)
    note del = delete_node [OF view front set c 4(2) m 4(1,3) pop new_def run(2)]
    have "deletion_inv h R F S ext ?d" using del(1,2) by (simp add: deletion_inv_def d)
    moreover have "i \<le> length (d_front ?d)" using len by (simp add: expanded_def Let_def)
    ultimately obtain d' where d': "delete_from it h inbound st use i ?d = Inr d'"
      "passed h R F S ext i ?d d'" using Suc.IH by blast
    have "passed h R F S ext (Suc i) d d'"
      by (rule passed_continue [OF d'(2), of ?c]) (use 4 del(3) in \<open>auto simp: size_gone_def d\<close>)
    with run(1) d' show ?thesis by auto
  qed
qed

section \<open>The loop\<close>

lemma sort_front_run:
  assumes "\<forall>x \<in> set front. view x \<noteq> None"
  shows "sort_front view front = Inr (sort_key (\<lambda>a. - the (view a)) front)"
proof -
  have "list_all2 (\<lambda>x y. subscript view x = Inr y) front (map (\<lambda>a. the (view a)) front)"
    using assms by (auto simp: list_all2_map2 list_all2_same)
  then have "rmap (subscript view) front = Inr (map (\<lambda>a. the (view a)) front)"
    by (simp only: rmap_Inr)
  then show ?thesis by (simp add: sort_front_def)
qed

lemma sorted_stuck:
  assumes "stuck (length (d_front d)) d" and "sorted (map (\<lambda>a. - the (d_view d a)) (d_front d))"
    and "x \<in> set (d_front d)" and "d_view d x = Some n" and "n \<le> 0"
  shows "x \<in> d_deleted d"
proof -
  from assms(3) obtain j where j: "j < length (d_front d)" "d_front d ! j = x" by (auto simp: in_set_conv_nth)
  from assms(1) obtain k where k: "k \<le> length (d_front d)" "\<forall>j. k \<le> j \<and> j < length (d_front d) \<longrightarrow> d_front d ! j \<in> d_deleted d"
    "0 < k \<longrightarrow> (\<exists>m > 0. d_view d (d_front d ! (k - 1)) = Some m)" by (auto simp: stuck_def)
  show ?thesis
  proof (cases "k \<le> j")
    case True
    with k(2) j show ?thesis by blast
  next
    case False
    with k obtain m where m: "m > 0" "d_view d (d_front d ! (k - 1)) = Some m" by auto
    have "- the (d_view d (d_front d ! j)) \<le> - the (d_view d (d_front d ! (k - 1)))"
      using sorted_nth_mono [OF assms(2), of j "k - 1"] False k(1) j(1) by simp
    with m j(2) assms(4,5) show ?thesis by simp
  qed
qed

text \<open>When a pass over a sorted front deletes nothing, all of the closure has gone.\<close>

lemma stuck_complete:
  assumes inv: "deletion_inv h R F S ext d" and set: "setting_ok h R retained F S ext"
    and stuck: "\<And>x n. x \<in> set (d_front d) \<Longrightarrow> d_view d x = Some n \<Longrightarrow> n \<le> 0 \<Longrightarrow> x \<in> d_deleted d"
  shows "gone h R (d_deleted d) = freed h F S ext"
proof
  let ?E = "gone h R (d_deleted d)"
  from inv have view: "view_inv h R F S ext (d_front d) (d_view d) (d_deleted d)"
    and front: "front_inv h R F S ext (d_front d) (d_deleted d)" by (simp_all add: deletion_inv_def)
  show "?E \<subseteq> freed h F S ext" by (rule front_invD(2) [OF front])
  have zero: "x \<in> ?E" if "d_view d x = Some n" "n \<le> 0" for x n
  proof (rule ccontr)
    assume out: "x \<notin> ?E"
    with view that have "x \<in> set (d_front d)" unfolding view_inv_def by blast
    from stuck [OF this that] out deleted_gone show False by blast
  qed
  have F: "x \<in> ?E" if "x \<in> F" for x
  proof (rule ccontr)
    assume "x \<notin> ?E"
    with view that obtain n where "n \<le> 0" "d_view d x = Some n" unfolding view_inv_def by blast
    with zero \<open>x \<notin> ?E\<close> show False by blast
  qed
  have pend: "x \<in> ?E" if "ext x = 0" "inbound_set h x \<subseteq> ?E" "x \<in> S \<or> (\<exists>d \<in> ?E. x \<in> referents_of h d)" for x
  proof (rule ccontr)
    assume out: "x \<notin> ?E"
    with F have "x \<notin> F" by blast
    with view out have "d_view d x = pending h S ext ?E x" unfolding view_inv_def by blast
    moreover have "inbound_set h x - ?E = {}" using that(2) by blast
    ultimately have "d_view d x = Some 0" using that by (simp add: pending_def)
    with zero out show False by blast
  qed
  show "freed h F S ext \<subseteq> ?E"
  proof
    fix x
    assume "x \<in> freed h F S ext"
    then show "x \<in> ?E"
    proof (induction rule: freed.induct)
      case (forced x)
      then show ?case by (rule F)
    next
      case (held x)
      then show ?case by (intro pend) blast+
    next
      case (referred d x)
      then show ?case by (intro pend) blast+
    qed
  qed
qed

lemma finite_freed:
  assumes "graph_ok h" and "finite F" and "finite S"
  shows "finite (freed h F S ext)"
proof (rule finite_subset)
  show "freed h F S ext \<subseteq> F \<union> S \<union> (\<Union>a \<in> {a. map_of (h_objects h) a \<noteq> None}. referents_of h a)"
  proof
    fix x
    assume "x \<in> freed h F S ext"
    then show "x \<in> F \<union> S \<union> (\<Union>a \<in> {a. map_of (h_objects h) a \<noteq> None}. referents_of h a)"
      by (cases rule: freed.cases) (auto dest: referents_object)
  qed
  show "finite (F \<union> S \<union> (\<Union>a \<in> {a. map_of (h_objects h) a \<noteq> None}. referents_of h a))"
    using assms finite_objects finite_referents_of by blast
qed

lemma retained_loop_run:
  assumes index: "indexed h inbound" and it: "iterates it" and set: "setting_ok h R (st_retained st) F S ext"
    and R: "R = (if use then st_roots st else {})"
  shows "deletion_inv h R F S ext d \<Longrightarrow> base = size_gone h R d \<Longrightarrow>
    retained_loop it h inbound st use base d = Some (Inr (sum (size_of h) (freed h F S ext)))"
proof (induction "card (freed h F S ext - d_deleted d)" arbitrary: d base rule: less_induct)
  case less
  let ?front = "sort_key (\<lambda>a. - the (d_view d a)) (d_front d)"
  let ?d = "d\<lparr>d_front := ?front, d_retained := 0, d_happened := False\<rparr>"
  have "finite F"
  proof (cases "F = {}")
    case False
    then obtain a where "a \<in> F" by blast
    then have "F \<subseteq> {a}" using setting_okD(7) [OF set] by blast
    then show ?thesis by (rule finite_subset) simp
  qed simp
  then have fin: "finite (freed h F S ext)"
    by (rule finite_freed [OF setting_okD(1) [OF set] _ setting_okD(3) [OF set]])
  from less.prems(1) have "\<forall>x \<in> set (d_front d). d_view d x \<noteq> None"
    unfolding deletion_inv_def view_inv_def by blast
  then have sorted: "sort_front (d_view d) (d_front d) = Inr ?front" by (rule sort_front_run)
  have inv: "deletion_inv h R F S ext ?d"
    using less.prems(1) by (simp add: deletion_inv_def view_inv_def front_inv_def)
  from delete_from_passes [OF index it set R, of "length ?front" ?d] inv
  obtain d' where run: "delete_from it h inbound st use (length ?front) ?d = Inr d'"
    and passed: "passed h R F S ext (length ?front) ?d d'" by auto
  have delete: "delete_unreferenced it h inbound st use (d\<lparr>d_front := ?front\<rparr>) = Inr d'"
    using run by (simp add: delete_unreferenced_def)
  show ?case
  proof (cases "d_happened d'")
    case True
    with passed have grows: "d_deleted d \<subseteq> d_deleted d'" "d_deleted d \<noteq> d_deleted d'" and inv': "deletion_inv h R F S ext d'"
      and size: "d_retained d' = size_gone h R d' - size_gone h R d"
      by (auto simp: passed_def size_gone_def)
    have "front_inv h R F S ext (d_front d') (d_deleted d')" using inv' by (simp add: deletion_inv_def)
    from front_invD(2) [OF this] have "d_deleted d' \<subseteq> freed h F S ext" by (auto simp: gone_def)
    with grows have "freed h F S ext - d_deleted d' \<subset> freed h F S ext - d_deleted d" by blast
    then have "card (freed h F S ext - d_deleted d') < card (freed h F S ext - d_deleted d)"
      using fin by (intro psubset_card_mono) auto
    from less.hyps [OF this inv'] size less.prems(2) sorted delete True show ?thesis
      by (subst retained_loop.simps) simp
  next
    case False
    with passed have stuck: "stuck (length ?front) ?d" and "d' = ?d" by (auto simp: passed_def)
    have "gone h R (d_deleted ?d) = freed h F S ext"
    proof (rule stuck_complete [OF inv set])
      fix x n
      assume "x \<in> set (d_front ?d)" "d_view ?d x = Some n" "n \<le> 0"
      then show "x \<in> d_deleted ?d"
        using sorted_stuck [of ?d x n] stuck by simp
    qed
    with less.prems(2) sorted delete False show ?thesis
      by (subst retained_loop.simps) (simp add: size_gone_def)
  qed
qed

lemma gone_empty [simp]: "gone h R {} = {}"
  by (simp add: gone_def)

lemma retained_heap_run:
  assumes "indexed h inbound" and "iterates it" and "setting_ok h (if use then st_roots st else {}) (st_retained st) F S ext"
    and "\<And>x. x \<in> F \<Longrightarrow> \<exists>n \<le> 0. view x = Some n"
    and "\<And>x. x \<notin> F \<Longrightarrow> view x = (if x \<in> S then Some (int (card (inbound_set h x)) + ext x) else None)"
    and "set front = F \<union> S" and "F = {} \<or> S = {}"
  shows "retained_heap it h inbound st view front use = Some (Inr (sum (size_of h) (freed h F S ext)))"
proof -
  let ?R = "if use then st_roots st else {}"
  let ?d = "\<lparr>d_front = front, d_view = view, d_deleted = {}, d_retained = 0, d_happened = False\<rparr>"
  have dom: "view x \<noteq> None \<longleftrightarrow> x \<in> F \<union> S" for x
    using assms(4,5) [of x] by (cases "x \<in> F") auto
  have "view_inv h ?R F S ext front view {}"
    unfolding view_inv_def using assms(4-6) dom by (simp add: pending_def)
  moreover have "front_inv h ?R F S ext front {}"
  proof (rule front_invI)
    show "F \<subseteq> {} \<or> set front \<subseteq> F" using assms(6,7) by auto
    show "set front \<subseteq> F" if "F \<inter> ?R \<noteq> {}"
      using setting_okD(4) [OF assms(3)] that assms(6) by blast
    show "x \<notin> gone h ?R {} \<and> (?R = {} \<or> x \<in> F \<or> (\<exists>d \<in> {} - ?R. x \<in> referents_of h d))"
      if "x \<in> set front" for x
    proof (cases "?R = {}")
      case False
      from setting_okD(4) [OF assms(3) this] that assms(6) show ?thesis by simp
    qed simp
  qed simp_all
  ultimately have "deletion_inv h ?R F S ext ?d" by (simp add: deletion_inv_def)
  from retained_loop_run [OF assms(1-3) refl this, of 0] show ?thesis
    by (simp add: retained_heap_def size_gone_def)
qed

end
