(* ===== verification/Retained_Subtrees.thy ===== *)
theory Retained_Subtrees
  imports Retained_Deletion "HOL-Library.Multiset"
begin

text \<open>
  \<open>find_strict_subtrees\<close>: its result is sound (every root is strict, the roots are closed under
  referents, and the size found for a root is the weight of its subtree) and its loop ends. Each
  iteration either finds a new root, or only moves the front up the unique referrers of roots,
  which \<open>climb\<close> measures, or leaves the front as it is, which is the exit. \<open>calculate\<close> follows.
\<close>

section \<open>Soundness\<close>

definition objects :: "heap \<Rightarrow> address set" where
  "objects h = {a. map_of (h_objects h) a \<noteq> None}"

definition subtrees_ok :: "heap \<Rightarrow> subtrees \<Rightarrow> bool" where
  "subtrees_ok h st \<longleftrightarrow> roots_ok h (st_roots st) (st_retained st) \<and> dom (st_retained st) \<subseteq> st_roots st"

lemma inbound_objects: "inbound_set h x \<subseteq> objects h"
  by (auto simp: objects_def dest: referents_object)

lemma objectsD:
  assumes "a \<in> objects h"
  shows "\<exists>obj. map_of (h_objects h) a = Some obj \<and> referents_of h a = ho_referents obj \<and> size_of h a = ho_size obj"
  using assms by (auto simp: objects_def referents_of_def size_of_def)

lemma finite_objects_set: "finite (objects h)"
  unfolding objects_def by (rule finite_objects)

lemma roots_objects: "roots_ok h R retained \<Longrightarrow> R \<subseteq> objects h"
  by (auto simp: roots_ok_def objects_def dest: strict_object)

lemma subtrees_add:
  assumes "subtrees_ok h st" and "graph_ok h" and "a \<in> objects h" and "card (inbound_set h a) < 2"
    and "referents_of h a \<subseteq> st_roots st" and "w = weight h a"
  shows "subtrees_ok h \<lparr>st_roots = insert a (st_roots st), st_retained = (st_retained st)(a \<mapsto> w)\<rparr>"
proof -
  have "a \<in> strict h"
    using assms(1,3-5) by (intro strict.intros) (auto simp: objects_def subtrees_ok_def roots_ok_def)
  with assms show ?thesis by (auto simp: subtrees_ok_def roots_ok_def)
qed

lemma weight_sum:
  assumes "roots_ok h R retained" and "graph_ok h" and "a \<in> objects h" and "card (inbound_set h a) < 2"
    and "referents_of h a \<subseteq> R"
  shows "weight h a = size_of h a + (\<Sum>y \<in> referents_of h a. the (retained y))"
proof -
  have "a \<in> strict h"
    using assms(1,3-5) by (intro strict.intros) (auto simp: objects_def roots_ok_def)
  moreover have "(\<Sum>y \<in> referents_of h a. the (retained y)) = (\<Sum>y \<in> referents_of h a. weight h y)"
    using assms(1,5) by (intro sum.cong) (auto simp: roots_ok_def)
  ultimately show ?thesis by (simp add: weight_unfold [OF assms(2)])
qed

text \<open>What an address of the front contributes to the next front.\<close>

definition contribution :: "heap \<Rightarrow> address set \<Rightarrow> address \<Rightarrow> address set" where
  "contribution h R x =
     (if card (inbound_set h x) > 1 then {}
      else if referents_of h x - R \<noteq> {} then {x} else inbound_set h x)"

definition front_grows :: "heap \<Rightarrow> address list \<Rightarrow> subtrees \<times> address set \<Rightarrow> subtrees \<times> address set \<Rightarrow> bool" where
  "front_grows h xs s s' \<longleftrightarrow>
     st_roots (fst s) \<subseteq> st_roots (fst s') \<and> st_roots (fst s') \<subseteq> st_roots (fst s) \<union> set xs \<and>
     (st_roots (fst s') = st_roots (fst s) \<longrightarrow>
        snd s' = snd s \<union> (\<Union>x \<in> set xs. contribution h (st_roots (fst s)) x) \<and>
        (\<forall>x \<in> set xs. card (inbound_set h x) \<le> 1 \<longrightarrow> referents_of h x \<subseteq> st_roots (fst s) \<longrightarrow> x \<in> st_roots (fst s)))"

lemma front_step_run:
  assumes index: "indexed h inbound" and it: "iterates it" and graph: "graph_ok h"
    and ok: "subtrees_ok h (fst s)" "snd s \<subseteq> objects h" and a: "a \<in> objects h"
  shows "\<exists>s'. front_step it h inbound a s = Inr s' \<and> subtrees_ok h (fst s') \<and> snd s' \<subseteq> objects h \<and>
    front_grows h [a] s s'"
proof -
  obtain st nf where s: "s = (st, nf)" by (cases s)
  obtain obj where obj: "map_of (h_objects h) a = Some obj" "referents_of h a = ho_referents obj"
    "size_of h a = ho_size obj" using objectsD [OF a] by blast
  have inbound: "subscript inbound a = Inr (inbound_set h a)"
    using index obj by (simp add: indexed_def node_def)
  have roots: "roots_ok h (st_roots st) (st_retained st)" using ok(1) s by (simp add: subtrees_ok_def)
  have fin: "finite (ho_referents obj)" using finite_referents_of [OF graph, of a] obj by simp
  consider "card (inbound_set h a) > 1" | "card (inbound_set h a) \<le> 1" "ho_referents obj - st_roots st \<noteq> {}"
    | "card (inbound_set h a) \<le> 1" "ho_referents obj \<subseteq> st_roots st" by (metis Diff_eq_empty_iff not_le)
  then show ?thesis
  proof cases
    case 1
    then show ?thesis using ok s obj inbound
      by (auto simp: front_step_def subscript_def front_grows_def contribution_def)
  next
    case 2
    then show ?thesis using ok s obj inbound a
      by (auto simp: front_step_def subscript_def front_grows_def contribution_def)
  next
    case 3
    have "list_all2 (\<lambda>x y. subscript (st_retained st) x = Inr y) (it (ho_referents obj))
        (map (\<lambda>x. the (st_retained st x)) (it (ho_referents obj)))"
      using 3(2) roots iteratesD(1) [OF it fin] by (auto simp: list_all2_map2 list_all2_same roots_ok_def)
    then have sizes: "rmap (subscript (st_retained st)) (it (ho_referents obj)) =
        Inr (map (\<lambda>x. the (st_retained st x)) (it (ho_referents obj)))" by (simp only: rmap_Inr)
    have "sum_list (map (\<lambda>x. the (st_retained st x)) (it (ho_referents obj))) =
        (\<Sum>y \<in> ho_referents obj. the (st_retained st y))"
      using iteratesD [OF it fin] by (simp add: sum_list_distinct_conv_sum_set)
    then have weight: "ho_size obj + sum_list (map (\<lambda>x. the (st_retained st x)) (it (ho_referents obj))) = weight h a"
      using weight_sum [OF roots graph a] 3 obj by simp
    let ?st = "\<lparr>st_roots = insert a (st_roots st), st_retained = (st_retained st)(a \<mapsto> weight h a)\<rparr>"
    have run: "front_step it h inbound a s = Inr (?st, nf \<union> inbound_set h a)"
      using 3 s obj inbound sizes weight by (auto simp: front_step_def subscript_def)
    have "subtrees_ok h ?st"
      using ok(1) s graph a 3 obj by (intro subtrees_add) simp_all
    then show ?thesis
      using run ok(2) s inbound_objects [of h a] 3 obj
      by (auto simp: front_grows_def contribution_def)
  qed
qed

lemma front_grows_refl: "front_grows h [] s s"
  by (simp add: front_grows_def)

lemma front_grows_trans:
  assumes "front_grows h xs s s'" and "front_grows h ys s' s''"
  shows "front_grows h (xs @ ys) s s''"
proof -
  let ?R = "st_roots (fst s)"
  have roots: "?R \<subseteq> st_roots (fst s')" "st_roots (fst s') \<subseteq> ?R \<union> set xs"
    "st_roots (fst s') \<subseteq> st_roots (fst s'')" "st_roots (fst s'') \<subseteq> st_roots (fst s') \<union> set ys"
    using assms by (simp_all add: front_grows_def)
  have same: "snd s'' = snd s \<union> (\<Union>x \<in> set (xs @ ys). contribution h ?R x) \<and>
      (\<forall>x \<in> set (xs @ ys). card (inbound_set h x) \<le> 1 \<longrightarrow> referents_of h x \<subseteq> ?R \<longrightarrow> x \<in> ?R)"
    if "st_roots (fst s'') = ?R"
  proof -
    from roots that have mid: "st_roots (fst s') = ?R" by blast
    from assms(1) mid have "snd s' = snd s \<union> (\<Union>x \<in> set xs. contribution h ?R x)"
      and xs: "\<forall>x \<in> set xs. card (inbound_set h x) \<le> 1 \<longrightarrow> referents_of h x \<subseteq> ?R \<longrightarrow> x \<in> ?R"
      by (simp_all add: front_grows_def)
    moreover from assms(2) mid that have "snd s'' = snd s' \<union> (\<Union>x \<in> set ys. contribution h ?R x)"
      and "\<forall>x \<in> set ys. card (inbound_set h x) \<le> 1 \<longrightarrow> referents_of h x \<subseteq> ?R \<longrightarrow> x \<in> ?R"
      by (simp_all add: front_grows_def)
    ultimately show ?thesis by (simp add: UN_Un Un_assoc ball_Un)
  qed
  have "?R \<subseteq> st_roots (fst s'')" "st_roots (fst s'') \<subseteq> ?R \<union> set (xs @ ys)"
    using roots by (auto intro: subset_trans)
  with same show ?thesis unfolding front_grows_def by blast
qed

lemma front_pass:
  assumes "indexed h inbound" and "iterates it" and "graph_ok h"
  shows "subtrees_ok h (fst s) \<Longrightarrow> snd s \<subseteq> objects h \<Longrightarrow> set xs \<subseteq> objects h \<Longrightarrow>
    \<exists>s'. res_fold (front_step it h inbound) xs s = Inr s' \<and> subtrees_ok h (fst s') \<and> snd s' \<subseteq> objects h \<and>
      front_grows h xs s s'"
proof (induction xs arbitrary: s)
  case Nil
  then show ?case by (auto simp: front_grows_refl)
next
  case (Cons x xs)
  from front_step_run [OF assms Cons.prems(1,2), of x] Cons.prems(3) obtain s1 where
    s1: "front_step it h inbound x s = Inr s1" "subtrees_ok h (fst s1)" "snd s1 \<subseteq> objects h" "front_grows h [x] s s1"
    by auto
  from Cons.IH [OF s1(2,3)] Cons.prems(3) obtain s2 where
    s2: "res_fold (front_step it h inbound) xs s1 = Inr s2" "subtrees_ok h (fst s2)" "snd s2 \<subseteq> objects h"
      "front_grows h xs s1 s2" by auto
  from front_grows_trans [OF s1(4) s2(4)] s1(1) s2 show ?case by auto
qed

lemma leaf_pass:
  assumes index: "indexed h inbound" and graph: "graph_ok h"
  shows "subtrees_ok h (fst s) \<Longrightarrow> snd s \<subseteq> objects h \<Longrightarrow> set es \<subseteq> set (h_objects h) \<Longrightarrow>
    \<exists>s'. res_fold (leaf_step inbound) es s = Inr s' \<and> subtrees_ok h (fst s') \<and> snd s' \<subseteq> objects h"
proof (induction es arbitrary: s)
  case Nil
  then show ?case by auto
next
  case (Cons e es)
  obtain st nf where s: "s = (st, nf)" by (cases s)
  have e: "map_of (h_objects h) (fst e) = Some (snd e)"
    using Cons.prems(3) graph by (cases e) (simp add: graph_ok_def dict_ok_def)
  then have a: "fst e \<in> objects h" "referents_of h (fst e) = ho_referents (snd e)" "size_of h (fst e) = ho_size (snd e)"
    by (simp_all add: objects_def referents_of_def size_of_def)
  have inbound: "subscript inbound (fst e) = Inr (inbound_set h (fst e))"
    using index e by (simp add: indexed_def node_def)
  have "\<exists>s1. leaf_step inbound e s = Inr s1 \<and> subtrees_ok h (fst s1) \<and> snd s1 \<subseteq> objects h"
  proof (cases "ho_referents (snd e) = {} \<and> card (inbound_set h (fst e)) < 2")
    case True
    then have "weight h (fst e) = ho_size (snd e)"
      using a by (simp add: weight_def below_unfold [of h "fst e"])
    with True subtrees_add [of h st "fst e" "ho_size (snd e)"] Cons.prems(1) s graph a inbound
      inbound_objects [of h "fst e"] Cons.prems(2)
    show ?thesis by (simp add: leaf_step_def Let_def subscript_def)
  next
    case False
    with Cons.prems(1,2) inbound s show ?thesis by (auto simp: leaf_step_def Let_def subscript_def)
  qed
  then obtain s1 where "leaf_step inbound e s = Inr s1" "subtrees_ok h (fst s1)" "snd s1 \<subseteq> objects h" by blast
  with Cons.IH [of s1] Cons.prems(3) show ?case by auto
qed

section \<open>Termination\<close>

definition climb :: "heap \<Rightarrow> address set \<Rightarrow> address \<Rightarrow> nat" where
  "climb h R x = 2 * card {y \<in> R. x \<in> below h y} + (if card (inbound_set h x) > 1 then 1 else 0)"

lemma sum_UN_le: "finite A \<Longrightarrow> (\<And>a. a \<in> A \<Longrightarrow> finite (B a)) \<Longrightarrow> sum f (\<Union>a \<in> A. B a) \<le> (\<Sum>a \<in> A. sum f (B a))"
  for f :: "'b \<Rightarrow> nat"
proof (induction A rule: finite_induct)
  case (insert a A)
  have "sum f (B a \<union> (\<Union>a \<in> A. B a)) \<le> sum f (B a) + sum f (\<Union>a \<in> A. B a)"
    using sum.union_inter [of "B a" "\<Union>a \<in> A. B a" f] insert.hyps(1) insert.prems by simp
  moreover have "sum f (\<Union>a \<in> A. B a) \<le> (\<Sum>a \<in> A. sum f (B a))" using insert by simp
  ultimately show ?case using insert.hyps by simp
qed simp

lemma climb_parent:
  assumes roots: "roots_ok h R retained" and x: "x \<in> R" and p: "x \<in> referents_of h p"
  shows "climb h R p < climb h R x"
proof -
  have finR: "finite R" using roots finite_strict by (rule_tac finite_subset [of R "strict h"]) (auto simp: roots_ok_def)
  have fin: "finite {y \<in> R. x \<in> below h y}" using finR by simp
  show ?thesis
  proof (cases "p \<in> R")
    case True
    have strict: "p \<in> strict h" using roots True by (simp add: roots_ok_def)
    have "{y \<in> R. p \<in> below h y} \<subseteq> {y \<in> R. x \<in> below h y}" using below_step p by blast
    moreover have "x \<in> {y \<in> R. x \<in> below h y}" "x \<notin> {y \<in> R. p \<in> below h y}"
      using x strict_acyclic [OF strict p] by auto
    ultimately have "{y \<in> R. p \<in> below h y} \<subset> {y \<in> R. x \<in> below h y}" by blast
    then have "card {y \<in> R. p \<in> below h y} < card {y \<in> R. x \<in> below h y}"
      by (rule psubset_card_mono [OF fin])
    then show ?thesis by (simp add: climb_def)
  next
    case False
    then have "{y \<in> R. p \<in> below h y} = {}" using roots_below [OF roots] by blast
    moreover have "card {y \<in> R. x \<in> below h y} \<noteq> 0" using fin x by auto
    ultimately show ?thesis by (simp only: climb_def) simp
  qed
qed

lemma contribution_climb:
  assumes roots: "roots_ok h R retained"
    and closed: "card (inbound_set h x) \<le> 1 \<Longrightarrow> referents_of h x \<subseteq> R \<Longrightarrow> x \<in> R"
  shows "sum (climb h R) (contribution h R x) \<le> climb h R x"
    and "contribution h R x \<noteq> {x} \<Longrightarrow> sum (climb h R) (contribution h R x) < climb h R x"
proof -
  have "contribution h R x = {x} \<or> sum (climb h R) (contribution h R x) < climb h R x"
  proof (cases "card (inbound_set h x) > 1 \<or> referents_of h x - R \<noteq> {}")
    case True
    then show ?thesis by (auto simp: contribution_def climb_def)
  next
    case False
    then have x: "x \<in> R" and c: "contribution h R x = inbound_set h x" "card (inbound_set h x) \<le> 1"
      using closed by (auto simp: contribution_def)
    have "card {y \<in> R. x \<in> below h y} \<noteq> 0"
    proof -
      have "finite R" using roots finite_strict by (rule_tac finite_subset [of R "strict h"]) (auto simp: roots_ok_def)
      then show ?thesis using x by auto
    qed
    then have pos: "0 < climb h R x" by (simp add: climb_def)
    consider "inbound_set h x = {}" | p where "inbound_set h x = {p}"
      using c(2) finite_inbound_set [of h x] by (metis card_0_eq card_1_singletonE le_Suc_eq One_nat_def le_zero_eq)
    then show ?thesis
    proof cases
      case 1
      with pos show ?thesis by (simp add: c)
    next
      case 2
      then have "x \<in> referents_of h p" using in_inbound_set [of p h x] by blast
      with climb_parent [OF roots x] show ?thesis by (simp add: c 2)
    qed
  qed
  then show "sum (climb h R) (contribution h R x) \<le> climb h R x"
    "contribution h R x \<noteq> {x} \<Longrightarrow> sum (climb h R) (contribution h R x) < climb h R x" by auto
qed

lemma front_decreases:
  assumes roots: "roots_ok h R retained" and fin: "finite front"
    and closed: "\<forall>x \<in> front. card (inbound_set h x) \<le> 1 \<longrightarrow> referents_of h x \<subseteq> R \<longrightarrow> x \<in> R"
    and next': "next = (\<Union>x \<in> front. contribution h R x)" "next \<noteq> front"
  shows "sum (climb h R) next < sum (climb h R) front"
proof -
  have finc: "finite (contribution h R x)" for x
    using finite_inbound_set by (simp add: contribution_def)
  from next' obtain x where x: "x \<in> front" "contribution h R x \<noteq> {x}" by force
  have "sum (climb h R) next \<le> (\<Sum>x \<in> front. sum (climb h R) (contribution h R x))"
    unfolding next'(1) by (rule sum_UN_le [OF fin finc])
  also have "\<dots> < sum (climb h R) front"
    using contribution_climb [OF roots] closed x fin by (intro sum_strict_mono_ex1) blast+
  finally show ?thesis .
qed

lemma subtree_loop_run:
  assumes "indexed h inbound" and "iterates it" and "graph_ok h"
  shows "subtrees_ok h st \<Longrightarrow> front \<subseteq> objects h \<Longrightarrow>
    \<exists>st'. subtree_loop it h inbound st front = Some (Inr st') \<and> subtrees_ok h st'"
proof (induction "(card (objects h - st_roots st), sum (climb h (st_roots st)) front)"
    arbitrary: st front rule: wf_induct_rule [OF wf_lex_prod [OF wf_less_than wf_less_than]])
  case 1
  have fin: "finite front" using 1(3) finite_objects_set finite_subset by blast
  from front_pass [OF assms, of "(st, {})" "it front"] 1(2,3) iteratesD(1) [OF assms(2) fin] obtain st' nf where
    run: "res_fold (front_step it h inbound) (it front) (st, {}) = Inr (st', nf)" and
    ok: "subtrees_ok h st'" "nf \<subseteq> objects h" "front_grows h (it front) (st, {}) (st', nf)" by auto
  show ?case
  proof (cases "nf = front")
    case True
    with run ok show ?thesis by (subst subtree_loop.simps) simp
  next
    case False
    have roots: "roots_ok h (st_roots st) (st_retained st)" using 1(2) by (simp add: subtrees_ok_def)
    have "((card (objects h - st_roots st'), sum (climb h (st_roots st')) nf),
        (card (objects h - st_roots st), sum (climb h (st_roots st)) front)) \<in> less_than <*lex*> less_than"
    proof (cases "st_roots st' = st_roots st")
      case True
      with ok(3) have "nf = (\<Union>x \<in> front. contribution h (st_roots st) x)"
        "\<forall>x \<in> front. card (inbound_set h x) \<le> 1 \<longrightarrow> referents_of h x \<subseteq> st_roots st \<longrightarrow> x \<in> st_roots st"
        unfolding front_grows_def iteratesD(1) [OF assms(2) fin] by simp_all
      from front_decreases [OF roots fin this(2,1) False] True show ?thesis by simp
    next
      case grown: False
      have "st_roots st' \<subseteq> objects h" using ok(1) roots_objects by (auto simp: subtrees_ok_def)
      moreover have "st_roots st \<subseteq> st_roots st'" using ok(3) by (simp add: front_grows_def)
      ultimately have "objects h - st_roots st' \<subset> objects h - st_roots st" using grown by blast
      then have "card (objects h - st_roots st') < card (objects h - st_roots st)"
        using finite_objects_set by (intro psubset_card_mono) simp_all
      then show ?thesis by simp
    qed
    from 1(1) [OF _ ok(1,2)] this obtain st'' where
      "subtree_loop it h inbound st' nf = Some (Inr st'')" "subtrees_ok h st''" by blast
    with run False show ?thesis by (subst subtree_loop.simps) simp
  qed
qed

lemma find_strict_subtrees_run:
  assumes "indexed h inbound" and "iterates it" and "graph_ok h" and "subtrees_ok h st"
  shows "\<exists>st'. find_strict_subtrees it h inbound st = Some (Inr st') \<and> subtrees_ok h st'"
proof -
  from leaf_pass [OF assms(1,3), of "(st, {})" "h_objects h"] assms(4) obtain st1 front where
    "res_fold (leaf_step inbound) (h_objects h) (st, {}) = Inr (st1, front)" "subtrees_ok h st1" "front \<subseteq> objects h"
    by auto
  with subtree_loop_run [OF assms(1-3)] show ?thesis by (simp add: find_strict_subtrees_def)
qed

section \<open>The whole calculation\<close>

definition object_retained :: "heap \<Rightarrow> address \<Rightarrow> int" where
  "object_retained h a = sum (size_of h) (freed h {a} {} (\<lambda>_. 0))"

definition held_elsewhere :: "heap \<Rightarrow> heap_thread \<Rightarrow> address \<Rightarrow> int" where
  "held_elsewhere h thread x =
     (if x \<in> thread_locals thread
      then int (card {i. i < length (h_threads h) \<and> h_threads h ! i \<noteq> thread \<and> x \<in> thread_locals (h_threads h ! i)})
      else 0)"

lemma held_elsewhere_holders:
  "held_elsewhere h thread x = (if x \<in> thread_locals thread then other_holders h thread x else 0)"
  by (simp add: held_elsewhere_def other_holders_def length_filter_conv_card)

definition thread_retained :: "heap \<Rightarrow> heap_thread \<Rightarrow> int" where
  "thread_retained h thread =
     sum (size_of h) (freed h {} (thread_locals thread) (held_elsewhere h thread))"

definition record_thread :: "heap \<Rightarrow> heap_thread \<Rightarrow> (pystr \<rightharpoonup> int) \<Rightarrow> (pystr \<rightharpoonup> int)" where
  "record_thread h thread m = m(ht_name thread \<mapsto> thread_retained h thread)"

lemma finite_thread_locals: "finite (thread_locals thread)"
  by (simp add: thread_locals_def)

lemma freed_root:
  assumes "roots_ok h R retained" and "a \<in> R"
  shows "freed h {a} {} (\<lambda>_. 0) = below h a"
proof
  show "freed h {a} {} (\<lambda>_. 0) \<subseteq> below h a"
  proof
    fix x
    assume "x \<in> freed h {a} {} (\<lambda>_. 0)"
    then show "x \<in> below h a" by (induction rule: freed.induct) (auto intro: below_step)
  qed
  show "below h a \<subseteq> freed h {a} {} (\<lambda>_. 0)"
    by (rule subsetI, rule freed_below [OF assms freed.forced]) simp_all
qed

lemma retained_heap_for_object_run:
  assumes "indexed h inbound" and "iterates it" and "graph_ok h" and "roots_ok h (st_roots st) (st_retained st)"
  shows "retained_heap_for_object it h inbound st a = Some (Inr (object_retained h a))"
  unfolding retained_heap_for_object_def object_retained_def
  by (rule retained_heap_run [OF assms(1,2)]) (use assms(3,4) in \<open>auto simp: setting_ok_def\<close>)

lemma calculate_objects_run:
  assumes "indexed h inbound" and "iterates it" and "graph_ok h"
  shows "roots_ok h (st_roots st) (st_retained st) \<Longrightarrow>
    calculate_objects it h inbound as st = Some (Inr (st\<lparr>st_retained :=
      \<lambda>x. if x \<in> set as then Some (object_retained h x) else st_retained st x\<rparr>))"
proof (induction as arbitrary: st)
  case (Cons a as)
  let ?st = "st\<lparr>st_retained := (st_retained st)(a \<mapsto> object_retained h a)\<rparr>"
  have "roots_ok h (st_roots ?st) (st_retained ?st)"
    using Cons.prems freed_root [OF Cons.prems]
    by (auto simp: roots_ok_def object_retained_def weight_def)
  from Cons.IH [OF this] show ?case
    by (simp add: obind_def retained_heap_for_object_run [OF assms Cons.prems] fun_eq_iff cong: if_cong)
qed simp

lemma thread_view_run:
  assumes "indexed h inbound" and "iterates it"
  shows "thread_view it h inbound thread =
    (if \<forall>x \<in> thread_locals thread. node h x
     then Inr (\<lambda>x. if x \<in> thread_locals thread
       then Some (int (card (inbound_set h x)) + other_holders h thread x) else None)
     else raise KeyError ''missing key'' [])"
proof -
  let ?step = "\<lambda>address view. rbind (subscript inbound address) (\<lambda>refs.
       Inr (view(address \<mapsto> int (card refs) + other_holders h thread address)))"
  have "res_fold ?step xs view =
    (if \<forall>x \<in> set xs. node h x
     then Inr (\<lambda>x. if x \<in> set xs then Some (int (card (inbound_set h x)) + other_holders h thread x) else view x)
     else raise KeyError ''missing key'' [])" for xs view
  proof (induction xs arbitrary: view)
    case (Cons x xs)
    then show ?case using assms(1) by (auto simp: indexed_def subscript_def raise_def fun_eq_iff)
  qed simp
  from this [of "it (thread_locals thread)" Map.empty] iteratesD(1) [OF assms(2) finite_thread_locals]
  show ?thesis by (simp add: thread_view_def)
qed

lemma thread_run:
  assumes "indexed h inbound" and "iterates it" and "graph_ok h"
    and "\<forall>x \<in> thread_locals thread. node h x" and "thread_view it h inbound thread = Inr view"
  shows "retained_heap it h inbound st view (it (thread_locals thread)) False = Some (Inr (thread_retained h thread))"
  unfolding thread_retained_def
proof (rule retained_heap_run [OF assms(1,2)])
  show "setting_ok h (if False then st_roots st else {}) (st_retained st) {} (thread_locals thread) (held_elsewhere h thread)"
    using assms(3) by (auto simp: setting_ok_def roots_ok_def finite_thread_locals held_elsewhere_holders other_holders_def)
  show "view x = (if x \<in> thread_locals thread
      then Some (int (card (inbound_set h x)) + held_elsewhere h thread x) else None)" for x
    using assms(4,5) thread_view_run [OF assms(1,2), of thread] by (auto simp: held_elsewhere_holders)
  show "set (it (thread_locals thread)) = {} \<union> thread_locals thread"
    using iteratesD(1) [OF assms(2) finite_thread_locals] by simp
qed simp_all

lemma calculate_threads_run:
  assumes "indexed h inbound" and "iterates it" and "graph_ok h"
  shows "calculate_threads it h inbound st threads result =
    (if \<forall>t \<in> set threads. \<forall>x \<in> thread_locals t. node h x
     then Some (Inr (fold (record_thread h) threads result))
     else Some (raise KeyError ''missing key'' []))"
proof (induction threads arbitrary: result)
  case (Cons t threads)
  show ?case
  proof (cases "\<forall>x \<in> thread_locals t. node h x")
    case True
    then obtain view where view: "thread_view it h inbound t = Inr view"
      using thread_view_run [OF assms(1,2)] by simp
    from thread_run [OF assms True view] view Cons True show ?thesis
      by (simp add: obind_def record_thread_def [symmetric])
  next
    case False
    then show ?thesis using thread_view_run [OF assms(1,2), of t] by (auto simp: obind_def raise_def)
  qed
qed simp

lemma subtrees_ok_init: "subtrees_ok h (c_subtrees calculator_init)"
  by (simp add: subtrees_ok_def roots_ok_def calculator_init_def)

lemma calculate_run:
  assumes "indexed h inbound" and "iterates it" and "graph_ok h"
  shows "if \<forall>t \<in> set (h_threads h). \<forall>x \<in> thread_locals t. node h x
    then \<exists>r c. calculate it h inbound calculator_init = Some (Inr (r, c)) \<and> c_calculated c \<and>
      rh_objects r = (\<lambda>a. if a \<in> objects h then Some (object_retained h a) else None) \<and>
      rh_threads r = fold (record_thread h) (h_threads h) Map.empty
    else calculate it h inbound calculator_init = Some (raise KeyError ''missing key'' [])"
proof -
  obtain st where st: "find_strict_subtrees it h inbound (c_subtrees calculator_init) = Some (Inr st)"
    and ok: "subtrees_ok h st" using find_strict_subtrees_run [OF assms subtrees_ok_init] by blast
  have roots: "roots_ok h (st_roots st) (st_retained st)" using ok by (simp add: subtrees_ok_def)
  have "set (map fst (h_objects h)) = objects h"
    by (auto simp: objects_def map_of_eq_None_iff)
  moreover have "st_retained st x = None" if "x \<notin> objects h" for x
    using ok roots_objects [OF roots] that unfolding subtrees_ok_def by blast
  ultimately have "(\<lambda>x. if x \<in> set (map fst (h_objects h)) then Some (object_retained h x) else st_retained st x) =
      (\<lambda>a. if a \<in> objects h then Some (object_retained h a) else None)" by auto
  then have objs: "calculate_objects it h inbound (map fst (h_objects h)) st =
      Some (Inr (st\<lparr>st_retained := \<lambda>a. if a \<in> objects h then Some (object_retained h a) else None\<rparr>))"
    by (simp only: calculate_objects_run [OF assms roots])
  have init: "\<not> c_calculated calculator_init" "c_threads calculator_init = Map.empty"
    by (simp_all add: calculator_init_def)
  show ?thesis
    by (simp add: calculate_def init obind_def st objs calculate_threads_run [OF assms] raise_def)
qed

context reference_index
begin

lemma calculated:
  "iterates it \<Longrightarrow> graph_ok h \<Longrightarrow> \<forall>t \<in> set (h_threads h). \<forall>x \<in> thread_locals t. node h x \<Longrightarrow>
   \<exists>r c. calculate it h (index h) calculator_init = Some (Inr (r, c)) \<and> c_calculated c \<and>
      rh_objects r = (\<lambda>a. if a \<in> objects h then Some (object_retained h a) else None) \<and>
      rh_threads r = fold (record_thread h) (h_threads h) Map.empty"
  using calculate_run [OF indexes] by simp

lemma not_calculated:
  "iterates it \<Longrightarrow> graph_ok h \<Longrightarrow> t \<in> set (h_threads h) \<Longrightarrow> x \<in> thread_locals t \<Longrightarrow> \<not> node h x \<Longrightarrow>
   calculate it h (index h) calculator_init = Some (raise KeyError ''missing key'' [])"
  using calculate_run [OF indexes, of h it] by (auto split: if_splits)

lemma roots_found:
  "iterates it \<Longrightarrow> graph_ok h \<Longrightarrow>
   \<exists>st. find_strict_subtrees it h (index h) (c_subtrees calculator_init) = Some (Inr st) \<and> subtrees_ok h st"
  using find_strict_subtrees_run [OF indexes _ _ subtrees_ok_init] by blast

lemma object_value:
  "iterates it \<Longrightarrow> graph_ok h \<Longrightarrow> subtrees_ok h st \<Longrightarrow>
   retained_heap_for_object it h (index h) st a = Some (Inr (object_retained h a))"
  using retained_heap_for_object_run [OF indexes] by (simp add: subtrees_ok_def)

lemma object_value_plain:
  assumes "iterates it" and "graph_ok h"
  shows "retained_heap it h (index h) st [a \<mapsto> 0] [a] False = Some (Inr (object_retained h a))"
  unfolding object_retained_def
  by (rule retained_heap_run [OF indexes [OF assms(2)] assms(1)]) (use assms(2) in \<open>auto simp: setting_ok_def roots_ok_def\<close>)

end

section \<open>Consequences\<close>

lemma finite_object_freed: "graph_ok h \<Longrightarrow> finite (freed h {a} {} (\<lambda>_. 0))"
  by (rule finite_freed) simp_all

lemma total_as_sum:
  assumes "graph_ok h"
  shows "total_heap_size h = sum (size_of h) (objects h)"
proof -
  have "distinct (map fst (h_objects h))" using assms by (simp add: graph_ok_def dict_ok_def)
  moreover have "set (map fst (h_objects h)) = objects h" by (auto simp: objects_def map_of_eq_None_iff)
  ultimately have "sum (size_of h) (objects h) = sum_list (map (size_of h) (map fst (h_objects h)))"
    by (metis sum_list_distinct_conv_sum_set)
  also have "map (size_of h) (map fst (h_objects h)) = map (\<lambda>entry. ho_size (snd entry)) (h_objects h)"
    using assms by (auto simp: size_of_def graph_ok_def dict_ok_def)
  finally show ?thesis by (simp add: total_heap_size_def)
qed

lemma size_outside: "x \<notin> objects h \<Longrightarrow> size_of h x = 0"
  by (simp add: objects_def size_of_def)

lemma freed_sum_le:
  assumes "graph_ok h" and "\<forall>entry \<in> set (h_objects h). 0 \<le> ho_size (snd entry)" and "finite X"
    and "X \<inter> objects h \<subseteq> Y" and "Y \<subseteq> objects h"
  shows "sum (size_of h) X \<le> sum (size_of h) Y"
proof -
  have nonneg: "0 \<le> size_of h x" for x
    using assms(2) by (auto simp: size_of_def split: option.splits dest!: map_of_SomeD)
  have "sum (size_of h) X = sum (size_of h) (X \<inter> objects h)"
    using assms(3) by (intro sum.mono_neutral_right) (auto simp: size_outside)
  also have "\<dots> \<le> sum (size_of h) Y"
    using assms(4,5) finite_objects_set [of h] nonneg by (intro sum_mono2) (auto intro: finite_subset)
  finally show ?thesis .
qed

lemma cycle_not_freed:
  assumes "\<forall>x \<in> C. \<exists>p \<in> C. x \<in> referents_of h p" and "a \<notin> C" and "x \<in> freed h {a} {} ext"
  shows "x \<notin> C"
  using assms(3)
proof (induction rule: freed.induct)
  case (forced x)
  with assms(2) show ?case by auto
next
  case (held x)
  then show ?case by simp
next
  case (referred d x)
  show ?case
  proof
    assume "x \<in> C"
    with assms(1) obtain p where "p \<in> C" "x \<in> referents_of h p" by blast
    with referred show False by auto
  qed
qed

lemma fold_record_thread:
  "distinct (map ht_name ts) \<Longrightarrow> t \<in> set ts \<Longrightarrow>
     fold (record_thread h) ts m (ht_name t) = Some (thread_retained h t)"
proof (induction ts arbitrary: m)
  case (Cons u ts)
  have other: "fold (record_thread h) ts m n = m n" if "n \<notin> ht_name ` set ts" for m n
    using that by (induction ts arbitrary: m) (auto simp: record_thread_def)
  show ?case
  proof (cases "t = u")
    case True
    with Cons.prems(1) show ?thesis by (simp add: other) (simp add: record_thread_def)
  next
    case False
    with Cons show ?thesis by simp
  qed
qed simp

section \<open>Properties\<close>

text \<open>
  C11: For a heap whose thread locals are all known, and whatever the iteration order of Python's
  sets, \<open>calculate\<close> returns: the retained size of an object is the sum of the sizes of the
  reference-counting closure of deleting it, and that of a thread (by name, where names differ) is
  the closure of deleting its locals, except those that another thread holds. A second call raises.
\<close>

theorem retained_exact:
  assumes "iterates it" and "graph_ok h" and "\<forall>t \<in> set (h_threads h). \<forall>x \<in> thread_locals t. node h x"
  shows "\<exists>r c. calculate it h (inbound_references it h) calculator_init = Some (Inr (r, c)) \<and>
    (\<forall>a. get_for_object r a =
      (if map_of (h_objects h) a \<noteq> None
       then Some (sum (size_of h) (freed h {a} {} (\<lambda>_. 0))) else None)) \<and>
    (distinct (map ht_name (h_threads h)) \<longrightarrow> (\<forall>t \<in> set (h_threads h).
       get_for_thread r (ht_name t) =
         Inr (sum (size_of h) (freed h {} (thread_locals t) (held_elsewhere h t))))) \<and>
    calculate it h (inbound_references it h) c = Some (raise ValueError ''retained heap is already calculated'' [])"
proof -
  from reference_index.calculated [OF inbound_references_index [OF assms(1)] assms] obtain r c where
    run: "calculate it h (inbound_references it h) calculator_init = Some (Inr (r, c))" "c_calculated c" and
    objs: "rh_objects r = (\<lambda>a. if a \<in> objects h then Some (object_retained h a) else None)" and
    threads: "rh_threads r = fold (record_thread h) (h_threads h) Map.empty" by blast
  have "\<forall>a. get_for_object r a = (if map_of (h_objects h) a \<noteq> None
       then Some (sum (size_of h) (freed h {a} {} (\<lambda>_. 0))) else None)"
    by (simp add: get_for_object_def objs objects_def object_retained_def)
  moreover have "get_for_thread r (ht_name t) =
      Inr (sum (size_of h) (freed h {} (thread_locals t) (held_elsewhere h t)))"
    if "distinct (map ht_name (h_threads h))" "t \<in> set (h_threads h)" for t
    using fold_record_thread [OF that] by (simp add: get_for_thread_def threads thread_retained_def)
  ultimately show ?thesis using run by (auto simp: calculate_def)
qed

text \<open>Three objects: 1 refers to 2, and 2 and 3 refer to each other; one thread holds 1.\<close>

definition demo_cell :: "address \<Rightarrow> address set \<Rightarrow> address \<times> heap_object" where
  "demo_cell a refs = (a, \<lparr>ho_address = a, ho_type_address = 9, ho_size = 10 * a, ho_referents = refs,
     ho_content = NoContent, ho_string_offset = None\<rparr>)"

definition demo_thread :: "pystr \<Rightarrow> address \<Rightarrow> heap_thread" where
  "demo_thread name a = \<lparr>ht_name = name, ht_is_alive = True, ht_is_daemon = False, ht_stack_trace =
     [\<lparr>hf_file_name = [], hf_line_number = 1, hf_function_name = [], hf_locals = [(lit ''x'', a)]\<rparr>]\<rparr>"

definition demo_heap :: "heap_thread list \<Rightarrow> heap" where
  "demo_heap threads =
     \<lparr>h_header = \<lparr>hh_version = 1, hh_created_at = [], hh_with_str_repr = False, hh_well_known_types = []\<rparr>,
      h_threads = threads, h_objects = [demo_cell 1 {2}, demo_cell 2 {3}, demo_cell 3 {2}],
      h_types = [], h_source = None\<rparr>"

lemma demo_heap_graph: "graph_ok (demo_heap threads)"
  by (simp add: demo_heap_def demo_cell_def graph_ok_def dict_ok_def)

lemma demo_thread_locals: "thread_locals (demo_thread name a) = {a}"
  by (simp add: thread_locals_def demo_thread_def)

lemma demo_node: "node (demo_heap threads) 1"
  by (simp add: node_def demo_heap_def demo_cell_def)

theorem retained_exact_witness:
  "\<exists>r c. calculate sorted_list_of_set (demo_heap [demo_thread [] 1])
      (inbound_references sorted_list_of_set (demo_heap [demo_thread [] 1])) calculator_init = Some (Inr (r, c)) \<and>
    get_for_object r 7 = None"
proof -
  have "h_threads (demo_heap [demo_thread [] 1]) = [demo_thread [] 1]" by (simp add: demo_heap_def)
  then have "\<forall>t \<in> set (h_threads (demo_heap [demo_thread [] 1])). \<forall>x \<in> thread_locals t. node (demo_heap [demo_thread [] 1]) x"
    by (simp add: demo_thread_locals demo_node)
  from retained_exact [OF iterates_sorted demo_heap_graph this] obtain r c where
    "calculate sorted_list_of_set (demo_heap [demo_thread [] 1])
      (inbound_references sorted_list_of_set (demo_heap [demo_thread [] 1])) calculator_init = Some (Inr (r, c))"
    "get_for_object r 7 = (if map_of (h_objects (demo_heap [demo_thread [] 1])) 7 \<noteq> None
      then Some (sum (size_of (demo_heap [demo_thread [] 1])) (freed (demo_heap [demo_thread [] 1]) {7} {} (\<lambda>_. 0)))
      else None)" by blast
  then show ?thesis by (simp add: demo_heap_def demo_cell_def)
qed

text \<open>
  C14: The shortcut for strict subtrees is an optimisation: with the roots that
  \<open>find_strict_subtrees\<close> finds, an object gets the retained size that the plain deletion gives it.
\<close>

theorem subtrees_equivalent:
  assumes "iterates it" and "graph_ok h"
    and "find_strict_subtrees it h (inbound_references it h) (c_subtrees calculator_init) = Some (Inr st)"
  shows "retained_heap_for_object it h (inbound_references it h) st a =
    retained_heap it h (inbound_references it h) st [a \<mapsto> 0] [a] False"
proof -
  note index = inbound_references_index [OF assms(1)]
  from reference_index.roots_found [OF index assms(1,2)] assms(3) have "subtrees_ok h st" by auto
  with reference_index.object_value [OF index assms(1,2)]
    reference_index.object_value_plain [OF index assms(1,2)] show ?thesis by simp
qed

theorem subtrees_equivalent_witness:
  "\<exists>st. find_strict_subtrees sorted_list_of_set (demo_heap [])
      (inbound_references sorted_list_of_set (demo_heap [])) (c_subtrees calculator_init) = Some (Inr st) \<and>
    retained_heap_for_object sorted_list_of_set (demo_heap []) (inbound_references sorted_list_of_set (demo_heap [])) st 2 =
    retained_heap sorted_list_of_set (demo_heap []) (inbound_references sorted_list_of_set (demo_heap [])) st [2 \<mapsto> 0] [2] False"
  using ascending.roots_found [OF iterates_sorted demo_heap_graph [of "[]"]]
    subtrees_equivalent [OF iterates_sorted demo_heap_graph [of "[]"]] by blast

text \<open>
  C26: The search for strict subtrees ends without an error on every heap graph, with or without
  cycles, and each root that it finds is an object with at most one referrer, whose recorded size
  is the sum of the sizes of everything below it.
\<close>

theorem subtrees_found:
  assumes "iterates it" and "graph_ok h"
  shows "\<exists>st. find_strict_subtrees it h (inbound_references it h) (c_subtrees calculator_init) = Some (Inr st) \<and>
    (\<forall>r \<in> st_roots st. map_of (h_objects h) r \<noteq> None \<and> card (inbound_set h r) \<le> 1 \<and>
       referents_of h r \<subseteq> st_roots st \<and> st_retained st r = Some (sum (size_of h) (below h r)))"
proof -
  from reference_index.roots_found [OF inbound_references_index [OF assms(1)] assms] obtain st where
    run: "find_strict_subtrees it h (inbound_references it h) (c_subtrees calculator_init) = Some (Inr st)"
    and ok: "subtrees_ok h st" by blast
  have "card (inbound_set h r) \<le> 1" if "r \<in> strict h" for r
    using that by (cases rule: strict.cases) simp
  with ok have "\<forall>r \<in> st_roots st. map_of (h_objects h) r \<noteq> None \<and> card (inbound_set h r) \<le> 1 \<and>
       referents_of h r \<subseteq> st_roots st \<and> st_retained st r = Some (sum (size_of h) (below h r))"
    unfolding subtrees_ok_def roots_ok_def weight_def by (blast dest: strict_object)
  with run show ?thesis by blast
qed

theorem subtrees_found_witness:
  "\<exists>st. find_strict_subtrees sorted_list_of_set (demo_heap [])
      (inbound_references sorted_list_of_set (demo_heap [])) (c_subtrees calculator_init) = Some (Inr st)"
  using subtrees_found [OF iterates_sorted demo_heap_graph [of "[]"]] by blast

text \<open>
  C27: With sizes that are not negative, the retained size of an object is at least its own size
  and at most the size of the heap; and a set of objects each referred to from within the set, a
  cycle, is never part of it, even when nothing but the object refers into the cycle.
\<close>

theorem retained_bounds:
  assumes "iterates it" and "graph_ok h" and "\<forall>entry \<in> set (h_objects h). 0 \<le> ho_size (snd entry)"
    and "(a, obj) \<in> set (h_objects h)" and "subtrees_ok h st"
    and "\<forall>x \<in> C. \<exists>p \<in> C. x \<in> referents_of h p" and "a \<notin> C"
  shows "\<exists>n. retained_heap_for_object it h (inbound_references it h) st a = Some (Inr n) \<and>
    ho_size obj \<le> n \<and> n \<le> total_heap_size h - sum (size_of h) (C \<inter> objects h)"
proof -
  let ?X = "freed h {a} {} (\<lambda>_. 0)"
  have obj: "map_of (h_objects h) a = Some obj" using assms(2,4) by (simp add: graph_ok_def dict_ok_def)
  have fin: "finite ?X" by (rule finite_object_freed [OF assms(2)])
  have "sum (size_of h) ?X \<le> sum (size_of h) (objects h - C)"
    using cycle_not_freed [OF assms(6,7)] by (intro freed_sum_le [OF assms(2,3) fin]) auto
  also have "\<dots> = total_heap_size h - sum (size_of h) (C \<inter> objects h)"
    using sum.Int_Diff [OF finite_objects_set, of "size_of h" h C] by (simp add: total_as_sum [OF assms(2)] Int_commute)
  finally have upper: "sum (size_of h) ?X \<le> total_heap_size h - sum (size_of h) (C \<inter> objects h)" .
  have "a \<in> ?X" by (rule freed.forced) simp
  moreover have "0 \<le> size_of h x" for x
    using assms(3) by (auto simp: size_of_def split: option.splits dest!: map_of_SomeD)
  ultimately have "size_of h a \<le> sum (size_of h) ?X" using fin by (intro member_le_sum) auto
  with upper obj reference_index.object_value [OF inbound_references_index [OF assms(1)] assms(1,2,5)]
  show ?thesis by (auto simp: object_retained_def size_of_def)
qed

theorem retained_bounds_witness:
  "retained_heap_for_object sorted_list_of_set (demo_heap []) (inbound_references sorted_list_of_set (demo_heap []))
     \<lparr>st_roots = {}, st_retained = Map.empty\<rparr> 1 = Some (Inr 10)"
proof -
  have refs: "3 \<in> referents_of (demo_heap []) 2" "2 \<in> referents_of (demo_heap []) 3"
    by (simp_all add: referents_of_def demo_heap_def demo_cell_def)
  have cycle: "\<forall>x \<in> {2, 3}. \<exists>p \<in> {2, 3}. x \<in> referents_of (demo_heap []) p" using refs by blast
  have "objects (demo_heap []) = {1, 2, 3}" by (auto simp: objects_def demo_heap_def demo_cell_def)
  then have inner: "sum (size_of (demo_heap [])) ({2, 3} \<inter> objects (demo_heap [])) = 50"
    by (simp add: size_of_def demo_heap_def demo_cell_def)
  have total: "total_heap_size (demo_heap []) = 60"
    by (simp add: total_heap_size_def demo_heap_def demo_cell_def)
  have "subtrees_ok (demo_heap []) \<lparr>st_roots = {}, st_retained = Map.empty\<rparr>"
    by (simp add: subtrees_ok_def roots_ok_def)
  from retained_bounds [where a = 1 and obj = "snd (demo_cell 1 {2})", OF iterates_sorted demo_heap_graph _ _ this cycle] show ?thesis
    unfolding inner total by (auto simp: demo_heap_def demo_cell_def)
qed

text \<open>
  C28: A thread local that is neither an object of the heap nor referred to by one makes the whole
  calculation fail with a \<^verbatim>\<open>KeyError\<close>.
\<close>

theorem unknown_local_fails:
  assumes "iterates it" and "graph_ok h" and "t \<in> set (h_threads h)" and "x \<in> thread_locals t"
    and "map_of (h_objects h) x = None" and "\<forall>(a, obj) \<in> set (h_objects h). x \<notin> ho_referents obj"
  shows "calculate it h (inbound_references it h) calculator_init = Some (raise KeyError ''missing key'' [])"
proof -
  have "x \<notin> referents_of h a" for a
    using assms(6) by (auto simp: referents_of_def split: option.splits dest!: map_of_SomeD)
  then have "\<not> node h x" using assms(5) by (simp add: node_def inbound_set_def)
  with reference_index.not_calculated [OF inbound_references_index [OF assms(1)] assms(1-4)] show ?thesis by blast
qed

theorem unknown_local_fails_witness:
  "calculate sorted_list_of_set (demo_heap [demo_thread [] 99])
     (inbound_references sorted_list_of_set (demo_heap [demo_thread [] 99])) calculator_init =
   Some (raise KeyError ''missing key'' [])"
  by (rule unknown_local_fails [OF iterates_sorted demo_heap_graph, of "demo_thread [] 99" _ 99])
    (simp_all add: demo_thread_locals, simp_all add: demo_heap_def demo_cell_def)

text \<open>
  The list of objects by retained size holds every object of the heap once, with its size or
  zero, in descending order of size.
\<close>

theorem objects_sorted:
  assumes "graph_ok h"
  shows "set (objects_sorted_by_retained_heap h r) =
      {(a, case get_for_object r a of Some n \<Rightarrow> n | None \<Rightarrow> 0) | a. map_of (h_objects h) a \<noteq> None} \<and>
    distinct (map fst (objects_sorted_by_retained_heap h r)) \<and>
    sorted_wrt (\<ge>) (map snd (objects_sorted_by_retained_heap h r))"
proof -
  let ?l = "map (\<lambda>a. (a, case get_for_object r a of Some n \<Rightarrow> n | None \<Rightarrow> 0)) (map fst (h_objects h))"
  let ?s = "objects_sorted_by_retained_heap h r"
  have mset: "mset ?s = mset ?l" by (simp add: objects_sorted_by_retained_heap_def)
  then have "set ?s = set ?l" by (rule mset_eq_setD)
  moreover have "set (map fst (h_objects h)) = objects h" by (auto simp: objects_def map_of_eq_None_iff)
  ultimately have set: "set ?s = (\<lambda>a. (a, case get_for_object r a of Some n \<Rightarrow> n | None \<Rightarrow> 0)) ` objects h"
    by (metis set_map)
  have "distinct (map fst ?s)"
  proof -
    have "mset (map fst ?s) = mset (map fst ?l)" using mset by (metis mset_map)
    moreover have "distinct (map fst ?l)" using assms by (simp add: graph_ok_def dict_ok_def comp_def)
    ultimately show ?thesis by (metis mset_eq_imp_distinct_iff)
  qed
  moreover have "sorted (map (\<lambda>item. - snd item) ?s)"
    by (simp add: objects_sorted_by_retained_heap_def)
  then have "sorted_wrt (\<ge>) (map snd ?s)" by (simp add: sorted_map sorted_wrt_map)
  ultimately show ?thesis unfolding set by (auto simp: objects_def)
qed

theorem objects_sorted_witness:
  "distinct (map fst (objects_sorted_by_retained_heap (demo_heap []) \<lparr>rh_objects = Map.empty, rh_threads = Map.empty\<rparr>))"
  using objects_sorted [OF demo_heap_graph] by blast

text \<open>
  An object held by a second thread is counted as retained by the first one when the first one
  reaches it through another object: here thread \<open>a\<close> holds object 1 only, thread \<open>b\<close> holds
  object 2, object 1 refers to object 2, and both sizes are counted for thread \<open>a\<close>.
\<close>

definition held_heap :: heap where
  "held_heap = (demo_heap [demo_thread (lit ''a'') 1, demo_thread (lit ''b'') 2])
     \<lparr>h_objects := [demo_cell 1 {2}, demo_cell 2 {}]\<rparr>"

lemma held_heap_facts:
  "h_threads held_heap = [demo_thread (lit ''a'') 1, demo_thread (lit ''b'') 2]" "graph_ok held_heap"
  "referents_of held_heap x = (if x = 1 then {2} else {})" "size_of held_heap 1 = 10" "size_of held_heap 2 = 20"
  "map_of (h_objects held_heap) 1 \<noteq> None" "map_of (h_objects held_heap) 2 \<noteq> None"
  by (simp_all add: held_heap_def demo_heap_def graph_ok_def dict_ok_def demo_cell_def referents_of_def size_of_def)

lemma held_heap_freed:
  "freed held_heap {} {1} (held_elsewhere held_heap (demo_thread (lit ''a'') 1)) = {1, 2}" (is "?X = _")
proof -
  have ext: "held_elsewhere held_heap (demo_thread (lit ''a'') 1) x = 0" for x
    by (simp add: held_elsewhere_holders other_holders_def held_heap_facts demo_thread_locals)
  have "1 \<in> ?X" by (rule freed.held) (auto simp: ext held_heap_facts split: if_splits)
  moreover have "2 \<in> ?X"
    by (rule freed.referred [OF calculation]) (use calculation in \<open>auto simp: ext held_heap_facts split: if_splits\<close>)
  moreover have "x \<in> {1, 2}" if "x \<in> ?X" for x
    using that by (induction rule: freed.induct) (auto simp: held_heap_facts split: if_splits)
  ultimately show ?thesis by blast
qed

theorem held_object_counted:
  "\<exists>r c. calculate sorted_list_of_set held_heap (inbound_references sorted_list_of_set held_heap) calculator_init =
      Some (Inr (r, c)) \<and>
    get_for_thread r (lit ''a'') = Inr 30"
proof -
  have "\<forall>t \<in> set (h_threads held_heap). \<forall>x \<in> thread_locals t. node held_heap x"
    using held_heap_facts(6,7) by (simp add: held_heap_facts(1) demo_thread_locals node_def)
  from ascending.calculated [OF iterates_sorted held_heap_facts(2) this] obtain r c where
    run: "calculate sorted_list_of_set held_heap (inbound_references sorted_list_of_set held_heap) calculator_init =
      Some (Inr (r, c))" and
    threads: "rh_threads r = fold (record_thread held_heap) (h_threads held_heap) Map.empty" by blast
  have "distinct (map ht_name (h_threads held_heap))" "demo_thread (lit ''a'') 1 \<in> set (h_threads held_heap)"
    by (simp_all add: held_heap_facts demo_thread_def lit_def)
  from fold_record_thread [OF this, of held_heap Map.empty]
  have "get_for_thread r (lit ''a'') = Inr (thread_retained held_heap (demo_thread (lit ''a'') 1))"
    by (simp add: get_for_thread_def threads) (simp add: demo_thread_def)
  then have "get_for_thread r (lit ''a'') = Inr 30"
    by (simp add: thread_retained_def demo_thread_locals held_heap_freed held_heap_facts)
  with run show ?thesis by blast
qed

end
