(* ===== verification/Report.thy ===== *)
theory Report
  imports Round_Trip Retained_Subtrees
begin

text \<open>
  \<^verbatim>\<open>analyzer/python/src/pydump_analyzer/report.py\<close>: the analysis of a heap as a value of records,
  in the shape of the JSON document that the command line prints (\<open>None\<close> is its \<open>null\<close>). The hash
  of the file is a parameter. The theorems say what the summaries add up to and that the analysis
  of a heap that was read never fails.
\<close>

section \<open>The document\<close>

record type_summary =
  ts_type_address :: pystr
  ts_type_name :: pystr
  ts_object_count :: int
  ts_shallow_size :: int

record local_summary =
  ls_name :: pystr
  ls_object_address :: pystr
  ls_type_name :: "pystr option"

record frame_summary =
  fs_file_name :: pystr
  fs_line_number :: int
  fs_function_name :: pystr
  fs_local_variables :: "local_summary list"

record thread_report =
  tr_name :: pystr
  tr_is_alive :: bool
  tr_is_daemon :: bool
  tr_retained_size :: "int option"
  tr_frames :: "frame_summary list"

record top_object =
  to_object_address :: pystr
  to_type_name :: pystr
  to_shallow_size :: int
  to_retained_size :: int
  to_string_representation :: "pystr option"

record retained_report =
  rr_status :: pystr
  rr_top_n :: int
  rr_top_objects :: "top_object list"

record analysis =
  an_schema :: pystr
  an_sha256 :: pystr
  an_size_bytes :: int
  an_heap_format_version :: int
  an_created_at :: pystr
  an_with_string_representations :: bool
  an_object_count :: int
  an_type_count :: int
  an_thread_count :: int
  an_referent_count :: int
  an_shallow_size :: int
  an_types :: "type_summary list"
  an_threads :: "thread_report list"
  an_retained_heap :: retained_report

definition ANALYSIS_SCHEMA :: pystr where
  "ANALYSIS_SCHEMA = lit ''pydump.analysis/v1''"

section \<open>Summaries\<close>

definition address_text :: "address \<Rightarrow> pystr" where
  "address_text a = lit ''0x'' @ hex_text a"

text \<open>\<open>d[k] = d.get(k, 0) + n\<close>\<close>

definition tally :: "address \<Rightarrow> int \<Rightarrow> (address, int) pydict \<Rightarrow> (address, int) pydict" where
  "tally k n d = dict_set k ((case map_of d k of Some m \<Rightarrow> m | None \<Rightarrow> 0) + n) d"

definition type_counts :: "heap \<Rightarrow> (address, int) pydict" where
  "type_counts h = fold (\<lambda>entry. tally (ho_type_address (snd entry)) 1) (h_objects h) []"

definition type_sizes :: "heap \<Rightarrow> (address, int) pydict" where
  "type_sizes h = fold (\<lambda>entry. tally (ho_type_address (snd entry)) (ho_size (snd entry))) (h_objects h) []"

text \<open>One row per counted type with the key it is sorted by.\<close>

definition type_key :: "heap \<Rightarrow> address \<Rightarrow> (int \<times> int \<times> pystr \<times> address) res" where
  "type_key h a =
     rbind (subscript (map_of (type_sizes h)) a) (\<lambda>size.
     rbind (subscript (map_of (type_counts h)) a) (\<lambda>number.
     rbind (subscript (map_of (h_types h)) a) (\<lambda>name.
     Inr (- size, - number, name, a))))"

definition type_row :: "int \<times> int \<times> pystr \<times> address \<Rightarrow> type_summary" where
  "type_row key = (case key of (bytes_held, number, name, a) \<Rightarrow>
     \<lparr>ts_type_address = address_text a, ts_type_name = name, ts_object_count = - number,
      ts_shallow_size = - bytes_held\<rparr>)"

definition type_summaries :: "heap \<Rightarrow> type_summary list res" where
  "type_summaries h =
     rbind (rmap (type_key h) (map fst (type_counts h))) (\<lambda>keys. Inr (map type_row (sort keys)))"

definition object_type_name :: "heap \<Rightarrow> address \<Rightarrow> pystr option" where
  "object_type_name h a =
     (case map_of (h_objects h) a of
        None \<Rightarrow> None
      | Some obj \<Rightarrow> map_of (h_types h) (ho_type_address obj))"

definition frame_summary :: "heap \<Rightarrow> heap_frame \<Rightarrow> frame_summary" where
  "frame_summary h frame =
     \<lparr>fs_file_name = hf_file_name frame, fs_line_number = hf_line_number frame,
      fs_function_name = hf_function_name frame,
      fs_local_variables = map (\<lambda>(name, a).
        \<lparr>ls_name = name, ls_object_address = address_text a, ls_type_name = object_type_name h a\<rparr>)
        (sort (hf_locals frame))\<rparr>"

definition thread_summary :: "heap \<Rightarrow> heap_thread \<Rightarrow> retained_result option \<Rightarrow> thread_report res" where
  "thread_summary h thread retained =
     rbind (case retained of
         None \<Rightarrow> Inr None
       | Some r \<Rightarrow> rbind (get_for_thread r (ht_name thread)) (\<lambda>n. Inr (Some n))) (\<lambda>size.
     Inr \<lparr>tr_name = ht_name thread, tr_is_alive = ht_is_alive thread, tr_is_daemon = ht_is_daemon thread,
          tr_retained_size = size, tr_frames = map (frame_summary h) (ht_stack_trace thread)\<rparr>)"

definition object_string :: "nat \<Rightarrow> heap \<Rightarrow> heap_object \<Rightarrow> pystr option res" where
  "object_string stack h obj =
     (if hh_with_str_repr (h_header h) then string_representation stack h obj else Inr None)"

text \<open>\<open>xs[:n]\<close>, where a negative \<open>n\<close> counts from the end.\<close>

definition prefix_slice :: "int \<Rightarrow> 'a list \<Rightarrow> 'a list" where
  "prefix_slice n xs = (if 0 \<le> n then take (nat n) xs else take (length xs - nat (- n)) xs)"

definition top_entry :: "nat \<Rightarrow> heap \<Rightarrow> address \<times> int \<Rightarrow> top_object res" where
  "top_entry stack h item =
     rbind (subscript (map_of (h_objects h)) (fst item)) (\<lambda>obj.
     rbind (subscript (map_of (h_types h)) (ho_type_address obj)) (\<lambda>name.
     rbind (object_string stack h obj) (\<lambda>str.
     Inr \<lparr>to_object_address = address_text (fst item), to_type_name = name, to_shallow_size = ho_size obj,
          to_retained_size = snd item, to_string_representation = str\<rparr>)))"

definition retained_summary :: "nat \<Rightarrow> heap \<Rightarrow> retained_result option \<Rightarrow> int \<Rightarrow> retained_report res" where
  "retained_summary stack h retained top_n =
     (case retained of
        None \<Rightarrow> Inr \<lparr>rr_status = lit ''not_computed'', rr_top_n = top_n, rr_top_objects = []\<rparr>
      | Some r \<Rightarrow>
          rbind (rmap (top_entry stack h) (prefix_slice top_n (objects_sorted_by_retained_heap h r))) (\<lambda>top.
          Inr \<lparr>rr_status = lit ''complete'', rr_top_n = top_n, rr_top_objects = top\<rparr>))"

text \<open>
  The hash of the file: it is read in blocks of a mebibyte, which are fed to the digest one by one.
  \<open>sha256\<close> is the text of the digest of all bytes that it was fed with.
\<close>

definition HASH_BLOCK :: nat where "HASH_BLOCK = 1024 * 1024"

function hashed_blocks :: "bytes \<Rightarrow> bytes \<Rightarrow> bytes" where
  "hashed_blocks fed unread =
     (let chunk = take HASH_BLOCK unread in
      if chunk = [] then fed else hashed_blocks (fed @ chunk) (drop HASH_BLOCK unread))"
  by pat_completeness auto
termination
  by (relation "measure (\<lambda>(fed, unread). length unread)") (auto simp: HASH_BLOCK_def)

declare hashed_blocks.simps [simp del]

definition sha256_of_file :: "(bytes \<Rightarrow> pystr) \<Rightarrow> bytes \<Rightarrow> pystr" where
  "sha256_of_file sha256 file_bytes = sha256 (hashed_blocks [] file_bytes)"

definition build_heap_analysis ::
  "nat \<Rightarrow> (bytes \<Rightarrow> pystr) \<Rightarrow> bytes \<Rightarrow> heap \<Rightarrow> retained_result option \<Rightarrow> int \<Rightarrow> analysis res" where
  "build_heap_analysis stack sha256 file_bytes h retained top_n =
     rbind (type_summaries h) (\<lambda>types.
     rbind (rmap (\<lambda>thread. thread_summary h thread retained) (h_threads h)) (\<lambda>threads.
     rbind (retained_summary stack h retained top_n) (\<lambda>retained_heap.
     Inr \<lparr>an_schema = ANALYSIS_SCHEMA, an_sha256 = sha256_of_file sha256 file_bytes, an_size_bytes = int (length file_bytes),
          an_heap_format_version = hh_version (h_header h), an_created_at = hh_created_at (h_header h),
          an_with_string_representations = hh_with_str_repr (h_header h),
          an_object_count = int (length (h_objects h)), an_type_count = int (length (h_types h)),
          an_thread_count = int (length (h_threads h)),
          an_referent_count = sum_list (map (\<lambda>entry. int (card (ho_referents (snd entry)))) (h_objects h)),
          an_shallow_size = total_heap_size h, an_types = types, an_threads = threads,
          an_retained_heap = retained_heap\<rparr>)))"

text \<open>Reading in blocks hashes the whole file, once.\<close>

lemma hashed_blocks_all: "hashed_blocks fed unread = fed @ unread"
proof (induction fed unread rule: hashed_blocks.induct)
  case (1 fed unread)
  show ?case
  proof (cases "take HASH_BLOCK unread = []")
    case True
    then show ?thesis by (subst hashed_blocks.simps) (simp add: HASH_BLOCK_def)
  next
    case False
    with 1 show ?thesis by (subst hashed_blocks.simps) (simp add: Let_def)
  qed
qed

lemma sha256_of_file_all [simp]: "sha256_of_file sha256 file_bytes = sha256 file_bytes"
  by (simp add: sha256_of_file_def hashed_blocks_all)

section \<open>What the tallies hold\<close>

definition tallied :: "(address \<times> heap_object) list \<Rightarrow> (heap_object \<Rightarrow> int) \<Rightarrow> address \<Rightarrow> int" where
  "tallied es w a = sum_list (map (\<lambda>e. w (snd e)) (filter (\<lambda>e. ho_type_address (snd e) = a) es))"

lemma tallied_simps [simp]:
  "tallied [] w a = 0"
  "tallied (e # es) w a = (if ho_type_address (snd e) = a then w (snd e) else 0) + tallied es w a"
  by (simp_all add: tallied_def)

lemma tallied_none: "a \<notin> ho_type_address ` snd ` set es \<Longrightarrow> tallied es w a = 0"
  by (induction es) auto

lemma fold_tally:
  assumes "dict_ok d"
  shows "dict_ok (fold (\<lambda>e. tally (ho_type_address (snd e)) (w (snd e))) es d) \<and>
    map_of (fold (\<lambda>e. tally (ho_type_address (snd e)) (w (snd e))) es d) a =
     (if a \<in> ho_type_address ` snd ` set es
      then Some ((case map_of d a of Some m \<Rightarrow> m | None \<Rightarrow> 0) + tallied es w a) else map_of d a)"
  using assms
proof (induction es arbitrary: d)
  case (Cons e es)
  have "dict_ok (tally (ho_type_address (snd e)) (w (snd e)) d)" using Cons.prems by (simp add: tally_def)
  note IH = Cons.IH [OF this]
  have "map_of (tally (ho_type_address (snd e)) (w (snd e)) d) a =
      (if a = ho_type_address (snd e) then Some ((case map_of d a of Some m \<Rightarrow> m | None \<Rightarrow> 0) + w (snd e)) else map_of d a)"
    by (simp add: tally_def)
  with IH show ?case
    by (cases "a \<in> ho_type_address ` snd ` set es"; cases "a = ho_type_address (snd e)")
      (simp_all add: tallied_none)
qed simp

lemma type_counts_spec:
  "dict_ok (type_counts h)"
  "map_of (type_counts h) a = (if a \<in> ho_type_address ` snd ` set (h_objects h)
     then Some (tallied (h_objects h) (\<lambda>_. 1) a) else None)"
  using fold_tally [of "[]" "\<lambda>_. 1" "h_objects h"] by (simp_all add: type_counts_def)

lemma type_sizes_spec:
  "map_of (type_sizes h) a = (if a \<in> ho_type_address ` snd ` set (h_objects h)
     then Some (tallied (h_objects h) ho_size a) else None)"
  using fold_tally [of "[]" ho_size "h_objects h"] by (simp add: type_sizes_def)

lemma type_counts_keys:
  "set (map fst (type_counts h)) = ho_type_address ` snd ` set (h_objects h)"
proof -
  have "a \<in> fst ` set (type_counts h) \<longleftrightarrow> map_of (type_counts h) a \<noteq> None" for a
    by (simp add: map_of_eq_None_iff)
  then show ?thesis unfolding set_map type_counts_spec(2) by (intro set_eqI) (metis option.distinct(1))
qed

lemma tallied_total:
  assumes "finite A" and "ho_type_address ` snd ` set es \<subseteq> A"
  shows "(\<Sum>a \<in> A. tallied es w a) = sum_list (map (\<lambda>e. w (snd e)) es)"
  using assms(2)
proof (induction es)
  case Nil
  show ?case by simp
next
  case (Cons e es)
  with assms(1) show ?case by (simp add: sum.distrib)
qed

text \<open>The keys of the rows, when every type is in the type table.\<close>

definition full_key :: "heap \<Rightarrow> address \<Rightarrow> int \<times> int \<times> pystr \<times> address" where
  "full_key h a = (- tallied (h_objects h) ho_size a, - tallied (h_objects h) (\<lambda>_. 1) a, the (map_of (h_types h) a), a)"

lemma type_summaries_run:
  assumes "\<forall>(a, obj) \<in> set (h_objects h). map_of (h_types h) (ho_type_address obj) \<noteq> None"
  shows "type_summaries h = Inr (map type_row (sort (map (full_key h) (map fst (type_counts h)))))"
proof -
  have "type_key h a = Inr (full_key h a)" if "a \<in> set (map fst (type_counts h))" for a
  proof -
    from that have a: "a \<in> ho_type_address ` snd ` set (h_objects h)" by (simp only: type_counts_keys)
    with assms obtain name where "map_of (h_types h) a = Some name" by fastforce
    with a show ?thesis
      by (simp add: type_key_def full_key_def subscript_def type_counts_spec type_sizes_spec)
  qed
  then have "list_all2 (\<lambda>a k. type_key h a = Inr k) (map fst (type_counts h)) (map (full_key h) (map fst (type_counts h)))"
    by (simp add: list_all2_map2 list_all2_same del: map_map)
  then have "rmap (type_key h) (map fst (type_counts h)) = Inr (map (full_key h) (map fst (type_counts h)))"
    by (simp only: rmap_Inr)
  then show ?thesis by (simp add: type_summaries_def)
qed


lemma sum_list_mset: "mset xs = mset ys \<Longrightarrow> sum_list (map f xs) = sum_list (map f ys)" for f :: "'a \<Rightarrow> int"
  by (metis mset_map sum_mset_sum_list)

section \<open>Heaps that were read\<close>

lemma heap_wf_graph: "heap_wf h source \<Longrightarrow> graph_ok h"
  by (auto simp: heap_wf_def graph_ok_def object_wf_def)

lemma heap_wf_types:
  assumes "heap_wf h source"
  shows "\<forall>(a, obj) \<in> set (h_objects h). map_of (h_types h) (ho_type_address obj) \<noteq> None"
  using assms by (auto simp: heap_wf_def object_wf_def)

text \<open>An entry of the report: with less stack there is the same entry or none.\<close>

lemma top_entry_exact:
  assumes "read_heap source = Inr h" and "fst item \<in> fst ` set (h_objects h)"
  shows "top_entry stack h item =
      (if renders stack h (fst item) then top_entry (2 * length (h_objects h) + 2) h item else Inl recursion_error)"
    and "\<exists>t. top_entry (2 * length (h_objects h) + 2) h item = Inr t"
proof -
  have wf: "heap_wf h source" using assms(1) by (rule read_heap_wf)
  obtain obj where obj: "map_of (h_objects h) (fst item) = Some obj"
    using assms(2) by (metis map_of_eq_None_iff not_None_eq)
  have address: "ho_address obj = fst item"
    using wf map_of_SomeD [OF obj] by (auto simp: heap_wf_def object_wf_def)
  from heap_wf_types [OF wf] map_of_SomeD [OF obj] obtain name where
    name: "map_of (h_types h) (ho_type_address obj) = Some name" by fastforce
  obtain s where s: "rendering h (fst item) {} = Inr s"
    using rendering_defined [OF renderable(1) [OF assms(1)]] renderable(3) [OF assms(1)] by metis
  have "card (fst ` set (h_objects h)) \<le> length (h_objects h)" by (metis card_length length_map list.set_map)
  with nested_calls_bound [of h "fst item" "{}"]
  have few: "nested_calls h (fst item) {} \<le> 2 * length (h_objects h) + 2" by simp
  have exact: "string_repr stack h a {} =
      (if nested_calls h a {} \<le> stack then rendering h a {} else Inl recursion_error)" for stack a
    by (rule string_repr_exact [OF renderable(1) [OF assms(1)]]) (rule renderable(3) [OF assms(1)])
  show "top_entry stack h item =
      (if renders stack h (fst item) then top_entry (2 * length (h_objects h) + 2) h item else Inl recursion_error)"
    and "\<exists>t. top_entry (2 * length (h_objects h) + 2) h item = Inr t"
    using few s name
    by (simp_all add: top_entry_def obj subscript_def object_string_def string_representation_def address exact renders_def)
qed

text \<open>The objects at the top of the report can be rendered with this stack.\<close>

definition listed_render :: "nat \<Rightarrow> heap \<Rightarrow> retained_result \<Rightarrow> int \<Rightarrow> bool" where
  "listed_render stack h r top_n \<longleftrightarrow>
     (\<forall>item \<in> set (take (nat top_n) (objects_sorted_by_retained_heap h r)). renders stack h (fst item))"

lemma fold_record_thread_defined: "t \<in> set ts \<Longrightarrow> fold (record_thread h) ts m (ht_name t) \<noteq> None"
proof (induction ts arbitrary: m)
  case (Cons u ts)
  have "fold (record_thread h) us m n \<noteq> None" if "m n \<noteq> None" for us m n
    using that by (induction us arbitrary: m) (auto simp: record_thread_def)
  note kept = this
  have "record_thread h u m (ht_name u) \<noteq> None" by (simp add: record_thread_def)
  from kept [of "record_thread h u m" "ht_name u" ts, OF this] Cons show ?case by auto
qed simp

lemma prefix_slice_nonneg: "0 \<le> n \<Longrightarrow> prefix_slice n xs = take (nat n) xs"
  by (simp add: prefix_slice_def)

lemma set_prefix_slice: "set (prefix_slice n xs) \<subseteq> set xs"
  by (simp add: prefix_slice_def set_take_subset)

lemma sort_map_key: "sort (map f xs) = map f (sort_key f xs)"
  by (rule properties_for_sort) simp_all

lemma ample_stack: "listed_render (2 * length (h_objects h) + 2) h r top_n"
  by (simp add: listed_render_def few_objects_render)

lemma retained_summary_exact:
  assumes "read_heap source = Inr h" and "0 \<le> top_n"
  shows "\<exists>top. (\<forall>stack. retained_summary stack h (Some r) top_n = (if listed_render stack h r top_n
      then Inr \<lparr>rr_status = lit ''complete'', rr_top_n = top_n, rr_top_objects = top\<rparr> else Inl recursion_error)) \<and>
    map to_retained_size top = map snd (take (nat top_n) (objects_sorted_by_retained_heap h r)) \<and>
    map to_object_address top = map (address_text \<circ> fst) (take (nat top_n) (objects_sorted_by_retained_heap h r))"
proof -
  let ?items = "take (nat top_n) (objects_sorted_by_retained_heap h r)"
  let ?deep = "top_entry (2 * length (h_objects h) + 2) h" and ?fits = "\<lambda>stack item. renders stack h (fst item)"
  have known: "fst item \<in> fst ` set (h_objects h)" if "item \<in> set ?items" for item
    using in_set_takeD [OF that] by (auto simp: objects_sorted_by_retained_heap_def intro: rev_image_eqI)
  have total: "\<exists>t. ?deep item = Inr t" if "item \<in> set ?items" for item
    by (rule top_entry_exact(2) [OF assms(1) known [OF that]])
  have "rmap (top_entry stack h) ?items = rmap (\<lambda>item. if ?fits stack item then ?deep item else Inl recursion_error) ?items" for stack
    by (rule rmap_cong [OF refl]) (rule top_entry_exact(1) [OF assms(1) known])
  then have run: "rmap (top_entry stack h) ?items =
      (if \<forall>item \<in> set ?items. ?fits stack item then rmap ?deep ?items else Inl recursion_error)" for stack
    using rmap_limited [of ?items ?deep "?fits stack" recursion_error, OF total] by simp
  obtain top where top: "rmap ?deep ?items = Inr top"
    using rmap_total [of ?items ?deep, OF total] by blast
  then have all: "list_all2 (\<lambda>item t. ?deep item = Inr t) ?items top" by (simp only: rmap_Inr)
  have entry: "to_retained_size t = snd item \<and> to_object_address t = address_text (fst item)"
    if "?deep item = Inr t" for item t
    using that by (auto simp: top_entry_def rbind_Inr)
  from all have "map to_retained_size top = map snd ?items \<and>
      map to_object_address top = map (address_text \<circ> fst) ?items"
    by (induction rule: list_all2_induct) (simp_all add: entry)
  with run top show ?thesis
    by (intro exI [of _ top]) (simp add: retained_summary_def prefix_slice_nonneg assms(2) listed_render_def)
qed

lemma analysis_run:
  assumes "read_heap source = Inr h" and "\<forall>t \<in> set (h_threads h). \<forall>x \<in> thread_locals t. node h x"
    and "iterates it" and "0 \<le> top_n"
  shows "\<exists>r c doc. calculate it h (inbound_references it h) calculator_init = Some (Inr (r, c)) \<and>
    (\<forall>stack. build_heap_analysis stack sha256 source h (Some r) top_n =
      (if listed_render stack h r top_n then Inr doc else Inl recursion_error)) \<and>
    an_sha256 doc = sha256 source \<and> an_object_count doc = int (length (h_objects h)) \<and>
    an_shallow_size doc = total_heap_size h \<and>
    map tr_name (an_threads doc) = map ht_name (h_threads h) \<and>
    map to_retained_size (rr_top_objects (an_retained_heap doc)) =
      map snd (take (nat top_n) (objects_sorted_by_retained_heap h r))"
proof -
  have wf: "heap_wf h source" using assms(1) by (rule read_heap_wf)
  have graph: "graph_ok h" using wf by (rule heap_wf_graph)
  from reference_index.calculated [OF inbound_references_index [OF assms(3)] assms(3) graph assms(2)]
  obtain r c where run: "calculate it h (inbound_references it h) calculator_init = Some (Inr (r, c))"
    and threads: "rh_threads r = fold (record_thread h) (h_threads h) Map.empty" by blast
  have "\<exists>s. thread_summary h t (Some r) = Inr s" if "t \<in> set (h_threads h)" for t
  proof -
    from fold_record_thread_defined [OF that, of h Map.empty] obtain n where
      "get_for_thread r (ht_name t) = Inr n" by (auto simp: get_for_thread_def threads)
    then show ?thesis by (simp add: thread_summary_def)
  qed
  then obtain ss where ss: "rmap (\<lambda>t. thread_summary h t (Some r)) (h_threads h) = Inr ss"
    using rmap_total [of "h_threads h" "\<lambda>t. thread_summary h t (Some r)"] by blast
  then have all: "list_all2 (\<lambda>t s. thread_summary h t (Some r) = Inr s) (h_threads h) ss" by (simp only: rmap_Inr)
  then have names: "map tr_name ss = map ht_name (h_threads h)"
    by (induction rule: list_all2_induct) (auto simp: thread_summary_def rbind_Inr)
  let ?report = "\<lambda>top. \<lparr>rr_status = lit ''complete'', rr_top_n = top_n, rr_top_objects = top\<rparr>"
  obtain top where summary: "\<And>stack. retained_summary stack h (Some r) top_n =
      (if listed_render stack h r top_n then Inr (?report top) else Inl recursion_error)"
    "map to_retained_size top = map snd (take (nat top_n) (objects_sorted_by_retained_heap h r))"
    using retained_summary_exact [OF assms(1,4)] by blast
  obtain types where types: "type_summaries h = Inr types" using type_summaries_run [OF heap_wf_types [OF wf]] by blast
  let ?doc = "\<lparr>an_schema = ANALYSIS_SCHEMA, an_sha256 = sha256 source, an_size_bytes = int (length source),
      an_heap_format_version = hh_version (h_header h), an_created_at = hh_created_at (h_header h),
      an_with_string_representations = hh_with_str_repr (h_header h),
      an_object_count = int (length (h_objects h)), an_type_count = int (length (h_types h)),
      an_thread_count = int (length (h_threads h)),
      an_referent_count = sum_list (map (\<lambda>entry. int (card (ho_referents (snd entry)))) (h_objects h)),
      an_shallow_size = total_heap_size h, an_types = types, an_threads = ss, an_retained_heap = ?report top\<rparr>"
  show ?thesis
    using run ss names summary types
    by (intro exI [of _ r] exI [of _ c] exI [of _ ?doc]) (simp add: build_heap_analysis_def)
qed

section \<open>Properties\<close>

text \<open>
  C29: When every object's type is in the type table, the report has one row for each type that
  occurs, with the number of its objects and the sum of their sizes, in descending order of size,
  then of number, then by name and address; the rows add up to the heap.
\<close>

theorem type_rows_exact:
  assumes "\<forall>(a, obj) \<in> set (h_objects h). map_of (h_types h) (ho_type_address obj) \<noteq> None"
  shows "\<exists>as. distinct as \<and> set as = ho_type_address ` snd ` set (h_objects h) \<and>
    type_summaries h = Inr (map (\<lambda>a. \<lparr>ts_type_address = address_text a, ts_type_name = the (map_of (h_types h) a),
      ts_object_count = tallied (h_objects h) (\<lambda>_. 1) a, ts_shallow_size = tallied (h_objects h) ho_size a\<rparr>) as) \<and>
    sorted (map (\<lambda>a. (- tallied (h_objects h) ho_size a, - tallied (h_objects h) (\<lambda>_. 1) a, the (map_of (h_types h) a), a)) as) \<and>
    (\<Sum>a \<in> set as. tallied (h_objects h) (\<lambda>_. 1) a) = int (length (h_objects h)) \<and>
    (\<Sum>a \<in> set as. tallied (h_objects h) ho_size a) = total_heap_size h"
proof -
  let ?as = "sort_key (full_key h) (map fst (type_counts h))"
  have as: "set ?as = ho_type_address ` snd ` set (h_objects h)"
    using type_counts_keys [of h] by simp
  have "distinct ?as" using type_counts_spec(1) [of h] by (simp add: dict_ok_def)
  moreover have "type_summaries h = Inr (map (type_row \<circ> full_key h) ?as)"
    unfolding type_summaries_run [OF assms] by (simp only: sort_map_key map_map [of type_row "full_key h"])
  moreover have "map (full_key h) ?as = map (\<lambda>a. (- tallied (h_objects h) ho_size a,
      - tallied (h_objects h) (\<lambda>_. 1) a, the (map_of (h_types h) a), a)) ?as" by (simp add: full_key_def)
  then have "sorted (map (\<lambda>a. (- tallied (h_objects h) ho_size a,
      - tallied (h_objects h) (\<lambda>_. 1) a, the (map_of (h_types h) a), a)) ?as)" by (metis sorted_sort_key)
  moreover have "sum (tallied (h_objects h) w) (set ?as) = sum_list (map (\<lambda>e. w (snd e)) (h_objects h))" for w
    unfolding as by (rule tallied_total) simp_all
  ultimately show ?thesis
    using as by (intro exI [of _ ?as]) (simp add: full_key_def type_row_def total_heap_size_def comp_def sum_list_triv)
qed

theorem type_rows_exact_witness:
  "\<exists>rows. type_summaries (demo_heap [] \<lparr>h_types := [(9, lit ''cell'')]\<rparr>) = Inr rows \<and>
    map ts_shallow_size rows = [60]"
proof -
  let ?h = "demo_heap [] \<lparr>h_types := [(9, lit ''cell'')]\<rparr>"
  have objs: "h_objects ?h = [demo_cell 1 {2}, demo_cell 2 {3}, demo_cell 3 {2}]" by (simp add: demo_heap_def)
  have "\<forall>(a, obj) \<in> set (h_objects ?h). map_of (h_types ?h) (ho_type_address obj) \<noteq> None"
    unfolding objs by (simp add: demo_cell_def)
  from type_rows_exact [OF this] obtain as where "distinct as" "set as = {9}"
    "type_summaries ?h = Inr (map (\<lambda>a. \<lparr>ts_type_address = address_text a, ts_type_name = the (map_of (h_types ?h) a),
      ts_object_count = tallied (h_objects ?h) (\<lambda>_. 1) a, ts_shallow_size = tallied (h_objects ?h) ho_size a\<rparr>) as)"
    unfolding objs by (auto simp: demo_cell_def)
  moreover from this(1,2) have "as = [9]" by (cases as rule: remdups_adj.cases) auto
  ultimately show ?thesis by (simp add: objs) (simp add: demo_cell_def)
qed

end
