(* ===== verification/Reader_Values.thy ===== *)
theory Reader_Values
  imports Reader_Laws
begin

text \<open>
  The values in a heap that was read, whatever the artifact: texts without surrogates, unsigned
  integers of the widths of their fields, and fewer than \<open>2\<^sup>3\<^sup>2\<close> entries in every table. A rule
  for each combinator says what a reading operation returns when it returns at all.
\<close>

section \<open>What an operation returns\<close>

named_theorems returns_intros \<open>what the reading operations return\<close>

definition returns :: "(heap_reader, 'a) py \<Rightarrow> ('a \<Rightarrow> bool) \<Rightarrow> bool" where
  "returns m P \<longleftrightarrow> (\<forall>r x r'. m r = (Inr x, r') \<longrightarrow> P x)"

lemma returnsD: "returns m P \<Longrightarrow> m r = (Inr x, r') \<Longrightarrow> P x"
  by (auto simp: returns_def)

lemma returns_mono: "returns m Q \<Longrightarrow> (\<And>x. Q x \<Longrightarrow> P x) \<Longrightarrow> returns m P"
  by (auto simp: returns_def)

lemma returns_mret [simp]: "returns (mret x) P \<longleftrightarrow> P x"
  by (simp add: returns_def mret_def)

lemma returns_mraise [simp]: "returns (mraise c t as) P"
  by (simp add: returns_def mraise_def)

lemma returns_any: "returns m (\<lambda>_. True)"
  by (simp add: returns_def)

lemma returns_mbind: "returns m Q \<Longrightarrow> (\<And>x. Q x \<Longrightarrow> returns (f x) P) \<Longrightarrow> returns (mbind m f) P"
  by (fastforce simp: returns_def mbind_Inr)

lemma returns_mbind_any: "(\<And>x. returns (f x) P) \<Longrightarrow> returns (mbind m f) P"
  by (fastforce simp: returns_def mbind_Inr)

lemma returns_mseq: "returns k P \<Longrightarrow> returns (mseq m k) P"
  by (fastforce simp: returns_def mseq_Inr)

lemma returns_if: "(b \<Longrightarrow> returns m P) \<Longrightarrow> (\<not> b \<Longrightarrow> returns n P) \<Longrightarrow> returns (if b then m else n) P"
  by simp

lemma returns_unpack: "(\<And>bs. length bs = n \<Longrightarrow> P (conv bs)) \<Longrightarrow> returns (unpack n conv) P"
  by (auto simp: returns_def unpack_Inr length_pyslice)

lemma returns_unsigned: "returns (unpack n be_dec) (\<lambda>x. 0 \<le> x \<and> x < 256 ^ n)"
  using be_dec_bounds by (intro returns_unpack) blast

lemma returns_u16: "returns read_u16 (\<lambda>x. 0 \<le> x \<and> x < 2 ^ 16)"
  using returns_unsigned [of 2] by (simp add: read_u16_def)

lemma returns_u32: "returns read_u32 (\<lambda>x. 0 \<le> x \<and> x < 2 ^ 32)"
  using returns_unsigned [of 4] by (simp add: read_u32_def)

lemma returns_u64: "returns read_u64 (\<lambda>x. 0 \<le> x \<and> x < 2 ^ 64)"
  using returns_unsigned [of 8] by (simp add: read_u64_def)

lemma returns_string: "returns read_long_string encodable"
  unfolding read_long_string_def read_string_def
  by (intro returns_mbind_any) (simp add: decode_text_encodable)

lemma returns_mfold:
  assumes "Q k x" and "\<And>i x. Q i x \<Longrightarrow> returns (body x) (Q (Suc i))"
  shows "returns (mfold n body x) (Q (k + n))"
  using assms(1)
proof (induction n arbitrary: k x)
  case (Suc n)
  show ?case unfolding mfold.simps
  proof (rule returns_mbind)
    show "returns (body x) (Q (Suc k))" using Suc.prems by (rule assms(2))
    show "returns (mfold n body y) (Q (k + Suc n))" if "Q (Suc k) y" for y
      using Suc.IH [OF that] by simp
  qed
qed simp

text \<open>A collection: \<open>Q i\<close> holds after \<open>i\<close> items, and there are less than \<open>2\<^sup>3\<^sup>2\<close> items.\<close>

lemma returns_counted:
  assumes "Q 0 x" and "\<And>i x. Q i x \<Longrightarrow> returns (body x) (Q (Suc i))"
    and "\<And>n y. n < 2 ^ 32 \<Longrightarrow> Q n y \<Longrightarrow> P y"
  shows "returns (counted_loop body x) P"
  unfolding counted_loop_def
proof (rule returns_mbind [OF returns_u32])
  fix n :: int assume "0 \<le> n \<and> n < 2 ^ 32"
  then have "nat n < 2 ^ 32" by (simp add: nat_less_iff)
  with assms(3) have "Q (nat n) y \<Longrightarrow> P y" for y by blast
  then show "returns (mfold (nat n) body x) P"
    using returns_mfold [where Q = Q and k = 0 and x = x and body = body and n = "nat n", OF assms(1,2)]
    by (simp add: returns_mono)
qed

lemmas [returns_intros] = returns_if returns_mseq

section \<open>The values of a heap\<close>

definition address_value :: "address \<Rightarrow> bool" where
  "address_value a \<longleftrightarrow> 0 \<le> a \<and> a < 2 ^ 64"

definition size_value :: "int \<Rightarrow> bool" where
  "size_value n \<longleftrightarrow> 0 \<le> n \<and> n < 2 ^ 32"

definition dict_values :: "('k \<Rightarrow> 'v \<Rightarrow> bool) \<Rightarrow> ('k, 'v) pydict \<Rightarrow> bool" where
  "dict_values P d \<longleftrightarrow> (\<forall>(k, v) \<in> set d. P k v)"

definition frame_values :: "heap_frame \<Rightarrow> bool" where
  "frame_values f \<longleftrightarrow>
     encodable (hf_file_name f) \<and> size_value (hf_line_number f) \<and> encodable (hf_function_name f) \<and>
     dict_values (\<lambda>name a. encodable name \<and> address_value a) (hf_locals f)"

definition thread_values :: "heap_thread \<Rightarrow> bool" where
  "thread_values t \<longleftrightarrow> encodable (ht_name t) \<and> (\<forall>f \<in> set (ht_stack_trace t). frame_values f)"

definition object_values :: "heap_object \<Rightarrow> bool" where
  "object_values obj \<longleftrightarrow>
     address_value (ho_type_address obj) \<and> size_value (ho_size obj) \<and> card (ho_referents obj) < 3 * 2 ^ 32"

definition heap_values :: "heap \<Rightarrow> bool" where
  "heap_values h \<longleftrightarrow>
     encodable (hh_created_at (h_header h)) \<and>
     (\<forall>t \<in> set (h_threads h). thread_values t) \<and> length (h_threads h) < 2 ^ 32 \<and>
     dict_values (\<lambda>a obj. address_value a \<and> object_values obj) (h_objects h) \<and> length (h_objects h) < 2 ^ 32 \<and>
     dict_values (\<lambda>a name. address_value a \<and> encodable name) (h_types h) \<and> length (h_types h) < 2 ^ 32"

lemma dict_values_Nil [simp]: "dict_values P []"
  by (simp add: dict_values_def)

lemma dict_values_set: "dict_values P d \<Longrightarrow> P k v \<Longrightarrow> dict_values P (dict_set k v d)"
  using dict_set_entries [of k v d] by (auto simp: dict_values_def)

lemma dict_valuesD: "dict_values P d \<Longrightarrow> (k, v) \<in> set d \<Longrightarrow> P k v"
  by (auto simp: dict_values_def)

lemma length_dict_set: "length (dict_set k v d) \<le> Suc (length d)"
  by (induction d) (auto simp: dict_set_def)

lemma card_insert_Suc: "card (insert a s) \<le> Suc (card s)"
  by (cases "finite s") (simp_all add: card_insert_if)

lemma returns_address_set: "returns read_address_set (\<lambda>s. card s < 2 ^ 32)"
  unfolding read_address_set_def
proof (rule returns_counted [where Q = "\<lambda>i s. card s \<le> i"])
  show "returns (mbind read_u64 (\<lambda>a. mret (insert a s))) (\<lambda>s. card s \<le> Suc i)" if "card s \<le> i" for i s
    using that card_insert_Suc [of _ s] by (intro returns_mbind_any) (simp, meson Suc_le_mono le_trans)
qed simp_all

lemma returns_dict:
  assumes "returns key K" and "returns val V"
  shows "returns (counted_loop (\<lambda>d. mbind key (\<lambda>k. mbind val (\<lambda>v. mret (dict_set k v d)))) [])
    (\<lambda>d. dict_values (\<lambda>k v. K k \<and> V v) d \<and> length d < 2 ^ 32)"
proof (rule returns_counted [where Q = "\<lambda>i d. dict_values (\<lambda>k v. K k \<and> V v) d \<and> length d \<le> i"])
  show "returns (mbind key (\<lambda>k. mbind val (\<lambda>v. mret (dict_set k v d))))
      (\<lambda>d. dict_values (\<lambda>k v. K k \<and> V v) d \<and> length d \<le> Suc i)"
    if "dict_values (\<lambda>k v. K k \<and> V v) d \<and> length d \<le> i" for i d
  proof (intro returns_mbind [OF assms(1)] returns_mbind [OF assms(2)], simp, intro conjI)
    show "length (dict_set k v d) \<le> Suc i" for k v using that length_dict_set [of k v d] by simp
  qed (use that in \<open>auto intro: dict_values_set\<close>)
qed simp_all

lemma returns_address: "returns read_u64 address_value"
  using returns_u64 by (simp add: address_value_def [abs_def])

lemma returns_size: "returns read_u32 size_value"
  using returns_u32 by (simp add: size_value_def [abs_def])

lemma returns_locals:
  "returns read_string_address_map (\<lambda>d. dict_values (\<lambda>name a. encodable name \<and> address_value a) d \<and> length d < 2 ^ 32)"
  unfolding read_string_address_map_def by (rule returns_dict [OF returns_string returns_address])

lemma returns_types:
  "returns read_address_string_map (\<lambda>d. dict_values (\<lambda>a name. address_value a \<and> encodable name) d \<and> length d < 2 ^ 32)"
  unfolding read_address_string_map_def by (rule returns_dict [OF returns_address returns_string])

lemma returns_frame: "returns read_frame frame_values"
  unfolding read_frame_def
  by (intro returns_mbind [OF returns_string] returns_mbind [OF returns_size] returns_mbind [OF returns_locals])
    (simp add: frame_values_def)

lemma returns_list:
  assumes "returns m P"
  shows "returns (counted_loop (\<lambda>xs. mbind m (\<lambda>x. mret (xs @ [x]))) [])
    (\<lambda>xs. (\<forall>x \<in> set xs. P x) \<and> length xs < 2 ^ 32)"
  by (rule returns_counted [where Q = "\<lambda>i xs. (\<forall>x \<in> set xs. P x) \<and> length xs = i"])
    (auto intro!: returns_mbind [OF assms])

lemma returns_thread: "returns read_thread thread_values"
  unfolding read_thread_def
  by (intro returns_mbind [OF returns_string] returns_mbind [OF returns_any] returns_mbind [OF returns_list [OF returns_frame]])
    (simp add: thread_values_def)

lemma returns_content: "returns (read_content type_address known) (\<lambda>p. card (snd p) \<le> 2 * 2 ^ 32)"
proof -
  let ?body = "\<lambda>(content, referents). mbind read_u64 (\<lambda>key. mbind read_u64 (\<lambda>val.
    mret (dict_set key val content, referents \<union> {key, val})))"
  let ?P = "\<lambda>p. card (snd p) \<le> (2 * 2 ^ 32 :: nat)"
  have "card (insert a (insert b s)) \<le> 2 * Suc i" if "card s \<le> 2 * i" for a b :: address and s i
    using card_insert_Suc [of a "insert b s"] card_insert_Suc [of b s] that by simp
  then have dict: "returns (counted_loop ?body ([], {})) (\<lambda>p. card (snd p) \<le> (2 * 2 ^ 32 :: nat))"
    by (intro returns_counted [where Q = "\<lambda>i p. card (snd p) \<le> 2 * i"])
      (auto intro!: returns_mbind_any)
  have items: "card (set xs) \<le> (2 * 2 ^ 32 :: nat)" if "length xs < 2 ^ 32" for xs :: "address list"
    using card_length [of xs] that by simp
  show ?thesis
    unfolding read_content_def
    by (intro returns_mbind_any returns_if returns_mbind [OF dict] returns_mbind [OF returns_list [OF returns_any]])
      (use items in auto)
qed

lemma returns_object:
  assumes "dict_values (\<lambda>a obj. address_value a \<and> object_values obj) d \<and> length d \<le> i"
  shows "returns (read_object header frequent common containers d)
    (\<lambda>d. dict_values (\<lambda>a obj. address_value a \<and> object_values obj) d \<and> length d \<le> Suc i)"
proof -
  have stored: "dict_values (\<lambda>a obj. address_value a \<and> object_values obj) (dict_set k v d) \<and>
      length (dict_set k v d) \<le> Suc i" if "address_value k" "object_values v" for k v
    using that assms length_dict_set [of k v d] by (auto intro: dict_values_set)
  have referents: "card (s \<union> t) < 3 * 2 ^ 32" if "card s < 2 ^ 32" "card t \<le> 2 * 2 ^ 32" for s t :: "address set"
    using card_Un_le [of s t] that by simp
  show ?thesis
    unfolding read_object_def
    by (intro returns_mbind [OF returns_address] returns_mbind [OF returns_size] returns_mbind [OF returns_content],
        split prod.split, intro allI impI returns_mbind [OF returns_address_set] returns_mseq
          returns_mbind_any returns_if returns_mraise)
      (use stored referents in \<open>simp add: object_values_def\<close>)
qed

lemma returns_objects:
  "returns (read_objects header frequent common)
     (\<lambda>d. dict_values (\<lambda>a obj. address_value a \<and> object_values obj) d \<and> length d < 2 ^ 32)"
  unfolding read_objects_def
  by (intro returns_mbind_any returns_counted [where
      Q = "\<lambda>i d. dict_values (\<lambda>a obj. address_value a \<and> object_values obj) d \<and> length d \<le> i"] returns_object)
    simp_all

lemma returns_header: "returns read_header (\<lambda>header. encodable (hh_created_at header))"
  unfolding read_header_def
  by (rule returns_mbind_any, rule returns_if, simp, rule returns_mbind_any, rule returns_if, simp,
      rule returns_mbind [OF returns_string], intro returns_mbind_any) simp

lemma returns_heap: "returns read_sections heap_values"
  unfolding read_sections_def read_threads_def
  by (intro returns_mbind [OF returns_header] returns_mbind [OF returns_list [OF returns_thread]]
      returns_mbind [OF returns_objects] returns_mbind [OF returns_types] returns_mbind_any returns_if returns_mseq)
    (simp_all add: heap_values_def)

lemma read_heap_values:
  assumes "read_heap source = Inr h"
  shows "heap_values h"
proof -
  obtain h0 r where "read_sections (heap_reader_init source) = (Inr h0, r)" "h = h0\<lparr>h_source := Some source\<rparr>"
    using assms by (auto simp: read_heap_Inr)
  with returnsD [OF returns_heap] show ?thesis by (simp add: heap_values_def)
qed

section \<open>What follows for the results\<close>

text \<open>The rendering of an object has no surrogates either.\<close>

lemma encodable_Nil [simp]: "encodable []"
  by (simp add: encodable_def)

lemma encodable_append [simp]: "encodable (s @ t) \<longleftrightarrow> encodable s \<and> encodable t"
  by (auto simp: encodable_def)

lemma encodable_lit [simp]: "encodable (lit s)"
proof -
  have small: "(of_char c :: nat) < 256" for c by simp
  have "x < 0x110000 \<and> \<not> is_surrogate x" if "x < 256" for x using that by (simp add: is_surrogate_def)
  from this [OF small] show ?thesis by (auto simp: encodable_def lit_def)
qed

lemma encodable_join_comma: "(\<And>p. p \<in> set ps \<Longrightarrow> encodable p) \<Longrightarrow> encodable (join_comma ps)"
  by (induction ps rule: join_comma.induct) auto

lemma container_brackets_encodable:
  "container_brackets h t = Inr (left, right) \<Longrightarrow> encodable left \<and> encodable right"
  by (auto simp: container_brackets_def Let_def rbind_Inr split: if_splits)

lemma read_string_encodable: "read_string_representation h obj = Inr s \<Longrightarrow> encodable s"
  by (auto simp: read_string_representation_def Let_def decode_text_encodable
      split: option.splits if_splits)

lemma rmap_all: "rmap f xs = Inr ys \<Longrightarrow> (\<And>x y. x \<in> set xs \<Longrightarrow> f x = Inr y \<Longrightarrow> P y) \<Longrightarrow> y \<in> set ys \<Longrightarrow> P y"
  unfolding rmap_Inr by (induction xs ys rule: list_all2_induct) auto

lemma content_parts_encodable:
  assumes "content_parts render content = Inr ps" and "\<And>a t. render a = Inr t \<Longrightarrow> encodable t"
  shows "\<forall>p \<in> set ps. encodable p"
proof -
  have entry: "encodable t" if "(\<lambda>(key, val). rbind (render key) (\<lambda>k.
      rbind (render val) (\<lambda>v. Inr (k @ lit '': '' @ v)))) e = Inr t" for e t
    using that assms(2) by (cases e) (auto simp: rbind_Inr)
  show ?thesis
    using assms(1) rmap_all [of render _ ps encodable] rmap_all [of _ _ ps encodable, OF _ entry] assms(2)
    by (cases content) (auto simp: content_parts_def)
qed

text \<open>A text that was rendered is that of a leaf, or of the parts of a container.\<close>

lemma string_repr_cases:
  assumes "string_repr stack h address seen = Inr s" and "map_of (h_objects h) address = Some obj"
  shows "read_string_representation h obj = Inr s \<or>
    (\<exists>left right. container_brackets h (ho_type_address obj) = Inr (left, right) \<and>
      (s = left @ lit ''...'' @ right \<or>
       (0 < stack \<and> (\<exists>ps. content_parts (\<lambda>a. string_repr (stack - 2) h a (insert address seen)) (ho_content obj) = Inr ps \<and>
          s = left @ join_comma ps @ right))))"
  using assms(1) unfolding string_repr.simps [of stack h address seen] assms(2)
  by (fastforce simp: rbind_Inr split: if_splits)

lemma string_repr_encodable: "string_repr stack h address seen = Inr s \<Longrightarrow> encodable s"
proof (induction stack arbitrary: address seen s rule: less_induct)
  case (less stack)
  show ?case
  proof (cases "map_of (h_objects h) address")
    case None
    with less.prems have "s = lit ''(unknown)''" by (subst (asm) string_repr.simps) (simp split: if_splits)
    then show ?thesis by simp
  next
    case (Some obj)
    have parts: "\<forall>p \<in> set ps. encodable p"
      if "0 < stack" "content_parts (\<lambda>a. string_repr (stack - 2) h a (insert address seen)) (ho_content obj) = Inr ps" for ps
      by (rule content_parts_encodable [OF that(2)]) (rule less.IH, use that(1) in simp_all)
    from string_repr_cases [OF less.prems Some] show ?thesis
      using parts encodable_join_comma container_brackets_encodable read_string_encodable
      by (elim disjE exE conjE) simp_all
  qed
qed

end
