(* ===== verification/Report_Json.thy ===== *)
theory Report_Json
  imports Report Reader_Values Json_Laws
begin

text \<open>
  The analysis as the JSON document of \<^verbatim>\<open>report.py\<close>, with the keys of the dictionaries that
  \<^verbatim>\<open>build_heap_analysis\<close> returns, and \<^verbatim>\<open>_print_json\<close> of
  \<^verbatim>\<open>analyzer/python/src/pydump_analyzer/cli.py\<close>, which prints it. Everything in a heap that
  was read fits into JSON: the printed document is read back as the same value.
\<close>

section \<open>The document\<close>

definition nullable :: "('a \<Rightarrow> json) \<Rightarrow> 'a option \<Rightarrow> json" where
  "nullable f v = (case v of None \<Rightarrow> JNull | Some x \<Rightarrow> f x)"

definition json_object :: "(string \<times> json) list \<Rightarrow> json" where
  "json_object members = JDict (map (\<lambda>(key, v). (lit key, v)) members)"

definition type_json :: "type_summary \<Rightarrow> json" where
  "type_json row = json_object
     [(''type_address'', JText (ts_type_address row)), (''type_name'', JText (ts_type_name row)),
      (''object_count'', JInt (ts_object_count row)), (''shallow_size_bytes'', JInt (ts_shallow_size row))]"

definition local_json :: "local_summary \<Rightarrow> json" where
  "local_json v = json_object
     [(''name'', JText (ls_name v)), (''object_address'', JText (ls_object_address v)),
      (''type_name'', nullable JText (ls_type_name v))]"

definition frame_json :: "frame_summary \<Rightarrow> json" where
  "frame_json f = json_object
     [(''file_name'', JText (fs_file_name f)), (''line_number'', JInt (fs_line_number f)),
      (''function_name'', JText (fs_function_name f)),
      (''local_variables'', JList (map local_json (fs_local_variables f)))]"

definition thread_json :: "thread_report \<Rightarrow> json" where
  "thread_json t = json_object
     [(''name'', JText (tr_name t)), (''is_alive'', JBool (tr_is_alive t)), (''is_daemon'', JBool (tr_is_daemon t)),
      (''retained_size_bytes'', nullable JInt (tr_retained_size t)), (''frames'', JList (map frame_json (tr_frames t)))]"

definition top_json :: "top_object \<Rightarrow> json" where
  "top_json t = json_object
     [(''object_address'', JText (to_object_address t)), (''type_name'', JText (to_type_name t)),
      (''shallow_size_bytes'', JInt (to_shallow_size t)), (''retained_size_bytes'', JInt (to_retained_size t)),
      (''string_representation'', nullable JText (to_string_representation t))]"

definition retained_json :: "retained_report \<Rightarrow> json" where
  "retained_json r = json_object
     [(''status'', JText (rr_status r)), (''top_n'', JInt (rr_top_n r)),
      (''top_objects'', JList (map top_json (rr_top_objects r)))]"

definition analysis_json :: "analysis \<Rightarrow> json" where
  "analysis_json doc = json_object
     [(''schema'', JText (an_schema doc)),
      (''source'', json_object
        [(''sha256'', JText (an_sha256 doc)), (''size_bytes'', JInt (an_size_bytes doc)),
         (''heap_format_version'', JInt (an_heap_format_version doc)), (''created_at'', JText (an_created_at doc)),
         (''with_string_representations'', JBool (an_with_string_representations doc))]),
      (''heap'', json_object
        [(''object_count'', JInt (an_object_count doc)), (''type_count'', JInt (an_type_count doc)),
         (''thread_count'', JInt (an_thread_count doc)), (''referent_count'', JInt (an_referent_count doc)),
         (''shallow_size_bytes'', JInt (an_shallow_size doc))]),
      (''types'', JList (map type_json (an_types doc))), (''threads'', JList (map thread_json (an_threads doc))),
      (''retained_heap'', retained_json (an_retained_heap doc))]"

text \<open>\<open>float_text\<close> would print a float, which no document has.\<close>

definition print_json :: "(rat \<Rightarrow> pystr) \<Rightarrow> json \<Rightarrow> pystr" where
  "print_json float_text v = json_text float_text (Some 2) 0 v @ [10]"

section \<open>It can be printed\<close>

lemma printable_json_object:
  "printable (json_object members) \<longleftrightarrow> distinct (map fst members) \<and> (\<forall>v \<in> set (map snd members). printable v)"
proof -
  have keys: "map fst (map (\<lambda>(key, v). (lit key, v)) members) = map lit (map fst members)" by auto
  have "distinct (map lit (map fst members)) \<longleftrightarrow> distinct (map fst members)"
    by (auto simp: distinct_map inj_on_def)
  then show ?thesis by (auto simp: json_object_def keys simp del: map_map)
qed

lemma printable_nullable: "printable (nullable f v) \<longleftrightarrow> (\<forall>x. v = Some x \<longrightarrow> printable (f x))"
  by (simp add: nullable_def split: option.split)

lemma nesting_nullable: "(\<And>x. nesting (f x) = 0) \<Longrightarrow> nesting (nullable f v) = 0"
  by (simp add: nullable_def split: option.split)

text \<open>The integers of a document are far below the 4,300 digits of Python's limit.\<close>

definition countable_int :: "int \<Rightarrow> bool" where
  "countable_int i \<longleftrightarrow> 0 \<le> i \<and> i < 2 ^ 128"

lemma printable_int: "countable_int i \<Longrightarrow> printable (JInt i)"
proof -
  assume "countable_int i"
  then have "nat \<bar>i\<bar> < 10 ^ Suc 38" by (simp add: countable_int_def nat_less_iff)
  from length_decimal_digits [OF this] show ?thesis by (simp add: MAX_INT_DIGITS_def)
qed

definition type_prints :: "type_summary \<Rightarrow> bool" where
  "type_prints row \<longleftrightarrow> encodable (ts_type_address row) \<and> encodable (ts_type_name row) \<and>
     countable_int (ts_object_count row) \<and> countable_int (ts_shallow_size row)"

definition local_prints :: "local_summary \<Rightarrow> bool" where
  "local_prints v \<longleftrightarrow> encodable (ls_name v) \<and> encodable (ls_object_address v) \<and>
     (\<forall>name. ls_type_name v = Some name \<longrightarrow> encodable name)"

definition frame_prints :: "frame_summary \<Rightarrow> bool" where
  "frame_prints f \<longleftrightarrow> encodable (fs_file_name f) \<and> countable_int (fs_line_number f) \<and> encodable (fs_function_name f) \<and>
     (\<forall>v \<in> set (fs_local_variables f). local_prints v)"

definition thread_prints :: "thread_report \<Rightarrow> bool" where
  "thread_prints t \<longleftrightarrow> encodable (tr_name t) \<and> (\<forall>n. tr_retained_size t = Some n \<longrightarrow> countable_int n) \<and>
     (\<forall>f \<in> set (tr_frames t). frame_prints f)"

definition top_prints :: "top_object \<Rightarrow> bool" where
  "top_prints t \<longleftrightarrow> encodable (to_object_address t) \<and> encodable (to_type_name t) \<and> countable_int (to_shallow_size t) \<and>
     countable_int (to_retained_size t) \<and> (\<forall>s. to_string_representation t = Some s \<longrightarrow> encodable s)"

definition retained_prints :: "retained_report \<Rightarrow> bool" where
  "retained_prints r \<longleftrightarrow> encodable (rr_status r) \<and> printable (JInt (rr_top_n r)) \<and> (\<forall>t \<in> set (rr_top_objects r). top_prints t)"

definition analysis_prints :: "analysis \<Rightarrow> bool" where
  "analysis_prints doc \<longleftrightarrow> encodable (an_schema doc) \<and> encodable (an_sha256 doc) \<and> printable (JInt (an_size_bytes doc)) \<and>
     countable_int (an_heap_format_version doc) \<and> encodable (an_created_at doc) \<and> countable_int (an_object_count doc) \<and>
     countable_int (an_type_count doc) \<and> countable_int (an_thread_count doc) \<and> countable_int (an_referent_count doc) \<and>
     countable_int (an_shallow_size doc) \<and> (\<forall>t \<in> set (an_types doc). type_prints t) \<and>
     (\<forall>t \<in> set (an_threads doc). thread_prints t) \<and> retained_prints (an_retained_heap doc)"

lemmas printable_object_simps = printable_json_object printable_nullable

lemma printable_type: "type_prints row \<Longrightarrow> printable (type_json row)"
  using printable_int by (simp add: type_prints_def type_json_def printable_object_simps)

lemma printable_local: "local_prints v \<Longrightarrow> printable (local_json v)"
  by (simp add: local_prints_def local_json_def printable_object_simps)

lemma printable_frame: "frame_prints f \<Longrightarrow> printable (frame_json f)"
  using printable_int printable_local by (simp add: frame_prints_def frame_json_def printable_object_simps)

lemma printable_thread: "thread_prints t \<Longrightarrow> printable (thread_json t)"
  using printable_int printable_frame by (simp add: thread_prints_def thread_json_def printable_object_simps)

lemma printable_top: "top_prints t \<Longrightarrow> printable (top_json t)"
  using printable_int by (simp add: top_prints_def top_json_def printable_object_simps)

lemma printable_retained: "retained_prints r \<Longrightarrow> printable (retained_json r)"
  using printable_top by (simp add: retained_prints_def retained_json_def printable_object_simps)

lemma printable_analysis: "analysis_prints doc \<Longrightarrow> printable (analysis_json doc)"
  using printable_int printable_type printable_thread printable_retained
  by (simp add: analysis_prints_def analysis_json_def printable_object_simps)

lemma nesting_json_object: "nesting (json_object members) = Suc (fold max (map (nesting \<circ> snd) members) 0)"
  by (simp add: json_object_def comp_def split_def)

lemma nesting_list: "nesting (JList vs) \<le> Suc n \<longleftrightarrow> (\<forall>v \<in> set vs. nesting v \<le> n)"
  by simp

lemma nesting_analysis: "nesting (analysis_json doc) \<le> 7"
proof -
  have "nesting (local_json v) = 1" for v
    by (simp add: local_json_def nesting_json_object nesting_nullable)
  then have "nesting (frame_json f) \<le> 3" for f
    by (simp add: frame_json_def nesting_json_object comp_def)
  then have "nesting (thread_json t) \<le> 5" for t
    by (simp add: thread_json_def nesting_json_object comp_def nesting_nullable)
  moreover have "nesting (type_json row) = 1" for row by (simp add: type_json_def nesting_json_object)
  moreover have "nesting (top_json t) = 1" for t by (simp add: top_json_def nesting_json_object nesting_nullable)
  then have "nesting (retained_json r) \<le> 6" for r by (simp add: retained_json_def nesting_json_object comp_def)
  ultimately show ?thesis
    by (simp add: analysis_json_def nesting_json_object comp_def)
qed

section \<open>The values of the report\<close>

lemma hex_digits_small: "\<forall>c \<in> set (hex_digits n). c < 128"
proof (induction n rule: hex_digits.induct)
  case (1 n)
  have "hex_digit d < 128" if "d < 16" for d using that by (simp add: hex_digit_def)
  with 1 show ?case by (subst hex_digits.simps) auto
qed

lemma encodable_small: "\<forall>c \<in> set s. c < 128 \<Longrightarrow> encodable s"
  by (fastforce simp: encodable_def is_surrogate_def)

lemma encodable_address [simp]: "encodable (address_text a)"
  using encodable_small [OF hex_digits_small] by (simp add: address_text_def hex_text_def)

lemma sum_list_bounds:
  assumes "\<forall>e \<in> set es. 0 \<le> f e \<and> f e \<le> (b::int)"
  shows "0 \<le> sum_list (map f es) \<and> sum_list (map f es) \<le> int (length es) * b"
  using assms by (induction es) (auto simp: algebra_simps)

lemma tallied_bounds:
  assumes "\<forall>e \<in> set es. 0 \<le> w (snd e)"
  shows "0 \<le> tallied es w a \<and> tallied es w a \<le> sum_list (map (\<lambda>e. w (snd e)) es)"
  using assms by (induction es) auto

lemma countable_mult: "0 \<le> i \<Longrightarrow> i \<le> int n * b \<Longrightarrow> n < 2 ^ 32 \<Longrightarrow> 0 \<le> b \<Longrightarrow> b \<le> 2 ^ 64 \<Longrightarrow> countable_int i"
proof -
  assume i: "0 \<le> i" "i \<le> int n * b" and "n < 2 ^ 32" "0 \<le> b" "b \<le> 2 ^ 64"
  then have "int n * b \<le> 2 ^ 32 * 2 ^ 64" by (intro mult_mono) auto
  with i show ?thesis by (simp add: countable_int_def)
qed

lemma countable_size: "size_value n \<Longrightarrow> countable_int n"
  by (simp add: size_value_def countable_int_def)

lemma countable_length: "length xs < 2 ^ 32 \<Longrightarrow> countable_int (int (length xs))"
  by (simp add: countable_int_def)

lemma heap_total_bounds:
  assumes "heap_values h"
  shows "0 \<le> total_heap_size h" "total_heap_size h < 2 ^ 64"
proof -
  have sizes: "\<forall>e \<in> set (h_objects h). 0 \<le> ho_size (snd e) \<and> ho_size (snd e) \<le> 2 ^ 32"
    using assms by (fastforce simp: heap_values_def dict_values_def object_values_def size_value_def)
  have "length (h_objects h) < 2 ^ 32" using assms by (simp add: heap_values_def)
  with sum_list_bounds [of "h_objects h" "\<lambda>e. ho_size (snd e)", OF sizes]
  show "0 \<le> total_heap_size h" "total_heap_size h < 2 ^ 64" by (simp_all add: total_heap_size_def)
qed

lemma type_summaries_ok:
  assumes "heap_values h" and "heap_wf h source" and "type_summaries h = Inr rows"
  shows "\<forall>row \<in> set rows. type_prints row"
proof
  fix row assume "row \<in> set rows"
  moreover have "set rows = type_row ` full_key h ` set (map fst (type_counts h))"
    using assms(3) [unfolded type_summaries_run [OF heap_wf_types [OF assms(2)]] sum.inject, symmetric]
    by (simp only: set_map set_sort)
  ultimately obtain a where row: "row = type_row (full_key h a)" and a: "a \<in> ho_type_address ` snd ` set (h_objects h)"
    unfolding type_counts_keys by blast
  then obtain name where "map_of (h_types h) a = Some name"
    using heap_wf_types [OF assms(2)] by fastforce
  with assms(1) have name: "encodable (the (map_of (h_types h) a))"
    by (auto simp: heap_values_def dest: dict_valuesD [OF _ map_of_SomeD])
  have sizes: "\<forall>e \<in> set (h_objects h). 0 \<le> ho_size (snd e)"
    using assms(1) by (fastforce simp: heap_values_def dict_values_def object_values_def size_value_def)
  have "length (h_objects h) < 2 ^ 32" using assms(1) by (simp add: heap_values_def)
  then have number: "countable_int (tallied (h_objects h) (\<lambda>_. 1) a)"
    using tallied_bounds [of "h_objects h" "\<lambda>_. 1" a] by (simp add: countable_int_def sum_list_triv)
  have "countable_int (tallied (h_objects h) ho_size a)"
    using tallied_bounds [OF sizes, of a] heap_total_bounds [OF assms(1)]
    by (simp add: countable_int_def total_heap_size_def)
  with name number show "type_prints row" by (simp add: row type_prints_def type_row_def full_key_def)
qed

lemma frame_summary_ok:
  assumes "heap_values h" and "frame_values f"
  shows "frame_prints (frame_summary h f)"
proof -
  have "encodable name" if "object_type_name h a = Some name" for a name
    using that assms(1) by (auto simp: object_type_name_def heap_values_def split: option.splits
        dest: dict_valuesD [OF _ map_of_SomeD])
  moreover have "encodable name" if "(name, a) \<in> set (hf_locals f)" for name a
    using that assms(2) by (auto simp: frame_values_def dest: dict_valuesD)
  ultimately show ?thesis
    using assms(2) by (auto simp: frame_prints_def local_prints_def frame_summary_def frame_values_def intro: countable_size)
qed

text \<open>The retained sizes of the objects and the threads of a heap.\<close>

definition sizes_ok :: "retained_result \<Rightarrow> bool" where
  "sizes_ok r \<longleftrightarrow>
     (\<forall>a n. rh_objects r a = Some n \<longrightarrow> address_value a \<and> countable_int n) \<and>
     (\<forall>name n. rh_threads r name = Some n \<longrightarrow> encodable name \<and> countable_int n)"

lemma freed_sum_bounds:
  assumes "heap_values h" and "heap_wf h source" and "finite X"
  shows "countable_int (sum (size_of h) X)"
proof -
  have sizes: "\<forall>e \<in> set (h_objects h). 0 \<le> ho_size (snd e)"
    using assms(1) by (fastforce simp: heap_values_def dict_values_def object_values_def size_value_def)
  have "sum (size_of h) X \<le> sum (size_of h) (objects h)"
    by (rule freed_sum_le [OF heap_wf_graph [OF assms(2)] sizes assms(3)]) auto
  moreover have "0 \<le> size_of h x" for x
    using sizes by (auto simp: size_of_def split: option.splits dest!: map_of_SomeD)
  then have "0 \<le> sum (size_of h) X" by (rule sum_nonneg)
  ultimately show ?thesis
    using heap_total_bounds [OF assms(1)] total_as_sum [OF heap_wf_graph [OF assms(2)]]
    by (simp add: countable_int_def)
qed

text \<open>The calculation returns only if it knows all of the locals.\<close>

lemma calculated_known:
  assumes "read_heap source = Inr h" and "iterates it"
    and "calculate it h (inbound_references it h) calculator_init = Some (Inr (r, c))"
  shows "\<forall>t \<in> set (h_threads h). \<forall>x \<in> thread_locals t. node h x"
  using assms(3) reference_index.not_calculated [OF inbound_references_index [OF assms(2)] assms(2)
      heap_wf_graph [OF read_heap_wf [OF assms(1)]]]
  by (fastforce simp: raise_def)

lemma calculated_sizes:
  assumes "read_heap source = Inr h" and "iterates it"
    and "calculate it h (inbound_references it h) calculator_init = Some (Inr (r, c))"
  shows "sizes_ok r"
proof -
  have v: "heap_values h" and wf: "heap_wf h source" using assms(1) by (rule read_heap_values, rule read_heap_wf)
  note graph = heap_wf_graph [OF wf]
  note index = inbound_references_index [OF assms(2)]
  note known = calculated_known [OF assms]
  from reference_index.calculated [OF index assms(2) graph known] assms(3)
  have r: "rh_objects r = (\<lambda>a. if a \<in> objects h then Some (object_retained h a) else None)"
    "rh_threads r = fold (record_thread h) (h_threads h) Map.empty" by auto
  have obj: "address_value a \<and> countable_int n" if "rh_objects r a = Some n" for a n
  proof -
    from that have a: "a \<in> objects h" "n = object_retained h a" by (auto simp: r(1) split: if_splits)
    then obtain o' where "(a, o') \<in> set (h_objects h)" by (auto simp: objects_def dest: map_of_SomeD)
    with v have "address_value a" by (auto simp: heap_values_def dest: dict_valuesD)
    with a(2) show ?thesis using freed_sum_bounds [OF v wf finite_object_freed [OF graph]] by (simp add: object_retained_def)
  qed
  have "encodable name \<and> countable_int n" if "rh_threads r name = Some n" for name n
  proof -
    have "fold (record_thread h) ts m name = m name \<or>
        (\<exists>t \<in> set ts. name = ht_name t \<and> fold (record_thread h) ts m name = Some (thread_retained h t))" for ts m
    proof (induction ts arbitrary: m)
      case (Cons t ts)
      from Cons.IH [of "record_thread h t m"] show ?case by (auto simp: record_thread_def)
    qed simp
    from this [of "h_threads h" Map.empty] that obtain t where t: "t \<in> set (h_threads h)" "name = ht_name t"
      "n = thread_retained h t" by (auto simp: r(2))
    moreover have "encodable (ht_name t)" using v t(1) by (auto simp: heap_values_def thread_values_def)
    moreover have "finite (freed h {} (thread_locals t) (held_elsewhere h t))"
      by (rule finite_freed) (simp_all add: graph finite_thread_locals)
    ultimately show ?thesis using freed_sum_bounds [OF v wf] by (simp add: thread_retained_def)
  qed
  with obj show ?thesis by (auto simp: sizes_ok_def)
qed

lemma thread_summary_ok:
  assumes "heap_values h" and "thread_values t" and "\<And>r. retained = Some r \<Longrightarrow> sizes_ok r"
    and "thread_summary h t retained = Inr s"
  shows "thread_prints s"
proof -
  have "countable_int n" if "retained = Some r" "get_for_thread r (ht_name t) = Inr n" for r n
    using that assms(3) [OF that(1)]
    by (auto simp: get_for_thread_def sizes_ok_def subscript_def raise_def split: option.splits)
  with assms(2,4) frame_summary_ok [OF assms(1)] show ?thesis
    by (auto simp: thread_summary_def thread_prints_def thread_values_def rbind_Inr split: option.splits)
qed

lemma top_entry_ok:
  assumes "heap_values h" and "top_entry stack h (a, n) = Inr t" and "countable_int n"
  shows "top_prints t"
proof -
  from assms(2) obtain obj name str where t: "map_of (h_objects h) a = Some obj"
    "map_of (h_types h) (ho_type_address obj) = Some name" "object_string stack h obj = Inr str"
    "t = \<lparr>to_object_address = address_text a, to_type_name = name, to_shallow_size = ho_size obj,
          to_retained_size = n, to_string_representation = str\<rparr>"
    by (auto simp: top_entry_def rbind_Inr)
  have "size_value (ho_size obj)" "encodable name"
    using assms(1) t(1,2) by (auto simp: heap_values_def object_values_def dest: dict_valuesD [OF _ map_of_SomeD])
  moreover have "encodable s" if "str = Some s" for s
    using that t(3) string_repr_encodable
    by (auto simp: object_string_def string_representation_def rbind_Inr split: if_splits)
  ultimately show ?thesis using assms(3) by (simp add: top_prints_def t(4) countable_size)
qed

lemma sorted_sizes:
  assumes "sizes_ok r" and "item \<in> set (objects_sorted_by_retained_heap h r)"
  shows "countable_int (snd item)"
proof -
  have "countable_int 0" by (simp add: countable_int_def)
  with assms show ?thesis
    by (auto simp: objects_sorted_by_retained_heap_def sizes_ok_def get_for_object_def split: option.splits)
qed

lemma retained_summary_ok:
  assumes "heap_values h" and "\<And>r. retained = Some r \<Longrightarrow> sizes_ok r" and "printable (JInt top_n)"
    and "retained_summary stack h retained top_n = Inr s"
  shows "retained_prints s"
proof (cases retained)
  case None
  with assms(3,4) show ?thesis by (auto simp: retained_summary_def retained_prints_def)
next
  case (Some r)
  with assms(4) obtain top where top:
    "rmap (top_entry stack h) (prefix_slice top_n (objects_sorted_by_retained_heap h r)) = Inr top"
    "s = \<lparr>rr_status = lit ''complete'', rr_top_n = top_n, rr_top_objects = top\<rparr>"
    by (auto simp: retained_summary_def rbind_Inr)
  have "top_prints t" if "item \<in> set (prefix_slice top_n (objects_sorted_by_retained_heap h r))"
    "top_entry stack h item = Inr t" for item t
  proof -
    have "countable_int (snd item)"
      using sorted_sizes [OF assms(2) [OF Some]] subsetD [OF set_prefix_slice that(1)] .
    with that(2) show ?thesis using top_entry_ok [OF assms(1), of stack "fst item" "snd item"] by simp
  qed
  then have "\<forall>t \<in> set top. top_prints t" using rmap_all [OF top(1)] by metis
  with assms(3) top(2) show ?thesis by (simp add: retained_prints_def)
qed

lemma analysis_values:
  assumes "read_heap source = Inr h" and "\<And>r. retained = Some r \<Longrightarrow> sizes_ok r" and "printable (JInt top_n)"
    and "build_heap_analysis stack sha256 source h retained top_n = Inr doc" and "\<And>content. encodable (sha256 content)"
    and "printable (JInt (int (length source)))"
  shows "analysis_prints doc"
proof -
  have v: "heap_values h" and wf: "heap_wf h source" using assms(1) by (rule read_heap_values, rule read_heap_wf)
  from assms(4) obtain types threads summary where parts: "type_summaries h = Inr types"
    "rmap (\<lambda>t. thread_summary h t retained) (h_threads h) = Inr threads" "retained_summary stack h retained top_n = Inr summary"
    and doc: "doc = \<lparr>an_schema = ANALYSIS_SCHEMA, an_sha256 = sha256 source, an_size_bytes = int (length source),
          an_heap_format_version = hh_version (h_header h), an_created_at = hh_created_at (h_header h),
          an_with_string_representations = hh_with_str_repr (h_header h),
          an_object_count = int (length (h_objects h)), an_type_count = int (length (h_types h)),
          an_thread_count = int (length (h_threads h)),
          an_referent_count = sum_list (map (\<lambda>entry. int (card (ho_referents (snd entry)))) (h_objects h)),
          an_shallow_size = total_heap_size h, an_types = types, an_threads = threads,
          an_retained_heap = summary\<rparr>"
    by (auto simp: build_heap_analysis_def rbind_Inr)
  have "thread_prints t" if "t \<in> set threads" for t
  proof (rule rmap_all [OF parts(2) _ that])
    show "thread_prints s" if "u \<in> set (h_threads h)" "thread_summary h u retained = Inr s" for u s
      using thread_summary_ok [OF v _ assms(2) that(2)] v that(1) by (simp add: heap_values_def)
  qed
  moreover have "countable_int (sum_list (map (\<lambda>entry. int (card (ho_referents (snd entry)))) (h_objects h)))"
  proof -
    have cards: "\<forall>e \<in> set (h_objects h). 0 \<le> int (card (ho_referents (snd e))) \<and> int (card (ho_referents (snd e))) \<le> 3 * 2 ^ 32"
      using v by (fastforce simp: heap_values_def dict_values_def object_values_def)
    have "length (h_objects h) < 2 ^ 32" using v by (simp add: heap_values_def)
    with sum_list_bounds [OF cards] show ?thesis by (intro countable_mult [of _ "length (h_objects h)" "3 * 2 ^ 32"]) simp_all
  qed
  moreover have "countable_int (hh_version (h_header h))"
    using wf by (simp add: heap_wf_def reader_FORMAT_VERSION_def countable_int_def)
  ultimately show ?thesis
    using v assms(5,6) heap_total_bounds [OF v] type_summaries_ok [OF v wf parts(1)]
      retained_summary_ok [OF v assms(2,3) parts(3)]
    by (simp add: analysis_prints_def doc heap_values_def countable_length countable_int_def ANALYSIS_SCHEMA_def)
qed

text \<open>
  The printed report can be parsed: the document is printed with an indentation of two as ASCII text that
  ends with a line break, and \<^verbatim>\<open>json\<close> reads it back as exactly the document.
\<close>

lemma report_parses:
  assumes "read_heap source = Inr h" and "\<And>r. retained = Some r \<Longrightarrow> sizes_ok r"
    and "length (decimal_digits (nat \<bar>top_n\<bar>)) \<le> MAX_INT_DIGITS"
    and "build_heap_analysis stack sha256 source h retained top_n = Inr doc"
    and "\<And>content. encodable (sha256 content)" and "length source < 2 ^ 64" and "7 \<le> depth"
  shows "json_loads depth (print_json float_text (analysis_json doc)) = Inr (analysis_json doc) \<and>
    (\<forall>c \<in> set (print_json float_text (analysis_json doc)). c < 128) \<and>
    last (print_json float_text (analysis_json doc)) = 10"
proof -
  have "countable_int (int (length source))" using assms(6) by (simp add: countable_int_def)
  then have "analysis_prints doc"
    using assms(3,5) printable_int [of "int (length source)"]
    by (intro analysis_values [OF assms(1,2) _ assms(4)]) auto
  then have doc: "printable (analysis_json doc)" by (rule printable_analysis)
  have "nesting (analysis_json doc) \<le> depth" using nesting_analysis [of doc] assms(7) by linarith
  from json_loads_text(2) [OF doc this] json_text_ascii [OF doc] show ?thesis
    by (auto simp: print_json_def list_all_iff)
qed

text \<open>The analysis without retained sizes does not fail.\<close>

lemma summary_run:
  assumes "read_heap source = Inr h"
  shows "\<exists>doc. build_heap_analysis stack sha256 source h None top_n = Inr doc"
proof -
  have "\<exists>ss. rmap (\<lambda>t. thread_summary h t None) (h_threads h) = Inr ss"
    by (rule rmap_total) (simp add: thread_summary_def)
  then obtain ss where "rmap (\<lambda>t. thread_summary h t None) (h_threads h) = Inr ss" ..
  then show ?thesis
    using type_summaries_run [OF heap_wf_types [OF read_heap_wf [OF assms]]]
    by (auto simp: build_heap_analysis_def retained_summary_def)
qed

end
