(* ===== verification/Retained_Cache.thy ===== *)
theory Retained_Cache
  imports Json_Laws Retained_Subtrees
begin

text \<open>
  The cache of retained sizes beside an artifact (\<^verbatim>\<open>RetainedHeapCache\<close> and
  \<^verbatim>\<open>retained_heap_with_cache\<close> in \<^verbatim>\<open>analyzer/python/src/pydump_analyzer/retained.py\<close>).
  The disk has files and, for a call on a path, the exception that it raises, if any. The digest, the
  name of the temporary file, the orders in which the two dictionaries are listed, and the depth to
  which \<^verbatim>\<open>json\<close> may nest are parameters.
\<close>

section \<open>The sizes as a JSON value\<close>

definition dump_retained ::
  "((address \<rightharpoonup> int) \<Rightarrow> (address \<times> int) list) \<Rightarrow> ((pystr \<rightharpoonup> int) \<Rightarrow> (pystr \<times> int) list) \<Rightarrow>
   retained_result \<Rightarrow> json" where
  "dump_retained object_items thread_items r =
     JDict [(lit ''objects'', JDict (map (\<lambda>(a, n). (decimal_text a, JInt n)) (object_items (rh_objects r)))),
            (lit ''threads'', JDict (map (\<lambda>(name, n). (name, JInt n)) (thread_items (rh_threads r))))]"

text \<open>\<open>value.items()\<close>\<close>

definition json_items :: "json \<Rightarrow> (pystr \<times> json) list res" where
  "json_items v =
     (case v of JDict d \<Rightarrow> Inr d | _ \<Rightarrow> raise AttributeError ''object has no attribute items'' [])"

definition load_entry :: "(pystr \<Rightarrow> 'k res) \<Rightarrow> pystr \<times> json \<Rightarrow> ('k \<rightharpoonup> int) \<Rightarrow> ('k \<rightharpoonup> int) res" where
  "load_entry key entry m =
     rbind (key (fst entry)) (\<lambda>k. rbind (json_int (snd entry)) (\<lambda>size. Inr (m(k \<mapsto> size))))"

definition load_sizes :: "(pystr \<Rightarrow> 'k res) \<Rightarrow> pystr \<Rightarrow> json \<Rightarrow> ('k \<rightharpoonup> int) res" where
  "load_sizes key field v =
     rbind (json_key field v) (\<lambda>part.
     rbind (json_items part) (\<lambda>entries.
     res_fold (load_entry key) entries Map.empty))"

definition load_retained :: "json \<Rightarrow> retained_result res" where
  "load_retained v =
     rbind (load_sizes int_of_text (lit ''objects'') v) (\<lambda>objs.
     rbind (load_sizes Inr (lit ''threads'') v) (\<lambda>threads.
     Inr \<lparr>rh_objects = objs, rh_threads = threads\<rparr>))"

section \<open>The cache file\<close>

datatype disk_call = Open_read | Make_directory | Create_temporary | Write_temporary | Replace | Unlink

record disk =
  dk_files :: "pystr \<rightharpoonup> bytes"
  dk_fault :: "disk_call \<Rightarrow> pystr \<Rightarrow> exn option"

record retained_cache =
  rc_heap_file :: pystr
  rc_cache_dir :: "pystr option"

definition CACHE_VERSION :: int where
  "CACHE_VERSION = 1"

definition open_read :: "disk \<Rightarrow> pystr \<Rightarrow> bytes res" where
  "open_read d path =
     (case dk_fault d Open_read path of
        Some e \<Rightarrow> Inl e
      | None \<Rightarrow>
          (case dk_files d path of
             None \<Rightarrow> raise FileNotFoundError ''no such file: {path}'' [AStr path]
           | Some content \<Rightarrow> Inr content))"

text \<open>The current directory is the empty path.\<close>

definition in_directory :: "pystr \<Rightarrow> pystr \<Rightarrow> pystr" where
  "in_directory dir name = (if dir = [] then name else if last dir = 47 then dir @ name else dir @ 47 # name)"

definition cache_path :: "(bytes \<Rightarrow> pystr) \<Rightarrow> retained_cache \<Rightarrow> disk \<Rightarrow> pystr res" where
  "cache_path sha1 cache d =
     rbind (open_read d (rc_heap_file cache)) (\<lambda>content.
     let suffix = lit ''.'' @ sha1 content @ lit ''.'' @ decimal_text CACHE_VERSION @ lit ''.retained_heap'' in
     Inr (case rc_cache_dir cache of
            None \<Rightarrow> rc_heap_file cache @ suffix
          | Some dir \<Rightarrow> in_directory dir (path_name (rc_heap_file cache) @ suffix)))"

definition cache_load ::
  "(bytes \<Rightarrow> pystr) \<Rightarrow> nat \<Rightarrow> retained_cache \<Rightarrow> disk \<Rightarrow> retained_result option res" where
  "cache_load sha1 depth cache d =
     catching (os_errors @ [ValueError, TypeError, KeyError, AttributeError])
       (rbind (cache_path sha1 cache d) (\<lambda>path.
        rbind (open_read d path) (\<lambda>content.
        rbind (json_load depth content) (\<lambda>v.
        case v of
          JDict _ \<Rightarrow> rbind (load_retained v) (\<lambda>r. Inr (Some r))
        | _ \<Rightarrow> Inr None))))
       (\<lambda>_. Inr None)"

text \<open>
  A call that may raise. A temporary file that could not be written is left with no content until
  it is removed; a missing one is removed without an error.
\<close>

definition attempt :: "disk_call \<Rightarrow> pystr \<Rightarrow> (disk, unit) py" where
  "attempt call path = (\<lambda>d. case dk_fault d call path of Some e \<Rightarrow> (Inl e, d) | None \<Rightarrow> (Inr (), d))"

definition put_file :: "pystr \<Rightarrow> bytes option \<Rightarrow> (disk, unit) py" where
  "put_file path content = mmodify (\<lambda>d. d\<lparr>dk_files := (dk_files d)(path := content)\<rparr>)"

definition unlink_missing_ok :: "pystr \<Rightarrow> (disk, unit) py" where
  "unlink_missing_ok path =
     (\<lambda>d. if dk_files d path = None then (Inr (), d) else mseq (attempt Unlink path) (put_file path None) d)"

definition cache_store ::
  "(bytes \<Rightarrow> pystr) \<Rightarrow> (rat \<Rightarrow> pystr) \<Rightarrow> ((address \<rightharpoonup> int) \<Rightarrow> (address \<times> int) list) \<Rightarrow>
   ((pystr \<rightharpoonup> int) \<Rightarrow> (pystr \<times> int) list) \<Rightarrow> pystr \<Rightarrow> retained_cache \<Rightarrow> retained_result \<Rightarrow> (disk, unit) py" where
  "cache_store sha1 float_text object_items thread_items temporary cache r =
     mbind (\<lambda>d. (cache_path sha1 cache d, d)) (\<lambda>path.
     mseq (attempt Make_directory path) (
     mseq (attempt Create_temporary temporary) (
     mseq (put_file temporary (Some [])) (\<lambda>d.
     case mseq (attempt Write_temporary temporary) (
          mseq (put_file temporary (Some (json_dump float_text None (dump_retained object_items thread_items r)))) (
          mseq (attempt Replace path) (
          mbind (mget (\<lambda>d. dk_files d temporary)) (\<lambda>content.
          mseq (put_file temporary None) (put_file path content))))) d of
       (result, d) \<Rightarrow>
         (case unlink_missing_ok temporary d of
            (Inl e, d) \<Rightarrow> (Inl e, d)
          | (Inr _, d) \<Rightarrow> (result, d))))))"

definition retained_heap_with_cache ::
  "set_order \<Rightarrow> (bytes \<Rightarrow> pystr) \<Rightarrow> nat \<Rightarrow> (rat \<Rightarrow> pystr) \<Rightarrow>
   ((address \<rightharpoonup> int) \<Rightarrow> (address \<times> int) list) \<Rightarrow> ((pystr \<rightharpoonup> int) \<Rightarrow> (pystr \<times> int) list) \<Rightarrow> pystr \<Rightarrow>
   pystr \<Rightarrow> pystr option \<Rightarrow> heap \<Rightarrow> disk \<Rightarrow> (retained_result res \<times> disk) option" where
  "retained_heap_with_cache it sha1 depth float_text object_items thread_items temporary heap_file cache_dir h d =
     (let cache = \<lparr>rc_heap_file = heap_file, rc_cache_dir = cache_dir\<rparr> in
      case cache_load sha1 depth cache d of
        Inl e \<Rightarrow> Some (Inl e, d)
      | Inr (Some r) \<Rightarrow> Some (Inr r, d)
      | Inr None \<Rightarrow>
          (case calculate it h (inbound_references it h) calculator_init of
             None \<Rightarrow> None
           | Some (Inl e) \<Rightarrow> Some (Inl e, d)
           | Some (Inr (r, _)) \<Rightarrow>
               (case cache_store sha1 float_text object_items thread_items temporary cache r d of
                  (Inl e, d) \<Rightarrow> Some (if exn_class_of e \<in> set os_errors then Inr r else Inl e, d)
                | (Inr _, d) \<Rightarrow> Some (Inr r, d))))"

section \<open>What is stored is what is loaded\<close>

lemma load_entries:
  assumes "\<And>k. k \<in> set (map fst kvs) \<Longrightarrow> key (show_key k) = Inr k"
  shows "res_fold (load_entry key) (map (\<lambda>(k, n). (show_key k, JInt n)) kvs) m = Inr (m ++ map_of (rev kvs))"
  using assms by (induction kvs arbitrary: m) (auto simp: load_entry_def json_int_def map_add_def fun_eq_iff
      split: option.splits)

text \<open>An order of the entries lists them all, and each key once.\<close>

definition lists_map :: "('k \<times> 'v) list \<Rightarrow> ('k \<rightharpoonup> 'v) \<Rightarrow> bool" where
  "lists_map kvs m \<longleftrightarrow> distinct (map fst kvs) \<and> map_of kvs = m"

lemma lists_map_rev: "lists_map kvs m \<Longrightarrow> map_of (rev kvs) = m"
  by (metis dict_of_distinct lists_map_def map_of_dict_of)

definition storable ::
  "((address \<rightharpoonup> int) \<Rightarrow> (address \<times> int) list) \<Rightarrow> ((pystr \<rightharpoonup> int) \<Rightarrow> (pystr \<times> int) list) \<Rightarrow> retained_result \<Rightarrow> bool" where
  "storable object_items thread_items r \<longleftrightarrow>
     lists_map (object_items (rh_objects r)) (rh_objects r) \<and>
     lists_map (thread_items (rh_threads r)) (rh_threads r) \<and>
     (\<forall>a n. rh_objects r a = Some n \<longrightarrow> 0 \<le> a \<and> a < 2 ^ 64 \<and> printable (JInt n)) \<and>
     (\<forall>name n. rh_threads r name = Some n \<longrightarrow> encodable name \<and> printable (JInt n))"

lemma nesting_sizes: "nesting (JDict (map (\<lambda>(k, n). (f k, JInt n)) kvs)) \<le> 1"
  by (induction kvs) auto

lemma printable_sizes:
  assumes "inj_on f (fst ` set kvs)" and "distinct (map fst kvs)"
    and "\<And>k n. (k, n) \<in> set kvs \<Longrightarrow> encodable (f k) \<and> printable (JInt n)"
  shows "printable (JDict (map (\<lambda>(k, n). (f k, JInt n)) kvs))"
proof -
  have "map fst (map (\<lambda>(k, n). (f k, JInt n)) kvs) = map f (map fst kvs)" by auto
  moreover have "distinct (map f (map fst kvs))"
    using assms(1,2) by (simp add: distinct_map comp_inj_on)
  ultimately have "distinct (map fst (map (\<lambda>(k, n). (f k, JInt n)) kvs))" by (simp only:)
  with assms(3) show ?thesis by (auto simp: printable.simps)
qed

lemma encodable_ascii: "list_all (\<lambda>c. c < 128) s \<Longrightarrow> encodable s"
  by (fastforce simp: encodable_def is_surrogate_def list_all_iff)

text \<open>Sizes that can be stored are printed and read back as the same JSON value.\<close>

lemma dump_codec:
  assumes "storable object_items thread_items r" and "2 \<le> depth"
  shows "json_load depth (json_dump float_text None (dump_retained object_items thread_items r)) =
    Inr (dump_retained object_items thread_items r)"
proof (rule json_load_dump)
  let ?objs = "object_items (rh_objects r)" and ?threads = "thread_items (rh_threads r)"
  have objs: "lists_map ?objs (rh_objects r)" and threads: "lists_map ?threads (rh_threads r)"
    using assms(1) by (simp_all add: storable_def)
  have "inj_on decimal_text (fst ` set ?objs)"
  proof (rule inj_onI)
    fix a b assume "a \<in> fst ` set ?objs" "b \<in> fst ` set ?objs" "decimal_text a = decimal_text b"
    moreover from this have "0 \<le> a" "0 \<le> b"
      using assms(1) objs by (auto simp: storable_def lists_map_def dest: map_of_is_SomeI)
    ultimately show "a = b" by (simp add: decimal_text_def)
  qed
  moreover have "printable (JInt n)" if "(a, n) \<in> set ?objs" for a n
    using assms(1) objs that by (auto simp: storable_def lists_map_def dest: map_of_is_SomeI)
  ultimately have "printable (JDict (map (\<lambda>(a, n). (decimal_text a, JInt n)) ?objs))"
    using objs by (intro printable_sizes) (auto simp: lists_map_def encodable_ascii ascii_decimal)
  moreover have "encodable name \<and> printable (JInt n)" if "(name, n) \<in> set ?threads" for name n
    using assms(1) threads that by (auto simp: storable_def lists_map_def dest: map_of_is_SomeI)
  then have "printable (JDict (map (\<lambda>(name, n). (name, JInt n)) ?threads))"
    using threads printable_sizes [of "\<lambda>name. name" ?threads] by (simp add: lists_map_def)
  ultimately show "printable (dump_retained object_items thread_items r)"
    by (simp add: dump_retained_def) (simp add: lit_def encodable_def is_surrogate_def)
  show "nesting (dump_retained object_items thread_items r) \<le> depth"
    using nesting_sizes [of decimal_text ?objs] nesting_sizes [of "\<lambda>name. name" ?threads] assms(2)
    by (simp add: dump_retained_def del: nesting.simps(2)) simp
qed

lemma address_digits: "0 \<le> a \<Longrightarrow> a < 2 ^ 64 \<Longrightarrow> int_of_text (decimal_text a) = Inr a"
proof (rule int_of_decimal)
  assume "0 \<le> a" "a < 2 ^ 64"
  then have "nat \<bar>a\<bar> < 10 ^ Suc 19" by simp
  from length_decimal_digits [OF this] show "length (decimal_digits (nat \<bar>a\<bar>)) \<le> MAX_INT_DIGITS"
    by (simp add: MAX_INT_DIGITS_def)
qed

lemma load_dump_retained:
  assumes "storable object_items thread_items r"
  shows "load_retained (dump_retained object_items thread_items r) = Inr r"
proof -
  have names: "lit ''objects'' \<noteq> lit ''threads''" by (simp add: lit_def)
  let ?objs = "object_items (rh_objects r)" and ?threads = "thread_items (rh_threads r)"
  have "set (map fst ?objs) = dom (rh_objects r)"
    using assms by (auto simp: storable_def lists_map_def dom_map_of_conv_image_fst [symmetric])
  then have "res_fold (load_entry int_of_text) (map (\<lambda>(a, n). (decimal_text a, JInt n)) ?objs) Map.empty =
      Inr (Map.empty ++ map_of (rev ?objs))"
    using assms address_digits by (intro load_entries) (auto simp: storable_def)
  moreover have "res_fold (load_entry Inr) (map (\<lambda>(name, n). (name, JInt n)) ?threads) Map.empty =
      Inr (Map.empty ++ map_of (rev ?threads))"
    by (rule load_entries) simp
  ultimately show ?thesis
    using names assms lists_map_rev [of ?objs] lists_map_rev [of ?threads]
    by (simp add: load_retained_def load_sizes_def dump_retained_def json_key_def json_items_def storable_def
        subscript_def)
qed

section \<open>Laws of the cache\<close>

lemma path_name_no_slash: "47 \<notin> set (path_name s)"
proof -
  have "split_at 47 s \<noteq> [] \<and> (\<forall>part \<in> set (split_at 47 s). 47 \<notin> set part)"
    by (induction s) (auto dest: list.set_sel)
  then show ?thesis
    by (auto simp: path_name_def Let_def dest: last_in_set)
qed

lemma path_name_in_directory:
  assumes "47 \<notin> set name" and "name \<noteq> []" and "name \<noteq> lit ''.''"
  shows "path_name (in_directory dir name) = name"
proof -
  consider "dir = []" | "dir \<noteq> []" "last dir \<noteq> 47" | front where "dir = front @ [47]"
    by (metis append_butlast_last_id)
  then show ?thesis
  proof cases
    case 1
    have "split_at 47 name = [name]" using assms(1) by (induction name) auto
    with 1 assms(2,3) show ?thesis by (simp add: in_directory_def path_name_def)
  qed (use path_name_plain [OF assms] in \<open>simp_all add: in_directory_def\<close>)
qed

lemma cache_path_other:
  assumes "cache_path sha1 cache d = Inr path" and "\<And>content. 47 \<notin> set (sha1 content)"
  shows "path \<noteq> rc_heap_file cache"
proof -
  obtain content where path: "path = (case rc_cache_dir cache of
      None \<Rightarrow> rc_heap_file cache @ lit ''.'' @ sha1 content @ lit ''.'' @ decimal_text CACHE_VERSION @ lit ''.retained_heap''
    | Some dir \<Rightarrow> in_directory dir (path_name (rc_heap_file cache) @
        lit ''.'' @ sha1 content @ lit ''.'' @ decimal_text CACHE_VERSION @ lit ''.retained_heap''))"
    using assms(1) by (auto simp: cache_path_def rbind_Inr Let_def)
  let ?n = "path_name (rc_heap_file cache)" and
    ?s = "lit ''.'' @ sha1 content @ lit ''.'' @ decimal_text CACHE_VERSION @ lit ''.retained_heap''"
  have version: "decimal_text CACHE_VERSION = [49]"
    by (simp add: CACHE_VERSION_def decimal_text_def decimal_digits.simps)
  have long: "2 < length (?n @ ?s)" by (simp add: lit_def)
  have plain: "47 \<notin> set (?n @ ?s)" "?n @ ?s \<noteq> []" "?n @ ?s \<noteq> lit ''.''"
    using path_name_no_slash assms(2) long by (auto simp: version lit_def)
  show ?thesis
  proof (cases "rc_cache_dir cache")
    case None
    with path have "path = rc_heap_file cache @ ?s" by simp
    then have "length (rc_heap_file cache) < length path" by (simp add: lit_def)
    then show ?thesis by auto
  next
    case (Some dir)
    with path path_name_in_directory [OF plain] have "path_name path = ?n @ ?s" by simp
    then have "length ?n < length (path_name path)" by (simp add: lit_def)
    then show ?thesis by auto
  qed
qed

text \<open>What the cache sees of a disk: the artifact, the cache file and the faults.\<close>

lemma open_read_cong: "dk_fault d' = dk_fault d \<Longrightarrow> dk_files d' p = dk_files d p \<Longrightarrow> open_read d' p = open_read d p"
  by (simp add: open_read_def split: option.split)

lemma cache_path_cong:
  "dk_fault d' = dk_fault d \<Longrightarrow> dk_files d' (rc_heap_file cache) = dk_files d (rc_heap_file cache) \<Longrightarrow>
   cache_path sha1 cache d' = cache_path sha1 cache d"
  by (simp add: cache_path_def open_read_cong [of d' d])

lemma cache_load_cong:
  assumes "dk_fault d' = dk_fault d" and "dk_files d' (rc_heap_file cache) = dk_files d (rc_heap_file cache)"
    and "\<And>path. cache_path sha1 cache d = Inr path \<Longrightarrow> dk_files d' path = dk_files d path"
  shows "cache_load sha1 depth cache d' = cache_load sha1 depth cache d"
  using assms(3) cache_path_cong [OF assms(1,2), of sha1]
  by (cases "cache_path sha1 cache d") (simp_all add: cache_load_def open_read_cong [OF assms(1)])

text \<open>
  Storing changes the cache file and the temporary file at most; the cache file is as before or has
  all of the sizes.
\<close>

lemma cache_store_effect:
  assumes "cache_store sha1 float_text object_items thread_items temporary cache r d = (result, d')"
    and "dk_files d temporary = None" and "\<And>path. cache_path sha1 cache d = Inr path \<Longrightarrow> temporary \<noteq> path"
  shows "dk_fault d' = dk_fault d \<and>
    (\<forall>p. p \<noteq> temporary \<longrightarrow> cache_path sha1 cache d \<noteq> Inr p \<longrightarrow> dk_files d' p = dk_files d p) \<and>
    (\<forall>path. cache_path sha1 cache d = Inr path \<longrightarrow>
       dk_files d' path = dk_files d path \<or>
       dk_files d' path = Some (json_dump float_text None (dump_retained object_items thread_items r))) \<and>
    (\<forall>e. result = Inl e \<longrightarrow> cache_path sha1 cache d = Inl e \<or> (\<exists>call p. dk_fault d call p = Some e))"
proof (cases "cache_path sha1 cache d")
  case (Inl e)
  with assms(1) show ?thesis by (auto simp: cache_store_def mbind_run)
next
  case (Inr path)
  with assms(3) have "temporary \<noteq> path" by simp
  with Inr assms(1,2) show ?thesis
    by (auto simp: cache_store_def mbind_run mseq_run atomic_run attempt_def put_file_def unlink_missing_ok_def
        split: option.splits)
qed

lemma cache_load_no_path: "cache_path sha1 cache d = Inl e \<Longrightarrow> exn_class_of e \<in> set os_errors \<Longrightarrow>
   cache_load sha1 depth cache d = Inr None"
  by (simp add: cache_load_def catching_def)

lemma open_read_errors:
  "open_read d p = Inl e \<Longrightarrow> dk_fault d Open_read p = Some e \<or> exn_class_of e = FileNotFoundError"
  by (auto simp: open_read_def raise_def split: option.splits)

text \<open>The disk raises nothing but \<open>OSError\<close>.\<close>

definition disk_faults :: "disk \<Rightarrow> bool" where
  "disk_faults d \<longleftrightarrow> (\<forall>call p e. dk_fault d call p = Some e \<longrightarrow> exn_class_of e \<in> set os_errors)"

lemma open_read_os: "disk_faults d \<Longrightarrow> open_read d p = Inl e \<Longrightarrow> exn_class_of e \<in> set os_errors"
  using open_read_errors [of d p e] by (auto simp: disk_faults_def os_errors_def)

lemma cache_path_os: "disk_faults d \<Longrightarrow> cache_path sha1 cache d = Inl e \<Longrightarrow> exn_class_of e \<in> set os_errors"
  using open_read_os [of d "rc_heap_file cache" e]
  by (cases "open_read d (rc_heap_file cache)") (simp_all add: cache_path_def Let_def)

text \<open>A cache file with the sizes \<open>r\<close> is loaded as \<open>r\<close>, if it can be opened.\<close>

lemma cache_load_stored:
  assumes "cache_path sha1 cache d = Inr path" and "dk_files d path = Some (json_dump float_text None (dump_retained object_items thread_items r))"
    and "2 \<le> depth"
    and "storable object_items thread_items r" and "disk_faults d"
  shows "cache_load sha1 depth cache d = (if dk_fault d Open_read path = None then Inr (Some r) else Inr None)"
proof (cases "dk_fault d Open_read path")
  case None
  then have "open_read d path = Inr (json_dump float_text None (dump_retained object_items thread_items r))"
    using assms(2) by (simp add: open_read_def)
  moreover have "\<exists>kvs. dump_retained object_items thread_items r = JDict kvs" by (simp add: dump_retained_def)
  ultimately show ?thesis
    using None assms(1) dump_codec [OF assms(4,3)] load_dump_retained [OF assms(4)] by (auto simp: cache_load_def catching_def)
next
  case (Some e)
  with assms(1,5) show ?thesis by (auto simp: cache_load_def open_read_def catching_def disk_faults_def)
qed

text \<open>The errors of a value that is not what the cache has written.\<close>

definition infinite_size :: "pystr \<Rightarrow> json \<Rightarrow> bool" where
  "infinite_size field v \<longleftrightarrow>
     (\<exists>entries k b. json_key field v = Inr (JDict entries) \<and> (k, JFloat (FInfinite b)) \<in> set entries)"

lemma int_of_text_errors: "int_of_text t = Inl e \<Longrightarrow> exn_class_of e = ValueError"
  by (auto simp: int_of_text_def Let_def raise_def split: if_splits)

lemma json_int_errors:
  "json_int v = Inl e \<Longrightarrow> exn_class_of e \<in> {ValueError, TypeError} \<or>
     (exn_class_of e = OverflowError \<and> (\<exists>b. v = JFloat (FInfinite b)))"
  using int_of_text_errors by (auto simp: json_int_def raise_def split: json.splits json_float.splits if_splits)

lemma load_entries_errors:
  assumes "\<And>t e. key t = Inl e \<Longrightarrow> exn_class_of e = ValueError"
  shows "res_fold (load_entry key) entries m = Inl e \<Longrightarrow> exn_class_of e \<in> {ValueError, TypeError} \<or>
     (exn_class_of e = OverflowError \<and> (\<exists>k b. (k, JFloat (FInfinite b)) \<in> set entries))"
proof (induction entries arbitrary: m)
  case (Cons entry entries)
  show ?case
  proof (cases "load_entry key entry m")
    case (Inr m')
    with Cons.prems have "res_fold (load_entry key) entries m' = Inl e" by simp
    with Cons.IH show ?thesis by fastforce
  next
    case (Inl e')
    with Cons.prems have "load_entry key entry m = Inl e" by simp
    then have "key (fst entry) = Inl e \<or> json_int (snd entry) = Inl e"
      by (auto simp: load_entry_def rbind_def split: sum.splits)
    then show ?thesis using assms json_int_errors [of "snd entry" e] by (cases entry) auto
  qed
qed simp

lemma load_sizes_errors:
  assumes "\<And>t e. key t = Inl e \<Longrightarrow> exn_class_of e = ValueError" and "load_sizes key field v = Inl e"
  shows "exn_class_of e \<in> {ValueError, TypeError, KeyError, AttributeError} \<or>
    (exn_class_of e = OverflowError \<and> infinite_size field v)"
proof -
  consider "json_key field v = Inl e" | part where "json_key field v = Inr part" "json_items part = Inl e"
    | part entries where "json_key field v = Inr part" "json_items part = Inr entries"
        "res_fold (load_entry key) entries Map.empty = Inl e"
    using assms(2) by (auto simp: load_sizes_def rbind_def split: sum.splits)
  then show ?thesis
  proof cases
    case 1
    then show ?thesis by (auto simp: json_key_def subscript_def raise_def split: json.splits option.splits)
  next
    case 2
    then show ?thesis by (auto simp: json_items_def raise_def split: json.splits)
  next
    case 3
    from 3(2) have "part = JDict entries" by (auto simp: json_items_def split: json.splits)
    with load_entries_errors [OF assms(1) 3(3)] 3(1) show ?thesis by (auto simp: infinite_size_def)
  qed
qed

lemma load_retained_errors:
  assumes "load_retained v = Inl e"
  shows "exn_class_of e \<in> {ValueError, TypeError, KeyError, AttributeError} \<or>
    (exn_class_of e = OverflowError \<and> (infinite_size (lit ''objects'') v \<or> infinite_size (lit ''threads'') v))"
proof -
  from assms have "load_sizes int_of_text (lit ''objects'') v = Inl e \<or> load_sizes Inr (lit ''threads'') v = Inl e"
    by (auto simp: load_retained_def rbind_def split: sum.splits)
  then show ?thesis
    using load_sizes_errors [of int_of_text "lit ''objects''" v e] load_sizes_errors [of Inr "lit ''threads''" v e]
      int_of_text_errors by auto
qed

text \<open>Storing raises what the disk raises.\<close>

lemma cache_store_error:
  assumes "cache_store sha1 float_text object_items thread_items temporary cache r d = (Inl e, d')" and "disk_faults d"
  shows "exn_class_of e \<in> set os_errors"
proof (cases "cache_path sha1 cache d")
  case (Inl e')
  with assms cache_path_os [OF assms(2)] show ?thesis by (auto simp: cache_store_def mbind_run)
next
  case (Inr path)
  with assms have "\<exists>call p. dk_fault d call p = Some e"
    by (auto simp: cache_store_def mbind_run mseq_run atomic_run attempt_def put_file_def unlink_missing_ok_def
        split: option.splits if_splits)
  with assms(2) show ?thesis by (auto simp: disk_faults_def)
qed

text \<open>A run with a cache that holds nothing or the right sizes.\<close>

lemma with_cache_run:
  assumes "calculate it h (inbound_references it h) calculator_init = Some (Inr (r, c))"
    and "cache_load sha1 depth \<lparr>rc_heap_file = heap_file, rc_cache_dir = dir\<rparr> d \<in> {Inr None, Inr (Some r)}"
    and "storable object_items thread_items r"
    and "2 \<le> depth"
    and "disk_faults d" and "\<And>content. 47 \<notin> set (sha1 content)"
    and "dk_files d temporary = None"
    and "cache_path sha1 \<lparr>rc_heap_file = heap_file, rc_cache_dir = dir\<rparr> d \<noteq> Inr temporary"
  shows "\<exists>d'. retained_heap_with_cache it sha1 depth float_text object_items thread_items temporary heap_file dir h d =
      Some (Inr r, d') \<and>
    (\<forall>p. p \<noteq> temporary \<longrightarrow> cache_path sha1 \<lparr>rc_heap_file = heap_file, rc_cache_dir = dir\<rparr> d \<noteq> Inr p \<longrightarrow>
       dk_files d' p = dk_files d p) \<and>
    cache_load sha1 depth \<lparr>rc_heap_file = heap_file, rc_cache_dir = dir\<rparr> d' \<in> {Inr None, Inr (Some r)}"
proof (cases "cache_load sha1 depth \<lparr>rc_heap_file = heap_file, rc_cache_dir = dir\<rparr> d = Inr None")
  case False
  with assms(2) have "cache_load sha1 depth \<lparr>rc_heap_file = heap_file, rc_cache_dir = dir\<rparr> d = Inr (Some r)" by simp
  then show ?thesis by (simp add: retained_heap_with_cache_def)
next
  case True
  let ?cache = "\<lparr>rc_heap_file = heap_file, rc_cache_dir = dir\<rparr>"
  obtain result d' where store:
    "cache_store sha1 float_text object_items thread_items temporary ?cache r d = (result, d')" by force
  note effect = cache_store_effect [OF store assms(7)]
  have tmp: "cache_path sha1 ?cache d = Inr path \<Longrightarrow> temporary \<noteq> path" for path using assms(8) by auto
  note effect = effect [OF tmp]
  have os: "exn_class_of e \<in> set os_errors" if "result = Inl e" for e
    using effect that cache_path_os [OF assms(5)] assms(5) by (auto simp: disk_faults_def)
  have run: "retained_heap_with_cache it sha1 depth float_text object_items thread_items temporary heap_file dir h d = Some (Inr r, d')"
    using True assms(1) store os by (cases result) (simp_all add: retained_heap_with_cache_def)
  have "cache_load sha1 depth ?cache d' \<in> {Inr None, Inr (Some r)}"
  proof (cases "cache_path sha1 ?cache d")
    case (Inl e)
    with store have "d' = d" by (simp add: cache_store_def mbind_run)
    with True show ?thesis by simp
  next
    case (Inr path)
    then have "dk_files d heap_file \<noteq> None" by (auto simp: cache_path_def open_read_def rbind_Inr raise_def split: option.splits)
    with assms(7) have "heap_file \<noteq> temporary" by auto
    moreover have other: "heap_file \<noteq> path" using cache_path_other [OF Inr assms(6)] by simp
    ultimately have same: "dk_fault d' = dk_fault d" "dk_files d' heap_file = dk_files d heap_file"
      using effect Inr by auto
    have path': "cache_path sha1 ?cache d' = Inr path" using cache_path_cong [of d' d ?cache sha1] same Inr by simp
    have faults: "disk_faults d'" using assms(5) same(1) by (simp add: disk_faults_def)
    from effect Inr consider "dk_files d' path = dk_files d path"
      | "dk_files d' path = Some (json_dump float_text None (dump_retained object_items thread_items r))" by blast
    then show ?thesis
    proof cases
      case 1
      then have "cache_load sha1 depth ?cache d' = cache_load sha1 depth ?cache d"
        using same Inr by (intro cache_load_cong) auto
      with True show ?thesis by simp
    next
      case 2
      from cache_load_stored [where depth = depth and float_text = float_text, OF path' this assms(4,3) faults]
      show ?thesis by simp
    qed
  qed
  with run effect show ?thesis by blast
qed

section \<open>Properties\<close>

text \<open>
  C23: The cache changes what the analysis costs and nothing else. Take a cache file that is missing,
  cannot be read, or has the sizes of the heap. The result is what the calculation gives, whatever
  calls on the disk fail; only the cache file and the temporary file may change; and the cache file
  is afterwards again of this kind.
\<close>

theorem cache_transparent:
  assumes "calculate it h (inbound_references it h) calculator_init = Some (Inr (r, c))"
    and "cache_load sha1 depth \<lparr>rc_heap_file = heap_file, rc_cache_dir = dir\<rparr> d \<in> {Inr None, Inr (Some r)}"
    and "storable object_items thread_items r"
    and "2 \<le> depth"
    and "disk_faults d" and "\<And>content. 47 \<notin> set (sha1 content)"
    and "dk_files d temporary = None"
    and "cache_path sha1 \<lparr>rc_heap_file = heap_file, rc_cache_dir = dir\<rparr> d \<noteq> Inr temporary"
  shows "\<exists>d'. retained_heap_with_cache it sha1 depth float_text object_items thread_items temporary heap_file dir h d =
      Some (Inr r, d') \<and>
    (\<forall>p. p \<noteq> temporary \<longrightarrow> cache_path sha1 \<lparr>rc_heap_file = heap_file, rc_cache_dir = dir\<rparr> d \<noteq> Inr p \<longrightarrow>
       dk_files d' p = dk_files d p) \<and>
    cache_load sha1 depth \<lparr>rc_heap_file = heap_file, rc_cache_dir = dir\<rparr> d' \<in> {Inr None, Inr (Some r)}"
  by (rule with_cache_run [where depth = depth and float_text = float_text, OF assms])

text \<open>
  C24: What is stored is loaded: on a disk that raises nothing, storing the sizes succeeds, leaves no
  temporary file, and a later run gets these sizes from the cache, without calculating them.
\<close>

theorem cache_round_trip:
  assumes "storable object_items thread_items r"
    and "2 \<le> depth"
    and "dk_fault d = (\<lambda>_ _. None)" and "\<And>content. 47 \<notin> set (sha1 content)"
    and "dk_files d temporary = None" and "cache_path sha1 cache d = Inr path" and "path \<noteq> temporary"
  shows "\<exists>d'. cache_store sha1 float_text object_items thread_items temporary cache r d = (Inr (), d') \<and>
    cache_load sha1 depth cache d' = Inr (Some r) \<and> dk_files d' temporary = None \<and>
    retained_heap_with_cache it sha1 depth float_text object_items thread_items temporary (rc_heap_file cache)
      (rc_cache_dir cache) h d' = Some (Inr r, d')"
proof -
  let ?content = "json_dump float_text None (dump_retained object_items thread_items r)"
  let ?d = "d\<lparr>dk_files := (dk_files d)(path \<mapsto> ?content)\<rparr>"
  have store: "cache_store sha1 float_text object_items thread_items temporary cache r d = (Inr (), ?d)"
    using assms(3,5,6,7)
    by (simp add: cache_store_def mbind_run mseq_run atomic_run attempt_def put_file_def unlink_missing_ok_def
        fun_upd_idem)
  have other: "path \<noteq> rc_heap_file cache" using cache_path_other [OF assms(6,4)] .
  have "cache_path sha1 cache ?d = Inr path"
    using cache_path_cong [of ?d d cache sha1] other assms(6) by simp
  then have load: "cache_load sha1 depth cache ?d = Inr (Some r)"
    using cache_load_stored [of sha1 cache ?d path float_text object_items thread_items r depth] assms(1-3)
    by (simp add: disk_faults_def)
  obtain heap_file dir where cache: "cache = \<lparr>rc_heap_file = heap_file, rc_cache_dir = dir\<rparr>" by (cases cache)
  have "retained_heap_with_cache it sha1 depth float_text object_items thread_items temporary (rc_heap_file cache)
      (rc_cache_dir cache) h ?d = Some (Inr r, ?d)"
    using load by (simp add: cache retained_heap_with_cache_def)
  with store load assms(5,7) show ?thesis by auto
qed

text \<open>
  C25: A damaged cache is ignored, with two exceptions. Take a cache file that can be opened, on a disk whose
  errors are \<open>OSError\<close>. Where its text is not JSON, its value is not an object, or a part of the
  sizes is missing or of the wrong kind, nothing is loaded and the result is that of the calculation. The
  exceptions are \<^verbatim>\<open>RecursionError\<close>, for a text that nests deeper than the interpreter allows, and
  \<^verbatim>\<open>OverflowError\<close>, which only an infinite number as a size can raise: these errors are not among
  those that are caught, and end the analysis.
\<close>

theorem damaged_cache:
  assumes "disk_faults d"
    and "cache_path sha1 \<lparr>rc_heap_file = heap_file, rc_cache_dir = dir\<rparr> d = Inr path" and "open_read d path = Inr content"
  shows "cache_load sha1 depth \<lparr>rc_heap_file = heap_file, rc_cache_dir = dir\<rparr> d =
      (case json_load depth content of
         Inl e \<Rightarrow> if exn_class_of e = RecursionError then Inl e else Inr None
       | Inr v \<Rightarrow>
           (case v of
              JDict _ \<Rightarrow>
                (case load_retained v of
                   Inl e \<Rightarrow> if exn_class_of e = OverflowError then Inl e else Inr None
                 | Inr r \<Rightarrow> Inr (Some r))
            | _ \<Rightarrow> Inr None)) \<and>
    (\<forall>v e. load_retained v = Inl e \<and> exn_class_of e = OverflowError \<longrightarrow>
       infinite_size (lit ''objects'') v \<or> infinite_size (lit ''threads'') v) \<and>
    (cache_load sha1 depth \<lparr>rc_heap_file = heap_file, rc_cache_dir = dir\<rparr> d = Inr None \<longrightarrow>
       map_option fst (retained_heap_with_cache it sha1 depth float_text object_items thread_items temporary heap_file dir h d) =
       map_option (\<lambda>result. rbind result (\<lambda>rc. Inr (fst rc))) (calculate it h (inbound_references it h) calculator_init)) \<and>
    (\<forall>e. cache_load sha1 depth \<lparr>rc_heap_file = heap_file, rc_cache_dir = dir\<rparr> d = Inl e \<longrightarrow>
       retained_heap_with_cache it sha1 depth float_text object_items thread_items temporary heap_file dir h d = Some (Inl e, d))"
proof -
  let ?cache = "\<lparr>rc_heap_file = heap_file, rc_cache_dir = dir\<rparr>"
  have other: "exn_class_of e \<in> set os_errors \<union> {ValueError, TypeError, KeyError, AttributeError} \<longleftrightarrow>
      exn_class_of e \<noteq> RecursionError" if "json_load depth content = Inl e" for e
    using json_load_raises [of depth content] that by (auto simp: only_raises_def os_errors_def)
  have sizes: "exn_class_of e \<in> set os_errors \<union> {ValueError, TypeError, KeyError, AttributeError} \<longleftrightarrow>
      exn_class_of e \<noteq> OverflowError" if "load_retained v = Inl e" for v e
    using load_retained_errors [OF that] by (auto simp: os_errors_def)
  have "cache_load sha1 depth ?cache d =
      (case json_load depth content of
         Inl e \<Rightarrow> if exn_class_of e = RecursionError then Inl e else Inr None
       | Inr v \<Rightarrow>
           (case v of
              JDict _ \<Rightarrow>
                (case load_retained v of
                   Inl e \<Rightarrow> if exn_class_of e = OverflowError then Inl e else Inr None
                 | Inr r \<Rightarrow> Inr (Some r))
            | _ \<Rightarrow> Inr None))"
  proof (cases "json_load depth content")
    case (Inl e)
    with other [OF Inl] show ?thesis by (auto simp: cache_load_def assms catching_def)
  next
    case (Inr v)
    show ?thesis
    proof (cases "load_retained v")
      case (Inl e)
      with Inr sizes [OF Inl] show ?thesis by (cases v) (auto simp: cache_load_def assms catching_def)
    qed (use Inr in \<open>cases v; simp add: cache_load_def assms catching_def\<close>)
  qed
  moreover have "infinite_size (lit ''objects'') v \<or> infinite_size (lit ''threads'') v"
    if "load_retained v = Inl e" "exn_class_of e = OverflowError" for v e
    using load_retained_errors [OF that(1)] that(2) by auto
  moreover have "map_option fst (retained_heap_with_cache it sha1 depth float_text object_items thread_items temporary
        heap_file dir h d) =
      map_option (\<lambda>result. rbind result (\<lambda>rc. Inr (fst rc))) (calculate it h (inbound_references it h) calculator_init)"
    if "cache_load sha1 depth ?cache d = Inr None"
    using that cache_store_error [OF _ assms(1)]
    by (auto simp: retained_heap_with_cache_def Let_def split: option.splits sum.splits prod.splits)
  moreover have "retained_heap_with_cache it sha1 depth float_text object_items thread_items temporary heap_file dir h d =
      Some (Inl e, d)" if "cache_load sha1 depth ?cache d = Inl e" for e
    using that by (simp add: retained_heap_with_cache_def)
  ultimately show ?thesis by blast
qed

section \<open>Examples\<close>

text \<open>A heap with one object, its sizes, and the text of a damaged cache.\<close>

definition demo_cached_heap :: heap where
  "demo_cached_heap = (demo_heap [])\<lparr>h_objects := [demo_cell 1 {}]\<rparr>"

definition demo_sizes :: retained_result where
  "demo_sizes = \<lparr>rh_objects = [1 \<mapsto> 10], rh_threads = Map.empty\<rparr>"

definition demo_damaged :: json where
  "demo_damaged =
     JDict [(lit ''objects'', JDict [([49], JFloat (FInfinite True))]), (lit ''threads'', JDict [])]"

definition demo_disk :: "(pystr \<rightharpoonup> bytes) \<Rightarrow> disk" where
  "demo_disk cached = \<lparr>dk_files = cached(lit ''heap'' \<mapsto> [0]), dk_fault = (\<lambda>_ _. None)\<rparr>"

lemma demo_storable: "storable (\<lambda>_. [(1, 10)]) (\<lambda>_. []) demo_sizes"
  by (simp add: storable_def lists_map_def demo_sizes_def MAX_INT_DIGITS_def decimal_digits.simps)

lemma demo_damaged_load: "json_load 2 (json_dump (\<lambda>_. []) None demo_damaged) = Inr demo_damaged"
  by (rule json_load_dump) (simp_all add: demo_damaged_def lit_def encodable_def is_surrogate_def)

lemma demo_cache_path:
  "cache_path (\<lambda>_. [97]) \<lparr>rc_heap_file = lit ''heap'', rc_cache_dir = None\<rparr> (demo_disk cached) =
   Inr (lit ''heap.a.1.retained_heap'')"
  by (simp add: cache_path_def open_read_def demo_disk_def Let_def CACHE_VERSION_def decimal_text_def
      decimal_digits.simps lit_def)

lemma demo_calculated: "\<exists>c. calculate sorted_list_of_set demo_cached_heap
    (inbound_references sorted_list_of_set demo_cached_heap) calculator_init = Some (Inr (demo_sizes, c))"
  by (simp add: calculate_def calculator_init_def find_strict_subtrees_def demo_cached_heap_def demo_heap_def
      demo_cell_def inbound_references_def add_object_def Let_def leaf_step_def subtree_loop.simps
      retained_heap_for_object_def demo_sizes_def subscript_def obind_def retained_heap_def retained_loop.simps
      sort_front_def delete_unreferenced_def numeral_2_eq_2 pop_at_def decrement_inbound_def fun_eq_iff)

text \<open>
  The cache file is missing; then it can be neither written nor read; then it is damaged.
\<close>

theorem cache_round_trip_witness:
  "\<exists>d'. cache_store (\<lambda>_. [97]) (\<lambda>_. []) (\<lambda>_. [(1, 10)]) (\<lambda>_. []) (lit ''tmp'')
      \<lparr>rc_heap_file = lit ''heap'', rc_cache_dir = None\<rparr> demo_sizes (demo_disk Map.empty) = (Inr (), d') \<and>
    cache_load (\<lambda>_. [97]) 2 \<lparr>rc_heap_file = lit ''heap'', rc_cache_dir = None\<rparr> d' = Inr (Some demo_sizes)"
proof -
  have "dk_fault (demo_disk Map.empty) = (\<lambda>_ _. None)" "dk_files (demo_disk Map.empty) (lit ''tmp'') = None"
    "lit ''heap.a.1.retained_heap'' \<noteq> lit ''tmp''"
    by (simp_all add: demo_disk_def lit_def)
  from cache_round_trip [where ?sha1.0 = "\<lambda>_. [97]" and float_text = "\<lambda>_. []" and depth = 2,
    OF demo_storable order_refl this(1) _ this(2) demo_cache_path this(3)] show ?thesis by auto
qed

theorem cache_transparent_witness:
  "\<exists>d'. retained_heap_with_cache sorted_list_of_set (\<lambda>_. [97]) 2 (\<lambda>_. []) (\<lambda>_. [(1, 10)]) (\<lambda>_. [])
      (lit ''tmp'') (lit ''heap'') None demo_cached_heap
      ((demo_disk Map.empty)\<lparr>dk_fault := (\<lambda>call _. if call = Replace then Some (Exn PermissionError ''denied'' []) else None)\<rparr>) =
    Some (Inr demo_sizes, d')"
proof -
  let ?d = "(demo_disk Map.empty)\<lparr>dk_fault := (\<lambda>call _. if call = Replace then Some (Exn PermissionError ''denied'' []) else None)\<rparr>"
  have open_heap: "open_read ?d p = open_read (demo_disk Map.empty) p" for p by (simp add: open_read_def demo_disk_def)
  have path: "cache_path (\<lambda>_. [97]) \<lparr>rc_heap_file = lit ''heap'', rc_cache_dir = None\<rparr> ?d = Inr (lit ''heap.a.1.retained_heap'')"
    using demo_cache_path [of Map.empty] by (simp add: cache_path_def open_heap)
  have "open_read ?d (lit ''heap.a.1.retained_heap'') = raise FileNotFoundError ''no such file: {path}'' [AStr (lit ''heap.a.1.retained_heap'')]"
    by (simp add: open_read_def demo_disk_def lit_def)
  with path have load: "cache_load (\<lambda>_. [97]) 2 \<lparr>rc_heap_file = lit ''heap'', rc_cache_dir = None\<rparr> ?d
      \<in> {Inr None, Inr (Some demo_sizes)}"
    by (simp add: cache_load_def catching_def os_errors_def raise_def)
  have faults: "disk_faults ?d" by (simp add: disk_faults_def os_errors_def)
  have tmp: "dk_files ?d (lit ''tmp'') = None"
    "cache_path (\<lambda>_. [97]) \<lparr>rc_heap_file = lit ''heap'', rc_cache_dir = None\<rparr> ?d \<noteq> Inr (lit ''tmp'')"
    unfolding path by (simp_all add: demo_disk_def lit_def)
  obtain c where "calculate sorted_list_of_set demo_cached_heap
    (inbound_references sorted_list_of_set demo_cached_heap) calculator_init = Some (Inr (demo_sizes, c))"
    using demo_calculated by blast
  from cache_transparent [where depth = 2 and float_text = "\<lambda>_. []", OF this load demo_storable order_refl faults _ tmp]
  show ?thesis by auto
qed

theorem damaged_cache_witness:
  "(\<exists>e. retained_heap_with_cache sorted_list_of_set (\<lambda>_. [97]) 2 (\<lambda>_. []) (\<lambda>_. [(1, 10)]) (\<lambda>_. [])
      (lit ''tmp'') (lit ''heap'') None demo_cached_heap
      (demo_disk [lit ''heap.a.1.retained_heap'' \<mapsto> json_dump (\<lambda>_. []) None demo_damaged]) =
      Some (Inl e, demo_disk [lit ''heap.a.1.retained_heap'' \<mapsto> json_dump (\<lambda>_. []) None demo_damaged]) \<and>
      exn_class_of e = OverflowError) \<and>
   (\<exists>d'. retained_heap_with_cache sorted_list_of_set (\<lambda>_. [97]) 2 (\<lambda>_. []) (\<lambda>_. [(1, 10)]) (\<lambda>_. [])
      (lit ''tmp'') (lit ''heap'') None demo_cached_heap
      (demo_disk [lit ''heap.a.1.retained_heap'' \<mapsto> json_dump (\<lambda>_. []) None (JDict [])]) = Some (Inr demo_sizes, d'))"
proof -
  let ?d = "\<lambda>v. demo_disk [lit ''heap.a.1.retained_heap'' \<mapsto> json_dump (\<lambda>_. []) None v]" and
    ?cache = "\<lparr>rc_heap_file = lit ''heap'', rc_cache_dir = None\<rparr>"
  have opened: "open_read (?d v) (lit ''heap.a.1.retained_heap'') = Inr (json_dump (\<lambda>_. []) None v)" for v
    by (simp add: open_read_def demo_disk_def lit_def)
  have faults: "disk_faults (?d v)" for v by (simp add: disk_faults_def demo_disk_def)
  note cache = damaged_cache [OF faults demo_cache_path opened, where depth = 2 and it = sorted_list_of_set and float_text = "\<lambda>_. []"
      and object_items = "\<lambda>_. [(1, 10)]" and thread_items = "\<lambda>_. []" and temporary = "lit ''tmp''" and h = demo_cached_heap]
  have "int_of_text [49] = Inr 1"
    using address_digits [of 1] by (simp add: decimal_text_def decimal_digits.simps)
  then have "\<exists>e. load_retained demo_damaged = Inl e \<and> exn_class_of e = OverflowError"
    by (simp add: load_retained_def load_sizes_def demo_damaged_def json_key_def subscript_def json_items_def
        load_entry_def json_int_def raise_def)
  then obtain e where e: "load_retained demo_damaged = Inl e" "exn_class_of e = OverflowError" by blast
  obtain entries where entries: "demo_damaged = JDict entries" by (simp add: demo_damaged_def)
  have "cache_load (\<lambda>_. [97]) 2 ?cache (?d demo_damaged) = Inl e"
    using conjunct1 [OF cache [of demo_damaged]] demo_damaged_load e unfolding entries by simp
  with cache [of demo_damaged] have first: "retained_heap_with_cache sorted_list_of_set (\<lambda>_. [97]) 2 (\<lambda>_. []) (\<lambda>_. [(1, 10)])
      (\<lambda>_. []) (lit ''tmp'') (lit ''heap'') None demo_cached_heap (?d demo_damaged) = Some (Inl e, ?d demo_damaged)" by blast
  have "json_load 2 (json_dump (\<lambda>_. []) None (JDict [])) = Inr (JDict [])"
    by (rule json_load_dump) simp_all
  moreover have "load_retained (JDict []) = raise KeyError ''key'' [] \<or>
      (\<exists>e. load_retained (JDict []) = Inl e \<and> exn_class_of e \<noteq> OverflowError)"
    by (simp add: load_retained_def load_sizes_def json_key_def subscript_def raise_def)
  then obtain e' where "load_retained (JDict []) = Inl e'" "exn_class_of e' \<noteq> OverflowError" by (auto simp: raise_def)
  ultimately have "cache_load (\<lambda>_. [97]) 2 ?cache (?d (JDict [])) = Inr None" using cache [of "JDict []"] by simp
  with cache [of "JDict []"] demo_calculated have "\<exists>d'. retained_heap_with_cache sorted_list_of_set (\<lambda>_. [97]) 2 (\<lambda>_. [])
      (\<lambda>_. [(1, 10)]) (\<lambda>_. []) (lit ''tmp'') (lit ''heap'') None demo_cached_heap (?d (JDict [])) = Some (Inr demo_sizes, d')"
    by auto
  with first e(2) show ?thesis by blast
qed

end
