(* ===== verification/Analyzer_Arguments.thy ===== *)
theory Analyzer_Arguments
  imports Option_Table
begin

text \<open>
  The command line of the analyzer: \<^verbatim>\<open>build_parser\<close> and \<^verbatim>\<open>_non_negative_int\<close> of
  \<^verbatim>\<open>analyzer/python/src/pydump_analyzer/cli.py\<close>. The parser of the commands' names refuses
  abbreviations; those of the two commands take them, as \<^verbatim>\<open>add_parser\<close> leaves the default.
\<close>

section \<open>The options\<close>

definition non_negative_int :: "pystr \<Rightarrow> int res" where
  "non_negative_int value =
     rbind (int_of_text value) (\<lambda>parsed.
     if parsed < 0 then raise ArgumentTypeError ''value must be non-negative'' [] else Inr parsed)"

definition ANALYZER_OPTIONS :: "arg_value option_spec list" where
  "ANALYZER_OPTIONS = [option_spec [''-h'', ''--help''] ''help'' Show]"

definition SUMMARY_OPTIONS :: "arg_value option_spec list" where
  "SUMMARY_OPTIONS =
     [option_spec [''-h'', ''--help''] ''help'' Show,
      (option_spec [''--file'', ''-f''] ''file'' (Store path_value))\<lparr>op_required := True\<rparr>]"

definition RETAINED_OPTIONS :: "arg_value option_spec list" where
  "RETAINED_OPTIONS =
     [option_spec [''-h'', ''--help''] ''help'' Show,
      (option_spec [''--file'', ''-f''] ''file'' (Store path_value))\<lparr>op_required := True\<rparr>,
      option_spec [''--top-n'', ''-n''] ''top_n'' (Store (int_value non_negative_int)),
      option_spec [''--format''] ''format'' (Store (choice_value [lit ''text'', lit ''json'']))]"

definition RETAINED_DEFAULTS :: "pystr \<rightharpoonup> arg_value" where
  "RETAINED_DEFAULTS = [lit ''top_n'' \<mapsto> VInt 100, lit ''format'' \<mapsto> VText (lit ''text'')]"

definition COMMANDS :: "pystr \<rightharpoonup> arg_value option_spec list \<times> (pystr \<rightharpoonup> arg_value)" where
  "COMMANDS =
     [lit ''summary'' \<mapsto> (SUMMARY_OPTIONS, Map.empty), lit ''retained-heap'' \<mapsto> (RETAINED_OPTIONS, RETAINED_DEFAULTS)]"

text \<open>The command that is run: the file, and whether the format is JSON with the number of objects.\<close>

datatype analyzer_command = Summary pystr | Retained_heap pystr bool int

definition command_of :: "pystr \<times> (pystr \<rightharpoonup> arg_value) \<Rightarrow> analyzer_command" where
  "command_of args =
     (let heap_file = the (get_text (snd args) ''file'') in
      if fst args = lit ''summary'' then Summary heap_file
      else Retained_heap heap_file (get_text (snd args) ''format'' = Some (lit ''json''))
        (the (get_int (snd args) ''top_n'')))"

definition parse_analyzer :: "pystr list \<Rightarrow> analyzer_command parse" where
  "parse_analyzer argv =
     parse_bind (parse_command ANALYZER_OPTIONS COMMANDS [] argv) (\<lambda>args. Parsed (command_of args))"

section \<open>Laws\<close>

lemma analyzer_tables: "table_ok SUMMARY_OPTIONS" "table_ok RETAINED_OPTIONS" "names_ok SUMMARY_OPTIONS" "names_ok RETAINED_OPTIONS"
  by (simp_all add: table_ok_def names_ok_def SUMMARY_OPTIONS_def RETAINED_OPTIONS_def option_spec_def)
    (simp_all add: lit_def)

lemma analyzer_groups: "exclusive_dests SUMMARY_OPTIONS = {}" "exclusive_dests RETAINED_OPTIONS = {}"
  by (simp_all add: exclusive_dests_filter SUMMARY_OPTIONS_def RETAINED_OPTIONS_def option_spec_def)

text \<open>Writing a command, and reading it.\<close>

definition format_text :: "bool \<Rightarrow> pystr" where
  "format_text json_format = (if json_format then lit ''json'' else lit ''text'')"

definition render_command :: "analyzer_command \<Rightarrow> pystr list" where
  "render_command command =
     (case command of
        Summary heap_file \<Rightarrow> lit ''summary'' # optional ''--file'' (Some heap_file)
      | Retained_heap heap_file json_format top_n \<Rightarrow>
          lit ''retained-heap'' # optional ''--file'' (Some heap_file) @
            optional ''--top-n'' (Some (decimal_text top_n)) @
            optional ''--format'' (Some (format_text json_format)))"

text \<open>The same with other names for the options, which stand for theirs: the full names, or unambiguous beginnings.\<close>

definition render_named :: "(string \<Rightarrow> string) \<Rightarrow> analyzer_command \<Rightarrow> pystr list" where
  "render_named short command =
     (case command of
        Summary heap_file \<Rightarrow> lit ''summary'' # optional (short ''--file'') (Some heap_file)
      | Retained_heap heap_file json_format top_n \<Rightarrow>
          lit ''retained-heap'' # optional (short ''--file'') (Some heap_file) @
            optional (short ''--top-n'') (Some (decimal_text top_n)) @
            optional (short ''--format'') (Some (format_text json_format)))"

definition shortens :: "'v option_spec list \<Rightarrow> string \<Rightarrow> string \<Rightarrow> bool" where
  "shortens options short full \<longleftrightarrow>
     starts_with [45, 45] (lit short) \<and> 61 \<notin> set (lit short) \<and>
     (case find_option options (lit full) of None \<Rightarrow> False | Some o' \<Rightarrow> stands_for True options (lit short) o')"

definition names_read :: "(string \<Rightarrow> string) \<Rightarrow> analyzer_command \<Rightarrow> bool" where
  "names_read short command \<longleftrightarrow>
     (case command of
        Summary heap_file \<Rightarrow> shortens SUMMARY_OPTIONS (short ''--file'') ''--file''
      | Retained_heap heap_file json_format top_n \<Rightarrow>
          (\<forall>name \<in> set [''--file'', ''--top-n'', ''--format'']. shortens RETAINED_OPTIONS (short name) name))"

definition command_ok :: "analyzer_command \<Rightarrow> bool" where
  "command_ok command \<longleftrightarrow>
     (case command of
        Summary heap_file \<Rightarrow> normal_path heap_file
      | Retained_heap heap_file json_format top_n \<Rightarrow> normal_path heap_file \<and> 0 \<le> top_n \<and> writable_int top_n)"

lemma render_itself: "render_command command = render_named (\<lambda>name. name) command"
  by (simp add: render_command_def render_named_def)

lemma names_themselves: "names_read (\<lambda>name. name) command"
  by (cases command) (simp_all add: names_read_def shortens_def stands_for_def find_option_def SUMMARY_OPTIONS_def
      RETAINED_OPTIONS_def option_spec_def, simp_all add: lit_def starts_with_def)

lemma absorbs_short:
  assumes "names_ok options" and "find_option options (lit full) = Some o'" and "shortens options short full"
    and "op_action o' = Store f" and "f (g s) = Inr (v s)" and "\<not> op_exclusive o'"
  shows "absorbs True options (optional short (Some (g s))) st (given o' v (Some s) st)"
  using absorbs_named [of options True short o' f "Some s" g v st] assms by (simp add: shortens_def)

lemma file_option:
  assumes "(option_spec [''--file'', ''-f''] ''file'' (Store path_value))\<lparr>op_required := True\<rparr> = o'"
    and "names_ok options" and "find_option options (lit ''--file'') = Some o'" and "normal_path heap_file"
    and "shortens options short ''--file''"
  shows "absorbs True options (optional short (Some heap_file)) st (given o' VText (Some heap_file) st)"
  using absorbs_short [OF assms(2,3,5), of path_value "\<lambda>s. s" heap_file VText st] assms(1,4)
  by (auto simp: option_spec_def path_value_def normal_path_def)

lemma named_command:
  assumes "COMMANDS name = Some (own, defaults)" and "parse_known True own defaults args = Parsed st" and "ap_extras st = []"
    and "\<not> starts_with [45] name"
  shows "parse_analyzer (name # args) = Parsed (command_of (name, ap_values st))"
proof -
  have "name \<noteq> [45, 45]" using assms(4) by (auto simp: starts_with_def)
  then show ?thesis using assms by (simp add: parse_analyzer_def classify_def)
qed

definition summary_state :: "pystr \<Rightarrow> arg_value parse_state" where
  "summary_state heap_file =
     given ((option_spec [''--file'', ''-f''] ''file'' (Store path_value))\<lparr>op_required := True\<rparr>) VText (Some heap_file)
       \<lparr>ap_values = Map.empty, ap_seen = {}, ap_extras = []\<rparr>"

definition retained_state :: "pystr \<Rightarrow> bool \<Rightarrow> int \<Rightarrow> arg_value parse_state" where
  "retained_state heap_file json_format top_n =
     given (option_spec [''--format''] ''format'' (Store (choice_value [lit ''text'', lit ''json'']))) VText
         (Some (format_text json_format))
       (given (option_spec [''--top-n'', ''-n''] ''top_n'' (Store (int_value non_negative_int))) VInt (Some top_n)
         (given ((option_spec [''--file'', ''-f''] ''file'' (Store path_value))\<lparr>op_required := True\<rparr>) VText (Some heap_file)
           \<lparr>ap_values = RETAINED_DEFAULTS, ap_seen = {}, ap_extras = []\<rparr>))"

lemma summary_parsed:
  assumes "normal_path heap_file" and "shortens SUMMARY_OPTIONS short ''--file''"
  shows "parse_known True SUMMARY_OPTIONS Map.empty (optional short (Some heap_file)) = Parsed (summary_state heap_file)"
proof (rule parse_absorbed)
  show "absorbs True SUMMARY_OPTIONS (optional short (Some heap_file)) \<lparr>ap_values = Map.empty, ap_seen = {}, ap_extras = []\<rparr>
      (summary_state heap_file)"
    unfolding summary_state_def
    by (rule file_option [OF refl analyzer_tables(3) _ assms]) (simp add: find_option_def SUMMARY_OPTIONS_def option_spec_def)
qed (auto simp: SUMMARY_OPTIONS_def option_spec_def summary_state_def exclusive_dests_def)

lemma retained_parsed:
  assumes "normal_path heap_file" and "0 \<le> top_n" and "writable_int top_n"
    and "\<forall>name \<in> set [''--file'', ''--top-n'', ''--format'']. shortens RETAINED_OPTIONS (short name) name"
  shows "parse_known True RETAINED_OPTIONS RETAINED_DEFAULTS
    (optional (short ''--file'') (Some heap_file) @ optional (short ''--top-n'') (Some (decimal_text top_n)) @
     optional (short ''--format'') (Some (format_text json_format))) =
    Parsed (retained_state heap_file json_format top_n)"
proof (rule parse_absorbed)
  let ?init = "\<lparr>ap_values = RETAINED_DEFAULTS, ap_seen = {}, ap_extras = []\<rparr>"
  have short: "shortens RETAINED_OPTIONS (short ''--file'') ''--file''"
    "shortens RETAINED_OPTIONS (short ''--top-n'') ''--top-n''" "shortens RETAINED_OPTIONS (short ''--format'') ''--format''"
    using assms(4) by simp_all
  have top_n: "absorbs True RETAINED_OPTIONS (optional (short ''--top-n'') (Some (decimal_text top_n))) st
      (given (option_spec [''--top-n'', ''-n''] ''top_n'' (Store (int_value non_negative_int))) VInt (Some top_n) st)" for st
    by (rule absorbs_short [OF analyzer_tables(4) _ short(2), where f = "int_value non_negative_int"])
      (use assms(2,3) in \<open>simp_all add: find_option_def RETAINED_OPTIONS_def option_spec_def int_value_def
        non_negative_int_def writable_int_def int_of_decimal\<close>)
  have format: "absorbs True RETAINED_OPTIONS (optional (short ''--format'') (Some (format_text json_format))) st
      (given (option_spec [''--format''] ''format'' (Store (choice_value [lit ''text'', lit ''json'']))) VText
        (Some (format_text json_format)) st)" for st
    using absorbs_short [OF analyzer_tables(4) _ short(3),
        of "option_spec [''--format''] ''format'' (Store (choice_value [lit ''text'', lit ''json'']))"
        "choice_value [lit ''text'', lit ''json'']" "\<lambda>s. s" "format_text json_format" VText st]
    by (simp add: find_option_def RETAINED_OPTIONS_def option_spec_def choice_value_def among_def format_text_def)
  have heap_file: "absorbs True RETAINED_OPTIONS (optional (short ''--file'') (Some heap_file)) ?init
      (given ((option_spec [''--file'', ''-f''] ''file'' (Store path_value))\<lparr>op_required := True\<rparr>) VText (Some heap_file) ?init)"
    by (rule file_option [OF refl analyzer_tables(4) _ assms(1) short(1)])
      (simp add: find_option_def RETAINED_OPTIONS_def option_spec_def)
  show "absorbs True RETAINED_OPTIONS (optional (short ''--file'') (Some heap_file) @
      optional (short ''--top-n'') (Some (decimal_text top_n)) @
      optional (short ''--format'') (Some (format_text json_format))) ?init
      (retained_state heap_file json_format top_n)"
    unfolding retained_state_def
    by (rule absorbs_append [OF heap_file absorbs_append [OF top_n format]])
qed (auto simp: RETAINED_OPTIONS_def option_spec_def retained_state_def exclusive_dests_def)

lemma parse_named_command:
  assumes "command_ok command" and "names_read short command"
  shows "parse_analyzer (render_named short command) = Parsed command"
proof (cases command)
  case (Summary heap_file)
  have "normal_path heap_file" "shortens SUMMARY_OPTIONS (short ''--file'') ''--file''"
    using assms by (simp_all add: command_ok_def names_read_def Summary)
  then have "parse_analyzer (lit ''summary'' # optional (short ''--file'') (Some heap_file)) =
      Parsed (command_of (lit ''summary'', ap_values (summary_state heap_file)))"
    by (intro named_command [OF _ summary_parsed]) (simp_all add: COMMANDS_def summary_state_def, simp add: lit_def starts_with_def)
  then show ?thesis
    by (simp add: Summary render_named_def command_of_def summary_state_def option_spec_def get_text_def)
next
  case (Retained_heap heap_file json_format top_n)
  have ok: "normal_path heap_file" "0 \<le> top_n" "writable_int top_n"
    "\<forall>name \<in> set [''--file'', ''--top-n'', ''--format'']. shortens RETAINED_OPTIONS (short name) name"
    using assms by (simp_all add: command_ok_def names_read_def Retained_heap)
  have "parse_analyzer (render_named short command) =
      Parsed (command_of (lit ''retained-heap'', ap_values (retained_state heap_file json_format top_n)))"
    unfolding Retained_heap render_named_def analyzer_command.case
    by (rule named_command [OF _ retained_parsed [OF ok]])
      (simp_all add: COMMANDS_def retained_state_def, simp add: lit_def starts_with_def)
  then show ?thesis
    by (simp add: Retained_heap command_of_def retained_state_def option_spec_def get_text_def get_int_def format_text_def)
qed

lemma parse_rendered_command: "command_ok command \<Longrightarrow> parse_analyzer (render_command command) = Parsed command"
  unfolding render_itself by (rule parse_named_command [OF _ names_themselves])

text \<open>What is accepted.\<close>

lemma analyzer_set_by:
  "set_by SUMMARY_OPTIONS (lit ''file'') v \<Longrightarrow> \<exists>s. v = VText (path_text s)"
  "set_by RETAINED_OPTIONS (lit ''file'') v \<Longrightarrow> \<exists>s. v = VText (path_text s)"
  "set_by RETAINED_OPTIONS (lit ''top_n'') v \<Longrightarrow> \<exists>i. v = VInt i \<and> 0 \<le> i"
  by (auto simp: set_by_def SUMMARY_OPTIONS_def RETAINED_OPTIONS_def option_spec_def int_value_def path_value_def
      non_negative_int_def rbind_Inr raise_def split: if_splits)

lemma parse_command_Parsed:
  assumes "parse_command options commands extras argv = Parsed (name, vals)"
  shows "\<exists>own defaults args st. commands name = Some (own, defaults) \<and> parse_known True own defaults args = Parsed st \<and>
    vals = ap_values st"
  using assms
  by (induction options commands extras argv rule: parse_command.induct)
    (auto simp: parse_bind_Parsed show_cluster_def split: token.splits option.splits if_splits, blast+)

lemma required_file:
  assumes "parse_known abbrev options defaults args = Parsed st" and "table_ok options"
    and "(option_spec [''--file'', ''-f''] ''file'' (Store path_value))\<lparr>op_required := True\<rparr> \<in> set options"
    and "\<And>v. set_by options (lit ''file'') v \<Longrightarrow> \<exists>s. v = VText (path_text s)"
  shows "\<exists>s. get_text (ap_values st) ''file'' = Some (path_text s)"
proof -
  have "lit ''file'' \<in> ap_seen st"
    using parse_known_ok(3) [OF assms(1,2)] assms(3) by (auto simp: option_spec_def)
  with parse_known_ok(2) [OF assms(1,2)] assms(4) show ?thesis by (fastforce simp: get_text_def)
qed

section \<open>Properties\<close>

text \<open>
  C37: The analyzer's command line is read as it was written: a command with its options in their long
  form gives back this command, and so it does when a name is shortened, as long as it begins the name of one option only.
  And whatever is accepted names a file, and a number of objects
  that is not negative.
\<close>

theorem analyzer_arguments:
  "(command_ok command \<longrightarrow> parse_analyzer (render_command command) = Parsed command) \<and>
   (command_ok command \<and> names_read short command \<longrightarrow> parse_analyzer (render_named short command) = Parsed command) \<and>
   (parse_analyzer argv = Parsed (Summary heap_file) \<longrightarrow> (\<exists>s. heap_file = path_text s)) \<and>
   (parse_analyzer argv = Parsed (Retained_heap heap_file json_format top_n) \<longrightarrow>
     (\<exists>s. heap_file = path_text s) \<and> 0 \<le> top_n)"
proof -
  have "parse_analyzer argv = Parsed c \<longrightarrow>
      (case c of Summary f \<Rightarrow> \<exists>s. f = path_text s | Retained_heap f j n \<Rightarrow> (\<exists>s. f = path_text s) \<and> 0 \<le> n)" for c
  proof
    assume "parse_analyzer argv = Parsed c"
    then obtain name vals where "parse_command ANALYZER_OPTIONS COMMANDS [] argv = Parsed (name, vals)"
      and c: "c = command_of (name, vals)" by (auto simp: parse_analyzer_def parse_bind_Parsed)
    from parse_command_Parsed [OF this(1)] obtain own defaults args st where
      st: "COMMANDS name = Some (own, defaults)" "parse_known True own defaults args = Parsed st" "vals = ap_values st" by blast
    from st(1) consider "name = lit ''summary''" "own = SUMMARY_OPTIONS"
      | "name = lit ''retained-heap''" "own = RETAINED_OPTIONS" "defaults = RETAINED_DEFAULTS"
      by (auto simp: COMMANDS_def split: if_splits)
    then show "case c of Summary f \<Rightarrow> \<exists>s. f = path_text s | Retained_heap f j n \<Rightarrow> (\<exists>s. f = path_text s) \<and> 0 \<le> n"
    proof cases
      case 1
      from required_file [OF st(2) [unfolded 1(2)] analyzer_tables(1) _ analyzer_set_by(1)] show ?thesis
        by (auto simp: c 1 st(3) command_of_def SUMMARY_OPTIONS_def)
    next
      case 2
      note known = parse_known_ok [OF st(2) [unfolded 2(2)] analyzer_tables(2)]
      have "\<exists>n. get_int (ap_values st) ''top_n'' = Some n \<and> 0 \<le> n"
      proof (cases "lit ''top_n'' \<in> ap_seen st")
        case True
        with known(2) analyzer_set_by(3) show ?thesis by (fastforce simp: get_int_def)
      next
        case False
        with known(1) show ?thesis by (simp add: get_int_def 2(3) RETAINED_DEFAULTS_def)
      qed
      with required_file [OF st(2) [unfolded 2(2)] analyzer_tables(2) _ analyzer_set_by(2)] show ?thesis
        by (auto simp: c 2 st(3) command_of_def RETAINED_OPTIONS_def)
    qed
  qed
  from this [of "Summary heap_file"] this [of "Retained_heap heap_file json_format top_n"] show ?thesis
    by (simp add: parse_rendered_command parse_named_command)
qed

section \<open>Examples\<close>

lemma demo_command_ok: "command_ok (Retained_heap (lit ''heap'') True 10)"
proof -
  have "normal_path (lit ''heap'')"
    by (simp add: normal_path_def path_text_def path_root_def path_parts_def lit_def starts_with_def join_def)
  then show ?thesis by (simp add: command_ok_def writable_int_def MAX_INT_DIGITS_def decimal_digits.simps)
qed

definition demo_short :: "string \<Rightarrow> string" where
  "demo_short name = (if name = ''--file'' then ''--fi'' else if name = ''--top-n'' then ''--t'' else ''--form'')"

lemma demo_names_read: "names_read demo_short (Retained_heap (lit ''heap'') True 10)"
  by (simp add: names_read_def demo_short_def shortens_def stands_for_def find_option_def RETAINED_OPTIONS_def option_spec_def)
    (simp add: lit_def starts_with_def)

theorem analyzer_arguments_witness:
  "parse_analyzer (render_command (Retained_heap (lit ''heap'') True 10)) = Parsed (Retained_heap (lit ''heap'') True 10) \<and>
   parse_analyzer [lit ''retained-heap'', lit ''--fi=heap'', lit ''--t=10'', lit ''--form=json''] =
     Parsed (Retained_heap (lit ''heap'') True 10)"
proof -
  have "render_named demo_short (Retained_heap (lit ''heap'') True 10) =
      [lit ''retained-heap'', lit ''--fi=heap'', lit ''--t=10'', lit ''--form=json'']"
    by (simp add: render_named_def demo_short_def optional_def format_text_def assigned_def decimal_text_def
        decimal_digits.simps lit_def)
  with analyzer_arguments [of "Retained_heap (lit ''heap'') True 10" demo_short] demo_command_ok demo_names_read
  show ?thesis by metis
qed

end
