(* ===== verification/Analyzer_Command.thy ===== *)
theory Analyzer_Command
  imports Report_Json Retained_Cache Analyzer_Arguments
begin

text \<open>
  \<^verbatim>\<open>analyzer/python/src/pydump_analyzer/cli.py\<close>: the two commands of the analyzer, from the
  artifact on the disk to the text on the standard output. The width of the terminal is a parameter, and so is
  the number of calls that the interpreter still allows when the texts of objects are rendered (\<open>stack\<close>).
  What was printed before an exception is not kept.
\<close>

section \<open>The table\<close>

text \<open>The formats \<^verbatim>\<open>{:<n}\<close> and \<^verbatim>\<open>{:>n}\<close>.\<close>

definition pad_right :: "nat \<Rightarrow> pystr \<Rightarrow> pystr" where
  "pad_right n s = s @ replicate (n - length s) 32"

definition pad_left :: "nat \<Rightarrow> pystr \<Rightarrow> pystr" where
  "pad_left n s = replicate (n - length s) 32 @ s"

definition table_prefix :: "pystr \<Rightarrow> pystr \<Rightarrow> pystr \<Rightarrow> pystr" where
  "table_prefix first second third =
     pad_right 15 first @ lit '' | '' @ pad_right 15 second @ lit '' | '' @ pad_left 18 third @ lit '' | ''"

definition representation_width :: "nat \<Rightarrow> nat" where
  "representation_width columns = columns - length (table_prefix [] [] [])"

definition table_row :: "nat \<Rightarrow> pystr \<Rightarrow> pystr \<Rightarrow> pystr \<Rightarrow> pystr \<Rightarrow> pystr" where
  "table_row columns first second third fourth =
     table_prefix first second third @ pad_right (representation_width columns) fourth"

definition object_row :: "nat \<Rightarrow> nat \<Rightarrow> heap \<Rightarrow> address \<times> int \<Rightarrow> pystr res" where
  "object_row stack columns h item =
     rbind (subscript (map_of (h_objects h)) (fst item)) (\<lambda>obj.
     rbind (string_representation stack h obj) (\<lambda>representation.
     rbind (subscript (map_of (h_types h)) (ho_type_address obj)) (\<lambda>name.
     Inr (table_row columns (decimal_text (fst item)) name (decimal_text (snd item))
       (take (representation_width columns) (case representation of Some s \<Rightarrow> s | None \<Rightarrow> []))))))"

definition thread_row :: "pystr \<times> int \<Rightarrow> pystr" where
  "thread_row item = pad_right 50 (fst item) @ lit '' | '' @ pad_left 18 (decimal_text (snd item))"

definition table_head :: "nat \<Rightarrow> pystr list" where
  "table_head columns =
     [lit ''Retained heap for objects:'',
      table_row columns (lit ''Address'') (lit ''Object type'') (lit ''Retained heap size'') (lit ''String representation''),
      replicate columns 45]"

text \<open>\<open>thread_items\<close> lists the dictionary of the threads in its order.\<close>

definition table_tail :: "((pystr \<rightharpoonup> int) \<Rightarrow> (pystr \<times> int) list) \<Rightarrow> heap \<Rightarrow> retained_result \<Rightarrow> pystr list" where
  "table_tail thread_items h r =
     [[], lit ''Retained heap for threads:'',
      pad_right 50 (lit ''Thread'') @ lit '' | '' @ pad_left 18 (lit ''Retained heap size''),
      replicate 71 45] @
     map thread_row (sort_key (\<lambda>item. - snd item) (thread_items (rh_threads r))) @
     [[], lit ''Total heap size: '' @ decimal_text (total_heap_size h) @ lit '' bytes'']"

definition retained_text ::
  "nat \<Rightarrow> ((pystr \<rightharpoonup> int) \<Rightarrow> (pystr \<times> int) list) \<Rightarrow> nat \<Rightarrow> heap \<Rightarrow> retained_result \<Rightarrow> int \<Rightarrow> pystr list res" where
  "retained_text stack thread_items columns h r top_n =
     rbind (rmap (object_row stack columns h) (prefix_slice top_n (objects_sorted_by_retained_heap h r))) (\<lambda>rows.
     Inr (table_head columns @ rows @ table_tail thread_items h r))"

section \<open>The commands\<close>

definition load_heap_file :: "disk \<Rightarrow> pystr \<Rightarrow> (bytes \<times> heap) res" where
  "load_heap_file d heap_file =
     rbind (open_read d heap_file) (\<lambda>content. rbind (load_heap content) (\<lambda>h. Inr (content, h)))"

definition print_lines :: "pystr list \<Rightarrow> pystr" where
  "print_lines rows = concat (map (\<lambda>row. row @ [10]) rows)"

definition summary_command :: "nat \<Rightarrow> (bytes \<Rightarrow> pystr) \<Rightarrow> (rat \<Rightarrow> pystr) \<Rightarrow> disk \<Rightarrow> pystr \<Rightarrow> pystr res" where
  "summary_command stack sha256 float_text d heap_file =
     rbind (load_heap_file d heap_file) (\<lambda>(content, h).
     rbind (build_heap_analysis stack sha256 content h None 100) (\<lambda>doc.
     Inr (print_json float_text (analysis_json doc))))"

definition retained_command ::
  "nat \<Rightarrow> set_order \<Rightarrow> (bytes \<Rightarrow> pystr) \<Rightarrow> (bytes \<Rightarrow> pystr) \<Rightarrow> nat \<Rightarrow> (rat \<Rightarrow> pystr) \<Rightarrow>
   ((address \<rightharpoonup> int) \<Rightarrow> (address \<times> int) list) \<Rightarrow> ((pystr \<rightharpoonup> int) \<Rightarrow> (pystr \<times> int) list) \<Rightarrow> pystr \<Rightarrow>
   pystr option \<Rightarrow> nat \<Rightarrow> pystr \<Rightarrow> bool \<Rightarrow> int \<Rightarrow> disk \<Rightarrow> (pystr res \<times> disk) option" where
  "retained_command stack it sha1 sha256 depth float_text object_items thread_items temporary cache_dir columns heap_file
     json_format top_n d =
     (case load_heap_file d heap_file of
        Inl e \<Rightarrow> Some (Inl e, d)
      | Inr (content, h) \<Rightarrow>
          (case retained_heap_with_cache it sha1 depth float_text object_items thread_items temporary heap_file cache_dir h d of
             None \<Rightarrow> None
           | Some (Inl e, d) \<Rightarrow> Some (Inl e, d)
           | Some (Inr r, d) \<Rightarrow>
               Some (if json_format
                     then rbind (build_heap_analysis stack sha256 content h (Some r) top_n) (\<lambda>doc.
                          Inr (print_json float_text (analysis_json doc)))
                     else rbind (retained_text stack thread_items columns h r top_n) (\<lambda>rows. Inr (print_lines rows)), d)))"

text \<open>\<open>columns\<close> is the width of the terminal.\<close>

definition run_command ::
  "nat \<Rightarrow> set_order \<Rightarrow> (bytes \<Rightarrow> pystr) \<Rightarrow> (bytes \<Rightarrow> pystr) \<Rightarrow> nat \<Rightarrow> (rat \<Rightarrow> pystr) \<Rightarrow>
   ((address \<rightharpoonup> int) \<Rightarrow> (address \<times> int) list) \<Rightarrow> ((pystr \<rightharpoonup> int) \<Rightarrow> (pystr \<times> int) list) \<Rightarrow> pystr \<Rightarrow>
   pystr option \<Rightarrow> nat \<Rightarrow> disk \<Rightarrow> analyzer_command \<Rightarrow> (pystr res \<times> disk) option" where
  "run_command stack it sha1 sha256 depth float_text object_items thread_items temporary cache_dir columns d command =
     (case command of
        Summary heap_file \<Rightarrow> Some (summary_command stack sha256 float_text d heap_file, d)
      | Retained_heap heap_file json_format top_n \<Rightarrow>
          retained_command stack it sha1 sha256 depth float_text object_items thread_items temporary cache_dir columns heap_file
            json_format top_n d)"

definition analyzer_main ::
  "nat \<Rightarrow> set_order \<Rightarrow> (bytes \<Rightarrow> pystr) \<Rightarrow> (bytes \<Rightarrow> pystr) \<Rightarrow> nat \<Rightarrow> (rat \<Rightarrow> pystr) \<Rightarrow>
   ((address \<rightharpoonup> int) \<Rightarrow> (address \<times> int) list) \<Rightarrow> ((pystr \<rightharpoonup> int) \<Rightarrow> (pystr \<times> int) list) \<Rightarrow> pystr \<Rightarrow>
   pystr option \<Rightarrow> nat \<Rightarrow> disk \<Rightarrow> pystr list \<Rightarrow> (pystr res \<times> disk) option parse" where
  "analyzer_main stack it sha1 sha256 depth float_text object_items thread_items temporary cache_dir columns d argv =
     parse_bind (parse_analyzer argv) (\<lambda>command. Parsed
       (run_command stack it sha1 sha256 depth float_text object_items thread_items temporary cache_dir columns d command))"

section \<open>Laws\<close>

lemma length_pads: "length (pad_right n s) = max n (length s)" "length (pad_left n s) = max n (length s)"
  by (simp_all add: pad_right_def pad_left_def)

lemma length_table_prefix:
  "length (table_prefix a b c) = max 15 (length a) + max 15 (length b) + max 18 (length c) + 9"
  by (simp add: table_prefix_def length_pads lit_def)

lemma load_heap_read: "read_heap content = Inr h \<Longrightarrow> load_heap content = Inr h"
proof -
  assume read: "read_heap content = Inr h"
  have "read_heap [] \<noteq> Inr h"
    by (simp add: read_heap_def read_def read_sections_def read_header_def heap_reader_init_def mbind_run read_u64_def
        unpack_def raise_def)
  with read show ?thesis by (auto simp: load_heap_def)
qed

lemma load_heap_file_read:
  "open_read d heap_file = Inr content \<Longrightarrow> read_heap content = Inr h \<Longrightarrow> load_heap_file d heap_file = Inr (content, h)"
  by (simp add: load_heap_file_def load_heap_read)

text \<open>The text of an object is printed if the stack allows it; then it is the text with any larger stack.\<close>

lemma object_row_limited:
  assumes "read_heap source = Inr h" and "fst item \<in> fst ` set (h_objects h)"
  shows "object_row stack columns h item =
      (if renders stack h (fst item) then object_row (2 * length (h_objects h) + 2) columns h item else Inl recursion_error)"
    and "renders stack h (fst item) \<Longrightarrow> \<exists>obj name str. map_of (h_objects h) (fst item) = Some obj \<and>
      map_of (h_types h) (ho_type_address obj) = Some name \<and> string_representation stack h obj = Inr str \<and>
      object_row stack columns h item = Inr (table_row columns (decimal_text (fst item)) name (decimal_text (snd item))
        (take (representation_width columns) (case str of Some s \<Rightarrow> s | None \<Rightarrow> [])))"
proof -
  have wf: "heap_wf h source" using assms(1) by (rule read_heap_wf)
  obtain obj where obj: "map_of (h_objects h) (fst item) = Some obj"
    using assms(2) by (metis map_of_eq_None_iff not_None_eq)
  have address: "ho_address obj = fst item"
    using wf map_of_SomeD [OF obj] by (auto simp: heap_wf_def object_wf_def)
  from heap_wf_types [OF wf] map_of_SomeD [OF obj] obtain name where
    name: "map_of (h_types h) (ho_type_address obj) = Some name" by fastforce
  obtain s where s: "rendering h (fst item) {} = Inr s"
    using rendering_defined [OF renderable(1) [OF assms(1)]] renderable(3) [OF assms(1)] by metis
  have few: "nested_calls h (fst item) {} \<le> 2 * length (h_objects h) + 2"
  proof -
    have "card (fst ` set (h_objects h)) \<le> length (h_objects h)" by (metis card_length length_map list.set_map)
    with nested_calls_bound [of h "fst item" "{}"] show ?thesis by simp
  qed
  have exact: "string_repr stack h a {} =
      (if nested_calls h a {} \<le> stack then rendering h a {} else Inl recursion_error)" for stack a
    by (rule string_repr_exact [OF renderable(1) [OF assms(1)]]) (rule renderable(3) [OF assms(1)])
  show "object_row stack columns h item =
      (if renders stack h (fst item) then object_row (2 * length (h_objects h) + 2) columns h item else Inl recursion_error)"
    using few s by (simp add: object_row_def obj subscript_def string_representation_def address exact renders_def)
  show "\<exists>obj name str. map_of (h_objects h) (fst item) = Some obj \<and>
      map_of (h_types h) (ho_type_address obj) = Some name \<and> string_representation stack h obj = Inr str \<and>
      object_row stack columns h item = Inr (table_row columns (decimal_text (fst item)) name (decimal_text (snd item))
        (take (representation_width columns) (case str of Some s \<Rightarrow> s | None \<Rightarrow> [])))" if "renders stack h (fst item)"
    using that s obj name
    by (auto simp: object_row_def subscript_def string_representation_def address exact renders_def)
qed

lemma object_rows_exact:
  assumes "read_heap source = Inr h" and "\<forall>item \<in> set items. fst item \<in> fst ` set (h_objects h)"
  shows "\<exists>rows. rmap (object_row stack columns h) items =
      (if \<forall>item \<in> set items. renders stack h (fst item) then Inr rows else Inl recursion_error) \<and>
    ((\<forall>item \<in> set items. renders stack h (fst item)) \<longrightarrow>
      list_all2 (\<lambda>item row. \<exists>obj name str. map_of (h_objects h) (fst item) = Some obj \<and>
        map_of (h_types h) (ho_type_address obj) = Some name \<and> string_representation stack h obj = Inr str \<and>
        row = table_row columns (decimal_text (fst item)) name (decimal_text (snd item))
          (take (representation_width columns) (case str of Some s \<Rightarrow> s | None \<Rightarrow> []))) items rows)"
proof -
  let ?deep = "object_row (2 * length (h_objects h) + 2) columns h" and ?fits = "\<lambda>item. renders stack h (fst item)"
  have total: "\<exists>row. ?deep item = Inr row" if "item \<in> set items" for item
  proof -
    have "renders (2 * length (h_objects h) + 2) h (fst item)"
    proof -
      have "card (fst ` set (h_objects h)) \<le> length (h_objects h)" by (metis card_length length_map list.set_map)
      with nested_calls_bound [of h "fst item" "{}"] show ?thesis by (simp add: renders_def)
    qed
    with object_row_limited(2) [OF assms(1) bspec [OF assms(2) that]] show ?thesis by blast
  qed
  have "rmap (object_row stack columns h) items = rmap (\<lambda>item. if ?fits item then ?deep item else Inl recursion_error) items"
    by (rule rmap_cong [OF refl]) (rule object_row_limited(1) [OF assms(1) bspec [OF assms(2)]])
  then have run: "rmap (object_row stack columns h) items =
      (if \<forall>item \<in> set items. ?fits item then rmap ?deep items else Inl recursion_error)"
    using rmap_limited [of items ?deep ?fits recursion_error, OF total] by simp
  obtain rows where rows: "rmap ?deep items = Inr rows" using rmap_total [of items ?deep, OF total] by blast
  have "list_all2 (\<lambda>item row. \<exists>obj name str. map_of (h_objects h) (fst item) = Some obj \<and>
        map_of (h_types h) (ho_type_address obj) = Some name \<and> string_representation stack h obj = Inr str \<and>
        row = table_row columns (decimal_text (fst item)) name (decimal_text (snd item))
          (take (representation_width columns) (case str of Some s \<Rightarrow> s | None \<Rightarrow> []))) items rows"
    if fits: "\<forall>item \<in> set items. ?fits item"
  proof -
    from run rows fits have "rmap (object_row stack columns h) items = Inr rows" by simp
    then have "list_all2 (\<lambda>item row. object_row stack columns h item = Inr row) items rows" by (simp only: rmap_Inr)
    then show ?thesis
    proof (rule list.rel_mono_strong)
      fix item row assume "item \<in> set items" "object_row stack columns h item = Inr row"
      with object_row_limited(2) [OF assms(1) bspec [OF assms(2)], of item stack columns] fits
      show "\<exists>obj name str. map_of (h_objects h) (fst item) = Some obj \<and>
        map_of (h_types h) (ho_type_address obj) = Some name \<and> string_representation stack h obj = Inr str \<and>
        row = table_row columns (decimal_text (fst item)) name (decimal_text (snd item))
          (take (representation_width columns) (case str of Some s \<Rightarrow> s | None \<Rightarrow> []))" by fastforce
    qed
  qed
  with run rows show ?thesis by (intro exI [of _ rows]) simp
qed

lemma sorted_objects_known:
  "\<forall>item \<in> set (objects_sorted_by_retained_heap h r). fst item \<in> fst ` set (h_objects h)"
  by (auto simp: objects_sorted_by_retained_heap_def)

text \<open>The sizes of a heap that was read can be stored in the cache.\<close>

lemma sizes_storable:
  assumes "sizes_ok r" and "lists_map (object_items (rh_objects r)) (rh_objects r)"
    and "lists_map (thread_items (rh_threads r)) (rh_threads r)"
  shows "storable object_items thread_items r"
  using assms printable_int by (auto simp: storable_def sizes_ok_def address_value_def simp del: printable.simps)

text \<open>All of the hypotheses on a run of the analyzer: the sizes, the disk and the parameters.\<close>

definition runnable ::
  "set_order \<Rightarrow> (bytes \<Rightarrow> pystr) \<Rightarrow> nat \<Rightarrow>
   ((address \<rightharpoonup> int) \<Rightarrow> (address \<times> int) list) \<Rightarrow> ((pystr \<rightharpoonup> int) \<Rightarrow> (pystr \<times> int) list) \<Rightarrow> pystr \<Rightarrow>
   pystr option \<Rightarrow> pystr \<Rightarrow> retained_result \<Rightarrow> disk \<Rightarrow> bool" where
  "runnable it sha1 depth object_items thread_items temporary cache_dir heap_file r d \<longleftrightarrow>
     iterates it \<and> (\<forall>content. 47 \<notin> set (sha1 content)) \<and> disk_faults d \<and>
     dk_files d temporary = None \<and>
     cache_path sha1 \<lparr>rc_heap_file = heap_file, rc_cache_dir = cache_dir\<rparr> d \<noteq> Inr temporary \<and>
     lists_map (object_items (rh_objects r)) (rh_objects r) \<and> lists_map (thread_items (rh_threads r)) (rh_threads r) \<and>
     7 \<le> depth \<and>
     cache_load sha1 depth \<lparr>rc_heap_file = heap_file, rc_cache_dir = cache_dir\<rparr> d \<in> {Inr None, Inr (Some r)}"

lemma retained_command_run:
  assumes "open_read d heap_file = Inr content" and "read_heap content = Inr h"
    and "calculate it h (inbound_references it h) calculator_init = Some (Inr (r, c))"
    and "runnable it sha1 depth object_items thread_items temporary cache_dir heap_file r d"
  shows "\<exists>d'. retained_command stack it sha1 sha256 depth float_text object_items thread_items temporary cache_dir columns
      heap_file json_format top_n d =
    Some (if json_format
          then rbind (build_heap_analysis stack sha256 content h (Some r) top_n) (\<lambda>doc.
               Inr (print_json float_text (analysis_json doc)))
          else rbind (retained_text stack thread_items columns h r top_n) (\<lambda>rows. Inr (print_lines rows)), d')"
proof -
  note ok = assms(4) [unfolded runnable_def]
  have "storable object_items thread_items r"
    using ok by (intro sizes_storable calculated_sizes [OF assms(2) _ assms(3)]) auto
  then have "\<exists>d'. retained_heap_with_cache it sha1 depth float_text object_items thread_items temporary heap_file cache_dir h d =
      Some (Inr r, d')"
    using with_cache_run [where depth = depth and float_text = float_text and ?sha1.0 = sha1 and object_items = object_items and
        thread_items = thread_items and temporary = temporary and heap_file = heap_file and dir = cache_dir and d = d,
        OF assms(3)] ok by auto
  then obtain d' where "retained_heap_with_cache it sha1 depth float_text object_items thread_items temporary heap_file
      cache_dir h d = Some (Inr r, d')" by blast
  with load_heap_file_read [OF assms(1,2)] show ?thesis by (intro exI [of _ d']) (simp add: retained_command_def)
qed

text \<open>The whole command line of the summary.\<close>

lemma summary_program:
  assumes "open_read d heap_file = Inr content" and "read_heap content = Inr h" and "normal_path heap_file"
    and "\<And>content. encodable (sha256 content)" and "length content < 2 ^ 64" and "7 \<le> depth"
  shows "\<exists>short doc. analyzer_main stack it sha1 sha256 depth float_text object_items thread_items temporary cache_dir columns d
      (render_command (Summary heap_file)) = Parsed (Some (Inr short, d)) \<and>
    build_heap_analysis stack sha256 content h None 100 = Inr doc \<and> json_loads depth short = Inr (analysis_json doc)"
proof -
  obtain doc where doc: "build_heap_analysis stack sha256 content h None 100 = Inr doc"
    using summary_run [OF assms(2)] by blast
  have "length (decimal_digits (nat \<bar>100\<bar>)) \<le> MAX_INT_DIGITS"
    using printable_int [of 100] by (simp add: countable_int_def)
  from report_parses [OF assms(2) _ this doc assms(4-6), of float_text]
  have "json_loads depth (print_json float_text (analysis_json doc)) = Inr (analysis_json doc)" by simp
  moreover have "parse_analyzer (render_command (Summary heap_file)) = Parsed (Summary heap_file)"
    by (rule parse_rendered_command) (simp add: command_ok_def assms(3))
  ultimately show ?thesis
    using load_heap_file_read [OF assms(1,2)] doc by (simp add: analyzer_main_def run_command_def summary_command_def)
qed

section \<open>Properties\<close>

text \<open>
  C30: The command \<^verbatim>\<open>retained-heap\<close> on an artifact that can be read: the table has a row for each of
  the first objects in the order of their retained sizes, with the address, the type, the size and the
  beginning of the object's text, as much as the terminal leaves room for; the rows whose fields fit are as
  wide as the terminal, if that has at least the width of the columns before the text. If one of these
  objects nests deeper than the interpreter allows, the command ends with \<^verbatim>\<open>RecursionError\<close>.
\<close>

theorem retained_command_exact:
  assumes "open_read d heap_file = Inr content" and "read_heap content = Inr h"
    and "calculate it h (inbound_references it h) calculator_init = Some (Inr (r, c))"
    and "runnable it sha1 depth object_items thread_items temporary cache_dir heap_file r d" and "0 \<le> top_n"
  shows "\<exists>rows d'. retained_command stack it sha1 sha256 depth float_text object_items thread_items temporary cache_dir columns
      heap_file False top_n d =
      Some (if \<forall>item \<in> set (take (nat top_n) (objects_sorted_by_retained_heap h r)). renders stack h (fst item)
        then Inr (print_lines (table_head columns @ rows @ table_tail thread_items h r)) else Inl recursion_error, d') \<and>
    ((\<forall>item \<in> set (take (nat top_n) (objects_sorted_by_retained_heap h r)). renders stack h (fst item)) \<longrightarrow>
      list_all2 (\<lambda>item row. \<exists>obj name str. map_of (h_objects h) (fst item) = Some obj \<and>
        map_of (h_types h) (ho_type_address obj) = Some name \<and> string_representation stack h obj = Inr str \<and>
        row = table_row columns (decimal_text (fst item)) name (decimal_text (snd item))
          (take (representation_width columns) (case str of Some s \<Rightarrow> s | None \<Rightarrow> [])) \<and>
        (length (decimal_text (fst item)) \<le> 15 \<and> length name \<le> 15 \<and> length (decimal_text (snd item)) \<le> 18 \<longrightarrow>
         length row = max 57 columns))
      (take (nat top_n) (objects_sorted_by_retained_heap h r)) rows)"
proof -
  let ?items = "take (nat top_n) (objects_sorted_by_retained_heap h r)"
  let ?fits = "\<forall>item \<in> set ?items. renders stack h (fst item)"
  have "\<forall>item \<in> set ?items. fst item \<in> fst ` set (h_objects h)"
    using sorted_objects_known by (meson in_set_takeD)
  from object_rows_exact [OF assms(2) this, of stack columns] obtain rows where
    rows: "rmap (object_row stack columns h) ?items = (if ?fits then Inr rows else Inl recursion_error)"
    "?fits \<Longrightarrow> list_all2 (\<lambda>item row. \<exists>obj name str. map_of (h_objects h) (fst item) = Some obj \<and>
        map_of (h_types h) (ho_type_address obj) = Some name \<and> string_representation stack h obj = Inr str \<and>
        row = table_row columns (decimal_text (fst item)) name (decimal_text (snd item))
          (take (representation_width columns) (case str of Some s \<Rightarrow> s | None \<Rightarrow> []))) ?items rows" by blast
  have wide: "length (table_row columns a b c (take (representation_width columns) s)) = max 57 columns"
    if "length a \<le> 15" "length b \<le> 15" "length c \<le> 18" for a b c s
    using that by (simp add: table_row_def length_table_prefix length_pads representation_width_def)
  have "retained_text stack thread_items columns h r top_n =
      (if ?fits then Inr (table_head columns @ rows @ table_tail thread_items h r) else Inl recursion_error)"
    using rows(1) assms(5) by (simp add: retained_text_def prefix_slice_nonneg)
  moreover obtain d' where "retained_command stack it sha1 sha256 depth float_text object_items thread_items temporary cache_dir
      columns heap_file False top_n d =
      Some (rbind (retained_text stack thread_items columns h r top_n) (\<lambda>rows. Inr (print_lines rows)), d')"
    using retained_command_run [OF assms(1-4), of stack sha256 float_text columns False top_n] by auto
  ultimately have "\<exists>d'. retained_command stack it sha1 sha256 depth float_text object_items thread_items temporary cache_dir columns
      heap_file False top_n d = Some (if ?fits
        then Inr (print_lines (table_head columns @ rows @ table_tail thread_items h r)) else Inl recursion_error, d')"
    by (intro exI [of _ d']) simp
  moreover have "list_all2 (\<lambda>item row. \<exists>obj name str. map_of (h_objects h) (fst item) = Some obj \<and>
        map_of (h_types h) (ho_type_address obj) = Some name \<and> string_representation stack h obj = Inr str \<and>
        row = table_row columns (decimal_text (fst item)) name (decimal_text (snd item))
          (take (representation_width columns) (case str of Some s \<Rightarrow> s | None \<Rightarrow> [])) \<and>
        (length (decimal_text (fst item)) \<le> 15 \<and> length name \<le> 15 \<and> length (decimal_text (snd item)) \<le> 18 \<longrightarrow>
         length row = max 57 columns)) ?items rows" if ?fits
    by (rule list_all2_mono [OF rows(2) [OF that]]) (use wide in blast)
  ultimately show ?thesis by blast
qed

text \<open>
  C4: The program prints documents that can be parsed: for an artifact that can be read, with sizes that
  can be calculated, the command lines of \<open>summary\<close> and \<open>retained-heap --format json\<close> succeed, and the
  \<^verbatim>\<open>json\<close> module reads back from their output exactly the analysis, without the retained sizes and
  with them. The second ends with \<^verbatim>\<open>RecursionError\<close> instead exactly if one of the objects that it lists
  needs more nested calls for its text than the interpreter allows; the summary renders no text. The
  output is ASCII and ends with a line break.
\<close>

theorem documents_parse:
  assumes "open_read d heap_file = Inr content" and "read_heap content = Inr h"
    and "calculate it h (inbound_references it h) calculator_init = Some (Inr (r, c))"
    and "runnable it sha1 depth object_items thread_items temporary cache_dir heap_file r d" and "0 \<le> top_n"
    and "normal_path heap_file" and "writable_int top_n" and "\<And>content. encodable (sha256 content)" and "length content < 2 ^ 64"
  shows "(\<exists>short doc. analyzer_main stack it sha1 sha256 depth float_text object_items thread_items temporary cache_dir columns d
        (render_command (Summary heap_file)) = Parsed (Some (Inr short, d)) \<and>
      build_heap_analysis stack sha256 content h None 100 = Inr doc \<and> json_loads depth short = Inr (analysis_json doc) \<and>
      (\<forall>ch \<in> set short. ch < 128) \<and> last short = 10) \<and>
    (\<exists>full d' doc'.
      analyzer_main stack it sha1 sha256 depth float_text object_items thread_items temporary cache_dir columns d
        (render_command (Retained_heap heap_file True top_n)) =
          Parsed (Some (if listed_render stack h r top_n then Inr full else Inl recursion_error, d')) \<and>
      build_heap_analysis stack sha256 content h (Some r) top_n =
        (if listed_render stack h r top_n then Inr doc' else Inl recursion_error) \<and>
      json_loads depth full = Inr (analysis_json doc') \<and> (\<forall>ch \<in> set full. ch < 128) \<and> last full = 10)"
proof
  have it: "iterates it" and depth: "7 \<le> depth" using assms(4) by (simp_all add: runnable_def)
  have sizes: "sizes_ok r" using calculated_sizes [OF assms(2) it assms(3)] .
  obtain doc where doc: "build_heap_analysis stack sha256 content h None 100 = Inr doc"
    using summary_run [OF assms(2)] by blast
  have "length (decimal_digits (nat \<bar>100\<bar>)) \<le> MAX_INT_DIGITS"
    using printable_int [of 100] by (simp add: countable_int_def)
  from report_parses [OF assms(2) _ this doc assms(8,9) depth, of float_text] have
    "json_loads depth (print_json float_text (analysis_json doc)) = Inr (analysis_json doc)"
    "\<forall>ch \<in> set (print_json float_text (analysis_json doc)). ch < 128"
    "last (print_json float_text (analysis_json doc)) = 10" by simp_all
  moreover have "summary_command stack sha256 float_text d heap_file = Inr (print_json float_text (analysis_json doc))"
    using load_heap_file_read [OF assms(1,2)] doc by (simp add: summary_command_def)
  moreover have "parse_analyzer (render_command (Summary heap_file)) = Parsed (Summary heap_file)"
    using assms(6) by (simp add: parse_rendered_command command_ok_def)
  ultimately show "\<exists>short doc. analyzer_main stack it sha1 sha256 depth float_text object_items thread_items temporary
        cache_dir columns d (render_command (Summary heap_file)) = Parsed (Some (Inr short, d)) \<and>
      build_heap_analysis stack sha256 content h None 100 = Inr doc \<and> json_loads depth short = Inr (analysis_json doc) \<and>
      (\<forall>ch \<in> set short. ch < 128) \<and> last short = 10"
    using doc by (simp add: analyzer_main_def run_command_def)
  obtain doc' where doc': "\<And>stack. build_heap_analysis stack sha256 content h (Some r) top_n =
      (if listed_render stack h r top_n then Inr doc' else Inl recursion_error)"
    using analysis_run [OF assms(2) calculated_known [OF assms(2) it assms(3)] it assms(5), of sha256] assms(3) by auto
  from doc' [of "2 * length (h_objects h) + 2"]
  have "build_heap_analysis (2 * length (h_objects h) + 2) sha256 content h (Some r) top_n = Inr doc'"
    by (simp only: ample_stack if_True)
  from report_parses [OF assms(2) _ _ this assms(8,9) depth, of float_text] sizes assms(7) have
    "json_loads depth (print_json float_text (analysis_json doc')) = Inr (analysis_json doc')"
    "\<forall>ch \<in> set (print_json float_text (analysis_json doc')). ch < 128"
    "last (print_json float_text (analysis_json doc')) = 10" by (auto simp: writable_int_def)
  moreover obtain d' where "retained_command stack it sha1 sha256 depth float_text object_items thread_items temporary
      cache_dir columns heap_file True top_n d = Some (if listed_render stack h r top_n
        then Inr (print_json float_text (analysis_json doc')) else Inl recursion_error, d')"
    using retained_command_run [OF assms(1-4), of stack sha256 float_text columns True top_n] doc' by auto
  moreover have "parse_analyzer (render_command (Retained_heap heap_file True top_n)) = Parsed (Retained_heap heap_file True top_n)"
    using assms(5-7) by (simp add: parse_rendered_command command_ok_def)
  ultimately show "\<exists>full d' doc'.
      analyzer_main stack it sha1 sha256 depth float_text object_items thread_items temporary cache_dir columns d
        (render_command (Retained_heap heap_file True top_n)) =
          Parsed (Some (if listed_render stack h r top_n then Inr full else Inl recursion_error, d')) \<and>
      build_heap_analysis stack sha256 content h (Some r) top_n =
        (if listed_render stack h r top_n then Inr doc' else Inl recursion_error) \<and>
      json_loads depth full = Inr (analysis_json doc') \<and> (\<forall>ch \<in> set full. ch < 128) \<and> last full = 10"
    using doc' by (intro exI [of _ "print_json float_text (analysis_json doc')"] exI [of _ d'] exI [of _ doc'])
      (simp add: analyzer_main_def run_command_def)
qed

section \<open>Examples\<close>

definition demo_read_heap :: heap where
  "demo_read_heap = read_back_heap demo_known (lit ''now'') True [] [demo_object] [(10, lit ''list'')]"

definition heap_disk :: disk where
  "heap_disk = \<lparr>dk_files = [lit ''heap'' \<mapsto> demo_artifact], dk_fault = (\<lambda>_ _. None)\<rparr>"

definition one_size :: "int \<Rightarrow> retained_result" where
  "one_size n = \<lparr>rh_objects = [100 \<mapsto> n], rh_threads = Map.empty\<rparr>"

lemma demo_read_calculated:
  "\<exists>n c. calculate sorted_list_of_set demo_read_heap (inbound_references sorted_list_of_set demo_read_heap)
     calculator_init = Some (Inr (one_size n, c))"
proof -
  have objs: "objects demo_read_heap = {100}" and threads: "h_threads demo_read_heap = []"
    by (auto simp: demo_read_heap_def read_back_heap_def objects_def demo_object_def split: if_splits)
  have graph: "graph_ok demo_read_heap"
    using heap_wf_graph [OF read_heap_wf [OF read_demo_artifact]] by (simp add: demo_read_heap_def)
  from reference_index.calculated [OF inbound_references_index [OF iterates_sorted] iterates_sorted graph] threads
  obtain r c where run: "calculate sorted_list_of_set demo_read_heap
      (inbound_references sorted_list_of_set demo_read_heap) calculator_init = Some (Inr (r, c))"
    "rh_objects r = (\<lambda>a. if a \<in> objects demo_read_heap then Some (object_retained demo_read_heap a) else None)"
    "rh_threads r = Map.empty" by auto
  then have "r = one_size (object_retained demo_read_heap 100)"
    by (cases r) (auto simp: one_size_def objs fun_eq_iff)
  with run(1) show ?thesis by blast
qed

text \<open>A disk with one artifact can be analyzed.\<close>

lemma demo_runnable:
  "runnable sorted_list_of_set (\<lambda>_. [97]) 7 (\<lambda>_. [(100, n)]) (\<lambda>_. []) (lit ''tmp'') None (lit ''heap'') (one_size n) heap_disk"
proof -
  have path: "cache_path (\<lambda>_. [97]) \<lparr>rc_heap_file = lit ''heap'', rc_cache_dir = None\<rparr> heap_disk =
      Inr (lit ''heap.a.1.retained_heap'')"
    by (simp add: cache_path_def open_read_def heap_disk_def Let_def CACHE_VERSION_def decimal_text_def decimal_digits.simps)
      (simp add: lit_def)
  have "open_read heap_disk (lit ''heap.a.1.retained_heap'') =
      raise FileNotFoundError ''no such file: {path}'' [AStr (lit ''heap.a.1.retained_heap'')]"
    by (simp add: open_read_def heap_disk_def lit_def)
  then have none: "cache_load (\<lambda>_. [97]) 7 \<lparr>rc_heap_file = lit ''heap'', rc_cache_dir = None\<rparr> heap_disk = Inr None"
    by (simp add: cache_load_def path catching_def os_errors_def raise_def)
  show ?thesis
    unfolding runnable_def path none
    by (simp add: iterates_sorted disk_faults_def lists_map_def one_size_def) (simp add: heap_disk_def lit_def)
qed

lemma heap_disk_read:
  "open_read heap_disk (lit ''heap'') = Inr demo_artifact" "read_heap demo_artifact = Inr demo_read_heap"
  using read_demo_artifact by (simp_all add: open_read_def heap_disk_def demo_read_heap_def)

lemma demo_listed: "listed_render 4 demo_read_heap r n"
  by (simp add: listed_render_def few_objects_render demo_read_heap_def read_back_heap_def)

theorem retained_command_exact_witness:
  "\<exists>n rows d'. retained_command 4 sorted_list_of_set (\<lambda>_. [97]) (\<lambda>_. []) 7 (\<lambda>_. []) (\<lambda>_. [(100, n)]) (\<lambda>_. [])
      (lit ''tmp'') None 80 (lit ''heap'') False 10 heap_disk =
      Some (Inr (print_lines (table_head 80 @ rows @ table_tail (\<lambda>_. []) demo_read_heap (one_size n))), d') \<and> length rows = 1"
proof -
  from demo_read_calculated obtain n c where run: "calculate sorted_list_of_set demo_read_heap
      (inbound_references sorted_list_of_set demo_read_heap) calculator_init = Some (Inr (one_size n, c))" by blast
  have fits: "\<forall>item \<in> set (take (nat 10) (objects_sorted_by_retained_heap demo_read_heap (one_size n))).
      renders 4 demo_read_heap (fst item)"
    using demo_listed [of "one_size n" 10] by (simp add: listed_render_def)
  from retained_command_exact [OF heap_disk_read run demo_runnable, of 10 4 "\<lambda>_. []" "\<lambda>_. []" 80] fits obtain rows d' where
    run_command: "retained_command 4 sorted_list_of_set (\<lambda>_. [97]) (\<lambda>_. []) 7 (\<lambda>_. []) (\<lambda>_. [(100, n)]) (\<lambda>_. [])
      (lit ''tmp'') None 80 (lit ''heap'') False 10 heap_disk =
        Some (Inr (print_lines (table_head 80 @ rows @ table_tail (\<lambda>_. []) demo_read_heap (one_size n))), d')"
    and size: "length rows = length (take (nat 10) (objects_sorted_by_retained_heap demo_read_heap (one_size n)))"
    by (auto dest: list_all2_lengthD)
  have "length (objects_sorted_by_retained_heap demo_read_heap (one_size n)) = 1"
    by (simp add: objects_sorted_by_retained_heap_def demo_read_heap_def read_back_heap_def)
  with run_command size show ?thesis by auto
qed

lemma length_concat_le:
  "(\<And>x. x \<in> set xs \<Longrightarrow> length (f x) \<le> b) \<Longrightarrow> length (concat (map f xs)) \<le> length xs * b"
proof (induction xs)
  case (Cons x xs)
  then have "length (f x) \<le> b" "length (concat (map f xs)) \<le> length xs * b" by simp_all
  then show ?case by simp
qed simp

lemma length_demo_artifact: "length demo_artifact < 2 ^ 64"
proof -
  have text_size: "length (long_string_bytes s) \<le> 65537" for s
    by (simp add: long_string_bytes_def MAX_STRING_SIZE_def)
  have "length (header_bytes demo_known (lit ''now'') True) \<le> 20 + 65537 + 4 + 13 * 65545"
  proof -
    have "length (long_string_bytes n @ be_enc 8 (known_address demo_known n)) \<le> 65545" for n
      using text_size [of n] by simp
    from length_concat_le [where f = "\<lambda>n. long_string_bytes n @ be_enc 8 (known_address demo_known n)", OF this,
        of WELL_KNOWN_TYPE_NAMES] text_size [of "lit ''now''"]
    show ?thesis by (simp add: header_bytes_def WELL_KNOWN_TYPE_NAMES_def del: concat.simps)
  qed
  moreover have "remaining_referents demo_object = [102]"
    by (simp add: remaining_referents_def container_addresses_def demo_object_def insert_Diff_if)
  then have "length (object_bytes demo_known True demo_object) \<le> 100 + 65537"
    using text_size [of "[]"] by (simp add: object_bytes_def content_bytes_def) (simp add: demo_object_def)
  moreover have "length (types_bytes [(10, lit ''list'')]) \<le> 4 + 8 + 65537"
    using text_size [of "lit ''list''"] by (simp add: types_bytes_def type_bytes_def)
  ultimately show ?thesis
    by (simp add: demo_artifact_def artifact_bytes_def threads_bytes_def)
qed

theorem documents_parse_witness:
  "\<exists>n short full doc d'. analyzer_main 4 sorted_list_of_set (\<lambda>_. [97]) (\<lambda>_. []) 7 (\<lambda>_. []) (\<lambda>_. [(100, n)]) (\<lambda>_. [])
      (lit ''tmp'') None 80 heap_disk (render_command (Summary (lit ''heap''))) = Parsed (Some (Inr short, heap_disk)) \<and>
    build_heap_analysis 4 (\<lambda>_. []) demo_artifact demo_read_heap None 100 = Inr doc \<and>
    json_loads 7 short = Inr (analysis_json doc) \<and>
    analyzer_main 4 sorted_list_of_set (\<lambda>_. [97]) (\<lambda>_. []) 7 (\<lambda>_. []) (\<lambda>_. [(100, n)]) (\<lambda>_. [])
      (lit ''tmp'') None 80 heap_disk (render_command (Retained_heap (lit ''heap'') True 10)) = Parsed (Some (Inr full, d'))"
proof -
  from demo_read_calculated obtain n c where run: "calculate sorted_list_of_set demo_read_heap
      (inbound_references sorted_list_of_set demo_read_heap) calculator_init = Some (Inr (one_size n, c))" by blast
  have "normal_path (lit ''heap'')" "writable_int 10" using demo_command_ok by (simp_all add: command_ok_def)
  from documents_parse [OF heap_disk_read run demo_runnable _ this _ length_demo_artifact, of "\<lambda>_. []" 4 "\<lambda>_. []" 80] demo_listed
  show ?thesis by fastforce
qed

end
