(* ===== verification/Spec2Isabelle.thy ===== *)
theory Spec2Isabelle
  imports Accounting Command Analyzer_Command
begin

text \<open>
  Pydump captures the heap of a running CPython process into an artifact and analyses that artifact.
  The program has two parts in Python, and this development models both.

  The Collector (\<^verbatim>\<open>src/capture/collector/src/pydump/\<close>) resolves the target process, has a
  native agent loaded into it, accepts the agent's connection, asks it for the roots and then for
  batches of objects until everything that was mentioned has been received, and delivers the artifact
  under a free name. The analyzer (\<^verbatim>\<open>src/analyzer/python/src/pydump_analyzer/\<close>) reads an
  artifact, calculates how many bytes each object and thread retains, and reports.

  The theories, from the data upwards:

  \<^item> Prelude, Text, Py_Text, Py_Format: exceptions as values, state passing, dictionaries with their
    order, big-endian fields, UTF-8 with surrogates, and what Python's strings, integers and formats
    of numbers do. Laws of these are collected in \<open>py_simps\<close> and \<open>codec_simps\<close>.
  \<^item> Json, Json_Laws: the \<^verbatim>\<open>json\<close> module, as docker's answers, the cache file and the reports
    need it: printing with and without indentation, parsing with its errors and its limit of
    nesting, and the round trip.
  \<^item> Argparse, Option_Table, Arguments, Analyzer_Arguments: \<^verbatim>\<open>argparse\<close> as far as both
    programs use it, and their parsers as tables of options. The commands of the analyzer accept
    abbreviated options, the other parsers do not. What is written in the long form, or abbreviated where
    that is allowed, is read back.
  \<^item> Protocol, Channel: \<^verbatim>\<open>protocol.py\<close>. The frames and their codecs; then the socket as a
    peer that sees what was sent and a bound on each read. \<open>send\<close> and \<open>receive\<close> are the methods of
    \<^verbatim>\<open>FramedSocket\<close>, with bulk batches. The laws show that receiving takes the head of the
    queue of logical frames, that codecs accept exactly what they encode, and how a disconnected peer
    is reported.
  \<^item> Heap_Writer, Heap_Format: \<^verbatim>\<open>heap_writer.py\<close> with a file that has a position, and the
    format as a function from the capture to bytes, which the streaming writer implements.
  \<^item> Collector, Collector_Laws, Agent_Stream, Capture: \<^verbatim>\<open>collector.py\<close>. One definition per
    step of the session, the work list and its invariant, the frames that describe an object, and the
    delivery with its partial file.
  \<^item> Agent, Agent_Example, Delivery, Conversation, Accounting, Raised: what an agent that keeps to the
    protocol sends, and the properties of a capture against such an agent and against any peer. Accounting
    shows by triples with a postcondition for exceptions that the figures of the profile are true. Raised
    shows which classes of exceptions leave a capture.
  \<^item> Target, Environment, Loader, Selection: \<^verbatim>\<open>target.py\<close> and the package
    \<^verbatim>\<open>loader\<close>. The locale \<open>agent_loader\<close> in Selection is the contract of the protocol class
    \<^verbatim>\<open>AgentLoader\<close>, which both loaders are shown to keep.
  \<^item> Launch, Profile, Waiting, Command: the Collector's \<^verbatim>\<open>cli.py\<close> from its arguments to the
    outcome. A \<open>step\<close> passes the world on (files, installed agents, the log of system calls, printed
    lines), may raise and may not return; \<open>after\<close> and \<open>stops\<close> are its weakest preconditions.
    Launch has the private directory with the socket and the loader's thread, Profile the progress
    reports and the lines that are printed at the end, Waiting the wait for the connection.
  \<^item> Analyzer_Model, Reader, Reader_Laws, Reader_Values, Round_Trip: the analyzer's \<^verbatim>\<open>model.py\<close> and
    \<^verbatim>\<open>reader.py\<close>, the invariant of a heap that was read, the values that it can have, and the
    round trip with the writer.
  \<^item> Retained, Retained_Graph, Retained_Deletion, Retained_Subtrees, Retained_Cache:
    \<^verbatim>\<open>retained.py\<close>. The specification is the closure of deletion by reference counts
    (\<open>freed\<close>); the loops over dictionaries and lists compute its size, with and without the shortcut
    for strict subtrees, and the cache file changes nothing.
  \<^item> Report, Report_Json, Analyzer_Command: \<^verbatim>\<open>report.py\<close> as records and as the JSON document,
    and the analyzer's \<^verbatim>\<open>cli.py\<close> from its arguments to the printed text.

  Interfaces are locales, each interpreted on the model's own definitions: the source of frames and
  the codec of a payload (Channel), the field of an artifact (Reader_Laws), a property of the channel
  that receiving keeps (Agent_Stream), the index of inbound references (Retained_Graph) and the
  loader (Selection).

  Loops. A loop with a bound that the code itself decreases is a function with a termination
  proof (reading exactly, decoding batches, the frames of an object). The work list of a capture, the
  search for a free name, the search for subtrees, the rounds of deletion and the wait for the agent are \<open>partial_function\<close>s,
  whose value \<open>None\<close> stands for not returning; \<open>capture_returns\<close>, \<open>subtrees_found\<close>,
  \<open>retained_exact\<close> and \<open>accept_loop_returns\<close> show that they return; \<open>silent_agent_uncaught\<close> says how the program
  ends that waits for a silent peer. The loops over frames end because the peer writes finitely much in
  answer to what it was sent; the code has no deadline of its own, and with a peer that never stops writing
  it would not return. No fuel is used; the interpreter's limit of nested calls is a number
  (\<open>stack\<close>), and rendering an object that needs more raises \<^verbatim>\<open>RecursionError\<close>.

  Parameters stand for what is not in the sources: the peer of the socket, the order in which a
  set is iterated over (any order that lists each element once), the answers of the operating system
  and of docker (the record \<open>surroundings\<close>), processes that are run, digests, clocks and measured times,
  the nonce, the names of temporary files, the nesting that the JSON parser allows before it gives up
  (\<open>depth\<close>), the nested calls that are left when the analyzer renders a text (\<open>stack\<close>), GDB's reader of
  string literals, and the shortest text of a float in JSON (\<open>float_text\<close>; no report has a float).
  Integers are unbounded as in Python; the widths of the fields are checked where the code packs them.
  Differences of clocks are exact.

  Not modelled: errors of sending on the socket and of writing the artifact to the disk; what was printed
  before an exception of the analyzer; the agent in C and the Go programs (other languages; the agent is the peer); the texts
  of help and of error messages (an exception carries its template and arguments); the run of the
  disposable helper process, whose program is a constant; benchmarks, tests and the generator of fixtures.
\<close>

section \<open>From the target to the report\<close>

lemma read_back_objects_keys: "map fst (read_back_objects known ws n objs) = map co_address objs"
  by (induction objs arbitrary: n) simp_all

lemma read_back_objects_get:
  assumes "obj \<in> set objs" and "distinct (map co_address objs)"
  shows "\<exists>n'. map_of (read_back_objects known ws n objs) (co_address obj) = Some (read_back_object known ws n' obj)"
  using assms
proof (induction objs arbitrary: n)
  case (Cons o1 objs)
  show ?case
  proof (cases "obj = o1")
    case False
    with Cons.prems(1) have "obj \<in> set objs" by simp
    moreover from this Cons.prems(2) have "co_address obj \<noteq> co_address o1" by (metis distinct.simps(2) imageI list.simps(9) list.set_map)
    ultimately show ?thesis
      using Cons.IH [of "n + length (object_bytes known ws o1)"] Cons.prems(2) by simp
  qed auto
qed simp

lemma delivered_capture_ok:
  assumes "containers_distinct (known_types known)" and "\<forall>obj \<in> set objs. kind_agrees (known_types known) obj"
    and "distinct (map co_address objs)" and "\<forall>obj \<in> set objs. object_valid obj"
    and "length known = length WELL_KNOWN_TYPE_NAMES"
  shows "capture_ok (known_types known) objs (type_table known objs)"
  using assms type_table_keys [OF assms(5), of objs] by (simp add: capture_ok_def object_valid_def)

text \<open>What the analyzer reads from the artifact of these objects.\<close>

lemma delivered_heap:
  assumes objs: "distinct (map co_address objs)" "map facts (map co_address objs) = objs" "co_address ` set objs = R"
      "\<forall>obj \<in> set objs. object_valid obj" "artifact_ok (known_types known) [] objs (type_table known objs)"
    and "containers_distinct (known_types known)" and "\<forall>a \<in> R. kind_agrees (known_types known) (facts a)"
    and "length known = length WELL_KNOWN_TYPE_NAMES"
  shows "\<exists>h. read_heap (artifact_bytes (known_types known) now ws [] objs (type_table known objs)) = Inr h \<and>
    h_threads h = [] \<and> fst ` set (h_objects h) = R \<and> int (length (h_objects h)) = int (card R) \<and>
    (\<forall>a \<in> R. \<exists>obj. map_of (h_objects h) a = Some obj \<and> ho_type_address obj = co_type_address (facts a) \<and>
       ho_size obj = min (max (co_shallow_size (facts a)) 0) MAX_UINT32 \<and>
       ho_referents obj = co_referents (facts a) \<union> container_addresses (facts a))"
proof -
  let ?h = "read_back_heap (known_types known) now ws [] objs (type_table known objs)"
  have mine: "facts (co_address obj) = obj" if "obj \<in> set objs" for obj
    using objs(2) that by (simp add: map_idI list_eq_iff_nth_eq) (metis in_set_conv_nth)
  have "\<forall>obj \<in> set objs. kind_agrees (known_types known) obj"
    using assms(7) objs(3) mine by (metis imageI)
  then have "capture_ok (known_types known) objs (type_table known objs)"
    using delivered_capture_ok assms(6,8) objs(1,4) by blast
  then have read: "read_heap (artifact_bytes (known_types known) now ws [] objs (type_table known objs)) = Inr ?h"
    by (rule read_artifact [OF objs(5)])
  have keys: "map fst (h_objects ?h) = map co_address objs"
    by (simp add: read_back_heap_def read_back_objects_keys)
  then have "set (map fst (h_objects ?h)) = set (map co_address objs)" by (rule arg_cong)
  then have addresses: "fst ` set (h_objects ?h) = R" using objs(3) by simp
  have count: "int (length (h_objects ?h)) = int (card R)"
    using keys [THEN arg_cong [of _ _ length]] distinct_card [OF objs(1)] objs(3) by simp
  have facts: "\<exists>obj. map_of (h_objects ?h) a = Some obj \<and> ho_type_address obj = co_type_address (facts a) \<and>
      ho_size obj = min (max (co_shallow_size (facts a)) 0) MAX_UINT32 \<and>
      ho_referents obj = co_referents (facts a) \<union> container_addresses (facts a)" if "a \<in> R" for a
  proof -
    from that objs(3) obtain obj where obj: "obj \<in> set objs" "a = co_address obj" by blast
    from read_back_objects_get [OF obj(1) objs(1)] show ?thesis
      by (simp add: read_back_heap_def obj(2) mine [OF obj(1)]) (metis read_back_object_def heap_object.simps)
  qed
  have "h_threads ?h = []" by (simp add: read_back_heap_def)
  with read addresses count facts show ?thesis by blast
qed

text \<open>
  C2: The whole way from a live process to its report. An agent that keeps to the protocol, whose
  objects fit the format and have the content kind of their type, is captured; the delivered file
  is read; the heap that is read has exactly the agent's reachable objects, with their types, sizes and
  referents; the retained sizes are calculated; and there is a report, which counts these objects, unless
  one that it lists needs more nested calls for its text than the interpreter allows.
\<close>

theorem capture_to_report:
  assumes "iterates it" and "iterates it'" and "honest cfg greeting answer known roots facts"
    and "capture_fits cfg facts (heap_reach facts (heap_start known roots))"
    and "containers_distinct (known_types known)"
    and "\<forall>a \<in> heap_reach facts (heap_start known roots). kind_agrees (known_types known) (facts a)"
    and "available_output_path fs output = Some final" and "fs (partial_path final (cl_nonce cfg)) = None"
    and "0 \<le> top_n"
  shows "\<exists>d n content h r c doc. capture it cfg now (agent_socket greeting answer short) fs output = Some d \<and>
    dl_result d = Inr (final, n) \<and> dl_files d final = Some content \<and> read_heap content = Inr h \<and>
    fst ` set (h_objects h) = heap_reach facts (heap_start known roots) \<and>
    (\<forall>a \<in> heap_reach facts (heap_start known roots). \<exists>obj. map_of (h_objects h) a = Some obj \<and>
       ho_type_address obj = co_type_address (facts a) \<and>
       ho_size obj = min (max (co_shallow_size (facts a)) 0) MAX_UINT32 \<and>
       ho_referents obj = co_referents (facts a) \<union> container_addresses (facts a)) \<and>
    calculate it' h (inbound_references it' h) calculator_init = Some (Inr (r, c)) \<and>
    build_heap_analysis stack sha256 content h (Some r) top_n =
      (if listed_render stack h r top_n then Inr doc else Inl recursion_error) \<and> an_sha256 doc = sha256 content \<and>
    an_object_count doc = int (card (heap_reach facts (heap_start known roots)))"
proof -
  let ?R = "heap_reach facts (heap_start known roots)"
  from agent_capture [OF assms(1,3,4,7,8), of now short] obtain d objs where
    run: "capture it cfg now (agent_socket greeting answer short) fs output = Some d"
      "dl_result d = Inr (final, int (length objs))" and
    objs: "distinct (map co_address objs)" "map facts (map co_address objs) = objs" "co_address ` set objs = ?R"
      "\<forall>obj \<in> set objs. object_valid obj" "artifact_ok (known_types known) [] objs (type_table known objs)" and
    files: "dl_files d = fs(final \<mapsto>
      artifact_bytes (known_types known) now (0 \<le> cl_str_repr_len cfg) [] objs (type_table known objs))" by blast
  let ?content = "artifact_bytes (known_types known) now (0 \<le> cl_str_repr_len cfg) [] objs (type_table known objs)"
  have "length known = length WELL_KNOWN_TYPE_NAMES" using assms(3) by (simp add: honest_def)
  from delivered_heap [OF objs assms(5,6) this, of now "0 \<le> cl_str_repr_len cfg"] obtain h where
    read: "read_heap ?content = Inr h" and none: "h_threads h = []" and addresses: "fst ` set (h_objects h) = ?R"
    and count: "int (length (h_objects h)) = int (card ?R)"
    and facts: "\<forall>a \<in> ?R. \<exists>obj. map_of (h_objects h) a = Some obj \<and> ho_type_address obj = co_type_address (facts a) \<and>
      ho_size obj = min (max (co_shallow_size (facts a)) 0) MAX_UINT32 \<and>
      ho_referents obj = co_referents (facts a) \<union> container_addresses (facts a)" by blast
  have "\<forall>t \<in> set (h_threads h). \<forall>x \<in> thread_locals t. node h x" by (simp add: none)
  from analysis_run [OF read this assms(2,9), of sha256] obtain r c doc where
    "calculate it' h (inbound_references it' h) calculator_init = Some (Inr (r, c))"
    "build_heap_analysis stack sha256 ?content h (Some r) top_n =
      (if listed_render stack h r top_n then Inr doc else Inl recursion_error)" "an_sha256 doc = sha256 ?content"
    "an_object_count doc = int (length (h_objects h))" by blast
  then show ?thesis
    using run files read addresses facts count
    by (intro exI [of _ d] exI [of _ "int (length objs)"] exI [of _ ?content] exI [of _ h] exI [of _ r]
        exI [of _ c] exI [of _ doc] conjI) simp_all
qed

theorem capture_to_report_witness:
  "\<exists>d content h r c doc. capture sorted_list_of_set demo_cfg (lit ''now'') demo_sock Map.empty demo_output = Some d \<and>
    dl_files d demo_output = Some content \<and> read_heap content = Inr h \<and>
    calculate sorted_list_of_set h (inbound_references sorted_list_of_set h) calculator_init = Some (Inr (r, c)) \<and>
    build_heap_analysis 100 (\<lambda>_. []) content h (Some r) 100 = Inr doc \<and> an_object_count doc = 14"
proof -
  have card: "card (insert 100 (set demo_types)) = 14" by (simp add: demo_types_def)
  note whole = capture_to_report [OF iterates_sorted iterates_sorted demo_honest demo_fits demo_readable demo_path,
      of 100 "lit ''now''" "\<lambda>_. 2" 100 "\<lambda>_. []", unfolded demo_reach card]
  from whole [OF refl zero_le_numeral] obtain d n content h r c doc where
    run: "capture sorted_list_of_set demo_cfg (lit ''now'') demo_sock Map.empty demo_output = Some d"
      "dl_files d demo_output = Some content" "read_heap content = Inr h" "fst ` set (h_objects h) = insert 100 (set demo_types)"
      "calculate sorted_list_of_set h (inbound_references sorted_list_of_set h) calculator_init = Some (Inr (r, c))" and
    report: "build_heap_analysis 100 (\<lambda>_. []) content h (Some r) 100 =
      (if listed_render 100 h r 100 then Inr doc else Inl recursion_error)" and
    count: "an_object_count doc = int 14"
    by (elim exE conjE) blast
  have "nested_calls h a {} \<le> 100" for a
    using nested_calls_bound [of h a "{}"] unfolding run(4) Diff_empty card by simp
  then have "listed_render 100 h r 100" by (simp add: listed_render_def renders_def)
  with report have "build_heap_analysis 100 (\<lambda>_. []) content h (Some r) 100 = Inr doc" by simp
  with run count show ?thesis by (intro exI conjI) (assumption | simp)+
qed

text \<open>The heap has these objects and no other, with their types, referents and the sizes that fit the format.\<close>

definition mirrors :: "(address \<Rightarrow> captured_object) \<Rightarrow> address set \<Rightarrow> heap \<Rightarrow> bool" where
  "mirrors facts R h \<longleftrightarrow> fst ` set (h_objects h) = R \<and> length (h_objects h) = card R \<and> h_threads h = [] \<and>
     (\<forall>a \<in> R. \<exists>obj. map_of (h_objects h) a = Some obj \<and> ho_type_address obj = co_type_address (facts a) \<and>
        ho_size obj = min (max (co_shallow_size (facts a)) 0) MAX_UINT32 \<and>
        ho_referents obj = co_referents (facts a) \<union> container_addresses (facts a))"

lemma mirrored_size:
  assumes "mirrors facts R h"
  shows "total_heap_size h = (\<Sum>a \<in> R. min (max (co_shallow_size (facts a)) 0) MAX_UINT32)"
proof -
  have keys: "fst ` set (h_objects h) = R" and len: "length (h_objects h) = card R" using assms by (simp_all add: mirrors_def)
  then have "card (set (map fst (h_objects h))) = length (map fst (h_objects h))" by simp
  then have dist: "distinct (map fst (h_objects h))" by (rule card_distinct)
  have size: "ho_size obj = min (max (co_shallow_size (facts a)) 0) MAX_UINT32" if "(a, obj) \<in> set (h_objects h)" for a obj
  proof -
    from that keys have "a \<in> R" by force
    with assms obtain o' where "map_of (h_objects h) a = Some o'"
      "ho_size o' = min (max (co_shallow_size (facts a)) 0) MAX_UINT32" unfolding mirrors_def by blast
    with map_of_is_SomeI [OF dist that] show ?thesis by simp
  qed
  have "total_heap_size h = sum_list (map (\<lambda>e. min (max (co_shallow_size (facts (fst e))) 0) MAX_UINT32) (h_objects h))"
    unfolding total_heap_size_def by (rule arg_cong [of _ _ sum_list], rule map_cong) (use size in auto)
  also have "\<dots> = sum_list (map (\<lambda>a. min (max (co_shallow_size (facts a)) 0) MAX_UINT32) (map fst (h_objects h)))"
    by (simp add: comp_def)
  also have "\<dots> = (\<Sum>a \<in> R. min (max (co_shallow_size (facts a)) 0) MAX_UINT32)"
    using dist keys by (subst sum_list_distinct_conv_sum_set) simp_all
  finally show ?thesis .
qed

text \<open>
  C1: Both programs together, from their command lines. Where nothing goes wrong (a target is found, its
  agent and a loader work, the agent connects in time and keeps to the protocol), the Collector finishes
  with a heap file under the first free name. Its content is read as a heap that has exactly the objects
  that the agent can reach, with their types, sizes and referents; and the analyzer, run on a file with
  this content, prints a document that reads back as the analysis of that heap.
\<close>

theorem command_lines_connect:
  assumes "parse_arguments argv = Parsed arguments" and "smooth su arguments w target loader load"
    and "connects su load"
    and "collector_init (su_nonce su) (ca_str_repr_len arguments) (\<not> ca_no_attribute arguments) 256 True = Inr cfg"
    and "iterates (su_order su)" and "honest cfg greeting answer known roots facts"
    and "capture_fits cfg facts (heap_reach facts (heap_start known roots))"
    and "su_sock su = agent_socket greeting answer short"
    and "available_output_path (wo_files w) (path_pair (ca_file arguments)) = Some final"
    and "wo_files w (partial_path final (su_nonce su)) = None"
    and "containers_distinct (known_types known)"
    and "\<forall>a \<in> heap_reach facts (heap_start known roots). kind_agrees (known_types known) (facts a)"
    and "\<And>content. encodable (sha256 content)" and "7 \<le> depth" and "normal_path heap_file"
  shows "\<exists>w' content h. collector_main su argv w = Some (Finished, w') \<and> wo_files w' = (wo_files w)(final \<mapsto> content) \<and>
    read_heap content = Inr h \<and> mirrors facts (heap_reach facts (heap_start known roots)) h \<and>
    (\<forall>d. open_read d heap_file = Inr content \<and> length content < 2 ^ 64 \<longrightarrow>
      (\<exists>short doc. analyzer_main stack it sha1 sha256 depth float_text object_items thread_items temporary cache_dir columns d
          (render_command (Summary heap_file)) = Parsed (Some (Inr short, d)) \<and>
        build_heap_analysis stack sha256 content h None 100 = Inr doc \<and> json_loads depth short = Inr (analysis_json doc) \<and>
        an_sha256 doc = sha256 content \<and>
        an_object_count doc = int (card (heap_reach facts (heap_start known roots))) \<and>
        an_shallow_size doc = (\<Sum>a \<in> heap_reach facts (heap_start known roots).
          min (max (co_shallow_size (facts a)) 0) MAX_UINT32)))"
proof -
  let ?R = "heap_reach facts (heap_start known roots)"
  from program_captures [OF assms(1-10)] obtain w' objs where
    run: "collector_main su argv w = Some (Finished, w')" and
    objs: "distinct (map co_address objs)" "map facts (map co_address objs) = objs" "co_address ` set objs = ?R"
      "\<forall>obj \<in> set objs. object_valid obj" "artifact_ok (known_types known) [] objs (type_table known objs)" and
    files: "wo_files w' = (wo_files w)(final \<mapsto>
      artifact_bytes (known_types known) (su_date su) (0 \<le> cl_str_repr_len cfg) [] objs (type_table known objs))" by blast
  let ?content = "artifact_bytes (known_types known) (su_date su) (0 \<le> cl_str_repr_len cfg) [] objs (type_table known objs)"
  have "length known = length WELL_KNOWN_TYPE_NAMES" using assms(6) by (simp add: honest_def)
  from delivered_heap [OF objs assms(11,12) this, of "su_date su" "0 \<le> cl_str_repr_len cfg"] obtain h where
    read: "read_heap ?content = Inr h" and mirror: "mirrors facts ?R h" by (auto simp: mirrors_def)
  have "\<exists>short doc. analyzer_main stack it sha1 sha256 depth float_text object_items thread_items temporary cache_dir columns d
          (render_command (Summary heap_file)) = Parsed (Some (Inr short, d)) \<and>
        build_heap_analysis stack sha256 ?content h None 100 = Inr doc \<and> json_loads depth short = Inr (analysis_json doc) \<and>
        an_sha256 doc = sha256 ?content \<and> an_object_count doc = int (card ?R) \<and>
        an_shallow_size doc = (\<Sum>a \<in> ?R. min (max (co_shallow_size (facts a)) 0) MAX_UINT32)"
    if "open_read d heap_file = Inr ?content" and "length ?content < 2 ^ 64" for d
  proof -
    from summary_program [where ?sha256.0 = sha256, OF that(1) read assms(15,13) that(2) assms(14)] obtain short doc where
      "analyzer_main stack it sha1 sha256 depth float_text object_items thread_items temporary cache_dir columns d
          (render_command (Summary heap_file)) = Parsed (Some (Inr short, d))"
      "json_loads depth short = Inr (analysis_json doc)" and
      doc: "build_heap_analysis stack sha256 ?content h None 100 = Inr doc" by blast
    moreover have "an_sha256 doc = sha256 ?content" "an_object_count doc = int (length (h_objects h))"
      "an_shallow_size doc = total_heap_size h"
      using doc by (auto simp: build_heap_analysis_def rbind_Inr)
    ultimately show ?thesis using mirror mirrored_size [OF mirror] by (auto simp: mirrors_def)
  qed
  with run files read mirror show ?thesis by blast
qed

theorem command_lines_connect_witness:
  "\<exists>w' content h. collector_main demo_surroundings (render_arguments demo_arguments) demo_world = Some (Finished, w') \<and>
    wo_files w' = [demo_file \<mapsto> content] \<and> read_heap content = Inr h \<and> length (h_objects h) = 14"
proof -
  obtain request loader where smooth: "smooth demo_surroundings demo_arguments demo_world demo_target_record loader request"
    and "lq_timeout request = 30" using demo_smooth by blast
  note connects = demo_connects [OF this(2)]
  have sock: "su_sock demo_surroundings = demo_sock" by (simp add: demo_surroundings_def)
  have path: "normal_path (lit ''heap'')" using demo_command_ok by (simp add: command_ok_def)
  have card: "card (insert 100 (set demo_types)) = 14" by (simp add: demo_types_def)
  have "wo_files demo_world = Map.empty" by (simp add: demo_world_def)
  with command_lines_connect [OF demo_parsed smooth connects demo_cli_init demo_order(1) demo_cli_honest demo_cli_fits sock
      demo_free demo_readable _ _ path, of "\<lambda>_. []" 7] card
  show ?thesis unfolding demo_reach mirrors_def by fastforce
qed

end
